(* ===== verification/Prelude.thy ===== *)
theory Prelude
  imports Main "HOL-Library.Word" "HOL-Library.AList"
begin

text \<open>
  What every component of the NodeLite development shares: the machine integers of the Rust
  code with their saturating operations, hash tables as association lists, and two locales.
  A \<^emph>\<open>machine\<close> is a step function with an invariant, a \<^emph>\<open>refinement\<close> relates a machine
  to an abstract specification; their lemmas lift one-step facts to whole runs once and for all.
\<close>

section \<open>Collections of automation\<close>

named_theorems sat_simps \<open>saturating arithmetic read through unat\<close>
named_theorems table_simps \<open>lookup after an operation on a hash table\<close>
named_theorems table_intros \<open>preservation of well-formed hash tables\<close>

section \<open>Machine integers\<close>

type_synonym u64 = "64 word"
type_synonym u32 = "32 word"
type_synonym u16 = "16 word"

text \<open>Rust's \<open>saturating_add\<close>, \<open>saturating_sub\<close> and \<open>saturating_mul\<close> on an unsigned type.\<close>

definition sat_add :: "'a::len word \<Rightarrow> 'a word \<Rightarrow> 'a word" where
  "sat_add a b = (if unat a + unat b < 2 ^ LENGTH('a) then a + b else - 1)"

definition sat_sub :: "'a::len word \<Rightarrow> 'a word \<Rightarrow> 'a word" where
  "sat_sub a b = (if b \<le> a then a - b else 0)"

definition sat_mul :: "'a::len word \<Rightarrow> 'a word \<Rightarrow> 'a word" where
  "sat_mul a b = (if unat a * unat b < 2 ^ LENGTH('a) then a * b else - 1)"

lemma unat_max_word: "unat (- 1 :: 'a::len word) = 2 ^ LENGTH('a) - 1"
  by (simp add: unsigned_minus_1_eq_mask mask_eq_exp_minus_1)

lemma unat_sat_add [sat_simps]:
  "unat (sat_add a b) = min (unat a + unat b) (2 ^ LENGTH('a) - 1)"
  for a b :: "'a::len word"
  by (auto simp: sat_add_def unat_word_ariths unat_max_word min_def)

lemma unat_sat_sub [sat_simps]: "unat (sat_sub a b) = unat a - unat b"
  by (auto simp: sat_sub_def unat_sub word_le_nat_alt)

lemma unat_sat_mul [sat_simps]:
  "unat (sat_mul a b) = min (unat a * unat b) (2 ^ LENGTH('a) - 1)"
  for a b :: "'a::len word"
proof -
  have "n < 2 ^ LENGTH('a) \<longleftrightarrow> n \<le> 2 ^ LENGTH('a) - 1" for n :: nat
    using zero_less_power [of "2 :: nat" "LENGTH('a)"] by linarith
  then show ?thesis
    by (auto simp: sat_mul_def unat_word_ariths unat_max_word min_def)
qed

lemma unat_max [sat_simps]: "unat (max a b) = max (unat a) (unat b)"
  by (simp add: max_def word_le_nat_alt)

lemma unat_min [sat_simps]: "unat (min a b) = min (unat a) (unat b)"
  by (simp add: min_def word_le_nat_alt)

lemma sat_sub_self [simp]: "sat_sub a a = 0"
  by (simp add: sat_sub_def)

lemma sat_sub_of_less [simp]: "a < b \<Longrightarrow> sat_sub a b = 0"
  using leD [of b a] by (auto simp: sat_sub_def)

section \<open>Time\<close>

text \<open>
  An \<open>Instant\<close> is a reading of the monotonic clock and a \<open>Duration\<close> a length of time, both in
  nanoseconds; \<open>duration_since\<close> stops at zero. A \<open>DateTime<Utc>\<close> is a point of the UTC time line
  in nanoseconds since 1970, a \<open>TimeDelta\<close> a signed distance.
\<close>

type_synonym instant = nat
type_synonym duration = nat
type_synonym datetime = int
type_synonym timedelta = int

definition NANOS :: nat where
  "NANOS = 1000000000"

definition from_secs :: "nat \<Rightarrow> duration" where
  "from_secs n = n * NANOS"

definition as_secs :: "duration \<Rightarrow> nat" where
  "as_secs d = d div NANOS"

definition duration_since :: "instant \<Rightarrow> instant \<Rightarrow> duration" where
  "duration_since later earlier = later - earlier"

text \<open>
  The calendar and the range of the \<open>chrono\<close> crate, which is not part of the repository, are a
  parameter: \<open>from_timestamp\<close> is \<open>Utc.timestamp_opt(s, 0).single()\<close>, \<open>to_timestamp\<close> is
  \<open>timestamp()\<close>, \<open>month_start\<close> is \<open>with_ymd_and_hms(year, month, 1, 0, 0, 0).single()\<close>;
  \<open>delta_max\<close>, \<open>utc_min\<close> and \<open>utc_max\<close> are \<open>TimeDelta::MAX\<close>, \<open>MIN_UTC\<close> and \<open>MAX_UTC\<close>.
\<close>

record chrono =
  from_timestamp :: "int \<Rightarrow> datetime option"
  to_timestamp :: "datetime \<Rightarrow> int"
  month_start :: "datetime \<Rightarrow> datetime option"
  delta_max :: timedelta
  utc_min :: datetime
  utc_max :: datetime

text \<open>A concrete calendar for evaluation: exact seconds, months of thirty days.\<close>

definition chrono_simple :: chrono where
  "chrono_simple =
     \<lparr>from_timestamp = (\<lambda>s. Some (s * 1000000000)),
      to_timestamp = (\<lambda>t. t div 1000000000),
      month_start = (\<lambda>t. Some (t - t mod 2592000000000000)),
      delta_max = 9223372036854775807000000,
      utc_min = - 8334601228800000000000,
      utc_max = 8210266876799999999999\<rparr>"

section \<open>Hash tables\<close>

text \<open>
  A \<open>HashMap\<close> is an association list with distinct keys. The list order stands for the
  iteration order, which Rust leaves open; theorems state membership and lookup, not order.
\<close>

type_synonym ('k, 'v) table = "('k \<times> 'v) list"

abbreviation tbl_get :: "('k, 'v) table \<Rightarrow> 'k \<Rightarrow> 'v option" where
  "tbl_get \<equiv> map_of"

abbreviation tbl_put :: "'k \<Rightarrow> 'v \<Rightarrow> ('k, 'v) table \<Rightarrow> ('k, 'v) table" where
  "tbl_put \<equiv> AList.update"

abbreviation tbl_del :: "'k \<Rightarrow> ('k, 'v) table \<Rightarrow> ('k, 'v) table" where
  "tbl_del \<equiv> AList.delete"

definition tbl_ok :: "('k, 'v) table \<Rightarrow> bool" where
  "tbl_ok t \<longleftrightarrow> distinct (map fst t)"

lemma tbl_ok_Nil [simp, table_intros]: "tbl_ok []"
  by (simp add: tbl_ok_def)

lemma tbl_ok_put [table_intros]: "tbl_ok t \<Longrightarrow> tbl_ok (tbl_put k v t)"
  by (simp add: tbl_ok_def distinct_update)

lemma tbl_ok_del [table_intros]: "tbl_ok t \<Longrightarrow> tbl_ok (tbl_del k t)"
  by (simp add: tbl_ok_def distinct_delete)

lemma tbl_ok_filter [table_intros]: "tbl_ok t \<Longrightarrow> tbl_ok (filter P t)"
  by (simp add: tbl_ok_def distinct_map_filter)

lemma tbl_get_put [table_simps]: "tbl_get (tbl_put k v t) = (tbl_get t)(k \<mapsto> v)"
  by (rule update_conv')

lemma tbl_get_del [table_simps]: "tbl_get (tbl_del k t) = (tbl_get t)(k := None)"
  by (rule delete_conv')

lemma tbl_get_filter:
  assumes "tbl_ok t"
  shows "tbl_get (filter (\<lambda>(k, v). P k v) t) k =
    (case tbl_get t k of None \<Rightarrow> None | Some v \<Rightarrow> if P k v then Some v else None)"
  using assms
proof (induction t)
  case (Cons kv t)
  then show ?case
    by (cases kv) (auto simp: tbl_ok_def map_of_eq_None_iff dest: map_of_SomeD
        split: option.splits)
qed simp

lemma tbl_get_map_snd:
  "tbl_get (map (\<lambda>(k, v). (k, f v)) t) k = map_option f (tbl_get t k)"
  by (induction t) auto

lemma tbl_get_in: "tbl_ok t \<Longrightarrow> (k, v) \<in> set t \<longleftrightarrow> tbl_get t k = Some v"
  by (simp add: tbl_ok_def)

lemma tbl_dom: "dom (tbl_get t) = fst ` set t"
  by (rule dom_map_of_conv_image_fst)

lemma length_tbl_put:
  "length (tbl_put k v t) = (if tbl_get t k = None then Suc (length t) else length t)"
  by (induction t) auto

lemma length_tbl_del_le: "length (tbl_del k t) \<le> length t"
  by (simp add: AList.delete_eq)

lemma length_tbl_card: "tbl_ok t \<Longrightarrow> length t = card (dom (tbl_get t))"
  by (metis tbl_ok_def tbl_dom distinct_card length_map list.set_map)

section \<open>Machines and refinements\<close>

text \<open>
  The contract of a stateful component: its initial state satisfies the invariant and every
  operation keeps it. The clients of the contract run lists of operations.
\<close>

locale machine =
  fixes step :: "'e \<Rightarrow> 's \<Rightarrow> 's"
    and inv :: "'s \<Rightarrow> bool"
    and ok :: "'e \<Rightarrow> bool"
  assumes step_inv: "inv s \<Longrightarrow> ok e \<Longrightarrow> inv (step e s)"
begin

lemma run_inv: "inv s \<Longrightarrow> list_all ok es \<Longrightarrow> inv (fold step es s)"
  by (induction es arbitrary: s) (auto intro: step_inv)

lemma run_all_inv:
  "inv s \<Longrightarrow> list_all ok (es @ fs) \<Longrightarrow> inv (fold step es s) \<and> inv (fold step (es @ fs) s)"
  using run_inv [of s es] run_inv [of s "es @ fs"] by simp

end

text \<open>
  A machine that implements an abstract one: every step has the effect of a list of abstract actions
  (none, one or several), which may depend on the state; a run then has the effect of all of them.
\<close>

fun run_effects :: "('e \<Rightarrow> 's \<Rightarrow> 's) \<Rightarrow> ('e \<Rightarrow> 's \<Rightarrow> 'l list) \<Rightarrow> 'e list \<Rightarrow> 's \<Rightarrow> 'l list" where
  "run_effects step effects [] s = []"
| "run_effects step effects (e # es) s = effects e s @ run_effects step effects es (step e s)"

locale refinement = machine step inv ok
  for step :: "'e \<Rightarrow> 's \<Rightarrow> 's" and inv ok +
  fixes abstr :: "'s \<Rightarrow> 'a"
    and effects :: "'e \<Rightarrow> 's \<Rightarrow> 'l list"
    and perform :: "'l \<Rightarrow> 'a \<Rightarrow> 'a"
  assumes step_effects: "inv s \<Longrightarrow> ok e \<Longrightarrow> abstr (step e s) = fold perform (effects e s) (abstr s)"
begin

lemma run_refines:
  "inv s \<Longrightarrow> list_all ok es \<Longrightarrow>
    abstr (fold step es s) = fold perform (run_effects step effects es s) (abstr s)"
  by (induction es arbitrary: s) (auto simp: step_effects step_inv)

end

text \<open>The same for a relation that leaves open which step is taken: interleaved components.\<close>

locale transitions =
  fixes step :: "'s \<Rightarrow> 's \<Rightarrow> bool"
    and inv :: "'s \<Rightarrow> bool"
  assumes step_inv: "inv s \<Longrightarrow> step s s' \<Longrightarrow> inv s'"
begin

lemma reachable_inv: "step\<^sup>*\<^sup>* s s' \<Longrightarrow> inv s \<Longrightarrow> inv s'"
  by (induction rule: rtranclp_induct) (auto intro: step_inv)

end

sublocale machine \<subseteq> events: transitions "\<lambda>s s'. \<exists>e. ok e \<and> s' = step e s" inv
  by unfold_locales (auto intro: step_inv)

end
