(* ===== verification/TrafficCounters.thy ===== *)
theory TrafficCounters
  imports Prelude
begin

text \<open>
  The byte counters a monthly traffic quota is billed from
  (\<open>nodelite-server/src/history/traffic/counters.rs\<close>): a baseline per node that tells a host
  reboot, a transient drop of the counters and monotone growth apart.
\<close>

section \<open>Baselines\<close>

definition COUNTER_REGRESSION_HOLD_SECS :: u64 where
  "COUNTER_REGRESSION_HOLD_SECS = 300"

definition MAX_PLAUSIBLE_BYTES_PER_SEC :: u64 where
  "MAX_PLAUSIBLE_BYTES_PER_SEC = 12500000000"

record traffic_sample =
  s_rx_bytes :: u64
  s_tx_bytes :: u64
  s_uptime_secs :: u64

record counter_baseline =
  rx_bytes :: u64
  tx_bytes :: u64
  uptime_secs :: "u64 option"
  rx_high_water :: "u64 option"
  tx_high_water :: "u64 option"
  regressed_since_uptime :: "u64 option"

definition baseline_restored ::
  "u64 \<Rightarrow> u64 \<Rightarrow> u64 option \<Rightarrow> u64 option \<Rightarrow> u64 option \<Rightarrow> counter_baseline" where
  "baseline_restored rx tx up rx_hw tx_hw =
     \<lparr>rx_bytes = rx, tx_bytes = tx, uptime_secs = up, rx_high_water = rx_hw,
      tx_high_water = tx_hw, regressed_since_uptime = None\<rparr>"

definition baseline_new :: "traffic_sample \<Rightarrow> counter_baseline" where
  "baseline_new s =
     baseline_restored (s_rx_bytes s) (s_tx_bytes s) (Some (s_uptime_secs s)) None None"

section \<open>One reading\<close>

text \<open>
  \<open>billable_delta\<close> takes the high-water mark by mutable reference; the model returns it.
\<close>

definition billable_delta :: "u64 \<Rightarrow> u64 \<Rightarrow> u64 option \<Rightarrow> u64 \<Rightarrow> u64 \<times> u64 option" where
  "billable_delta current prev high_water interval_secs =
     (let delta = sat_sub current prev in
      case high_water of
        None \<Rightarrow> (delta, None)
      | Some mark \<Rightarrow>
          if mark \<le> current then (min delta (current - mark), None)
          else if sat_mul MAX_PLAUSIBLE_BYTES_PER_SEC interval_secs < delta then (0, Some mark)
          else (delta, Some mark))"

definition raise_high_water :: "u64 option \<Rightarrow> u64 \<Rightarrow> u64 \<Rightarrow> u64 option" where
  "raise_high_water high_water current prev =
     (if current < prev
      then Some (case high_water of None \<Rightarrow> prev | Some mark \<Rightarrow> max mark prev)
      else high_water)"

definition regressed :: "counter_baseline \<Rightarrow> traffic_sample \<Rightarrow> bool" where
  "regressed b s \<longleftrightarrow> s_rx_bytes s < rx_bytes b \<or> s_tx_bytes s < tx_bytes b"

definition rebooted :: "counter_baseline \<Rightarrow> traffic_sample \<Rightarrow> bool" where
  "rebooted b s \<longleftrightarrow>
     (case uptime_secs b of None \<Rightarrow> True | Some prev \<Rightarrow> s_uptime_secs s < prev)"

definition interval_secs :: "counter_baseline \<Rightarrow> traffic_sample \<Rightarrow> u64" where
  "interval_secs b s =
     max (sat_sub (s_uptime_secs s)
            (case uptime_secs b of None \<Rightarrow> s_uptime_secs s | Some prev \<Rightarrow> prev)) 1"

definition advance :: "traffic_sample \<Rightarrow> counter_baseline \<Rightarrow> (u64 \<times> u64) \<times> counter_baseline" where
  "advance s b =
     (let reg = regressed b s;
          reb = rebooted b s;
          rx_hw0 = (if reb then None else rx_high_water b);
          tx_hw0 = (if reb then None else tx_high_water b);
          secs = interval_secs b s;
          (rx_delta, rx_hw) = billable_delta (s_rx_bytes s) (rx_bytes b) rx_hw0 secs;
          (tx_delta, tx_hw) = billable_delta (s_tx_bytes s) (tx_bytes b) tx_hw0 secs;
          b1 = b\<lparr>rx_bytes := max (rx_bytes b) (s_rx_bytes s),
                 tx_bytes := max (tx_bytes b) (s_tx_bytes s),
                 uptime_secs := Some (s_uptime_secs s),
                 rx_high_water := rx_hw, tx_high_water := tx_hw\<rparr>
      in if \<not> reg then ((rx_delta, tx_delta), b1\<lparr>regressed_since_uptime := None\<rparr>)
         else
           let since = (case regressed_since_uptime b1 of
                          None \<Rightarrow> s_uptime_secs s | Some t \<Rightarrow> t) in
           if reb \<or> COUNTER_REGRESSION_HOLD_SECS \<le> sat_sub (s_uptime_secs s) since
           then ((rx_delta, tx_delta),
                 b1\<lparr>rx_high_water := (if reb then rx_hw
                      else raise_high_water rx_hw (s_rx_bytes s) (rx_bytes b1)),
                    tx_high_water := (if reb then tx_hw
                      else raise_high_water tx_hw (s_tx_bytes s) (tx_bytes b1)),
                    rx_bytes := s_rx_bytes s, tx_bytes := s_tx_bytes s,
                    regressed_since_uptime := None\<rparr>)
           else ((rx_delta, tx_delta), b1\<lparr>regressed_since_uptime := Some since\<rparr>))"

text \<open>A series of readings: the total bytes billed in each direction, as unbounded naturals.\<close>

fun advance_all :: "traffic_sample list \<Rightarrow> counter_baseline \<Rightarrow> (nat \<times> nat) \<times> counter_baseline" where
  "advance_all [] b = ((0, 0), b)"
| "advance_all (s # ss) b =
     (let ((rx, tx), b1) = advance s b; ((rxs, txs), b2) = advance_all ss b1
      in ((unat rx + rxs, unat tx + txs), b2))"

section \<open>What one reading does\<close>

lemma billable_delta_None [simp]:
  "billable_delta current prev None secs = (sat_sub current prev, None)"
  by (simp add: billable_delta_def)

lemma billable_delta_le: "fst (billable_delta current prev hw secs) \<le> sat_sub current prev"
  by (auto simp: billable_delta_def Let_def split: option.split)

lemma billable_delta_recovered:
  "m \<le> current \<Longrightarrow> prev \<le> m \<Longrightarrow>
    billable_delta current prev (Some m) secs = (current - m, None)"
  by (simp add: billable_delta_def Let_def word_unat_eq_iff sat_simps unat_sub word_le_nat_alt)

text \<open>
  The two directions of a sample are advanced alike; the facts below are stated for both.
  Either the direction keeps the higher reading, or the whole baseline is rebased on the sample:
  after a reboot at once, otherwise once the regression has lasted for the hold window.
\<close>

definition rebases :: "counter_baseline \<Rightarrow> traffic_sample \<Rightarrow> bool" where
  "rebases b s \<longleftrightarrow> regressed b s \<and>
     (rebooted b s \<or> COUNTER_REGRESSION_HOLD_SECS \<le> sat_sub (s_uptime_secs s)
        (case regressed_since_uptime b of None \<Rightarrow> s_uptime_secs s | Some t \<Rightarrow> t))"

lemma advance_fields:
  shows advance_rx: "rx_bytes (snd (advance s b)) =
      (if rebases b s then s_rx_bytes s else max (rx_bytes b) (s_rx_bytes s))"
    and advance_tx: "tx_bytes (snd (advance s b)) =
      (if rebases b s then s_tx_bytes s else max (tx_bytes b) (s_tx_bytes s))"
    and advance_uptime: "uptime_secs (snd (advance s b)) = Some (s_uptime_secs s)"
    and advance_since: "regressed_since_uptime (snd (advance s b)) =
      (if \<not> regressed b s \<or> rebases b s then None
       else Some (case regressed_since_uptime b of None \<Rightarrow> s_uptime_secs s | Some t \<Rightarrow> t))"
  by (auto simp: advance_def rebases_def Let_def split_beta)

lemma advance_high_water:
  shows "rx_high_water (snd (advance s b)) =
    (let hw = snd (billable_delta (s_rx_bytes s) (rx_bytes b)
                (if rebooted b s then None else rx_high_water b) (interval_secs b s))
     in if rebases b s \<and> \<not> rebooted b s
        then raise_high_water hw (s_rx_bytes s) (max (rx_bytes b) (s_rx_bytes s)) else hw)"
    and "tx_high_water (snd (advance s b)) =
    (let hw = snd (billable_delta (s_tx_bytes s) (tx_bytes b)
                (if rebooted b s then None else tx_high_water b) (interval_secs b s))
     in if rebases b s \<and> \<not> rebooted b s
        then raise_high_water hw (s_tx_bytes s) (max (tx_bytes b) (s_tx_bytes s)) else hw)"
  by (auto simp: advance_def rebases_def Let_def split_beta)

lemma advance_deltas:
  shows advance_rx_delta: "fst (fst (advance s b)) =
     fst (billable_delta (s_rx_bytes s) (rx_bytes b)
            (if rebooted b s then None else rx_high_water b) (interval_secs b s))"
    and advance_tx_delta: "snd (fst (advance s b)) =
     fst (billable_delta (s_tx_bytes s) (tx_bytes b)
            (if rebooted b s then None else tx_high_water b) (interval_secs b s))"
  by (simp_all add: advance_def Let_def split_beta)

lemma advance_rx_delta_le: "fst (fst (advance s b)) \<le> sat_sub (s_rx_bytes s) (rx_bytes b)"
  by (simp add: advance_rx_delta billable_delta_le)

text \<open>Exchanging the directions of baseline and sample exchanges the directions of the result.\<close>

definition swap_sample :: "traffic_sample \<Rightarrow> traffic_sample" where
  "swap_sample s = s\<lparr>s_rx_bytes := s_tx_bytes s, s_tx_bytes := s_rx_bytes s\<rparr>"

definition swap_baseline :: "counter_baseline \<Rightarrow> counter_baseline" where
  "swap_baseline b = b\<lparr>rx_bytes := tx_bytes b, tx_bytes := rx_bytes b,
     rx_high_water := tx_high_water b, tx_high_water := rx_high_water b\<rparr>"

lemma swap_simps [simp]:
  "s_rx_bytes (swap_sample s) = s_tx_bytes s" "s_tx_bytes (swap_sample s) = s_rx_bytes s"
  "s_uptime_secs (swap_sample s) = s_uptime_secs s"
  "rx_bytes (swap_baseline b) = tx_bytes b" "tx_bytes (swap_baseline b) = rx_bytes b"
  "uptime_secs (swap_baseline b) = uptime_secs b"
  "rx_high_water (swap_baseline b) = tx_high_water b"
  "tx_high_water (swap_baseline b) = rx_high_water b"
  "regressed_since_uptime (swap_baseline b) = regressed_since_uptime b"
  by (simp_all add: swap_sample_def swap_baseline_def)

lemma swap_preds [simp]:
  "regressed (swap_baseline b) (swap_sample s) = regressed b s"
  "rebooted (swap_baseline b) (swap_sample s) = rebooted b s"
  "interval_secs (swap_baseline b) (swap_sample s) = interval_secs b s"
  "rebases (swap_baseline b) (swap_sample s) = rebases b s"
  by (auto simp: regressed_def rebooted_def rebases_def interval_secs_def split: option.splits)

lemma advance_swap:
  "advance (swap_sample s) (swap_baseline b) =
     map_prod prod.swap swap_baseline (advance s b)"
proof (rule prod_eqI)
  show "snd (advance (swap_sample s) (swap_baseline b)) =
      snd (map_prod prod.swap swap_baseline (advance s b))"
    by (rule counter_baseline.equality)
      (auto simp: advance_fields advance_high_water Let_def split: option.splits)
qed (simp add: advance_deltas prod_eq_iff)

lemma advance_all_swap:
  "advance_all (map swap_sample ss) (swap_baseline b) =
     map_prod prod.swap swap_baseline (advance_all ss b)"
  by (induction ss arbitrary: b) (simp_all add: advance_swap split_beta Let_def map_prod_def)

section \<open>A run of readings without reboot\<close>

text \<open>The highest reading a direction has already been billed up to.\<close>

definition rx_high :: "counter_baseline \<Rightarrow> u64" where
  "rx_high b = (case rx_high_water b of None \<Rightarrow> rx_bytes b | Some m \<Rightarrow> m)"

definition tx_high :: "counter_baseline \<Rightarrow> u64" where
  "tx_high b = rx_high (swap_baseline b)"

definition flap_inv :: "u64 \<Rightarrow> u64 \<Rightarrow> u64 option \<Rightarrow> bool" where
  "flap_inv low cur hw \<longleftrightarrow>
     (case hw of None \<Rightarrow> low \<le> cur | Some m \<Rightarrow> cur = low \<and> low \<le> m)"

lemma flap_step_rx:
  assumes "\<not> rebooted b s" and "flap_inv low (rx_bytes b) (rx_high_water b)"
    and "s_rx_bytes s = low \<or> rx_high b \<le> s_rx_bytes s"
  shows flap_step_rx_inv: "flap_inv low (rx_bytes (snd (advance s b))) (rx_high_water (snd (advance s b)))"
    and "rx_high (snd (advance s b)) = max (rx_high b) (s_rx_bytes s)"
    and "unat (fst (fst (advance s b))) = unat (max (rx_high b) (s_rx_bytes s)) - unat (rx_high b)"
proof -
  let ?b = "snd (advance s b)"
  have "flap_inv low (rx_bytes ?b) (rx_high_water ?b) \<and>
      rx_high ?b = max (rx_high b) (s_rx_bytes s)"
    using assms
    by (auto simp: advance_rx advance_high_water flap_inv_def rx_high_def raise_high_water_def
        billable_delta_def Let_def max_def split: option.splits if_splits)
  then show "flap_inv low (rx_bytes ?b) (rx_high_water ?b)"
    and "rx_high ?b = max (rx_high b) (s_rx_bytes s)" by auto
  show "unat (fst (fst (advance s b))) = unat (max (rx_high b) (s_rx_bytes s)) - unat (rx_high b)"
    using assms
    by (auto simp: advance_rx_delta flap_inv_def rx_high_def billable_delta_recovered
        billable_delta_def Let_def unat_sat_sub unat_max unat_sub word_le_nat_alt
        split: option.splits)
qed

text \<open>Uptimes that never fall, starting from the baseline's: the host has not rebooted.\<close>

fun no_reboot :: "u64 \<Rightarrow> traffic_sample list \<Rightarrow> bool" where
  "no_reboot up [] = True"
| "no_reboot up (s # ss) = (up \<le> s_uptime_secs s \<and> no_reboot (s_uptime_secs s) ss)"

text \<open>
  Every reading is either the low reading of an interface that is down, or at least as high as
  everything read before: what an interface looks like that goes down and comes back.
\<close>

fun flapping :: "u64 \<Rightarrow> u64 \<Rightarrow> u64 list \<Rightarrow> bool" where
  "flapping low high [] = True"
| "flapping low high (c # cs) = ((c = low \<or> high \<le> c) \<and> flapping low (max high c) cs)"

lemma rebooted_simp: "uptime_secs b = Some up \<Longrightarrow> rebooted b s \<longleftrightarrow> s_uptime_secs s < up"
  by (simp add: rebooted_def)

lemma flapping_run_rx:
  assumes "uptime_secs b = Some up" and "no_reboot up ss"
    and "flap_inv low (rx_bytes b) (rx_high_water b)"
    and "flapping low (rx_high b) (map s_rx_bytes ss)"
  shows "unat (rx_high b) + fst (fst (advance_all ss b)) = unat (rx_high (snd (advance_all ss b)))"
  using assms
proof (induction ss arbitrary: b up)
  case (Cons s ss)
  let ?b = "snd (advance s b)"
  from Cons.prems have nr: "\<not> rebooted b s" by (auto simp: rebooted_simp not_less)
  note step = flap_step_rx [OF nr Cons.prems(3)]
  from Cons.prems have rd: "s_rx_bytes s = low \<or> rx_high b \<le> s_rx_bytes s" by simp
  have "unat (rx_high ?b) + fst (fst (advance_all ss ?b)) =
      unat (rx_high (snd (advance_all ss ?b)))"
    using Cons.prems step(1,2) [OF rd] by (intro Cons.IH) (auto simp: advance_uptime)
  then show ?case
    using step(2,3) [OF rd] by (simp add: split_beta Let_def unat_max)
qed simp

text \<open>While a regression is younger than the hold window nothing is rebased.\<close>

lemma rebases_young:
  assumes "\<not> rebooted b s" and "u0 \<le> s_uptime_secs s"
    and "unat (s_uptime_secs s) < unat u0 + 300"
    and "\<forall>t. regressed_since_uptime b = Some t \<longrightarrow> u0 \<le> t"
  shows "\<not> rebases b s"
  using assms
  by (auto simp: rebases_def COUNTER_REGRESSION_HOLD_SECS_def word_le_nat_alt unat_sat_sub
      split: option.splits)

lemma Max_insert_max: "Max (insert (max a c) A) = Max (insert a (insert c A))"
  if "finite A" for a c :: nat
  using that by (cases "A = {}") (auto simp: max.assoc)

lemma hold_window_run_rx:
  assumes "uptime_secs b = Some up" and "no_reboot up ss"
    and "u0 \<le> up" and "\<forall>s \<in> set ss. unat (s_uptime_secs s) < unat u0 + 300"
    and "rx_high_water b = None"
    and "\<forall>t. regressed_since_uptime b = Some t \<longrightarrow> u0 \<le> t"
  shows "unat (rx_bytes b) + fst (fst (advance_all ss b)) =
      Max (insert (unat (rx_bytes b)) ((unat \<circ> s_rx_bytes) ` set ss))
    \<and> unat (rx_bytes (snd (advance_all ss b))) =
      Max (insert (unat (rx_bytes b)) ((unat \<circ> s_rx_bytes) ` set ss))"
  using assms
proof (induction ss arbitrary: b up)
  case (Cons s ss)
  let ?b = "snd (advance s b)"
  from Cons.prems have nr: "\<not> rebooted b s" and up: "u0 \<le> s_uptime_secs s"
    by (auto simp: rebooted_simp not_less)
  have nb: "\<not> rebases b s"
    using nr up Cons.prems by (intro rebases_young) auto
  have hw: "rx_high_water ?b = None"
    using nr nb Cons.prems by (simp add: advance_high_water Let_def)
  have since: "\<forall>t. regressed_since_uptime ?b = Some t \<longrightarrow> u0 \<le> t"
    using nb up Cons.prems(6) by (auto simp: advance_since split: option.splits)
  have rx: "unat (rx_bytes ?b) = max (unat (rx_bytes b)) (unat (s_rx_bytes s))"
    using nb by (simp add: advance_rx unat_max)
  have delta: "unat (fst (fst (advance s b))) = unat (s_rx_bytes s) - unat (rx_bytes b)"
    using nr Cons.prems by (simp add: advance_rx_delta unat_sat_sub)
  have "unat (rx_bytes ?b) + fst (fst (advance_all ss ?b)) =
      Max (insert (unat (rx_bytes ?b)) ((unat \<circ> s_rx_bytes) ` set ss))
    \<and> unat (rx_bytes (snd (advance_all ss ?b))) =
      Max (insert (unat (rx_bytes ?b)) ((unat \<circ> s_rx_bytes) ` set ss))"
    by (rule Cons.IH [where up = "s_uptime_secs s"])
      (use Cons.prems up hw since in \<open>auto simp: advance_uptime\<close>)
  then show ?case
    using delta by (auto simp: rx Max_insert_max split_beta Let_def)
qed simp

lemma flapping_high_rx:
  assumes "uptime_secs b = Some up" and "no_reboot up ss"
    and "flap_inv low (rx_bytes b) (rx_high_water b)"
    and "flapping low (rx_high b) (map s_rx_bytes ss)"
  shows "rx_high (snd (advance_all ss b)) = fold max (map s_rx_bytes ss) (rx_high b)"
  using assms
proof (induction ss arbitrary: b up)
  case (Cons s ss)
  let ?b = "snd (advance s b)"
  from Cons.prems have nr: "\<not> rebooted b s" by (auto simp: rebooted_simp not_less)
  note step = flap_step_rx [OF nr Cons.prems(3)]
  from Cons.prems have rd: "s_rx_bytes s = low \<or> rx_high b \<le> s_rx_bytes s" by simp
  have "rx_high (snd (advance_all ss ?b)) = fold max (map s_rx_bytes ss) (rx_high ?b)"
    by (rule Cons.IH [where up = "s_uptime_secs s"])
      (use Cons.prems step(1,2) [OF rd] in \<open>auto simp: advance_uptime\<close>)
  then show ?case
    using step(2) [OF rd] by (simp add: split_beta Let_def max.commute)
qed simp

lemma no_reboot_swap [simp]: "no_reboot up (map swap_sample ss) = no_reboot up ss"
  by (induction ss arbitrary: up) auto

section \<open>Properties\<close>

text \<open>
  C17: an interface that goes down and comes back, any number of times and for any length of
  time, is billed for its net growth only: in each direction the bytes billed by a run without
  reboot are the highest reading of the run minus the highest reading billed before it.
\<close>

theorem flapping_bills_net_growth:
  assumes "uptime_secs b = Some up" and "no_reboot up ss"
    and "flap_inv low_rx (rx_bytes b) (rx_high_water b)"
    and "flapping low_rx (rx_high b) (map s_rx_bytes ss)"
    and "flap_inv low_tx (tx_bytes b) (tx_high_water b)"
    and "flapping low_tx (tx_high b) (map s_tx_bytes ss)"
  shows "unat (rx_high b) + fst (fst (advance_all ss b)) =
      unat (fold max (map s_rx_bytes ss) (rx_high b)) \<and>
    unat (tx_high b) + snd (fst (advance_all ss b)) =
      unat (fold max (map s_tx_bytes ss) (tx_high b))"
proof
  show "unat (rx_high b) + fst (fst (advance_all ss b)) =
      unat (fold max (map s_rx_bytes ss) (rx_high b))"
    using assms by (simp add: flapping_run_rx flapping_high_rx)
  have "unat (rx_high (swap_baseline b)) + fst (fst (advance_all (map swap_sample ss)
        (swap_baseline b))) = unat (fold max (map s_rx_bytes (map swap_sample ss))
        (rx_high (swap_baseline b)))"
    using assms
    by (subst flapping_run_rx; (subst flapping_high_rx)?) (auto simp: tx_high_def comp_def)
  then show "unat (tx_high b) + snd (fst (advance_all ss b)) =
      unat (fold max (map s_tx_bytes ss) (tx_high b))"
    by (simp add: advance_all_swap tx_high_def comp_def)
qed

definition flap_example :: "traffic_sample list" where
  "flap_example =
     [\<lparr>s_rx_bytes = 100, s_tx_bytes = 20, s_uptime_secs = 60\<rparr>,
      \<lparr>s_rx_bytes = 100, s_tx_bytes = 20, s_uptime_secs = 400\<rparr>,
      \<lparr>s_rx_bytes = 1500, s_tx_bytes = 900, s_uptime_secs = 460\<rparr>]"

theorem flapping_bills_net_growth_witness:
  "fst (advance_all flap_example
      (baseline_new \<lparr>s_rx_bytes = 1000, s_tx_bytes = 800, s_uptime_secs = 50\<rparr>)) = (500, 100)"
proof -
  let ?b = "baseline_new \<lparr>s_rx_bytes = 1000, s_tx_bytes = 800, s_uptime_secs = 50\<rparr>"
  have b: "uptime_secs ?b = Some 50" "no_reboot 50 flap_example"
    "flap_inv 100 (rx_bytes ?b) (rx_high_water ?b)"
    "flapping 100 (rx_high ?b) (map s_rx_bytes flap_example)"
    "flap_inv 20 (tx_bytes ?b) (tx_high_water ?b)"
    "flapping 20 (tx_high ?b) (map s_tx_bytes flap_example)"
    by (simp_all add: baseline_new_def baseline_restored_def flap_inv_def flap_example_def
        rx_high_def tx_high_def)
  from flapping_bills_net_growth [OF b] show ?thesis
    by (simp add: prod_eq_iff baseline_new_def baseline_restored_def flap_example_def
        rx_high_def tx_high_def)
qed

text \<open>
  C21: while no regression is older than the hold window of 300 seconds, the bytes billed are the
  highest reading minus the baseline, whatever the counters do in between: a transient drop is
  neither billed nor counted again when the counter recovers.
\<close>

theorem hold_window_bills_highest_reading:
  assumes "uptime_secs b = Some up" and "no_reboot up ss"
    and "u0 \<le> up" and "\<forall>s \<in> set ss. unat (s_uptime_secs s) < unat u0 + 300"
    and "rx_high_water b = None" and "tx_high_water b = None"
    and "\<forall>t. regressed_since_uptime b = Some t \<longrightarrow> u0 \<le> t"
  shows "unat (rx_bytes b) + fst (fst (advance_all ss b)) =
      Max (insert (unat (rx_bytes b)) ((unat \<circ> s_rx_bytes) ` set ss)) \<and>
    unat (tx_bytes b) + snd (fst (advance_all ss b)) =
      Max (insert (unat (tx_bytes b)) ((unat \<circ> s_tx_bytes) ` set ss))"
proof
  show "unat (rx_bytes b) + fst (fst (advance_all ss b)) =
      Max (insert (unat (rx_bytes b)) ((unat \<circ> s_rx_bytes) ` set ss))"
    using hold_window_run_rx [of b up ss u0] assms by blast
  have "unat (rx_bytes (swap_baseline b)) + fst (fst (advance_all (map swap_sample ss)
        (swap_baseline b))) = Max (insert (unat (rx_bytes (swap_baseline b)))
        ((unat \<circ> s_rx_bytes) ` set (map swap_sample ss)))"
    using hold_window_run_rx [of "swap_baseline b" up "map swap_sample ss" u0] assms by simp
  then show "unat (tx_bytes b) + snd (fst (advance_all ss b)) =
      Max (insert (unat (tx_bytes b)) ((unat \<circ> s_tx_bytes) ` set ss))"
    by (simp add: advance_all_swap image_image comp_def)
qed

theorem hold_window_bills_highest_reading_witness:
  "fst (advance_all
      [\<lparr>s_rx_bytes = 10, s_tx_bytes = 5, s_uptime_secs = 100\<rparr>,
       \<lparr>s_rx_bytes = 70, s_tx_bytes = 30, s_uptime_secs = 200\<rparr>]
      (baseline_new \<lparr>s_rx_bytes = 50, s_tx_bytes = 20, s_uptime_secs = 90\<rparr>)) = (20, 10)"
proof -
  let ?ss = "[\<lparr>s_rx_bytes = 10, s_tx_bytes = 5, s_uptime_secs = 100\<rparr>,
       \<lparr>s_rx_bytes = 70, s_tx_bytes = 30, s_uptime_secs = 200\<rparr>] :: traffic_sample list"
  let ?b = "baseline_new \<lparr>s_rx_bytes = 50, s_tx_bytes = 20, s_uptime_secs = 90\<rparr>"
  have b: "uptime_secs ?b = Some 90" "no_reboot 90 ?ss" "(90 :: u64) \<le> 90"
    "\<forall>s \<in> set ?ss. unat (s_uptime_secs s) < unat (90 :: u64) + 300"
    "rx_high_water ?b = None" "tx_high_water ?b = None"
    "\<forall>t. regressed_since_uptime ?b = Some t \<longrightarrow> 90 \<le> t"
    by (simp_all add: baseline_new_def baseline_restored_def)
  from hold_window_bills_highest_reading [OF b] show ?thesis
    by (simp add: prod_eq_iff baseline_new_def baseline_restored_def)
qed

end
