(* ===== verification/TrafficLedger.thy ===== *)
theory TrafficLedger
  imports TrafficCounters
begin

text \<open>
  The monthly traffic ledger (\<open>nodelite-server/src/history/traffic.rs\<close>, \<open>traffic/health.rs\<close>) and
  the throttling decision taken from it (\<open>ws/traffic_quota.rs\<close>). Connections record samples into
  the in-memory state and mark the node dirty; one writer task turns dirty nodes into absolute
  writes and commits them to SQLite, retrying with backoff.
\<close>

section \<open>Usage, rows and the codec between them\<close>

datatype traffic_accounting = Bidirectional | Inbound | Outbound

record traffic_usage =
  tu_node_id :: string
  tu_cycle_started_at :: datetime
  tu_used_bytes :: u64
  tu_accounting :: traffic_accounting

record usage_state =
  us_usage :: traffic_usage
  us_baseline :: counter_baseline

datatype traffic_write = Upsert usage_state | Delete string

fun write_node_id :: "traffic_write \<Rightarrow> string" where
  "write_node_id (Upsert st) = tu_node_id (us_usage st)"
| "write_node_id (Delete n) = n"

fun counted_bytes :: "traffic_accounting \<Rightarrow> u64 \<Rightarrow> u64 \<Rightarrow> u64" where
  "counted_bytes Bidirectional rx tx = sat_add rx tx"
| "counted_bytes Inbound rx tx = rx"
| "counted_bytes Outbound rx tx = tx"

definition utc_month_start :: "chrono \<Rightarrow> datetime \<Rightarrow> datetime" where
  "utc_month_start ch now = (case month_start ch now of Some m \<Rightarrow> m | None \<Rightarrow> now)"

fun accounting_to_db :: "traffic_accounting \<Rightarrow> string" where
  "accounting_to_db Bidirectional = ''bidirectional''"
| "accounting_to_db Inbound = ''inbound''"
| "accounting_to_db Outbound = ''outbound''"

definition accounting_from_db :: "string \<Rightarrow> traffic_accounting option" where
  "accounting_from_db v =
     (if v = ''bidirectional'' then Some Bidirectional
      else if v = ''inbound'' then Some Inbound
      else if v = ''outbound'' then Some Outbound
      else None)"

text \<open>SQLite integers are \<open>i64\<close>, read here as mathematical integers of that range.\<close>

definition u64_to_sqlite_integer :: "u64 \<Rightarrow> int" where
  "u64_to_sqlite_integer v = (if uint v < 2 ^ 63 then uint v else 2 ^ 63 - 1)"

datatype load_error = InvalidCycleStart string | InvalidAccounting string | NegativeCounter string

definition stored_counter :: "int \<Rightarrow> string \<Rightarrow> load_error + u64" where
  "stored_counter v n = (if v < 0 then Inl (NegativeCounter n) else Inr (word_of_int v))"

fun stored_counter_opt :: "int option \<Rightarrow> string \<Rightarrow> load_error + u64 option" where
  "stored_counter_opt None n = Inr None"
| "stored_counter_opt (Some v) n =
     (case stored_counter v n of Inl e \<Rightarrow> Inl e | Inr w \<Rightarrow> Inr (Some w))"

record usage_row =
  row_cycle_started_at :: int
  row_accounting :: string
  row_used_bytes :: int
  row_rx_bytes :: int
  row_tx_bytes :: int
  row_uptime_secs :: "int option"
  row_rx_high_water :: "int option"
  row_tx_high_water :: "int option"

type_synonym usage_db = "(string, usage_row) table"

definition row_of_state :: "chrono \<Rightarrow> usage_state \<Rightarrow> usage_row" where
  "row_of_state ch st =
     \<lparr>row_cycle_started_at = to_timestamp ch (tu_cycle_started_at (us_usage st)),
      row_accounting = accounting_to_db (tu_accounting (us_usage st)),
      row_used_bytes = u64_to_sqlite_integer (tu_used_bytes (us_usage st)),
      row_rx_bytes = u64_to_sqlite_integer (rx_bytes (us_baseline st)),
      row_tx_bytes = u64_to_sqlite_integer (tx_bytes (us_baseline st)),
      row_uptime_secs = map_option u64_to_sqlite_integer (uptime_secs (us_baseline st)),
      row_rx_high_water = map_option u64_to_sqlite_integer (rx_high_water (us_baseline st)),
      row_tx_high_water = map_option u64_to_sqlite_integer (tx_high_water (us_baseline st))\<rparr>"

definition state_of_row :: "chrono \<Rightarrow> string \<Rightarrow> usage_row \<Rightarrow> load_error + usage_state" where
  "state_of_row ch n row =
     (case from_timestamp ch (row_cycle_started_at row) of
        None \<Rightarrow> Inl (InvalidCycleStart n)
      | Some cycle \<Rightarrow>
     (case accounting_from_db (row_accounting row) of
        None \<Rightarrow> Inl (InvalidAccounting n)
      | Some acc \<Rightarrow>
     (case stored_counter (row_used_bytes row) n of Inl e \<Rightarrow> Inl e | Inr used \<Rightarrow>
     (case stored_counter (row_rx_bytes row) n of Inl e \<Rightarrow> Inl e | Inr rx \<Rightarrow>
     (case stored_counter (row_tx_bytes row) n of Inl e \<Rightarrow> Inl e | Inr tx \<Rightarrow>
     (case stored_counter_opt (row_uptime_secs row) n of Inl e \<Rightarrow> Inl e | Inr up \<Rightarrow>
     (case stored_counter_opt (row_rx_high_water row) n of Inl e \<Rightarrow> Inl e | Inr rx_hw \<Rightarrow>
     (case stored_counter_opt (row_tx_high_water row) n of Inl e \<Rightarrow> Inl e | Inr tx_hw \<Rightarrow>
       Inr \<lparr>us_usage = \<lparr>tu_node_id = n, tu_cycle_started_at = cycle, tu_used_bytes = used,
                          tu_accounting = acc\<rparr>,
            us_baseline = baseline_restored rx tx up rx_hw tx_hw\<rparr>))))))))"

text \<open>The first bad row makes the whole ledger unavailable.\<close>

fun load_traffic_state ::
  "chrono \<Rightarrow> usage_db \<Rightarrow> (string, usage_state) table \<Rightarrow>
     load_error + (string, usage_state) table" where
  "load_traffic_state ch [] states = Inr states"
| "load_traffic_state ch ((n, row) # rows) states =
     (case state_of_row ch n row of
        Inl e \<Rightarrow> Inl e
      | Inr st \<Rightarrow> load_traffic_state ch rows (tbl_put n st states))"

section \<open>Recording samples\<close>

record traffic_health =
  th_available :: bool
  th_write_degraded :: bool
  th_write_failures :: u64
  th_last_success_at :: int
  th_pending_writes :: nat

definition health_success :: "chrono \<Rightarrow> datetime \<Rightarrow> traffic_health \<Rightarrow> traffic_health" where
  "health_success ch now h = h\<lparr>th_last_success_at := to_timestamp ch now, th_write_degraded := False\<rparr>"

definition health_failure :: "traffic_health \<Rightarrow> traffic_health" where
  "health_failure h = h\<lparr>th_write_failures := sat_add (th_write_failures h) 1,
     th_write_degraded := True\<rparr>"

record traffic_tracker =
  tt_state :: "(string, usage_state) table"
  tt_writer_open :: bool
  tt_dirty :: "string list"
  tt_health :: traffic_health
  tt_started_cycle :: datetime


datatype persistence_error = Unavailable | WriteFailed

text \<open>
  The entry a sample leads to: an existing one is advanced even when the billing cycle or the
  accounting changes, so that a low reading never becomes the baseline of the new cycle.
\<close>

definition fresh_usage ::
  "string \<Rightarrow> datetime \<Rightarrow> traffic_accounting \<Rightarrow> traffic_sample \<Rightarrow> usage_state" where
  "fresh_usage n cycle acc s =
     \<lparr>us_usage = \<lparr>tu_node_id = n, tu_cycle_started_at = cycle, tu_used_bytes = 0,
                   tu_accounting = acc\<rparr>,
      us_baseline = baseline_new s\<rparr>"

definition record_entry ::
  "datetime \<Rightarrow> traffic_accounting \<Rightarrow> traffic_sample \<Rightarrow> usage_state \<Rightarrow> usage_state" where
  "record_entry cycle acc s entry =
     (let ((rx_delta, tx_delta), base) = advance s (us_baseline entry);
          u = us_usage entry;
          u' = (if tu_cycle_started_at u \<noteq> cycle \<or> tu_accounting u \<noteq> acc
                then u\<lparr>tu_cycle_started_at := cycle, tu_accounting := acc, tu_used_bytes := 0\<rparr>
                else u\<lparr>tu_used_bytes :=
                        sat_add (tu_used_bytes u) (counted_bytes acc rx_delta tx_delta)\<rparr>)
      in entry\<lparr>us_usage := u', us_baseline := base\<rparr>)"

text \<open>
  The part of \<open>record\<close> under the state lock. Besides the result it says whether the node must
  then be marked dirty: that happens under another lock, in a step of its own.
\<close>

definition record_state ::
  "chrono \<Rightarrow> datetime \<Rightarrow> string \<Rightarrow> traffic_sample \<Rightarrow> traffic_accounting \<Rightarrow> bool \<Rightarrow>
     traffic_tracker \<Rightarrow> (persistence_error + traffic_usage option) \<times> bool \<times> traffic_tracker" where
  "record_state ch now n s acc enabled t =
     (if \<not> tt_writer_open t then (Inl Unavailable, False, t)
      else if \<not> enabled then
        (Inr None, tbl_get (tt_state t) n \<noteq> None, t\<lparr>tt_state := tbl_del n (tt_state t)\<rparr>)
      else
        let cycle = utc_month_start ch now;
            entry = (case tbl_get (tt_state t) n of
                       Some e \<Rightarrow> e | None \<Rightarrow> fresh_usage n cycle acc s);
            entry' = record_entry cycle acc s entry
        in (Inr (Some (us_usage entry')), True, t\<lparr>tt_state := tbl_put n entry' (tt_state t)\<rparr>))"

definition mark_dirty :: "string list \<Rightarrow> traffic_tracker \<Rightarrow> traffic_tracker" where
  "mark_dirty ns t = t\<lparr>tt_dirty := fold List.insert ns (tt_dirty t)\<rparr>"


definition remove_state :: "string list \<Rightarrow> traffic_tracker \<Rightarrow> traffic_tracker" where
  "remove_state ns t = t\<lparr>tt_state := fold tbl_del ns (tt_state t)\<rparr>"

definition retain_removed :: "string list \<Rightarrow> traffic_tracker \<Rightarrow> string list" where
  "retain_removed live t = filter (\<lambda>n. n \<notin> set live) (map fst (tt_state t))"

definition tracker_new :: "chrono \<Rightarrow> datetime \<Rightarrow> traffic_tracker" where
  "tracker_new ch now =
     \<lparr>tt_state = [], tt_writer_open = False, tt_dirty = [],
      tt_health = \<lparr>th_available = False, th_write_degraded = False, th_write_failures = 0,
                    th_last_success_at = 0, th_pending_writes = 0\<rparr>,
      tt_started_cycle = utc_month_start ch now\<rparr>"

definition traffic_initialize ::
  "chrono \<Rightarrow> usage_db \<Rightarrow> traffic_tracker \<Rightarrow> (load_error + unit) \<times> traffic_tracker" where
  "traffic_initialize ch db t =
     (case load_traffic_state ch db [] of
        Inl e \<Rightarrow> (Inl e, t)
      | Inr st \<Rightarrow> (Inr (), t\<lparr>tt_state := st, tt_writer_open := True,
                      tt_health := (tt_health t)\<lparr>th_available := True\<rparr>\<rparr>))"

section \<open>The writer\<close>

record retry_backoff =
  rb_delay :: "duration option"
  rb_next_attempt_at :: "instant option"

definition TRAFFIC_RETRY_INITIAL_DELAY :: duration where
  "TRAFFIC_RETRY_INITIAL_DELAY = from_secs 1"

definition TRAFFIC_RETRY_MAX_DELAY :: duration where
  "TRAFFIC_RETRY_MAX_DELAY = from_secs 30"

definition backoff_default :: retry_backoff where
  "backoff_default = \<lparr>rb_delay = None, rb_next_attempt_at = None\<rparr>"

definition backoff_ready :: "instant \<Rightarrow> retry_backoff \<Rightarrow> bool" where
  "backoff_ready now b = (case rb_next_attempt_at b of None \<Rightarrow> True | Some at \<Rightarrow> at \<le> now)"

definition backoff_failure :: "instant \<Rightarrow> retry_backoff \<Rightarrow> retry_backoff" where
  "backoff_failure now b =
     (let delay = (case rb_delay b of
                     None \<Rightarrow> TRAFFIC_RETRY_INITIAL_DELAY
                   | Some d \<Rightarrow> min (d * 2) TRAFFIC_RETRY_MAX_DELAY)
      in \<lparr>rb_delay = Some delay, rb_next_attempt_at = Some (now + delay)\<rparr>)"

record ledger =
  lg_tracker :: traffic_tracker
  lg_pending :: "(string, traffic_write) table"
  lg_backoff :: retry_backoff
  lg_db :: usage_db

text \<open>The writer takes the dirty set first and resolves it against the state afterwards.\<close>

definition resolve_write :: "(string, usage_state) table \<Rightarrow> string \<Rightarrow> traffic_write" where
  "resolve_write st n = (case tbl_get st n of Some u \<Rightarrow> Upsert u | None \<Rightarrow> Delete n)"

definition record_pending ::
  "traffic_write \<Rightarrow> (string, traffic_write) table \<Rightarrow> (string, traffic_write) table" where
  "record_pending w pending = tbl_put (write_node_id w) w pending"

definition resolve_dirty ::
  "string list \<Rightarrow> (string, usage_state) table \<Rightarrow>
     (string, traffic_write) table \<Rightarrow> (string, traffic_write) table" where
  "resolve_dirty ns st pending = fold (\<lambda>n. record_pending (resolve_write st n)) ns pending"

definition collect_dirty_writes :: "ledger \<Rightarrow> ledger" where
  "collect_dirty_writes g =
     (let t = lg_tracker g in
      if tt_dirty t = [] then g
      else g\<lparr>lg_tracker := t\<lparr>tt_dirty := []\<rparr>,
             lg_pending := resolve_dirty (tt_dirty t) (tt_state t) (lg_pending g)\<rparr>)"

fun apply_write :: "chrono \<Rightarrow> traffic_write \<Rightarrow> usage_db \<Rightarrow> usage_db" where
  "apply_write ch (Upsert st) db = tbl_put (tu_node_id (us_usage st)) (row_of_state ch st) db"
| "apply_write ch (Delete n) db = tbl_del n db"

text \<open>
  One SQLite transaction: \<open>committed\<close> says whether it goes through; one that fails leaves the
  table as it was.
\<close>

definition write_traffic_states ::
  "chrono \<Rightarrow> bool \<Rightarrow> (string, traffic_write) table \<Rightarrow> usage_db \<Rightarrow> bool \<times> usage_db" where
  "write_traffic_states ch committed writes db =
     (if committed then (True, fold (apply_write ch) (map snd writes) db) else (False, db))"

definition flush_traffic_writes ::
  "chrono \<Rightarrow> bool \<Rightarrow> datetime \<Rightarrow> instant \<Rightarrow> ledger \<Rightarrow> bool \<times> ledger" where
  "flush_traffic_writes ch committed now clock g =
     (let t = lg_tracker g;
          (ok, db) = write_traffic_states ch committed (lg_pending g) (lg_db g)
      in if ok
         then (True, g\<lparr>lg_pending := [], lg_db := db, lg_backoff := backoff_default,
                 lg_tracker := t\<lparr>tt_health := health_success ch now (tt_health t)\<rparr>\<rparr>)
         else (False, g\<lparr>lg_db := db, lg_backoff := backoff_failure clock (lg_backoff g),
                 lg_tracker := t\<lparr>tt_health := health_failure (tt_health t)\<rparr>\<rparr>))"

definition count_pending :: "ledger \<Rightarrow> ledger" where
  "count_pending g = g\<lparr>lg_tracker := (lg_tracker g)\<lparr>tt_health :=
     (tt_health (lg_tracker g))\<lparr>th_pending_writes := length (lg_pending g)\<rparr>\<rparr>\<rparr>"

definition writer_barrier ::
  "chrono \<Rightarrow> bool \<Rightarrow> datetime \<Rightarrow> instant \<Rightarrow> ledger \<Rightarrow> (persistence_error + unit) \<times> ledger" where
  "writer_barrier ch committed now clock g =
     (let (ok, g') = flush_traffic_writes ch committed now clock (collect_dirty_writes g)
      in (if ok then Inr () else Inl WriteFailed, count_pending g'))"

definition writer_tick :: "chrono \<Rightarrow> bool \<Rightarrow> datetime \<Rightarrow> instant \<Rightarrow> ledger \<Rightarrow> ledger" where
  "writer_tick ch committed now clock g =
     (let g1 = collect_dirty_writes g
      in count_pending
           (if lg_pending g1 \<noteq> [] \<and> backoff_ready clock (lg_backoff g1)
            then snd (flush_traffic_writes ch committed now clock g1) else g1))"

definition writer_shutdown :: "chrono \<Rightarrow> bool \<Rightarrow> datetime \<Rightarrow> instant \<Rightarrow> ledger \<Rightarrow> ledger" where
  "writer_shutdown ch committed now clock g =
     (let g1 = collect_dirty_writes g
      in count_pending
           (if lg_pending g1 \<noteq> []
            then snd (flush_traffic_writes ch committed now clock g1) else g1))"

definition remove_nodes ::
  "chrono \<Rightarrow> bool \<Rightarrow> datetime \<Rightarrow> instant \<Rightarrow> string list \<Rightarrow> ledger \<Rightarrow>
     (persistence_error + unit) \<times> ledger" where
  "remove_nodes ch committed now clock ns g =
     (if ns = [] then (Inr (), g)
      else if \<not> tt_writer_open (lg_tracker g) then (Inl Unavailable, g)
      else writer_barrier ch committed now clock
             (g\<lparr>lg_tracker := mark_dirty ns (remove_state ns (lg_tracker g))\<rparr>))"

definition retain_nodes ::
  "chrono \<Rightarrow> bool \<Rightarrow> datetime \<Rightarrow> instant \<Rightarrow> string list \<Rightarrow> ledger \<Rightarrow>
     (persistence_error + unit) \<times> ledger" where
  "retain_nodes ch committed now clock live g =
     remove_nodes ch committed now clock (retain_removed live (lg_tracker g)) g"

section \<open>The codec\<close>

lemma accounting_roundtrip [simp]: "accounting_from_db (accounting_to_db a) = Some a"
  by (cases a) (simp_all add: accounting_from_db_def)

lemma accounting_from_db_Some: "accounting_from_db v = Some a \<Longrightarrow> v = accounting_to_db a"
  by (auto simp: accounting_from_db_def split: if_splits)

definition i64_nonneg :: "int \<Rightarrow> bool" where
  "i64_nonneg v \<longleftrightarrow> 0 \<le> v \<and> v < 2 ^ 63"

lemma u64_to_sqlite_range: "i64_nonneg (u64_to_sqlite_integer v)"
  by (auto simp: i64_nonneg_def u64_to_sqlite_integer_def)

lemma stored_counter_inv:
  assumes "stored_counter v n = Inr w" and "v < 2 ^ 63"
  shows "u64_to_sqlite_integer w = v"
proof -
  from assms have "0 \<le> v" and w: "w = word_of_int v"
    by (auto simp: stored_counter_def split: if_splits)
  with assms(2) have "uint w = v"
    by (simp add: uint_word_of_int)
  with assms(2) show ?thesis by (simp add: u64_to_sqlite_integer_def)
qed

lemma stored_counter_opt_inv:
  assumes "stored_counter_opt v n = Inr w" and "\<forall>x. v = Some x \<longrightarrow> x < 2 ^ 63"
  shows "map_option u64_to_sqlite_integer w = v"
  using assms by (cases v) (auto simp: stored_counter_inv split: sum.splits)

definition clamp_i64 :: "u64 \<Rightarrow> u64" where
  "clamp_i64 v = min v (2 ^ 63 - 1)"

lemma stored_counter_of_u64:
  "stored_counter (u64_to_sqlite_integer v) n = Inr (clamp_i64 v)"
proof (cases "uint v < 2 ^ 63")
  case True
  then have "v \<le> 2 ^ 63 - 1" by (simp add: word_le_def)
  with True show ?thesis
    by (simp add: stored_counter_def u64_to_sqlite_integer_def clamp_i64_def min_def)
next
  case False
  then have "2 ^ 63 - 1 \<le> v" by (simp add: word_le_def)
  with False show ?thesis
    by (simp add: stored_counter_def u64_to_sqlite_integer_def clamp_i64_def min_def)
qed

lemma stored_counter_opt_of_u64:
  "stored_counter_opt (map_option u64_to_sqlite_integer v) n = Inr (map_option clamp_i64 v)"
  by (cases v) (simp_all add: stored_counter_of_u64)

definition row_in_range :: "usage_row \<Rightarrow> bool" where
  "row_in_range r \<longleftrightarrow>
     row_used_bytes r < 2 ^ 63 \<and> row_rx_bytes r < 2 ^ 63 \<and> row_tx_bytes r < 2 ^ 63 \<and>
     (\<forall>x. row_uptime_secs r = Some x \<longrightarrow> x < 2 ^ 63) \<and>
     (\<forall>x. row_rx_high_water r = Some x \<longrightarrow> x < 2 ^ 63) \<and>
     (\<forall>x. row_tx_high_water r = Some x \<longrightarrow> x < 2 ^ 63)"

text \<open>What the calendar guarantees: a timestamp that is a valid date reads back as itself.\<close>

definition chrono_timestamps :: "chrono \<Rightarrow> bool" where
  "chrono_timestamps ch \<longleftrightarrow>
     (\<forall>s d. from_timestamp ch s = Some d \<longrightarrow> to_timestamp ch d = s)"

lemma chrono_timestamps_simple: "chrono_timestamps chrono_simple"
  by (simp add: chrono_timestamps_def chrono_simple_def)

lemma state_of_row_node: "state_of_row ch n r = Inr st \<Longrightarrow> tu_node_id (us_usage st) = n"
  by (auto simp: state_of_row_def split: option.splits sum.splits)

lemma row_of_state_of_row:
  assumes "chrono_timestamps ch" and "row_in_range r" and "state_of_row ch n r = Inr st"
  shows "row_of_state ch st = r"
  using assms
  by (auto simp: state_of_row_def row_of_state_def row_in_range_def chrono_timestamps_def
      baseline_restored_def stored_counter_inv stored_counter_opt_inv
      split: option.splits sum.splits dest!: accounting_from_db_Some
      intro!: usage_row.equality)

lemma load_traffic_state_get:
  assumes "load_traffic_state ch rows states = Inr st" and "distinct (map fst rows)"
  shows "tbl_get st n = (case tbl_get rows n of
      None \<Rightarrow> tbl_get states n
    | Some r \<Rightarrow> (case state_of_row ch n r of Inl e \<Rightarrow> None | Inr u \<Rightarrow> Some u))"
  using assms
proof (induction rows arbitrary: states)
  case (Cons nr rows)
  obtain k r where nr: "nr = (k, r)" by (cases nr)
  with Cons.prems obtain u where u: "state_of_row ch k r = Inr u"
    and ld: "load_traffic_state ch rows (tbl_put k u states) = Inr st"
    by (auto split: sum.splits)
  from Cons.prems nr have "tbl_get rows k = None" and "distinct (map fst rows)"
    by (simp_all add: map_of_eq_None_iff)
  with Cons.IH [OF ld] u nr show ?case
    by (auto simp: table_simps split: option.split)
qed simp

lemma load_traffic_state_rows:
  "load_traffic_state ch rows states = Inr st \<Longrightarrow> (n, r) \<in> set rows \<Longrightarrow>
    \<exists>u. state_of_row ch n r = Inr u"
  by (induction rows arbitrary: states) (auto split: sum.splits)

section \<open>Interleaving of connections and writer\<close>

text \<open>
  Connections and the writer interleave at every lock: \<open>sys_inflight\<close> holds the nodes whose state
  has changed but which are not yet in the dirty set, \<open>sys_taken\<close> the dirty set the writer has
  taken out and not yet resolved.
\<close>

record ledger_sys =
  sys_ledger :: ledger
  sys_inflight :: "string list"
  sys_taken :: "string list"

inductive ledger_step :: "chrono \<Rightarrow> ledger_sys \<Rightarrow> ledger_sys \<Rightarrow> bool" for ch where
  Record: "record_state ch now n s acc enabled (lg_tracker g) = (res, dirty, t) \<Longrightarrow>
    ledger_step ch \<lparr>sys_ledger = g, sys_inflight = ns, sys_taken = tk\<rparr>
      \<lparr>sys_ledger = g\<lparr>lg_tracker := t\<rparr>, sys_inflight = (if dirty then n # ns else ns),
       sys_taken = tk\<rparr>"
| Remove: "ledger_step ch \<lparr>sys_ledger = g, sys_inflight = ns, sys_taken = tk\<rparr>
      \<lparr>sys_ledger = g\<lparr>lg_tracker := remove_state ids (lg_tracker g)\<rparr>,
       sys_inflight = ids @ ns, sys_taken = tk\<rparr>"
| Mark: "n \<in> set ns \<Longrightarrow>
    ledger_step ch \<lparr>sys_ledger = g, sys_inflight = ns, sys_taken = tk\<rparr>
      \<lparr>sys_ledger = g\<lparr>lg_tracker := mark_dirty [n] (lg_tracker g)\<rparr>,
       sys_inflight = remove1 n ns, sys_taken = tk\<rparr>"
| Take: "ledger_step ch \<lparr>sys_ledger = g, sys_inflight = ns, sys_taken = []\<rparr>
      \<lparr>sys_ledger = g\<lparr>lg_tracker := (lg_tracker g)\<lparr>tt_dirty := []\<rparr>\<rparr>,
       sys_inflight = ns, sys_taken = tt_dirty (lg_tracker g)\<rparr>"
| Resolve: "ledger_step ch \<lparr>sys_ledger = g, sys_inflight = ns, sys_taken = tk\<rparr>
      \<lparr>sys_ledger = g\<lparr>lg_pending := resolve_dirty tk (tt_state (lg_tracker g)) (lg_pending g)\<rparr>,
       sys_inflight = ns, sys_taken = []\<rparr>"
| Flush: "ledger_step ch \<lparr>sys_ledger = g, sys_inflight = ns, sys_taken = []\<rparr>
      \<lparr>sys_ledger = snd (flush_traffic_writes ch committed now clock g),
       sys_inflight = ns, sys_taken = []\<rparr>"

text \<open>What the table would hold for a node if the pending writes were committed now.\<close>

definition durable_view ::
  "chrono \<Rightarrow> (string, traffic_write) table \<Rightarrow> usage_db \<Rightarrow> string \<Rightarrow> usage_row option" where
  "durable_view ch pending db n =
     (case tbl_get pending n of
        Some (Upsert st) \<Rightarrow> Some (row_of_state ch st)
      | Some (Delete _) \<Rightarrow> None
      | None \<Rightarrow> tbl_get db n)"

definition synced :: "chrono \<Rightarrow> ledger \<Rightarrow> string \<Rightarrow> bool" where
  "synced ch g n \<longleftrightarrow>
     durable_view ch (lg_pending g) (lg_db g) n =
     map_option (row_of_state ch) (tbl_get (tt_state (lg_tracker g)) n)"

definition nodes_ok :: "(string, usage_state) table \<Rightarrow> bool" where
  "nodes_ok s \<longleftrightarrow> (\<forall>n st. tbl_get s n = Some st \<longrightarrow> tu_node_id (us_usage st) = n)"

definition writes_ok :: "(string, traffic_write) table \<Rightarrow> bool" where
  "writes_ok p \<longleftrightarrow> (\<forall>n w. tbl_get p n = Some w \<longrightarrow> write_node_id w = n)"

definition ledger_wf :: "ledger \<Rightarrow> bool" where
  "ledger_wf g \<longleftrightarrow> tbl_ok (lg_pending g) \<and> writes_ok (lg_pending g) \<and>
     nodes_ok (tt_state (lg_tracker g))"

lemma nodes_ok_Nil [simp]: "nodes_ok []"
  by (simp add: nodes_ok_def)

lemma nodes_ok_put: "nodes_ok s \<Longrightarrow> tu_node_id (us_usage st) = n \<Longrightarrow> nodes_ok (tbl_put n st s)"
  by (simp add: nodes_ok_def table_simps)

lemma nodes_ok_del: "nodes_ok s \<Longrightarrow> nodes_ok (tbl_del n s)"
  by (simp add: nodes_ok_def table_simps)

lemma nodes_ok_get: "nodes_ok s \<Longrightarrow> tbl_get s n = Some st \<Longrightarrow> tu_node_id (us_usage st) = n"
  by (simp add: nodes_ok_def)

lemma writes_ok_Nil [simp]: "writes_ok []"
  by (simp add: writes_ok_def)

lemma writes_ok_put: "writes_ok p \<Longrightarrow> write_node_id w = n \<Longrightarrow> writes_ok (tbl_put n w p)"
  by (simp add: writes_ok_def table_simps)

lemma writes_ok_get: "writes_ok p \<Longrightarrow> tbl_get p n = Some w \<Longrightarrow> write_node_id w = n"
  by (simp add: writes_ok_def)

lemma writes_ok_tail:
  assumes "writes_ok ((k, w) # p)" and "tbl_get p k = None"
  shows "writes_ok p"
  unfolding writes_ok_def
proof (intro allI impI)
  fix n w'
  assume "tbl_get p n = Some w'"
  with assms(2) have "tbl_get ((k, w) # p) n = Some w'" by auto
  with assms(1) show "write_node_id w' = n" by (rule writes_ok_get)
qed

definition ledger_inv :: "chrono \<Rightarrow> ledger_sys \<Rightarrow> bool" where
  "ledger_inv ch \<sigma> \<longleftrightarrow> ledger_wf (sys_ledger \<sigma>) \<and>
     (\<forall>n. n \<notin> set (tt_dirty (lg_tracker (sys_ledger \<sigma>))) \<union> set (sys_inflight \<sigma>) \<union>
            set (sys_taken \<sigma>) \<longrightarrow> synced ch (sys_ledger \<sigma>) n)"

lemma ledger_invI:
  assumes "ledger_wf g"
    and "\<And>n. n \<notin> set (tt_dirty (lg_tracker g)) \<Longrightarrow> n \<notin> set ns \<Longrightarrow> n \<notin> set tk \<Longrightarrow> synced ch g n"
  shows "ledger_inv ch \<lparr>sys_ledger = g, sys_inflight = ns, sys_taken = tk\<rparr>"
  using assms by (simp add: ledger_inv_def)

lemma ledger_invD:
  assumes "ledger_inv ch \<lparr>sys_ledger = g, sys_inflight = ns, sys_taken = tk\<rparr>"
  shows "ledger_wf g"
    and "n \<notin> set (tt_dirty (lg_tracker g)) \<Longrightarrow> n \<notin> set ns \<Longrightarrow> n \<notin> set tk \<Longrightarrow> synced ch g n"
  using assms by (auto simp: ledger_inv_def)

lemma record_entry_node [simp]:
  "tu_node_id (us_usage (record_entry cycle acc s e)) = tu_node_id (us_usage e)"
  by (simp add: record_entry_def Let_def split_beta)

lemma record_state_effect:
  assumes "record_state ch now n s acc enabled t = (res, dirty, t')"
  shows "tt_dirty t' = tt_dirty t"
    and "m \<noteq> n \<or> \<not> dirty \<Longrightarrow> tbl_get (tt_state t') m = tbl_get (tt_state t) m"
    and "nodes_ok (tt_state t) \<Longrightarrow> nodes_ok (tt_state t')"
  using assms nodes_ok_get [of "tt_state t" n]
  by (auto simp: record_state_def Let_def table_simps fresh_usage_def nodes_ok_del
      intro!: nodes_ok_put split: if_splits option.splits)

lemma fold_tbl_del: "tbl_get (fold tbl_del ns t) n = (if n \<in> set ns then None else tbl_get t n)"
  by (induction ns arbitrary: t) (auto simp: table_simps)

lemma set_fold_insert: "set (fold List.insert ns xs) = set ns \<union> set xs"
  by (induction ns arbitrary: xs) auto

lemma nodes_ok_fold_del: "nodes_ok s \<Longrightarrow> nodes_ok (fold tbl_del ns s)"
  by (induction ns arbitrary: s) (auto intro: nodes_ok_del)

lemma write_node_id_resolve: "nodes_ok s \<Longrightarrow> write_node_id (resolve_write s n) = n"
  by (simp add: resolve_write_def nodes_ok_get split: option.split)

lemma resolve_dirty_props:
  assumes "nodes_ok s"
  shows resolve_dirty_get: "tbl_get (resolve_dirty ns s p) n =
      (if n \<in> set ns then Some (resolve_write s n) else tbl_get p n)"
    and "tbl_ok p \<Longrightarrow> tbl_ok (resolve_dirty ns s p)"
    and "writes_ok p \<Longrightarrow> writes_ok (resolve_dirty ns s p)"
  unfolding resolve_dirty_def using assms
  by (induction ns arbitrary: p)
    (auto simp: record_pending_def table_simps write_node_id_resolve tbl_ok_put writes_ok_put)

lemma fold_apply_write:
  assumes "tbl_ok pending" and "writes_ok pending"
  shows "tbl_get (fold (apply_write ch) (map snd pending) db) n = durable_view ch pending db n"
  using assms
proof (induction pending arbitrary: db)
  case (Cons kw pending)
  obtain k w where kw: "kw = (k, w)" by (cases kw)
  from Cons.prems kw have ok: "tbl_ok pending" "tbl_get pending k = None"
    by (auto simp: tbl_ok_def map_of_eq_None_iff)
  have keys: "writes_ok pending"
    using Cons.prems(2) ok(2) kw by (auto intro: writes_ok_tail)
  have w: "write_node_id w = k"
    using Cons.prems(2) kw by (auto intro: writes_ok_get)
  show ?case
    using w ok(2) by (cases w)
      (auto simp: kw Cons.IH [OF ok(1) keys] durable_view_def table_simps
        split: option.splits traffic_write.splits)
qed (simp add: durable_view_def)

lemma flush_effect:
  "lg_db (snd (flush_traffic_writes ch committed now clock g)) =
     (if committed then fold (apply_write ch) (map snd (lg_pending g)) (lg_db g) else lg_db g)"
  "lg_pending (snd (flush_traffic_writes ch committed now clock g)) =
     (if committed then [] else lg_pending g)"
  "tt_state (lg_tracker (snd (flush_traffic_writes ch committed now clock g))) =
     tt_state (lg_tracker g)"
  "tt_dirty (lg_tracker (snd (flush_traffic_writes ch committed now clock g))) =
     tt_dirty (lg_tracker g)"
  by (simp_all add: flush_traffic_writes_def write_traffic_states_def Let_def)

lemma flush_keeps:
  assumes "ledger_wf g"
  shows "ledger_wf (snd (flush_traffic_writes ch committed now clock g))"
    and "synced ch (snd (flush_traffic_writes ch committed now clock g)) n = synced ch g n"
proof -
  show "ledger_wf (snd (flush_traffic_writes ch committed now clock g))"
    using assms by (simp add: ledger_wf_def flush_effect)
  have "tbl_get (fold (apply_write ch) (map snd (lg_pending g)) (lg_db g)) n =
      durable_view ch (lg_pending g) (lg_db g) n"
    using assms by (intro fold_apply_write) (auto simp: ledger_wf_def)
  then show "synced ch (snd (flush_traffic_writes ch committed now clock g)) n = synced ch g n"
    by (simp add: synced_def flush_effect durable_view_def)
qed

lemma resolve_keeps:
  fixes g :: ledger and tk :: "string list"
  assumes "ledger_wf g"
  defines "g' \<equiv> g\<lparr>lg_pending := resolve_dirty tk (tt_state (lg_tracker g)) (lg_pending g)\<rparr>"
  shows "ledger_wf g'" and "n \<in> set tk \<or> synced ch g n \<Longrightarrow> synced ch g' n"
proof -
  have node: "nodes_ok (tt_state (lg_tracker g))"
    using assms(1) by (simp add: ledger_wf_def)
  note rd = resolve_dirty_props [OF node]
  show "ledger_wf g'"
    using assms(1) rd(2,3) by (simp add: ledger_wf_def g'_def)
  show "n \<in> set tk \<or> synced ch g n \<Longrightarrow> synced ch g' n"
    by (auto simp: synced_def g'_def durable_view_def rd(1) resolve_write_def split: option.splits)
qed

lemma ledger_step_inv:
  assumes "ledger_step ch \<sigma> \<sigma>'" and "ledger_inv ch \<sigma>"
  shows "ledger_inv ch \<sigma>'"
  using assms
proof (induction rule: ledger_step.induct)
  case (Record now n s acc enabled g res dirty t ns tk)
  note eff = record_state_effect [OF Record(1)]
  note inv = ledger_invD [OF Record(2)]
  show ?case
  proof (rule ledger_invI)
    show "ledger_wf (g\<lparr>lg_tracker := t\<rparr>)"
      using inv(1) eff(3) by (simp add: ledger_wf_def)
    show "synced ch (g\<lparr>lg_tracker := t\<rparr>) m"
      if "m \<notin> set (tt_dirty (lg_tracker (g\<lparr>lg_tracker := t\<rparr>)))"
        and "m \<notin> set (if dirty then n # ns else ns)" and "m \<notin> set tk" for m
      using that inv(2) [of m] eff(1) eff(2) [of m]
      by (auto simp: synced_def split: if_splits)
  qed
next
  case (Remove g ns tk ids)
  note inv = ledger_invD [OF Remove]
  show ?case
  proof (rule ledger_invI)
    show "ledger_wf (g\<lparr>lg_tracker := remove_state ids (lg_tracker g)\<rparr>)"
      using inv(1) by (simp add: ledger_wf_def remove_state_def nodes_ok_fold_del)
    show "synced ch (g\<lparr>lg_tracker := remove_state ids (lg_tracker g)\<rparr>) m"
      if "m \<notin> set (tt_dirty (lg_tracker (g\<lparr>lg_tracker := remove_state ids (lg_tracker g)\<rparr>)))"
        and "m \<notin> set (ids @ ns)" and "m \<notin> set tk" for m
      using that inv(2) [of m] by (simp add: synced_def remove_state_def fold_tbl_del)
  qed
next
  case (Mark n ns g tk)
  note inv = ledger_invD [OF Mark(2)]
  show ?case
  proof (rule ledger_invI)
    show "ledger_wf (g\<lparr>lg_tracker := mark_dirty [n] (lg_tracker g)\<rparr>)"
      using inv(1) by (simp add: ledger_wf_def mark_dirty_def)
    show "synced ch (g\<lparr>lg_tracker := mark_dirty [n] (lg_tracker g)\<rparr>) m"
      if "m \<notin> set (tt_dirty (lg_tracker (g\<lparr>lg_tracker := mark_dirty [n] (lg_tracker g)\<rparr>)))"
        and "m \<notin> set (remove1 n ns)" and "m \<notin> set tk" for m
      using that inv(2) [of m] by (auto simp: synced_def mark_dirty_def)
  qed
next
  case (Take g ns)
  note inv = ledger_invD [OF Take]
  show ?case
    by (rule ledger_invI) (use inv in \<open>auto simp: ledger_wf_def synced_def\<close>)
next
  case (Resolve g ns tk)
  note inv = ledger_invD [OF Resolve]
  show ?case
    by (rule ledger_invI) (use inv in \<open>auto intro: resolve_keeps\<close>)
next
  case (Flush g ns committed now clock)
  note inv = ledger_invD [OF Flush]
  show ?case
    by (rule ledger_invI) (use inv in \<open>auto simp: flush_keeps flush_effect\<close>)
qed

interpretation ledger: transitions "ledger_step ch" "ledger_inv ch" for ch
  by unfold_locales (rule ledger_step_inv)

section \<open>Start-up, removal and backoff\<close>

definition ledger_start :: "chrono \<Rightarrow> datetime \<Rightarrow> usage_db \<Rightarrow> ledger_sys" where
  "ledger_start ch now db =
     \<lparr>sys_ledger = \<lparr>lg_tracker = snd (traffic_initialize ch db (tracker_new ch now)),
                     lg_pending = [], lg_backoff = backoff_default, lg_db = db\<rparr>,
      sys_inflight = [], sys_taken = []\<rparr>"

lemma load_nodes_ok:
  "load_traffic_state ch rows states = Inr st \<Longrightarrow> nodes_ok states \<Longrightarrow> nodes_ok st"
  by (induction rows arbitrary: states)
    (auto simp: state_of_row_node nodes_ok_put split: sum.splits)

lemma ledger_start_inv:
  assumes "chrono_timestamps ch" and "tbl_ok db" and "\<forall>(n, r) \<in> set db. row_in_range r"
    and "load_traffic_state ch db [] = Inr st"
  shows "ledger_inv ch (ledger_start ch now db)"
  unfolding ledger_start_def
proof (rule ledger_invI)
  let ?g = "\<lparr>lg_tracker = snd (traffic_initialize ch db (tracker_new ch now)),
      lg_pending = [], lg_backoff = backoff_default, lg_db = db\<rparr>"
  have st: "tt_state (snd (traffic_initialize ch db (tracker_new ch now))) = st"
    using assms(4) by (simp add: traffic_initialize_def)
  show "ledger_wf ?g"
    using load_nodes_ok [OF assms(4)] st by (simp add: ledger_wf_def)
  fix n
  show "synced ch ?g n"
  proof (cases "tbl_get db n")
    case None
    with load_traffic_state_get [OF assms(4), of n] assms(2) show ?thesis
      by (simp add: synced_def durable_view_def st tbl_ok_def)
  next
    case (Some r)
    then have r: "(n, r) \<in> set db" by (rule map_of_SomeD)
    then obtain u where u: "state_of_row ch n r = Inr u"
      using load_traffic_state_rows [OF assms(4)] by blast
    have "row_of_state ch u = r"
      using assms(1,3) r u by (intro row_of_state_of_row) auto
    with u Some load_traffic_state_get [OF assms(4), of n] assms(2) show ?thesis
      by (simp add: synced_def durable_view_def st tbl_ok_def)
  qed
qed

lemma collect_keeps_wf: "ledger_wf g \<Longrightarrow> ledger_wf (collect_dirty_writes g)"
  by (auto simp: collect_dirty_writes_def Let_def ledger_wf_def intro: resolve_dirty_props)

lemma collect_pending:
  assumes "ledger_wf g" and "n \<in> set (tt_dirty (lg_tracker g))"
  shows "tbl_get (lg_pending (collect_dirty_writes g)) n =
      Some (resolve_write (tt_state (lg_tracker g)) n)"
  using assms by (auto simp: collect_dirty_writes_def Let_def ledger_wf_def resolve_dirty_get)

lemma collect_tracker [simp]:
  "tt_state (lg_tracker (collect_dirty_writes g)) = tt_state (lg_tracker g)"
  "tt_dirty (lg_tracker (collect_dirty_writes g)) = []"
  "lg_db (collect_dirty_writes g) = lg_db g"
  by (auto simp: collect_dirty_writes_def Let_def)

lemma writer_barrier_commits:
  assumes "ledger_wf g" and "writer_barrier ch committed now clock g = (Inr (), g')"
    and "n \<in> set (tt_dirty (lg_tracker g))"
  shows "tbl_get (lg_db g') n = map_option (row_of_state ch) (tbl_get (tt_state (lg_tracker g)) n)
    \<and> tt_state (lg_tracker g') = tt_state (lg_tracker g)"
proof -
  let ?c = "collect_dirty_writes g"
  from assms(2) have committed and g': "g' = count_pending (snd (flush_traffic_writes ch True now clock ?c))"
    by (auto simp: writer_barrier_def Let_def flush_traffic_writes_def write_traffic_states_def
        split: if_splits)
  have wf: "tbl_ok (lg_pending ?c)" "writes_ok (lg_pending ?c)"
    using collect_keeps_wf [OF assms(1)] by (auto simp: ledger_wf_def)
  have "tbl_get (lg_db g') n = durable_view ch (lg_pending ?c) (lg_db ?c) n"
    by (simp add: g' count_pending_def flush_effect fold_apply_write [OF wf])
  then show ?thesis
    using collect_pending [OF assms(1,3)]
    by (simp add: g' count_pending_def flush_effect durable_view_def resolve_write_def
        split: option.splits)
qed

lemma backoff_failures:
  "rb_delay ((backoff_failure now ^^ Suc k) backoff_default) = Some (from_secs (min (2 ^ k) 30))"
proof (induction k)
  case (Suc k)
  have "min (min (2 ^ k) 30 * NANOS * 2) (30 * NANOS) = min (2 ^ Suc k) 30 * NANOS"
    by (simp add: min_mult_distrib_right [symmetric] min_def NANOS_def)
  with Suc show ?case
    by (simp add: backoff_failure_def Let_def from_secs_def TRAFFIC_RETRY_MAX_DELAY_def)
qed (simp add: backoff_failure_def backoff_default_def TRAFFIC_RETRY_INITIAL_DELAY_def from_secs_def)

section \<open>The throttling decision\<close>

record traffic_quota =
  tq_limit_bytes :: u64
  tq_accounting :: traffic_accounting
  tq_throttle_kbps :: "u64 option"

datatype throttle_decision = Hold | Apply "u64 option"




section \<open>Properties\<close>

text \<open>
  C7: however connections and writer interleave after the ledger was loaded, the SQLite row of a
  node that is not marked for writing (dirty, in flight, taken or pending) is exactly the encoding
  of its in-memory usage, and absent when it has none: no write is lost, reordered or resurrected.
\<close>

theorem ledger_durable:
  assumes "chrono_timestamps ch" and "tbl_ok db" and "\<forall>(n, r) \<in> set db. row_in_range r"
    and "load_traffic_state ch db [] = Inr st"
    and "(ledger_step ch)\<^sup>*\<^sup>* (ledger_start ch now db) \<sigma>"
    and "n \<notin> set (tt_dirty (lg_tracker (sys_ledger \<sigma>))) \<union> set (sys_inflight \<sigma>) \<union> set (sys_taken \<sigma>)"
    and "n \<notin> dom (tbl_get (lg_pending (sys_ledger \<sigma>)))"
  shows "tbl_get (lg_db (sys_ledger \<sigma>)) n =
      map_option (row_of_state ch) (tbl_get (tt_state (lg_tracker (sys_ledger \<sigma>))) n)"
proof -
  have "ledger_inv ch \<sigma>"
    using assms(5) by (rule ledger.reachable_inv) (rule ledger_start_inv [OF assms(1-4)])
  with assms(6) have "synced ch (sys_ledger \<sigma>) n" by (simp add: ledger_inv_def)
  with assms(7) show ?thesis
    by (simp add: synced_def durable_view_def domIff)
qed

definition sample_a :: traffic_sample where
  "sample_a = \<lparr>s_rx_bytes = 10, s_tx_bytes = 20, s_uptime_secs = 5\<rparr>"

theorem ledger_durable_witness:
  "\<exists>\<sigma>. (ledger_step chrono_simple)\<^sup>*\<^sup>* (ledger_start chrono_simple 7 []) \<sigma> \<and>
     tbl_get (tt_state (lg_tracker (sys_ledger \<sigma>))) ''n1'' \<noteq> None \<and>
     tbl_get (lg_db (sys_ledger \<sigma>)) ''n1'' =
       map_option (row_of_state chrono_simple)
         (tbl_get (tt_state (lg_tracker (sys_ledger \<sigma>))) ''n1'')"
proof -
  let ?ch = chrono_simple
  let ?s0 = "ledger_start ?ch 7 []"
  define g0 where "g0 = sys_ledger ?s0"
  obtain res d t where rec: "record_state ?ch 9 ''n1'' sample_a Inbound True (lg_tracker g0) = (res, d, t)"
    by (metis prod_cases3)
  let ?g1 = "g0\<lparr>lg_tracker := t\<rparr>"
  let ?g2 = "?g1\<lparr>lg_tracker := mark_dirty [''n1''] (lg_tracker ?g1)\<rparr>"
  let ?g3 = "?g2\<lparr>lg_tracker := (lg_tracker ?g2)\<lparr>tt_dirty := []\<rparr>\<rparr>"
  let ?g4 = "?g3\<lparr>lg_pending := resolve_dirty (tt_dirty (lg_tracker ?g2))
      (tt_state (lg_tracker ?g3)) (lg_pending ?g3)\<rparr>"
  let ?g5 = "snd (flush_traffic_writes ?ch True 11 12 ?g4)"
  let ?sys = "\<lambda>g ns tk. \<lparr>sys_ledger = g, sys_inflight = ns, sys_taken = tk\<rparr>"
  have opened: "tt_writer_open (lg_tracker g0)" and t0: "tt_dirty (lg_tracker g0) = []"
    by (simp_all add: g0_def ledger_start_def traffic_initialize_def tracker_new_def)
  have d and st: "tbl_get (tt_state t) ''n1'' \<noteq> None" and td: "tt_dirty t = []"
    using rec opened t0 by (auto simp: record_state_def Let_def table_simps)
  have s0: "?s0 = ?sys g0 [] []" by (simp add: g0_def ledger_start_def)
  have 1: "ledger_step ?ch (?sys g0 [] []) (?sys ?g1 [''n1''] [])"
    using ledger_step.Record [OF rec, of "[]" "[]"] \<open>d\<close> by simp
  have 2: "ledger_step ?ch (?sys ?g1 [''n1''] []) (?sys ?g2 [] [])"
    using ledger_step.Mark [of "''n1''" "[''n1'']" ?ch ?g1 "[]"] by simp
  have 3: "ledger_step ?ch (?sys ?g2 [] []) (?sys ?g3 [] (tt_dirty (lg_tracker ?g2)))"
    by (rule ledger_step.Take)
  have 4: "ledger_step ?ch (?sys ?g3 [] (tt_dirty (lg_tracker ?g2))) (?sys ?g4 [] [])"
    by (rule ledger_step.Resolve)
  have 5: "ledger_step ?ch (?sys ?g4 [] []) (?sys ?g5 [] [])"
    by (rule ledger_step.Flush)
  have run: "(ledger_step ?ch)\<^sup>*\<^sup>* ?s0 (?sys ?g5 [] [])"
    unfolding s0
    by (rule converse_rtranclp_into_rtranclp, rule 1)
      (rule converse_rtranclp_into_rtranclp, rule 2, rule converse_rtranclp_into_rtranclp, rule 3,
       rule converse_rtranclp_into_rtranclp, rule 4, rule r_into_rtranclp, rule 5)
  have "tbl_get (lg_db (sys_ledger (?sys ?g5 [] []))) ''n1'' =
      map_option (row_of_state ?ch)
        (tbl_get (tt_state (lg_tracker (sys_ledger (?sys ?g5 [] [])))) ''n1'')"
    by (rule ledger_durable [OF chrono_timestamps_simple _ _ _ run])
      (simp_all add: flush_effect)
  with run st show ?thesis
    by (intro exI [of _ "?sys ?g5 [] []"]) (simp add: flush_effect mark_dirty_def)
qed

text \<open>
  C26: a removal that reports success is a durable barrier: the nodes are gone from the in-memory
  state and from SQLite when \<open>remove_nodes\<close> returns.
\<close>

theorem remove_nodes_is_durable:
  assumes "ledger_wf g" and "remove_nodes ch committed now clock ns g = (Inr (), g')"
    and "n \<in> set ns"
  shows "tbl_get (tt_state (lg_tracker g')) n = None \<and> tbl_get (lg_db g') n = None"
proof -
  let ?g = "g\<lparr>lg_tracker := mark_dirty ns (remove_state ns (lg_tracker g))\<rparr>"
  have barrier: "writer_barrier ch committed now clock ?g = (Inr (), g')"
    using assms(2,3) by (auto simp: remove_nodes_def split: if_splits)
  have "ledger_wf ?g"
    using assms(1) by (simp add: ledger_wf_def mark_dirty_def remove_state_def nodes_ok_fold_del)
  from writer_barrier_commits [OF this barrier, of n] assms(3) show ?thesis
    by (simp add: mark_dirty_def remove_state_def set_fold_insert fold_tbl_del)
qed

theorem remove_nodes_is_durable_witness:
  "tbl_get (lg_db (snd (remove_nodes chrono_simple True 3 4 [''n1'']
     (sys_ledger (ledger_start chrono_simple 2 []))))) ''n1'' = None"
proof -
  let ?g = "sys_ledger (ledger_start chrono_simple 2 [])"
  have wf: "ledger_wf ?g"
    by (simp add: ledger_start_def ledger_wf_def traffic_initialize_def)
  obtain g' where "remove_nodes chrono_simple True 3 4 [''n1''] ?g = (Inr (), g')"
    by (simp add: remove_nodes_def writer_barrier_def flush_traffic_writes_def Let_def
        write_traffic_states_def ledger_start_def traffic_initialize_def)
  with remove_nodes_is_durable [OF wf this, of "''n1''"] show ?thesis by simp
qed

text \<open>
  C28: what the ledger writes it reads back: every counter survives up to the largest SQLite
  integer, where it stays, and only the transient regression marker is dropped.
\<close>

theorem usage_row_roundtrip:
  assumes "from_timestamp ch (to_timestamp ch (tu_cycle_started_at (us_usage st))) = Some cycle"
  shows "state_of_row ch (tu_node_id (us_usage st)) (row_of_state ch st) =
    Inr (st\<lparr>us_usage := (us_usage st)\<lparr>tu_cycle_started_at := cycle,
               tu_used_bytes := clamp_i64 (tu_used_bytes (us_usage st))\<rparr>,
            us_baseline := \<lparr>rx_bytes = clamp_i64 (rx_bytes (us_baseline st)),
               tx_bytes = clamp_i64 (tx_bytes (us_baseline st)),
               uptime_secs = map_option clamp_i64 (uptime_secs (us_baseline st)),
               rx_high_water = map_option clamp_i64 (rx_high_water (us_baseline st)),
               tx_high_water = map_option clamp_i64 (tx_high_water (us_baseline st)),
               regressed_since_uptime = None\<rparr>\<rparr>)"
  using assms
  by (simp add: state_of_row_def row_of_state_def stored_counter_of_u64 stored_counter_opt_of_u64
      baseline_restored_def)

theorem usage_row_roundtrip_witness:
  "state_of_row chrono_simple ''n1''
     (row_of_state chrono_simple (fresh_usage ''n1'' 5000000000 Outbound sample_a)) =
   Inr (fresh_usage ''n1'' 5000000000 Outbound sample_a)"
proof -
  let ?st = "fresh_usage ''n1'' 5000000000 Outbound sample_a"
  have "from_timestamp chrono_simple (to_timestamp chrono_simple
      (tu_cycle_started_at (us_usage ?st))) = Some 5000000000"
    by (simp add: chrono_simple_def fresh_usage_def)
  from usage_row_roundtrip [OF this] show ?thesis
    by (simp add: fresh_usage_def baseline_new_def baseline_restored_def sample_a_def clamp_i64_def)
qed

text \<open>
  C29: consecutive failed writes are retried after 1, 2, 4, 8, 16 and from then on 30 seconds.
\<close>

theorem backoff_doubles_to_30_seconds:
  "rb_delay ((backoff_failure now ^^ Suc k) backoff_default) = Some (from_secs (min (2 ^ k) 30)) \<and>
   backoff_ready clock ((backoff_failure now ^^ Suc k) backoff_default) =
     (now + from_secs (min (2 ^ k) 30) \<le> clock)"
proof -
  let ?b = "(backoff_failure now ^^ Suc k) backoff_default"
  have "rb_next_attempt_at ?b = map_option ((+) now) (rb_delay ?b)"
    by (simp add: backoff_failure_def Let_def)
  then show ?thesis
    by (simp only: backoff_failures backoff_ready_def) simp
qed

section \<open>Throttling over a month\<close>

text \<open>The readings of all connections in the order in which the ledger takes them.\<close>

type_synonym reading = "datetime \<times> traffic_quota option \<times> string \<times> traffic_sample"


definition samples_of :: "string \<Rightarrow> reading list \<Rightarrow> traffic_sample list" where
  "samples_of n rs = map (\<lambda>(now, quota, m, s). s) (filter (\<lambda>(now, quota, m, s). m = n) rs)"

definition decisions_of :: "string \<Rightarrow> (string \<times> throttle_decision) list \<Rightarrow> throttle_decision list" where
  "decisions_of n ds = map snd (filter (\<lambda>(m, d). m = n) ds)"














lemma samples_of_simps [simp]:
  "samples_of n [] = []"
  "samples_of n ((now, quota, m, s) # rs) = (if m = n then s # samples_of n rs else samples_of n rs)"
  by (simp_all add: samples_of_def)

lemma decisions_of_simps [simp]:
  "decisions_of n [] = []" "decisions_of n ((m, d) # ds) = (if m = n then d # decisions_of n ds else decisions_of n ds)"
  by (simp_all add: decisions_of_def)

definition planned :: "chrono \<Rightarrow> string \<Rightarrow> traffic_quota \<Rightarrow> datetime \<Rightarrow> reading list \<Rightarrow> bool" where
  "planned ch n q month rs \<longleftrightarrow>
     (\<forall>(now, quota, m, s)\<in>set rs. m = n \<longrightarrow> quota = Some q \<and> utc_month_start ch now = month)"

lemma planned_Cons [simp]:
  "planned ch n q month ((now, quota, m, s) # rs) \<longleftrightarrow>
    (m = n \<longrightarrow> quota = Some q \<and> utc_month_start ch now = month) \<and> planned ch n q month rs"
  by (simp add: planned_def)







end
