(* ===== verification/Floats.thy ===== *)
theory Floats
  imports Complex_Main Prelude
begin

text \<open>
  Rust's \<open>f64\<close> as far as NodeLite computes with it: the special values and finite values as the
  rationals they denote, comparison, \<open>round\<close>, and the casts from and to \<open>u64\<close>. All of these are
  exact on finite values, except the cast from \<open>u64\<close>, which rounds to 53 bits, ties to even.
\<close>

datatype f64 = F64_NaN | F64_Inf bool | F64_Fin rat

fun f64_le :: "f64 \<Rightarrow> f64 \<Rightarrow> bool" where
  "f64_le F64_NaN _ = False"
| "f64_le _ F64_NaN = False"
| "f64_le (F64_Inf neg) y = (neg \<or> y = F64_Inf False)"
| "f64_le x (F64_Inf neg) = (\<not> neg)"
| "f64_le (F64_Fin x) (F64_Fin y) = (x \<le> y)"

text \<open>Rounding to the nearest integer, halfway cases away from zero.\<close>

definition round_half_away :: "rat \<Rightarrow> int" where
  "round_half_away x = (if 0 \<le> x then \<lfloor>x + 1 / 2\<rfloor> else \<lceil>x - 1 / 2\<rceil>)"

fun f64_round :: "f64 \<Rightarrow> f64" where
  "f64_round (F64_Fin x) = F64_Fin (of_int (round_half_away x))"
| "f64_round x = x"

text \<open>The saturating cast: towards zero, NaN to 0.\<close>

fun f64_as_u64 :: "f64 \<Rightarrow> u64" where
  "f64_as_u64 F64_NaN = 0"
| "f64_as_u64 (F64_Inf neg) = (if neg then 0 else - 1)"
| "f64_as_u64 (F64_Fin x) =
     (if x < 0 then 0 else if \<lfloor>x\<rfloor> < 2 ^ 64 then word_of_int \<lfloor>x\<rfloor> else - 1)"

definition u64_as_f64 :: "u64 \<Rightarrow> f64" where
  "u64_as_f64 v =
     (let n = unat v in
      if n < 2 ^ 53 then F64_Fin (of_nat n)
      else
        let e = (if n < 2 ^ 54 then 1 else if n < 2 ^ 55 then 2 else if n < 2 ^ 56 then 3
                 else if n < 2 ^ 57 then 4 else if n < 2 ^ 58 then 5 else if n < 2 ^ 59 then 6
                 else if n < 2 ^ 60 then 7 else if n < 2 ^ 61 then 8 else if n < 2 ^ 62 then 9
                 else if n < 2 ^ 63 then 10 else (11 :: nat));
            q = n div 2 ^ e; r = n mod 2 ^ e; half = 2 ^ (e - 1);
            q' = (if half < r \<or> (r = half \<and> odd q) then q + 1 else q)
        in F64_Fin (of_nat (q' * 2 ^ e)))"

text \<open>
  Division and multiplication round the exact result to 53 bits, ties to even. The operands that
  occur are casts from \<open>u64\<close>, \<open>i32\<close> and their quotients, far from overflow and from subnormals.
\<close>

fun bit_length :: "nat \<Rightarrow> nat" where
  "bit_length n = (if n = 0 then 0 else Suc (bit_length (n div 2)))"

declare bit_length.simps [simp del]

definition binary_exponent :: "rat \<Rightarrow> int" where
  "binary_exponent x =
     (let (p, q) = quotient_of x;
          l = int (bit_length (nat p)) - int (bit_length (nat q))
      in if x < 2 powi l then l - 1 else l)"

definition round_half_even :: "rat \<Rightarrow> int" where
  "round_half_even x =
     (let n = \<lfloor>x\<rfloor>; r = x - of_int n
      in if 1 / 2 < r \<or> (r = 1 / 2 \<and> odd n) then n + 1 else n)"

definition f64_of_rat :: "rat \<Rightarrow> rat" where
  "f64_of_rat x =
     (if x = 0 then 0
      else let ulp = 2 powi (binary_exponent \<bar>x\<bar> - 52);
               m = of_int (round_half_even (\<bar>x\<bar> / ulp)) * ulp
           in if x < 0 then - m else m)"

definition f64_div_u64 :: "u64 \<Rightarrow> u64 \<Rightarrow> f64" where
  "f64_div_u64 a b =
     (case (u64_as_f64 a, u64_as_f64 b) of
        (F64_Fin x, F64_Fin y) \<Rightarrow> F64_Fin (f64_of_rat (x / y))
      | _ \<Rightarrow> F64_NaN)"

definition f64_times :: "f64 \<Rightarrow> rat \<Rightarrow> f64" where
  "f64_times x c = (case x of F64_Fin r \<Rightarrow> F64_Fin (f64_of_rat (r * c)) | _ \<Rightarrow> x)"

definition f64_eq :: "f64 \<Rightarrow> f64 \<Rightarrow> bool" where
  "f64_eq x y \<longleftrightarrow> x \<noteq> F64_NaN \<and> x = y"

lemma f64_le_Fin_u64:
  "unat v < 2 ^ 53 \<Longrightarrow> f64_le (u64_as_f64 v) (F64_Fin x) \<longleftrightarrow> of_nat (unat v) \<le> x"
  by (simp add: u64_as_f64_def Let_def)

lemma f64_round_as_u64:
  "0 \<le> x \<Longrightarrow> x < 2 ^ 63 \<Longrightarrow> uint (f64_as_u64 (f64_round (F64_Fin x))) = \<lfloor>x + 1 / 2\<rfloor>"
proof -
  assume x: "0 \<le> x" "x < 2 ^ 63"
  then have "0 \<le> \<lfloor>x + 1 / 2\<rfloor>" and "\<lfloor>x + 1 / 2\<rfloor> < 2 ^ 64"
    by (simp_all add: floor_less_iff)
  with x show ?thesis
    by (simp add: round_half_away_def uint_word_of_int)
qed

end
