(* ===== verification/AlertRules.thy ===== *)
theory AlertRules
  imports Floats
begin

text \<open>
  Alert rules and their evaluation: the configuration types of \<open>nodelite-proto/src/config/alerts.rs\<close>,
  the delivery channels of \<open>nodelite-server/src/alerts/channels.rs\<close>, the saturating time arithmetic
  of \<open>alerts/time_math.rs\<close> and the evaluator and inspection report of \<open>alerts/evaluator.rs\<close>.
\<close>

section \<open>Saturating time arithmetic\<close>

definition MINUTE :: timedelta where
  "MINUTE = 60000000000"

definition HOUR :: timedelta where
  "HOUR = 3600000000000"

text \<open>\<open>i64::try_from\<close>, then \<open>TimeDelta::try_minutes\<close>, which fails beyond the largest delta.\<close>

definition tm_minutes :: "chrono \<Rightarrow> u64 \<Rightarrow> timedelta" where
  "tm_minutes ch v =
     (if uint v < 2 ^ 63 \<and> uint v * MINUTE \<le> delta_max ch then uint v * MINUTE
      else delta_max ch)"

definition tm_hours :: "chrono \<Rightarrow> u64 \<Rightarrow> timedelta" where
  "tm_hours ch v =
     (if uint v < 2 ^ 63 \<and> uint v * HOUR \<le> delta_max ch then uint v * HOUR else delta_max ch)"

definition in_utc :: "chrono \<Rightarrow> datetime \<Rightarrow> bool" where
  "in_utc ch t \<longleftrightarrow> utc_min ch \<le> t \<and> t \<le> utc_max ch"

definition tm_sub :: "chrono \<Rightarrow> datetime \<Rightarrow> timedelta \<Rightarrow> datetime" where
  "tm_sub ch t delta = (if in_utc ch (t - delta) then t - delta else utc_min ch)"

definition tm_add :: "chrono \<Rightarrow> datetime \<Rightarrow> timedelta \<Rightarrow> datetime" where
  "tm_add ch t delta = (if in_utc ch (t + delta) then t + delta else utc_max ch)"

text \<open>The documented order of the chrono bounds: the delta range covers the whole time line.\<close>

definition chrono_range :: "chrono \<Rightarrow> bool" where
  "chrono_range ch \<longleftrightarrow> utc_min ch \<le> 0 \<and> 0 \<le> utc_max ch \<and> utc_max ch - utc_min ch < delta_max ch"

lemma chrono_range_simple: "chrono_range chrono_simple"
  by (simp add: chrono_range_def chrono_simple_def)

lemma tm_minutes_bounds:
  "chrono_range ch \<Longrightarrow> 0 \<le> tm_minutes ch v \<and> tm_minutes ch v \<le> delta_max ch"
  by (simp add: tm_minutes_def chrono_range_def MINUTE_def)

lemma tm_sub_in_utc: "chrono_range ch \<Longrightarrow> in_utc ch (tm_sub ch t d)"
  by (simp add: tm_sub_def in_utc_def chrono_range_def)

lemma tm_add_in_utc: "chrono_range ch \<Longrightarrow> in_utc ch (tm_add ch t d)"
  by (simp add: tm_add_def in_utc_def chrono_range_def)

section \<open>Channels\<close>

record channel_set =
  ch_webhook :: bool
  ch_smtp :: bool

definition CH_ALL :: channel_set where
  "CH_ALL = \<lparr>ch_webhook = True, ch_smtp = True\<rparr>"

definition CH_NONE :: channel_set where
  "CH_NONE = \<lparr>ch_webhook = False, ch_smtp = False\<rparr>"

definition ch_is_empty :: "channel_set \<Rightarrow> bool" where
  "ch_is_empty a \<longleftrightarrow> \<not> ch_webhook a \<and> \<not> ch_smtp a"

definition ch_union :: "channel_set \<Rightarrow> channel_set \<Rightarrow> channel_set" where
  "ch_union a b = \<lparr>ch_webhook = (ch_webhook a \<or> ch_webhook b), ch_smtp = (ch_smtp a \<or> ch_smtp b)\<rparr>"

definition ch_without :: "channel_set \<Rightarrow> channel_set \<Rightarrow> channel_set" where
  "ch_without a b =
     \<lparr>ch_webhook = (ch_webhook a \<and> \<not> ch_webhook b), ch_smtp = (ch_smtp a \<and> \<not> ch_smtp b)\<rparr>"

definition ch_subset :: "channel_set \<Rightarrow> channel_set \<Rightarrow> bool" where
  "ch_subset a b \<longleftrightarrow> (ch_webhook a \<longrightarrow> ch_webhook b) \<and> (ch_smtp a \<longrightarrow> ch_smtp b)"

lemmas ch_defs = CH_ALL_def CH_NONE_def ch_is_empty_def ch_union_def ch_without_def ch_subset_def

section \<open>Rules\<close>

datatype alert_metric = CpuUsagePercent | MemoryUsagePercent | DiskUsagePercent | LatencyMs
  | OfflineMinutes | TrafficUsagePercent

datatype alert_comparator = Gt | Lt

datatype alert_severity = Warning | Critical

datatype alert_scope_mode = ScopeAll | ScopeNodeIds | ScopeTags

datatype alert_channel = Smtp | Webhook

record alert_rule =
  ar_id :: string
  ar_name :: string
  ar_enabled :: bool
  ar_metric :: alert_metric
  ar_comparator :: alert_comparator
  ar_threshold :: u64
  ar_window_minutes :: u64
  ar_severity :: alert_severity
  ar_scope_mode :: alert_scope_mode
  ar_node_ids :: "string list"
  ar_tags :: "string list"
  ar_delivery :: "alert_channel list"
  ar_cooldown_minutes :: u64
  ar_send_resolved :: bool

record inspection_config =
  ic_enabled :: bool
  ic_local_time :: string
  ic_lookback_hours :: u64
  ic_delivery :: "alert_channel list"
  ic_offline_grace_minutes :: u64
  ic_latency_warn_ms :: u64
  ic_cpu_warn_percent :: u64
  ic_memory_warn_percent :: u64

section \<open>What the evaluator sees of a node\<close>

text \<open>
  The methods of the trait \<open>AlertStatusView\<close>; of a snapshot, the fields the evaluator reads.
\<close>

record disk_view =
  dv_total_bytes :: u64
  dv_used_bytes :: u64

record snapshot_view =
  sv_collected_at :: datetime
  sv_cpu_usage_percent :: "f64 option"
  sv_memory_total :: u64
  sv_memory_used :: u64
  sv_disks :: "disk_view list"

record status_view =
  st_node_id :: string
  st_node_label :: string
  st_tags :: "string list"
  st_snapshot :: "snapshot_view option"
  st_last_seen :: "datetime option"
  st_latency_ms :: "u64 option"
  st_online :: bool
  st_traffic_usage_percent :: "u64 option"

record alert_reading =
  rd_metric :: alert_metric
  rd_value :: u64
  rd_threshold :: u64

record evaluated_rule =
  er_rule_id :: string
  er_node_id :: string
  er_node_label :: string
  er_reading :: alert_reading

section \<open>Evaluation\<close>

definition usage_percent :: "u64 \<Rightarrow> u64 \<Rightarrow> u64" where
  "usage_percent used capacity = min (sat_mul used 100 div capacity) 100"

definition memory_percent :: "status_view \<Rightarrow> u64 option" where
  "memory_percent st =
     (case st_snapshot st of
        None \<Rightarrow> None
      | Some sn \<Rightarrow> if sv_memory_total sn = 0 then None
                  else Some (usage_percent (sv_memory_used sn) (sv_memory_total sn)))"

fun max_option :: "u64 list \<Rightarrow> u64 option" where
  "max_option [] = None"
| "max_option (x # xs) = Some (fold max xs x)"

definition max_disk_percent :: "status_view \<Rightarrow> u64 option" where
  "max_disk_percent st =
     (case st_snapshot st of
        None \<Rightarrow> None
      | Some sn \<Rightarrow> max_option (map (\<lambda>d. usage_percent (dv_used_bytes d) (dv_total_bytes d))
                    (filter (\<lambda>d. 0 < dv_total_bytes d) (sv_disks sn))))"

definition offline_minutes :: "status_view \<Rightarrow> datetime \<Rightarrow> u64 option" where
  "offline_minutes st now =
     (if st_online st then None
      else case st_last_seen st of
             None \<Rightarrow> None
           | Some seen \<Rightarrow> Some (word_of_int (max 0 ((now - seen) div MINUTE))))"

definition metric_value :: "alert_metric \<Rightarrow> status_view \<Rightarrow> datetime \<Rightarrow> u64 option" where
  "metric_value m st now =
     (case m of
        CpuUsagePercent \<Rightarrow>
          Option.bind (st_snapshot st)
            (\<lambda>sn. map_option (\<lambda>v. f64_as_u64 (f64_round v)) (sv_cpu_usage_percent sn))
      | MemoryUsagePercent \<Rightarrow> memory_percent st
      | DiskUsagePercent \<Rightarrow> max_disk_percent st
      | LatencyMs \<Rightarrow> st_latency_ms st
      | OfflineMinutes \<Rightarrow> offline_minutes st now
      | TrafficUsagePercent \<Rightarrow> st_traffic_usage_percent st)"

definition comparator_matches :: "alert_comparator \<Rightarrow> u64 \<Rightarrow> u64 \<Rightarrow> bool" where
  "comparator_matches c left right = (case c of Gt \<Rightarrow> right < left | Lt \<Rightarrow> left < right)"

definition rule_comparator_matches :: "alert_rule \<Rightarrow> u64 \<Rightarrow> bool" where
  "rule_comparator_matches r v =
     (if ar_metric r = TrafficUsagePercent \<and> ar_comparator r = Gt then ar_threshold r \<le> v
      else comparator_matches (ar_comparator r) v (ar_threshold r))"

definition rule_matches_scope :: "alert_rule \<Rightarrow> status_view \<Rightarrow> bool" where
  "rule_matches_scope r st =
     (case ar_scope_mode r of
        ScopeAll \<Rightarrow> True
      | ScopeNodeIds \<Rightarrow> list_ex (\<lambda>n. n = st_node_id st) (ar_node_ids r)
      | ScopeTags \<Rightarrow> list_ex (\<lambda>t. list_ex (\<lambda>rt. rt = t) (ar_tags r)) (st_tags st))"

definition rule_metric_value :: "alert_rule \<Rightarrow> status_view \<Rightarrow> datetime \<Rightarrow> u64 option" where
  "rule_metric_value r st now =
     (if \<not> rule_matches_scope r st then None else metric_value (ar_metric r) st now)"

definition evaluate_rule :: "alert_rule \<Rightarrow> status_view \<Rightarrow> datetime \<Rightarrow> evaluated_rule option" where
  "evaluate_rule r st now =
     (case rule_metric_value r st now of
        None \<Rightarrow> None
      | Some v \<Rightarrow>
          if \<not> rule_comparator_matches r v then None
          else Some \<lparr>er_rule_id = ar_id r, er_node_id = st_node_id st,
                     er_node_label = st_node_label st,
                     er_reading = \<lparr>rd_metric = ar_metric r, rd_value = v,
                                    rd_threshold = ar_threshold r\<rparr>\<rparr>)"

definition evaluate_rules ::
  "alert_rule list \<Rightarrow> status_view list \<Rightarrow> datetime \<Rightarrow> evaluated_rule list" where
  "evaluate_rules rules sts now =
     concat (map (\<lambda>r. List.map_filter (\<lambda>st. evaluate_rule r st now) sts) (filter ar_enabled rules))"

section \<open>The inspection report\<close>

text \<open>
  The summaries of the report are English sentences over these values; the model keeps the values.
\<close>

datatype highlight_summary =
    OfflineFor u64 u64
  | RttHigh u64 u64
  | CpuHot f64 u64
  | MemoryHot u64 u64

record highlight_event =
  he_occurred_at :: datetime
  he_summary :: highlight_summary

record highlight =
  hl_node_id :: string
  hl_node_label :: string
  hl_events :: "highlight_event list"

record inspection_report =
  ir_total_nodes :: nat
  ir_offline_nodes :: nat
  ir_latency_nodes :: nat
  ir_cpu_hot_nodes :: nat
  ir_memory_hot_nodes :: nat
  ir_highlights :: "highlight list"

definition offline_threshold_time :: "chrono \<Rightarrow> status_view \<Rightarrow> datetime \<Rightarrow> u64 \<Rightarrow> datetime" where
  "offline_threshold_time ch st now grace =
     (case st_last_seen st of
        None \<Rightarrow> now
      | Some seen \<Rightarrow> min (tm_add ch seen (tm_minutes ch grace)) now)"

definition metric_observed_at :: "status_view \<Rightarrow> datetime \<Rightarrow> datetime" where
  "metric_observed_at st now =
     (case st_snapshot st of
        Some sn \<Rightarrow> sv_collected_at sn
      | None \<Rightarrow> (case st_last_seen st of Some seen \<Rightarrow> seen | None \<Rightarrow> now))"

definition offline_event ::
  "chrono \<Rightarrow> inspection_config \<Rightarrow> status_view \<Rightarrow> datetime \<Rightarrow> highlight_event list" where
  "offline_event ch ic st now =
     (case offline_minutes st now of
        Some m \<Rightarrow> if ic_offline_grace_minutes ic \<le> m
          then [\<lparr>he_occurred_at = offline_threshold_time ch st now (ic_offline_grace_minutes ic),
                 he_summary = OfflineFor m (ic_offline_grace_minutes ic)\<rparr>] else []
      | None \<Rightarrow> [])"

definition latency_event :: "inspection_config \<Rightarrow> status_view \<Rightarrow> datetime \<Rightarrow> highlight_event list" where
  "latency_event ic st now =
     (case st_latency_ms st of
        Some l \<Rightarrow> if ic_latency_warn_ms ic \<le> l
          then [\<lparr>he_occurred_at = metric_observed_at st now,
                 he_summary = RttHigh l (ic_latency_warn_ms ic)\<rparr>] else []
      | None \<Rightarrow> [])"

definition cpu_event :: "inspection_config \<Rightarrow> status_view \<Rightarrow> datetime \<Rightarrow> highlight_event list" where
  "cpu_event ic st now =
     (case Option.bind (st_snapshot st) sv_cpu_usage_percent of
        Some c \<Rightarrow> if f64_le (u64_as_f64 (ic_cpu_warn_percent ic)) c
          then [\<lparr>he_occurred_at = metric_observed_at st now,
                 he_summary = CpuHot c (ic_cpu_warn_percent ic)\<rparr>] else []
      | None \<Rightarrow> [])"

definition memory_event :: "inspection_config \<Rightarrow> status_view \<Rightarrow> datetime \<Rightarrow> highlight_event list" where
  "memory_event ic st now =
     (case memory_percent st of
        Some m \<Rightarrow> if ic_memory_warn_percent ic \<le> m
          then [\<lparr>he_occurred_at = metric_observed_at st now,
                 he_summary = MemoryHot m (ic_memory_warn_percent ic)\<rparr>] else []
      | None \<Rightarrow> [])"

definition inspect_status ::
  "chrono \<Rightarrow> inspection_config \<Rightarrow> datetime \<Rightarrow> status_view \<Rightarrow> inspection_report \<Rightarrow> inspection_report" where
  "inspect_status ch ic now st r =
     (let off = offline_event ch ic st now; lat = latency_event ic st now;
          cpu = cpu_event ic st now; mem = memory_event ic st now;
          events = off @ lat @ cpu @ mem
      in r\<lparr>ir_total_nodes := ir_total_nodes r + 1,
            ir_offline_nodes := ir_offline_nodes r + length off,
            ir_latency_nodes := ir_latency_nodes r + length lat,
            ir_cpu_hot_nodes := ir_cpu_hot_nodes r + length cpu,
            ir_memory_hot_nodes := ir_memory_hot_nodes r + length mem,
            ir_highlights := ir_highlights r @
              (if events = [] then []
               else [\<lparr>hl_node_id = st_node_id st, hl_node_label = st_node_label st,
                      hl_events = events\<rparr>])\<rparr>)"

definition empty_report :: inspection_report where
  "empty_report = \<lparr>ir_total_nodes = 0, ir_offline_nodes = 0, ir_latency_nodes = 0,
     ir_cpu_hot_nodes = 0, ir_memory_hot_nodes = 0, ir_highlights = []\<rparr>"

definition build_inspection_report ::
  "chrono \<Rightarrow> inspection_config \<Rightarrow> status_view list \<Rightarrow> datetime \<Rightarrow> inspection_report" where
  "build_inspection_report ch ic sts now = fold (inspect_status ch ic now) sts empty_report"

section \<open>Facts about the evaluator\<close>

lemma usage_percent_le: "usage_percent used capacity \<le> 100"
  by (simp add: usage_percent_def)

lemma usage_percent_exact:
  assumes "used \<le> capacity" and "0 < capacity" and "unat used * 100 < 2 ^ 64"
  shows "unat (usage_percent used capacity) = unat used * 100 div unat capacity"
proof -
  have "unat used * 100 div unat capacity \<le> 100"
    using assms(1) by (simp add: word_le_nat_alt div_le_mono2 less_mult_imp_div_less
        div_le_dividend le_trans [OF div_le_mono [of "unat used * 100" "unat capacity * 100"]])
  with assms(3) show ?thesis
    by (simp add: usage_percent_def unat_min unat_div unat_sat_mul)
qed

lemma evaluate_rule_Some:
  "evaluate_rule r st now = Some e \<longleftrightarrow>
    (\<exists>v. rule_matches_scope r st \<and> metric_value (ar_metric r) st now = Some v \<and>
         rule_comparator_matches r v \<and>
         e = \<lparr>er_rule_id = ar_id r, er_node_id = st_node_id st, er_node_label = st_node_label st,
              er_reading = \<lparr>rd_metric = ar_metric r, rd_value = v,
                             rd_threshold = ar_threshold r\<rparr>\<rparr>)"
  by (auto simp: evaluate_rule_def rule_metric_value_def split: option.splits if_splits)

lemma set_evaluate_rules:
  "e \<in> set (evaluate_rules rules sts now) \<longleftrightarrow>
    (\<exists>r \<in> set rules. ar_enabled r \<and> (\<exists>st \<in> set sts. evaluate_rule r st now = Some e))"
  by (force simp: evaluate_rules_def List.map_filter_def image_iff)

lemma evaluated_rule_key:
  "evaluate_rule r st now = Some e \<Longrightarrow> er_rule_id e = ar_id r \<and> er_node_id e = st_node_id st"
  by (auto simp: evaluate_rule_Some)

definition alert_key :: "evaluated_rule \<Rightarrow> string \<times> string" where
  "alert_key e = (er_rule_id e, er_node_id e)"

lemma map_key_filter:
  "map alert_key (List.map_filter (\<lambda>st. evaluate_rule r st now) sts) =
    map (Pair (ar_id r)) (map st_node_id (filter (\<lambda>st. evaluate_rule r st now \<noteq> None) sts))"
  by (induction sts) (auto simp: List.map_filter_simps alert_key_def dest: evaluated_rule_key
      split: option.splits)

text \<open>Distinct rule ids and distinct node ids give at most one match per alert instance.\<close>

lemma distinct_evaluate_rules:
  assumes "distinct (map ar_id (filter ar_enabled rules))" and "distinct (map st_node_id sts)"
  shows "distinct (map alert_key (evaluate_rules rules sts now))"
  using assms(1) unfolding evaluate_rules_def
proof (induction rules)
  case (Cons r rules)
  have "distinct (map st_node_id (filter (\<lambda>st. evaluate_rule r st now \<noteq> None) sts))"
    by (rule distinct_map_filter [OF assms(2)])
  then have sts: "distinct (map (Pair (ar_id r))
      (map st_node_id (filter (\<lambda>st. evaluate_rule r st now \<noteq> None) sts)))"
    unfolding distinct_map [of "Pair (ar_id r)"] by (simp add: inj_on_def)
  let ?rest = "map alert_key (concat (map (\<lambda>r. List.map_filter (\<lambda>st. evaluate_rule r st now) sts)
      (filter ar_enabled rules)))"
  have other: "fst k \<in> ar_id ` set (filter ar_enabled rules)" if "k \<in> set ?rest" for k
    using that by (auto simp: map_concat map_key_filter)
  show ?case
  proof (cases "ar_enabled r")
    case True
    then have rest: "distinct ?rest" "ar_id r \<notin> ar_id ` set (filter ar_enabled rules)"
      using Cons by auto
    have "set (map alert_key (List.map_filter (\<lambda>st. evaluate_rule r st now) sts)) \<inter> set ?rest = {}"
      using other rest(2) unfolding map_key_filter by fastforce
    then show ?thesis
      using True sts rest(1) by (simp add: map_key_filter del: map_map)
  next
    case False
    then show ?thesis
      using Cons by simp
  qed
qed simp

end
