(* ===== verification/AlertTracker.thy ===== *)
theory AlertTracker
  imports AlertRules
begin

text \<open>
  The alert state machine of \<open>nodelite-server/src/alerts/tracker.rs\<close>: which evaluations become
  notifications, how delivery outcomes are folded back, when a failed delivery is retried and when
  the resolved notice is released. Its run-level properties are proved for every sequence of
  evaluations, delivery outcomes and resets.
\<close>

section \<open>Model\<close>

definition DELIVERY_FAILURE_RETRY_DELAY_MINUTES :: int where
  "DELIVERY_FAILURE_RETRY_DELAY_MINUTES = 5"

datatype alert_event_kind = Triggered | Resolved

record alert_event =
  ae_kind :: alert_event_kind
  ae_occurred_at :: datetime
  ae_rule :: alert_rule
  ae_node_id :: string
  ae_node_label :: string
  ae_reading :: "alert_reading option"
  ae_channels :: channel_set

type_synonym alert_instance_key = "string \<times> string"

record active_alert =
  aa_node_label :: string
  aa_last_reading :: alert_reading
  aa_last_notified_at :: datetime
  aa_round_started_at :: datetime
  aa_round_delivered :: channel_set
  aa_outcome_seen :: bool
  aa_retry_pending :: bool
  aa_ever_delivered :: channel_set
  aa_resolved_at :: "datetime option"

type_synonym alert_tracker = "(alert_instance_key, active_alert) table"

definition holds_resolved_notice :: "active_alert \<Rightarrow> bool" where
  "holds_resolved_notice a \<longleftrightarrow>
     \<not> aa_outcome_seen a \<or> (aa_retry_pending a \<and> ch_is_empty (aa_ever_delivered a))"

definition resolved_channels :: "active_alert \<Rightarrow> channel_set" where
  "resolved_channels a =
     (if ch_is_empty (aa_ever_delivered a) then CH_ALL else aa_ever_delivered a)"

definition should_repeat_alert :: "chrono \<Rightarrow> datetime \<Rightarrow> u64 \<Rightarrow> datetime \<Rightarrow> bool" where
  "should_repeat_alert ch last_notified_at cooldown now \<longleftrightarrow>
     tm_minutes ch cooldown \<le> now - last_notified_at"

definition retry_notified_at :: "chrono \<Rightarrow> u64 \<Rightarrow> datetime \<Rightarrow> datetime" where
  "retry_notified_at ch cooldown now =
     tm_sub ch now (tm_minutes ch cooldown - DELIVERY_FAILURE_RETRY_DELAY_MINUTES * MINUTE)"

definition triggered_event :: "alert_rule \<Rightarrow> evaluated_rule \<Rightarrow> datetime \<Rightarrow> alert_event" where
  "triggered_event r m now =
     \<lparr>ae_kind = Triggered, ae_occurred_at = now, ae_rule = r, ae_node_id = er_node_id m,
      ae_node_label = er_node_label m, ae_reading = Some (er_reading m), ae_channels = CH_ALL\<rparr>"

definition resolved_event ::
  "alert_rule \<Rightarrow> string \<Rightarrow> active_alert \<Rightarrow> datetime \<Rightarrow> alert_event" where
  "resolved_event r node a since =
     \<lparr>ae_kind = Resolved, ae_occurred_at = since, ae_rule = r, ae_node_id = node,
      ae_node_label = aa_node_label a, ae_reading = Some (aa_last_reading a),
      ae_channels = resolved_channels a\<rparr>"

text \<open>Collecting pairs into a map: a later enabled rule with the same id replaces an earlier one.\<close>

definition rules_by_id :: "alert_rule list \<Rightarrow> (string, alert_rule) table" where
  "rules_by_id rules = fold (\<lambda>r t. tbl_put (ar_id r) r t) (filter ar_enabled rules) []"

definition fresh_active :: "evaluated_rule \<Rightarrow> datetime \<Rightarrow> active_alert" where
  "fresh_active m now =
     \<lparr>aa_node_label = er_node_label m, aa_last_reading = er_reading m, aa_last_notified_at = now,
      aa_round_started_at = now, aa_round_delivered = CH_NONE, aa_outcome_seen = False,
      aa_retry_pending = False, aa_ever_delivered = CH_NONE, aa_resolved_at = None\<rparr>"

text \<open>The branch for an alert that is already active.\<close>

definition touch_active ::
  "chrono \<Rightarrow> alert_rule \<Rightarrow> evaluated_rule \<Rightarrow> datetime \<Rightarrow> active_alert
    \<Rightarrow> active_alert \<times> alert_event list" where
  "touch_active ch r m now a0 =
     (let a = a0\<lparr>aa_node_label := er_node_label m, aa_last_reading := er_reading m,
                 aa_resolved_at := None\<rparr>
      in if should_repeat_alert ch (aa_last_notified_at a) (ar_cooldown_minutes r) now then
           let a = a\<lparr>aa_last_notified_at := now\<rparr>;
               a = (if \<not> aa_retry_pending a \<or>
                       should_repeat_alert ch (aa_round_started_at a) (ar_cooldown_minutes r) now
                    then a\<lparr>aa_round_started_at := now, aa_round_delivered := CH_NONE\<rparr> else a)
           in (a, [(triggered_event r m now)\<lparr>ae_channels := ch_without CH_ALL (aa_round_delivered a)\<rparr>])
         else (a, []))"

type_synonym update_state = "alert_tracker \<times> alert_instance_key set \<times> alert_event list"

definition tracker_on_match ::
  "chrono \<Rightarrow> (string, alert_rule) table \<Rightarrow> datetime \<Rightarrow> evaluated_rule
    \<Rightarrow> update_state \<Rightarrow> update_state" where
  "tracker_on_match ch by_id now m = (\<lambda>(act, current, events).
     case tbl_get by_id (er_rule_id m) of
       None \<Rightarrow> (act, current, events)
     | Some r \<Rightarrow>
         (case tbl_get act (alert_key m) of
            Some a \<Rightarrow>
              (let (a', es) = touch_active ch r m now a
               in (tbl_put (alert_key m) a' act, insert (alert_key m) current, events @ es))
          | None \<Rightarrow>
              (tbl_put (alert_key m) (fresh_active m now) act, insert (alert_key m) current,
               events @ [triggered_event r m now])))"

definition tracker_on_gone ::
  "(string, alert_rule) table \<Rightarrow> datetime \<Rightarrow> alert_instance_key
    \<Rightarrow> alert_tracker \<times> alert_event list \<Rightarrow> alert_tracker \<times> alert_event list" where
  "tracker_on_gone by_id now key = (\<lambda>(act, events).
     case tbl_get act key of
       None \<Rightarrow> (act, events)
     | Some a \<Rightarrow>
         (let act = tbl_del key act in
          case tbl_get by_id (fst key) of
            None \<Rightarrow> (act, events)
          | Some r \<Rightarrow>
              if holds_resolved_notice a
              then (tbl_put key (a\<lparr>aa_resolved_at := Some now\<rparr>) act, events)
              else (act, if ar_send_resolved r then events @ [resolved_event r (snd key) a now]
                         else events)))"

definition tracker_update ::
  "chrono \<Rightarrow> alert_rule list \<Rightarrow> evaluated_rule list \<Rightarrow> datetime \<Rightarrow> alert_tracker
    \<Rightarrow> alert_tracker \<times> alert_event list" where
  "tracker_update ch rules matches now t =
     (let by_id = rules_by_id rules;
          (act, current, events) = fold (tracker_on_match ch by_id now) matches (t, {}, []);
          gone = filter (\<lambda>k. k \<notin> current) (map fst act)
      in fold (tracker_on_gone by_id now) gone (act, events))"

text \<open>The part of \<open>record_delivery_outcome\<close> that folds the outcome into the active entry.\<close>

definition after_outcome ::
  "chrono \<Rightarrow> alert_event \<Rightarrow> channel_set \<Rightarrow> bool \<Rightarrow> datetime \<Rightarrow> active_alert \<Rightarrow> active_alert" where
  "after_outcome ch ev delivered failed now a0 =
     (let a = a0\<lparr>aa_outcome_seen := True,
                 aa_round_delivered := ch_union (aa_round_delivered a0) delivered,
                 aa_ever_delivered := ch_union (aa_ever_delivered a0) delivered,
                 aa_retry_pending := failed\<rparr>
      in if failed then a\<lparr>aa_last_notified_at :=
           retry_notified_at ch (ar_cooldown_minutes (ae_rule ev)) now\<rparr> else a)"

definition record_delivery_outcome ::
  "chrono \<Rightarrow> alert_event \<Rightarrow> channel_set \<Rightarrow> bool \<Rightarrow> datetime \<Rightarrow> alert_tracker
    \<Rightarrow> alert_tracker \<times> alert_event option" where
  "record_delivery_outcome ch ev delivered failed now t =
     (if ae_kind ev \<noteq> Triggered then (t, None)
      else
        let key = (ar_id (ae_rule ev), ae_node_id ev) in
        case tbl_get t key of
          None \<Rightarrow> (t, None)
        | Some a \<Rightarrow>
            let a = after_outcome ch ev delivered failed now a
            in case aa_resolved_at a of
                 None \<Rightarrow> (tbl_put key a t, None)
               | Some since \<Rightarrow>
                   if holds_resolved_notice a then (tbl_put key a t, None)
                   else (tbl_del key (tbl_put key a t),
                         if \<not> ar_send_resolved (ae_rule ev) then None
                         else Some (resolved_event (ae_rule ev) (ae_node_id ev) a since)))"

definition tracker_clear :: "alert_tracker \<Rightarrow> alert_tracker" where
  "tracker_clear t = []"

section \<open>One evaluation, entry by entry\<close>

text \<open>What an evaluation does to one alert instance and which events it adds, as functions of
  the state before it.\<close>

definition matched_entry ::
  "chrono \<Rightarrow> alert_rule \<Rightarrow> evaluated_rule \<Rightarrow> datetime \<Rightarrow> active_alert option \<Rightarrow> active_alert" where
  "matched_entry ch r m now old =
     (case old of None \<Rightarrow> fresh_active m now | Some a \<Rightarrow> fst (touch_active ch r m now a))"

definition matched_events ::
  "chrono \<Rightarrow> alert_rule \<Rightarrow> evaluated_rule \<Rightarrow> datetime \<Rightarrow> active_alert option \<Rightarrow> alert_event list" where
  "matched_events ch r m now old =
     (case old of None \<Rightarrow> [triggered_event r m now] | Some a \<Rightarrow> snd (touch_active ch r m now a))"

definition known :: "alert_rule list \<Rightarrow> evaluated_rule list \<Rightarrow> evaluated_rule list" where
  "known rules ms = filter (\<lambda>m. tbl_get (rules_by_id rules) (er_rule_id m) \<noteq> None) ms"

lemma on_match_known:
  "tbl_get by_id (er_rule_id m) = Some r \<Longrightarrow>
    tracker_on_match ch by_id now m (act, cur, evs) =
      (tbl_put (alert_key m) (matched_entry ch r m now (tbl_get act (alert_key m))) act,
       insert (alert_key m) cur, evs @ matched_events ch r m now (tbl_get act (alert_key m)))"
  by (simp add: tracker_on_match_def matched_entry_def matched_events_def case_prod_beta
      split: option.split)

lemma on_match_unknown:
  "tbl_get by_id (er_rule_id m) = None \<Longrightarrow> tracker_on_match ch by_id now m s = s"
  by (simp add: tracker_on_match_def case_prod_beta)

definition rule_of :: "(string, alert_rule) table \<Rightarrow> evaluated_rule \<Rightarrow> alert_rule" where
  "rule_of by_id m = the (tbl_get by_id (er_rule_id m))"

lemma fold_on_match:
  assumes "distinct (map alert_key (filter (\<lambda>m. tbl_get by_id (er_rule_id m) \<noteq> None) ms))"
    and "fold (tracker_on_match ch by_id now) ms (act, cur, evs) = (act', cur', evs')"
  shows "cur' = cur \<union> alert_key ` set (filter (\<lambda>m. tbl_get by_id (er_rule_id m) \<noteq> None) ms) \<and>
    (tbl_ok act \<longrightarrow> tbl_ok act') \<and>
    evs' = evs @ concat (map (\<lambda>m. matched_events ch (rule_of by_id m) m now
        (tbl_get act (alert_key m))) (filter (\<lambda>m. tbl_get by_id (er_rule_id m) \<noteq> None) ms)) \<and>
    (\<forall>k. k \<notin> alert_key ` set (filter (\<lambda>m. tbl_get by_id (er_rule_id m) \<noteq> None) ms) \<longrightarrow>
       tbl_get act' k = tbl_get act k) \<and>
    (\<forall>m \<in> set (filter (\<lambda>m. tbl_get by_id (er_rule_id m) \<noteq> None) ms).
       tbl_get act' (alert_key m) =
         Some (matched_entry ch (rule_of by_id m) m now (tbl_get act (alert_key m))))"
  using assms
proof (induction ms arbitrary: act cur evs)
  case Nil
  then show ?case by simp
next
  case (Cons m ms)
  show ?case
  proof (cases "tbl_get by_id (er_rule_id m)")
    case None
    then show ?thesis
      using Cons.IH [OF _ Cons.prems(2) [simplified on_match_unknown [OF None] fold_simps]]
        Cons.prems by (simp add: on_match_unknown)
  next
    case (Some r)
    let ?act = "tbl_put (alert_key m) (matched_entry ch r m now (tbl_get act (alert_key m))) act"
    let ?ks = "filter (\<lambda>m. tbl_get by_id (er_rule_id m) \<noteq> None) ms"
    have fresh: "alert_key m \<notin> alert_key ` set ?ks" and d: "distinct (map alert_key ?ks)"
      using Cons.prems(1) Some by simp_all
    have run: "fold (tracker_on_match ch by_id now) ms (?act, insert (alert_key m) cur,
        evs @ matched_events ch r m now (tbl_get act (alert_key m))) = (act', cur', evs')"
      using Cons.prems(2) by (simp add: on_match_known [OF Some])
    note IH = Cons.IH [OF d run]
    note IH_cur = IH [THEN conjunct1] and IH_ok = IH [THEN conjunct2, THEN conjunct1]
      and IH_events = IH [THEN conjunct2, THEN conjunct2, THEN conjunct1]
      and IH_out = IH [THEN conjunct2, THEN conjunct2, THEN conjunct2, THEN conjunct1]
      and IH_in = IH [THEN conjunct2, THEN conjunct2, THEN conjunct2, THEN conjunct2]
    have same: "tbl_get ?act (alert_key m') = tbl_get act (alert_key m')" if "m' \<in> set ?ks" for m'
    proof -
      have "alert_key m' \<noteq> alert_key m"
        using imageI [OF that, of alert_key] fresh by metis
      then show ?thesis
        by (simp add: tbl_get_put)
    qed
    have ev: "map (\<lambda>m. matched_events ch (rule_of by_id m) m now (tbl_get ?act (alert_key m))) ?ks =
        map (\<lambda>m. matched_events ch (rule_of by_id m) m now (tbl_get act (alert_key m))) ?ks"
      by (rule map_cong [OF refl]) (simp add: same del: set_filter)
    have hd: "tbl_get act' (alert_key m) = Some (matched_entry ch r m now (tbl_get act (alert_key m)))"
      using mp [OF spec [OF IH_out, of "alert_key m"] fresh] by (simp add: tbl_get_put)
    have r: "rule_of by_id m = r"
      by (simp add: rule_of_def Some)
    have f: "filter (\<lambda>m. tbl_get by_id (er_rule_id m) \<noteq> None) (m # ms) = m # ?ks"
      using Some by simp
    show ?thesis
      unfolding f
    proof (intro conjI)
      show "cur' = cur \<union> alert_key ` set (m # ?ks)"
        unfolding IH_cur by simp
      show "tbl_ok act \<longrightarrow> tbl_ok act'"
        using IH_ok tbl_ok_put [of act] by blast
      show "evs' = evs @ concat (map (\<lambda>m. matched_events ch (rule_of by_id m) m now
          (tbl_get act (alert_key m))) (m # ?ks))"
        unfolding IH_events ev by (simp add: r)
      show "\<forall>k. k \<notin> alert_key ` set (m # ?ks) \<longrightarrow> tbl_get act' k = tbl_get act k"
      proof (intro allI impI)
        fix k assume "k \<notin> alert_key ` set (m # ?ks)"
        then have "k \<notin> alert_key ` set ?ks" and "k \<noteq> alert_key m"
          by auto
        then show "tbl_get act' k = tbl_get act k"
          using mp [OF spec [OF IH_out, of k]] by (simp add: tbl_get_put)
      qed
      show "\<forall>m \<in> set (m # ?ks). tbl_get act' (alert_key m) =
          Some (matched_entry ch (rule_of by_id m) m now (tbl_get act (alert_key m)))"
      proof
        fix x assume "x \<in> set (m # ?ks)"
        then consider "x = m" | "x \<in> set ?ks"
          by auto
        then show "tbl_get act' (alert_key x) =
            Some (matched_entry ch (rule_of by_id x) x now (tbl_get act (alert_key x)))"
          using hd r bspec [OF IH_in, of x] same [of x] by cases simp_all
      qed
    qed
  qed
qed

definition gone_entry ::
  "(string, alert_rule) table \<Rightarrow> datetime \<Rightarrow> alert_instance_key \<Rightarrow> active_alert
    \<Rightarrow> active_alert option" where
  "gone_entry by_id now k a =
     (if tbl_get by_id (fst k) \<noteq> None \<and> holds_resolved_notice a
      then Some (a\<lparr>aa_resolved_at := Some now\<rparr>) else None)"

definition gone_events ::
  "(string, alert_rule) table \<Rightarrow> datetime \<Rightarrow> alert_instance_key \<Rightarrow> active_alert option
    \<Rightarrow> alert_event list" where
  "gone_events by_id now k old =
     (case (old, tbl_get by_id (fst k)) of
        (Some a, Some r) \<Rightarrow>
          if \<not> holds_resolved_notice a \<and> ar_send_resolved r then [resolved_event r (snd k) a now]
          else []
      | _ \<Rightarrow> [])"

lemma on_gone:
  fixes act evs by_id now k
  defines "s \<equiv> tracker_on_gone by_id now k (act, evs)"
  shows "tbl_get (fst s) = (tbl_get act)(k := Option.bind (tbl_get act k) (gone_entry by_id now k)) \<and>
    (tbl_ok act \<longrightarrow> tbl_ok (fst s)) \<and> snd s = evs @ gone_events by_id now k (tbl_get act k)"
  by (auto simp: s_def tracker_on_gone_def gone_entry_def gone_events_def Let_def table_simps
      intro: table_intros split: option.split)

lemma fold_on_gone:
  assumes "distinct ks"
  shows "(\<forall>k. tbl_get (fst (fold (tracker_on_gone by_id now) ks (act, evs))) k =
      (if k \<in> set ks then Option.bind (tbl_get act k) (gone_entry by_id now k) else tbl_get act k)) \<and>
    (tbl_ok act \<longrightarrow> tbl_ok (fst (fold (tracker_on_gone by_id now) ks (act, evs)))) \<and>
    snd (fold (tracker_on_gone by_id now) ks (act, evs)) =
      evs @ concat (map (\<lambda>k. gone_events by_id now k (tbl_get act k)) ks)"
  using assms
proof (induction ks arbitrary: act evs)
  case (Cons k ks)
  obtain act1 evs1 where s: "tracker_on_gone by_id now k (act, evs) = (act1, evs1)"
    by (cases "tracker_on_gone by_id now k (act, evs)")
  note one = on_gone [of by_id now k act evs, unfolded s fst_conv snd_conv]
  have ev: "map (\<lambda>k. gone_events by_id now k (tbl_get act1 k)) ks =
      map (\<lambda>k. gone_events by_id now k (tbl_get act k)) ks"
    using Cons.prems one by (intro map_cong) auto
  have "distinct ks" and "k \<notin> set ks"
    using Cons.prems by simp_all
  then show ?case
    using Cons.IH [of act1 evs1, unfolded ev] one by (simp add: s)
qed simp

text \<open>Distinct alert instances among the matches: what the evaluator provides.\<close>

definition matches_ok :: "alert_rule list \<Rightarrow> evaluated_rule list \<Rightarrow> bool" where
  "matches_ok rules ms \<longleftrightarrow> distinct (map alert_key (known rules ms))"

lemma matches_ok_evaluate:
  "distinct (map ar_id (filter ar_enabled rules)) \<Longrightarrow> distinct (map st_node_id sts) \<Longrightarrow>
    matches_ok rules (evaluate_rules rules sts now)"
  unfolding matches_ok_def known_def by (rule distinct_map_filter) (rule distinct_evaluate_rules)

definition update_entry ::
  "chrono \<Rightarrow> alert_rule list \<Rightarrow> evaluated_rule list \<Rightarrow> datetime \<Rightarrow> alert_instance_key
    \<Rightarrow> active_alert option \<Rightarrow> active_alert option" where
  "update_entry ch rules ms now k old =
     (case List.find (\<lambda>m. alert_key m = k) (known rules ms) of
        Some m \<Rightarrow> Some (matched_entry ch (rule_of (rules_by_id rules) m) m now old)
      | None \<Rightarrow> Option.bind old (gone_entry (rules_by_id rules) now k))"

lemma find_alert_key:
  "distinct (map alert_key ms) \<Longrightarrow> m \<in> set ms \<Longrightarrow> List.find (\<lambda>x. alert_key x = alert_key m) ms = Some m"
  by (induction ms) (auto simp: image_iff)

lemma tracker_update_spec:
  assumes "matches_ok rules ms" and "tbl_ok t"
    and "tracker_update ch rules ms now t = (t', evs)"
  shows "tbl_ok t' \<and>
    (\<forall>k. tbl_get t' k = update_entry ch rules ms now k (tbl_get t k)) \<and>
    (\<exists>gone. evs = concat (map (\<lambda>m. matched_events ch (rule_of (rules_by_id rules) m) m now
          (tbl_get t (alert_key m))) (known rules ms)) @
        concat (map (\<lambda>k. gone_events (rules_by_id rules) now k (tbl_get t k)) gone) \<and>
      distinct gone \<and> set gone = dom (tbl_get t) - alert_key ` set (known rules ms))"
proof -
  let ?by = "rules_by_id rules" and ?K = "alert_key ` set (known rules ms)"
  obtain act cur evs1 where run: "fold (tracker_on_match ch ?by now) ms (t, {}, []) = (act, cur, evs1)"
    by (metis prod_cases3)
  note m = fold_on_match [OF assms(1) [unfolded matches_ok_def known_def] run, folded known_def]
  note m_in = m [THEN conjunct2, THEN conjunct2, THEN conjunct2, THEN conjunct2]
  let ?gone = "filter (\<lambda>k. k \<notin> cur) (map fst act)"
  have upd: "(t', evs) = fold (tracker_on_gone ?by now) ?gone (act, evs1)"
    using assms(3) by (simp add: tracker_update_def Let_def run)
  have act_ok: "tbl_ok act"
    using m assms(2) by blast
  then have d: "distinct ?gone"
    by (simp add: tbl_ok_def)
  note g = fold_on_gone [OF d, of ?by now act evs1, folded upd, unfolded fst_conv snd_conv]
  have cur: "cur = ?K"
    using m by simp
  have out: "tbl_get act k = tbl_get t k" if "k \<notin> ?K" for k
    using m that by blast
  have "set ?gone = dom (tbl_get act) - ?K"
    by (simp add: tbl_dom cur) blast
  also have "\<dots> = dom (tbl_get t) - ?K"
  proof (rule set_eqI)
    fix k
    show "k \<in> dom (tbl_get act) - ?K \<longleftrightarrow> k \<in> dom (tbl_get t) - ?K"
      by (cases "k \<in> ?K") (simp_all add: out dom_def)
  qed
  finally have dom: "set ?gone = dom (tbl_get t) - ?K" .
  have get: "tbl_get t' k = update_entry ch rules ms now k (tbl_get t k)" for k
  proof (cases "k \<in> ?K")
    case True
    then obtain x where x: "x \<in> set (known rules ms)" "k = alert_key x"
      by blast
    then have "List.find (\<lambda>m. alert_key m = k) (known rules ms) = Some x"
      using find_alert_key assms(1) by (simp add: matches_ok_def)
    moreover have "k \<notin> set ?gone"
      using True unfolding dom by blast
    ultimately show ?thesis
      using spec [OF g [THEN conjunct1], of k] bspec [OF m_in x(1)] by (simp only: update_entry_def
          x(2) if_False option.case)
  next
    case False
    then have "List.find (\<lambda>m. alert_key m = k) (known rules ms) = None"
      by (auto simp: find_None_iff)
    then have upd: "update_entry ch rules ms now k old = Option.bind old (gone_entry ?by now k)" for old
      by (simp add: update_entry_def)
    show ?thesis
    proof (cases "k \<in> dom (tbl_get t)")
      case True
      then have "k \<in> set ?gone"
        using False unfolding dom by blast
      then show ?thesis
        using spec [OF g [THEN conjunct1], of k] by (simp only: upd out [OF False] if_True)
    next
      case nt: False
      then have "k \<notin> set ?gone"
        unfolding dom by blast
      then show ?thesis
        using spec [OF g [THEN conjunct1], of k] nt
        by (simp only: upd out [OF False] if_False) (simp add: domIff)
    qed
  qed
  have same_gone: "map (\<lambda>k. gone_events ?by now k (tbl_get act k)) ?gone =
      map (\<lambda>k. gone_events ?by now k (tbl_get t k)) ?gone"
    using out by (intro map_cong) (auto simp: cur)
  have "evs = concat (map (\<lambda>m. matched_events ch (rule_of ?by m) m now
          (tbl_get t (alert_key m))) (known rules ms)) @
        concat (map (\<lambda>k. gone_events ?by now k (tbl_get t k)) ?gone)"
    unfolding g [THEN conjunct2, THEN conjunct2] same_gone
      m [THEN conjunct2, THEN conjunct2, THEN conjunct1] by simp
  with d dom get act_ok g show ?thesis
    by blast
qed

lemma kind_events:
  "list_all (\<lambda>e. ae_kind e = Triggered) (matched_events ch r m now old)"
  "list_all (\<lambda>e. ae_kind e = Resolved) (gone_events by_id now k old)"
  by (auto simp: matched_events_def touch_active_def Let_def triggered_event_def gone_events_def
      resolved_event_def split: option.splits)

lemma filter_kind:
  "list_all (\<lambda>e. ae_kind e = Triggered) es \<Longrightarrow> filter (\<lambda>e. ae_kind e = Triggered) es = es"
  "list_all (\<lambda>e. ae_kind e = Triggered) es \<Longrightarrow> filter (\<lambda>e. ae_kind e = Resolved) es = []"
  "list_all (\<lambda>e. ae_kind e = Resolved) es \<Longrightarrow> filter (\<lambda>e. ae_kind e = Resolved) es = es"
  "list_all (\<lambda>e. ae_kind e = Resolved) es \<Longrightarrow> filter (\<lambda>e. ae_kind e = Triggered) es = []"
  by (induction es) auto

lemma list_all_concat: "(\<And>x. list_all P (f x)) \<Longrightarrow> list_all P (concat (map f xs))"
  by (induction xs) auto

lemma tracker_update_triggered:
  assumes "matches_ok rules ms" and "tbl_ok t"
  shows "filter (\<lambda>e. ae_kind e = Triggered) (snd (tracker_update ch rules ms now t)) =
    concat (map (\<lambda>m. matched_events ch (rule_of (rules_by_id rules) m) m now
      (tbl_get t (alert_key m))) (known rules ms))"
  using tracker_update_spec [OF assms, of ch now "fst (tracker_update ch rules ms now t)"
      "snd (tracker_update ch rules ms now t)"]
  by (auto simp: filter_kind kind_events list_all_concat)

lemma gone_events_iff:
  "e \<in> set (gone_events by_id now k old) \<longleftrightarrow>
    (\<exists>a r. old = Some a \<and> tbl_get by_id (fst k) = Some r \<and> \<not> holds_resolved_notice a \<and>
      ar_send_resolved r \<and> e = resolved_event r (snd k) a now)"
  by (cases "tbl_get by_id (fst k)"; cases old) (auto simp: gone_events_def)

lemma tracker_update_resolved:
  assumes "matches_ok rules ms" and "tbl_ok t"
  shows "e \<in> set (snd (tracker_update ch rules ms now t)) \<and> ae_kind e = Resolved \<longleftrightarrow>
    (\<exists>k a r. k \<notin> alert_key ` set (known rules ms) \<and> tbl_get t k = Some a \<and>
      tbl_get (rules_by_id rules) (fst k) = Some r \<and> \<not> holds_resolved_notice a \<and>
      ar_send_resolved r \<and> e = resolved_event r (snd k) a now)"
proof -
  let ?by = "rules_by_id rules"
  obtain gone where evs: "snd (tracker_update ch rules ms now t) =
      concat (map (\<lambda>m. matched_events ch (rule_of ?by m) m now (tbl_get t (alert_key m)))
        (known rules ms)) @ concat (map (\<lambda>k. gone_events ?by now k (tbl_get t k)) gone)"
    and gone: "set gone = dom (tbl_get t) - alert_key ` set (known rules ms)"
    using tracker_update_spec [OF assms, of ch now "fst (tracker_update ch rules ms now t)"
        "snd (tracker_update ch rules ms now t)"] by auto
  have split: "filter (\<lambda>e. ae_kind e = Resolved) (snd (tracker_update ch rules ms now t)) =
      concat (map (\<lambda>k. gone_events ?by now k (tbl_get t k)) gone)"
    unfolding evs by (simp add: filter_kind kind_events list_all_concat)
  have "e \<in> set (snd (tracker_update ch rules ms now t)) \<and> ae_kind e = Resolved \<longleftrightarrow>
      e \<in> set (filter (\<lambda>e. ae_kind e = Resolved) (snd (tracker_update ch rules ms now t)))"
    by simp
  also have "\<dots> \<longleftrightarrow> e \<in> set (concat (map (\<lambda>k. gone_events ?by now k (tbl_get t k)) gone))"
    unfolding split ..
  also have "\<dots> \<longleftrightarrow> (\<exists>k \<in> dom (tbl_get t) - alert_key ` set (known rules ms).
      e \<in> set (gone_events ?by now k (tbl_get t k)))"
    by (simp add: gone)
  also have "\<dots> \<longleftrightarrow> (\<exists>k a r. k \<notin> alert_key ` set (known rules ms) \<and> tbl_get t k = Some a \<and>
      tbl_get ?by (fst k) = Some r \<and> \<not> holds_resolved_notice a \<and>
      ar_send_resolved r \<and> e = resolved_event r (snd k) a now)"
    unfolding gone_events_iff dom_def by blast
  finally show ?thesis .
qed

lemma rules_by_id_Some:
  "tbl_get (rules_by_id rules) i = Some r \<Longrightarrow> r \<in> set rules \<and> ar_enabled r \<and> ar_id r = i"
proof -
  have "tbl_get (fold (\<lambda>r t. tbl_put (ar_id r) r t) rs t0) i = Some r \<Longrightarrow>
      (r \<in> set rs \<and> ar_id r = i) \<or> tbl_get t0 i = Some r" for rs t0
    by (induction rs arbitrary: t0) (force simp: table_simps split: if_splits)+
  then show "tbl_get (rules_by_id rules) i = Some r \<Longrightarrow> r \<in> set rules \<and> ar_enabled r \<and> ar_id r = i"
    unfolding rules_by_id_def by fastforce
qed

section \<open>Runs of the tracker\<close>

text \<open>
  The inputs of a tracker over its life: an evaluation of the rules, a report of a delivery attempt,
  and the reset when alerting is disabled. Beside the tracker a history collects, per alert
  instance, the outcomes reported since the instance became active; it is specification only.
\<close>

datatype alert_input =
    Evaluate "alert_rule list" "evaluated_rule list" datetime
  | Outcome alert_event channel_set bool datetime
  | Reset

record alert_world =
  aw_tracker :: alert_tracker
  aw_hist :: "alert_instance_key \<Rightarrow> (channel_set \<times> bool) list"

definition alert_init :: alert_world where
  "alert_init = \<lparr>aw_tracker = [], aw_hist = (\<lambda>_. [])\<rparr>"

definition event_key :: "alert_event \<Rightarrow> alert_instance_key" where
  "event_key ev = (ar_id (ae_rule ev), ae_node_id ev)"

definition alert_output :: "chrono \<Rightarrow> alert_input \<Rightarrow> alert_world \<Rightarrow> alert_event list" where
  "alert_output ch i w =
     (case i of
        Evaluate rules ms now \<Rightarrow> snd (tracker_update ch rules ms now (aw_tracker w))
      | Outcome ev d f now \<Rightarrow>
          (case snd (record_delivery_outcome ch ev d f now (aw_tracker w)) of
             None \<Rightarrow> [] | Some e \<Rightarrow> [e])
      | Reset \<Rightarrow> [])"

definition alert_step :: "chrono \<Rightarrow> alert_input \<Rightarrow> alert_world \<Rightarrow> alert_world" where
  "alert_step ch i w =
     (let t = aw_tracker w; h = aw_hist w in
      case i of
        Evaluate rules ms now \<Rightarrow>
          \<lparr>aw_tracker = fst (tracker_update ch rules ms now t),
           aw_hist = (\<lambda>k. if tbl_get t k = None then [] else h k)\<rparr>
      | Outcome ev d f now \<Rightarrow>
          \<lparr>aw_tracker = fst (record_delivery_outcome ch ev d f now t),
           aw_hist = (if ae_kind ev = Triggered \<and> tbl_get t (event_key ev) \<noteq> None
                      then h(event_key ev := h (event_key ev) @ [(d, f)]) else h)\<rparr>
      | Reset \<Rightarrow> \<lparr>aw_tracker = tracker_clear t, aw_hist = (\<lambda>_. [])\<rparr>)"

fun input_ok :: "alert_input \<Rightarrow> bool" where
  "input_ok (Evaluate rules ms now) = matches_ok rules ms"
| "input_ok _ = True"

text \<open>The channels some outcome of the history reports as reached.\<close>

definition reached :: "(channel_set \<times> bool) list \<Rightarrow> channel_set" where
  "reached h = foldl (\<lambda>s o'. ch_union s (fst o')) CH_NONE h"

definition summarises :: "active_alert \<Rightarrow> (channel_set \<times> bool) list \<Rightarrow> bool" where
  "summarises a h \<longleftrightarrow> aa_outcome_seen a = (h \<noteq> []) \<and> aa_ever_delivered a = reached h \<and>
     aa_retry_pending a = (h \<noteq> [] \<and> snd (last h))"

definition alert_inv :: "alert_world \<Rightarrow> bool" where
  "alert_inv w \<longleftrightarrow> tbl_ok (aw_tracker w) \<and>
     (\<forall>k a. tbl_get (aw_tracker w) k = Some a \<longrightarrow> summarises a (aw_hist w k))"

lemma summarises_append:
  "summarises a h \<Longrightarrow> aa_outcome_seen b \<Longrightarrow> aa_retry_pending b = f \<Longrightarrow>
    aa_ever_delivered b = ch_union (aa_ever_delivered a) d \<Longrightarrow> summarises b (h @ [(d, f)])"
  by (simp add: summarises_def reached_def)

lemma summarises_update:
  assumes "\<And>a. old = Some a \<Longrightarrow> summarises a h" and "update_entry ch rules ms now k old = Some b"
  shows "summarises b (if old = None then [] else h)"
  using assms
  by (auto simp: update_entry_def matched_entry_def touch_active_def Let_def fresh_active_def
      summarises_def reached_def gone_entry_def split: option.splits if_splits)

lemma after_outcome_simps [simp]:
  "aa_outcome_seen (after_outcome ch ev d f now a)"
  "aa_retry_pending (after_outcome ch ev d f now a) = f"
  "aa_ever_delivered (after_outcome ch ev d f now a) = ch_union (aa_ever_delivered a) d"
  "aa_round_delivered (after_outcome ch ev d f now a) = ch_union (aa_round_delivered a) d"
  "aa_round_started_at (after_outcome ch ev d f now a) = aa_round_started_at a"
  "aa_resolved_at (after_outcome ch ev d f now a) = aa_resolved_at a"
  by (simp_all add: after_outcome_def Let_def)

lemma outcome_table:
  assumes "record_delivery_outcome ch ev d f now t = (t', res)"
  shows "(tbl_ok t \<longrightarrow> tbl_ok t') \<and> (\<forall>k. k \<noteq> event_key ev \<longrightarrow> tbl_get t' k = tbl_get t k) \<and>
    (case tbl_get t (event_key ev) of
       None \<Rightarrow> t' = t \<and> res = None
     | Some a \<Rightarrow> if ae_kind ev \<noteq> Triggered then t' = t \<and> res = None
         else (let b = after_outcome ch ev d f now a in
           (tbl_get t' (event_key ev) = Some b \<and> res = None \<or>
            tbl_get t' (event_key ev) = None \<and> \<not> holds_resolved_notice b \<and>
            (\<forall>e. res = Some e \<longrightarrow> (\<exists>since. aa_resolved_at a = Some since \<and> ar_send_resolved (ae_rule ev) \<and>
              e = resolved_event (ae_rule ev) (ae_node_id ev) b since)))))"
  using assms
  by (auto simp: record_delivery_outcome_def event_key_def Let_def table_simps
      intro: table_intros split: option.splits if_splits)

lemma resolved_event_channels:
  "summarises a h \<Longrightarrow> \<not> holds_resolved_notice a \<Longrightarrow> e = resolved_event r n a at' \<Longrightarrow>
    h \<noteq> [] \<and> (if ch_is_empty (reached h) then \<not> snd (last h) \<and> ae_channels e = CH_ALL
             else ae_channels e = reached h)"
  by (auto simp: summarises_def holds_resolved_notice_def resolved_event_def resolved_channels_def)

lemma alert_init_inv: "alert_inv alert_init"
  by (simp add: alert_inv_def alert_init_def)

lemma alert_step_inv:
  assumes "alert_inv w" and "input_ok i"
  shows "alert_inv (alert_step ch i w)"
proof (cases i)
  case (Evaluate rules ms now)
  have ok: "tbl_ok (aw_tracker w)" and
    sums: "\<And>k a. tbl_get (aw_tracker w) k = Some a \<Longrightarrow> summarises a (aw_hist w k)"
    using assms(1) by (auto simp: alert_inv_def)
  have ms: "matches_ok rules ms"
    using assms(2) Evaluate by simp
  note spec = tracker_update_spec [OF ms ok prod.collapse [symmetric], of ch now]
  show ?thesis
    using spec summarises_update [OF sums]
    by (simp add: alert_inv_def alert_step_def Evaluate Let_def)
next
  case (Outcome ev d f now)
  note t = outcome_table [OF prod.collapse [symmetric],
      where ch = ch and ev = ev and d = d and f = f and now = now and t = "aw_tracker w"]
  note t_ok = t [THEN conjunct1] and t_out = t [THEN conjunct2, THEN conjunct1, THEN spec, THEN mp]
    and t_at = t [THEN conjunct2, THEN conjunct2]
  have ok: "tbl_ok (aw_tracker w)" and
    sums: "\<And>k a. tbl_get (aw_tracker w) k = Some a \<Longrightarrow> summarises a (aw_hist w k)"
    using assms(1) by (auto simp: alert_inv_def)
  let ?w = "alert_step ch (Outcome ev d f now) w"
  have tracker: "aw_tracker ?w = fst (record_delivery_outcome ch ev d f now (aw_tracker w))"
    and hist: "aw_hist ?w = (if ae_kind ev = Triggered \<and> tbl_get (aw_tracker w) (event_key ev) \<noteq> None
        then (aw_hist w)(event_key ev := aw_hist w (event_key ev) @ [(d, f)]) else aw_hist w)"
    by (simp_all add: alert_step_def Let_def)
  have "summarises b (aw_hist ?w k)" if get: "tbl_get (aw_tracker ?w) k = Some b" for k b
  proof (cases "k = event_key ev")
    case False
    then have "tbl_get (aw_tracker w) k = Some b"
      using t_out get unfolding tracker by metis
    then show ?thesis
      using sums False by (simp add: hist)
  next
    case True
    show ?thesis
    proof (cases "tbl_get (aw_tracker w) k")
      case None
      then show ?thesis
        using t_at get True unfolding tracker by simp
    next
      case (Some a)
      note sum = sums [OF Some]
      show ?thesis
      proof (cases "ae_kind ev = Triggered")
        case trig: True
        then have "b = after_outcome ch ev d f now a"
          using t_at get Some True unfolding tracker by (auto simp: Let_def)
        then have "summarises b (aw_hist w k @ [(d, f)])"
          by (intro summarises_append [OF sum]) simp_all
        then show ?thesis
          using trig Some True by (simp add: hist)
      next
        case nt: False
        then have "b = a"
          using t_at get Some True unfolding tracker by simp
        then show ?thesis
          using sum nt by (simp add: hist)
      qed
    qed
  qed
  then show ?thesis
    using t_ok ok unfolding alert_inv_def Outcome tracker by blast
next
  case Reset
  then show ?thesis
    by (simp add: alert_inv_def alert_step_def tracker_clear_def)
qed

interpretation alerts: machine "alert_step ch" alert_inv input_ok
  by unfold_locales (rule alert_step_inv)

section \<open>Properties\<close>

text \<open>A rule and readings the witnesses below run on.\<close>

definition demo_rule :: alert_rule where
  "demo_rule = \<lparr>ar_id = ''cpu'', ar_name = ''CPU'', ar_enabled = True, ar_metric = CpuUsagePercent,
     ar_comparator = Gt, ar_threshold = 90, ar_window_minutes = 1, ar_severity = Warning,
     ar_scope_mode = ScopeAll, ar_node_ids = [], ar_tags = [], ar_delivery = [Smtp, Webhook],
     ar_cooldown_minutes = 30, ar_send_resolved = True\<rparr>"

definition demo_match :: evaluated_rule where
  "demo_match = \<lparr>er_rule_id = ''cpu'', er_node_id = ''n1'', er_node_label = ''N1'',
     er_reading = \<lparr>rd_metric = CpuUsagePercent, rd_value = 95, rd_threshold = 90\<rparr>\<rparr>"

definition demo_active :: active_alert where
  "demo_active = fresh_active demo_match 0"

lemma demo_ok: "matches_ok [demo_rule] [demo_match]"
  by (simp add: matches_ok_def known_def)

lemma triggers_due:
  assumes "matches_ok rules ms" and "tbl_ok t"
  shows "map event_key (filter (\<lambda>e. ae_kind e = Triggered) (snd (tracker_update ch rules ms now t))) =
    map alert_key (filter (\<lambda>m. case tbl_get t (alert_key m) of
        None \<Rightarrow> True
      | Some a \<Rightarrow> should_repeat_alert ch (aa_last_notified_at a)
          (ar_cooldown_minutes (rule_of (rules_by_id rules) m)) now) (known rules ms))"
proof -
  have "map event_key (matched_events ch (rule_of (rules_by_id rules) m) m now old) =
      (if (case old of None \<Rightarrow> True | Some a \<Rightarrow> should_repeat_alert ch (aa_last_notified_at a)
          (ar_cooldown_minutes (rule_of (rules_by_id rules) m)) now) then [alert_key m] else [])"
    if "m \<in> set (known rules ms)" for m old
  proof -
    have "ar_id (rule_of (rules_by_id rules) m) = er_rule_id m"
      using that rules_by_id_Some by (auto simp: known_def rule_of_def)
    then show ?thesis
      by (auto simp: matched_events_def touch_active_def Let_def triggered_event_def event_key_def
          alert_key_def split: option.split)
  qed
  then have "map event_key (concat (map (\<lambda>m. matched_events ch (rule_of (rules_by_id rules) m) m now
        (tbl_get t (alert_key m))) xs)) =
      map alert_key (filter (\<lambda>m. case tbl_get t (alert_key m) of None \<Rightarrow> True
        | Some a \<Rightarrow> should_repeat_alert ch (aa_last_notified_at a)
          (ar_cooldown_minutes (rule_of (rules_by_id rules) m)) now) xs)"
    if "set xs \<subseteq> set (known rules ms)" for xs
    using that by (induction xs) auto
  then show ?thesis
    unfolding tracker_update_triggered [OF assms] by simp
qed

text \<open>
  C30: an evaluation notifies exactly the firing alerts that are new or whose cooldown has elapsed,
  each once and in evaluation order.
\<close>

theorem triggers_exactly_when_due:
  assumes "matches_ok rules ms" and "tbl_ok t"
  shows "map event_key (filter (\<lambda>e. ae_kind e = Triggered) (snd (tracker_update ch rules ms now t))) =
    map alert_key (filter (\<lambda>m. case tbl_get t (alert_key m) of
        None \<Rightarrow> True
      | Some a \<Rightarrow> should_repeat_alert ch (aa_last_notified_at a)
          (ar_cooldown_minutes (rule_of (rules_by_id rules) m)) now) (known rules ms))"
  using assms by (rule triggers_due)

theorem triggers_exactly_when_due_witness:
  "map event_key (filter (\<lambda>e. ae_kind e = Triggered)
      (snd (tracker_update chrono_simple [demo_rule] [demo_match] 0 []))) = [(''cpu'', ''n1'')]"
  unfolding triggers_exactly_when_due [OF demo_ok tbl_ok_Nil]
  by (simp add: known_def rules_by_id_def demo_rule_def demo_match_def alert_key_def)

text \<open>
  C13: over any run of evaluations, delivery reports and resets, a resolved notice is only ever
  emitted after some delivery outcome of that alert instance, and it is addressed to exactly the
  channels that received the alert; only when no channel took it and the last attempt reported no
  failure (no channel applied) is it left to the configured channels.
\<close>

theorem resolved_only_to_notified_channels:
  assumes "list_all input_ok (es @ [i])"
    and "e \<in> set (alert_output ch i (fold (alert_step ch) es alert_init))"
    and "ae_kind e = Resolved"
  defines "h \<equiv> aw_hist (alert_step ch i (fold (alert_step ch) es alert_init)) (event_key e)"
  shows "h \<noteq> [] \<and>
    (if ch_is_empty (reached h) then \<not> snd (last h) \<and> ae_channels e = CH_ALL
     else ae_channels e = reached h)"
proof -
  let ?w = "fold (alert_step ch) es alert_init"
  have inv: "alert_inv ?w"
    using assms(1) by (intro alerts.run_inv alert_init_inv) simp
  then have ok: "tbl_ok (aw_tracker ?w)" and
    sums: "\<And>k a. tbl_get (aw_tracker ?w) k = Some a \<Longrightarrow> summarises a (aw_hist ?w k)"
    by (auto simp: alert_inv_def)
  show ?thesis
  proof (cases i)
    case (Evaluate rules ms now)
    then have "matches_ok rules ms"
      using assms(1) by simp
    then obtain k a r where k: "tbl_get (aw_tracker ?w) k = Some a"
        "tbl_get (rules_by_id rules) (fst k) = Some r" "\<not> holds_resolved_notice a"
        "e = resolved_event r (snd k) a now"
      using tracker_update_resolved [OF _ ok, THEN iffD1, of rules ms e ch now] assms(2,3) Evaluate
      by (auto simp: alert_output_def)
    have "event_key e = k"
      using k(4) rules_by_id_Some [OF k(2)] by (simp add: event_key_def resolved_event_def)
    then have "h = aw_hist ?w k"
      using k(1) by (simp add: h_def alert_step_def Evaluate Let_def)
    then show ?thesis
      using resolved_event_channels [OF sums [OF k(1)] k(3,4)] by simp
  next
    case (Outcome ev d f now)
    let ?r = "record_delivery_outcome ch ev d f now (aw_tracker ?w)"
    have res: "snd ?r = Some e"
      using assms(2) by (simp add: alert_output_def Outcome split: option.splits)
    note t = outcome_table [OF prod.collapse [symmetric],
      where ch = ch and ev = ev and d = d and f = f and now = now and t = "aw_tracker ?w"]
    obtain a where a: "tbl_get (aw_tracker ?w) (event_key ev) = Some a" "ae_kind ev = Triggered"
      using t res by (auto split: option.splits if_splits)
    let ?b = "after_outcome ch ev d f now a"
    obtain since where b: "\<not> holds_resolved_notice ?b"
        "e = resolved_event (ae_rule ev) (ae_node_id ev) ?b since"
      using t res a by (auto simp: Let_def)
    have "event_key e = event_key ev"
      using b(2) by (simp add: event_key_def resolved_event_def)
    then have h: "h = aw_hist ?w (event_key ev) @ [(d, f)]"
      using a by (simp add: h_def alert_step_def Outcome Let_def)
    have "summarises ?b h"
      unfolding h using sums [OF a(1)] by (rule summarises_append) simp_all
    then show ?thesis
      using resolved_event_channels [OF _ b] by simp
  next
    case Reset
    then show ?thesis
      using assms(2) by (simp add: alert_output_def)
  qed
qed

definition demo_run :: "alert_input list" where
  "demo_run = [Evaluate [demo_rule] [demo_match] 0,
     Outcome (triggered_event demo_rule demo_match 0) \<lparr>ch_webhook = True, ch_smtp = False\<rparr> True 1000]"

lemma demo_run_output:
  "alert_output chrono_simple (Evaluate [demo_rule] [] 5)
     (fold (alert_step chrono_simple) demo_run alert_init) =
   [resolved_event demo_rule ''n1''
      (after_outcome chrono_simple (triggered_event demo_rule demo_match 0)
        \<lparr>ch_webhook = True, ch_smtp = False\<rparr> True 1000 (fresh_active demo_match 0)) 5]"
  by (simp add: alert_output_def demo_run_def alert_step_def alert_init_def Let_def
      tracker_update_def tracker_on_match_def tracker_on_gone_def rules_by_id_def demo_rule_def
      demo_match_def alert_key_def record_delivery_outcome_def triggered_event_def
      fresh_active_def after_outcome_def holds_resolved_notice_def ch_defs)

lemma demo_run_hist:
  "aw_hist (alert_step chrono_simple (Evaluate [demo_rule] [] 5)
     (fold (alert_step chrono_simple) demo_run alert_init)) (''cpu'', ''n1'') =
   [(\<lparr>ch_webhook = True, ch_smtp = False\<rparr>, True)]"
  by (simp add: demo_run_def alert_step_def alert_init_def Let_def event_key_def
      tracker_update_def tracker_on_match_def tracker_on_gone_def rules_by_id_def demo_rule_def
      demo_match_def alert_key_def record_delivery_outcome_def triggered_event_def
      fresh_active_def after_outcome_def ch_defs)

theorem resolved_only_to_notified_channels_witness:
  "ae_channels (hd (alert_output chrono_simple (Evaluate [demo_rule] [] 5)
     (fold (alert_step chrono_simple) demo_run alert_init))) = \<lparr>ch_webhook = True, ch_smtp = False\<rparr>"
  (is "ae_channels ?e = _")
proof -
  have ok: "list_all input_ok (demo_run @ [Evaluate [demo_rule] [] 5])"
    by (simp add: demo_run_def demo_ok) (simp add: matches_ok_def known_def)
  have "?e \<in> set (alert_output chrono_simple (Evaluate [demo_rule] [] 5)
      (fold (alert_step chrono_simple) demo_run alert_init))" and "ae_kind ?e = Resolved"
    and key: "event_key ?e = (''cpu'', ''n1'')"
    unfolding demo_run_output by (simp_all add: resolved_event_def event_key_def demo_rule_def)
  from resolved_only_to_notified_channels [OF ok this(1,2), unfolded key demo_run_hist]
  show ?thesis
    by (simp add: reached_def ch_defs)
qed

text \<open>
  C31: when a delivery fails, the alert is attempted again as soon as, and not before, five minutes
  have passed since the failure, whatever the rule's cooldown, and the attempt skips the channels
  already reached in this round unless the cooldown since the round began has elapsed.
\<close>

theorem failed_delivery_retried_after_five_minutes:
  assumes "tbl_ok t" and "tbl_get t (event_key ev) = Some a" and "ae_kind ev = Triggered"
    and "aa_resolved_at a = None" and "alert_key m = event_key ev"
    and "tbl_get (rules_by_id rules) (er_rule_id m) = Some (ae_rule ev)"
    and "in_utc ch (now - (tm_minutes ch (ar_cooldown_minutes (ae_rule ev)) - 5 * MINUTE))"
  shows "filter (\<lambda>e. ae_kind e = Triggered) (snd (tracker_update ch rules [m] later
      (fst (record_delivery_outcome ch ev d True now t)))) =
    (if 5 * MINUTE \<le> later - now then
       [(triggered_event (ae_rule ev) m later)\<lparr>ae_channels :=
          (if should_repeat_alert ch (aa_round_started_at a) (ar_cooldown_minutes (ae_rule ev)) later
           then CH_ALL else ch_without CH_ALL (ch_union (aa_round_delivered a) d))\<rparr>]
     else [])"
proof -
  let ?C = "tm_minutes ch (ar_cooldown_minutes (ae_rule ev))"
  let ?t = "fst (record_delivery_outcome ch ev d True now t)"
  let ?b = "after_outcome ch ev d True now a"
  have t: "?t = tbl_put (event_key ev) ?b t"
    using assms(2-4) by (simp add: record_delivery_outcome_def event_key_def Let_def)
  have known: "known rules [m] = [m]" and "matches_ok rules [m]" and rule: "rule_of (rules_by_id rules) m = ae_rule ev"
    using assms(6) by (simp_all add: known_def matches_ok_def rule_of_def)
  have "aa_last_notified_at ?b = now - (?C - 5 * MINUTE)"
    using assms(7) by (simp add: after_outcome_def Let_def retry_notified_at_def tm_sub_def
        DELIVERY_FAILURE_RETRY_DELAY_MINUTES_def)
  then have due: "should_repeat_alert ch (aa_last_notified_at ?b) (ar_cooldown_minutes (ae_rule ev)) later
      \<longleftrightarrow> 5 * MINUTE \<le> later - now"
    unfolding should_repeat_alert_def by linarith
  have get: "tbl_get ?t (alert_key m) = Some ?b"
    by (simp add: t assms(5) tbl_get_put)
  show ?thesis
    unfolding tracker_update_triggered [OF \<open>matches_ok rules [m]\<close> tbl_ok_put [OF assms(1), of "event_key ev" ?b,
        folded t]] known
    using due by (simp add: get rule matched_events_def touch_active_def Let_def ch_defs)
qed

theorem failed_delivery_retried_after_five_minutes_witness:
  "filter (\<lambda>e. ae_kind e = Triggered) (snd (tracker_update chrono_simple [demo_rule] [demo_match] (6 * MINUTE)
      (fst (record_delivery_outcome chrono_simple (triggered_event demo_rule demo_match 0)
        \<lparr>ch_webhook = True, ch_smtp = False\<rparr> True 0 [((''cpu'', ''n1''), demo_active)])))) =
    [(triggered_event demo_rule demo_match (6 * MINUTE))\<lparr>ae_channels := \<lparr>ch_webhook = False, ch_smtp = True\<rparr>\<rparr>]"
  by (subst failed_delivery_retried_after_five_minutes [where a = demo_active])
    (simp_all add: tbl_ok_def event_key_def triggered_event_def demo_rule_def demo_match_def
      alert_key_def demo_active_def fresh_active_def rules_by_id_def in_utc_def chrono_simple_def
      tm_minutes_def MINUTE_def should_repeat_alert_def ch_defs)

text \<open>
  Once a rule is disabled or deleted, its active alerts are dropped by the next evaluation
  without any event: no further triggers and no resolved notices, and no entry is left behind.
\<close>

theorem disabled_rule_is_silent:
  assumes "matches_ok rules ms" and "tbl_ok t" and "\<not> list_ex (\<lambda>r. ar_enabled r \<and> ar_id r = i) rules"
  shows "\<not> list_ex (\<lambda>e. ar_id (ae_rule e) = i) (snd (tracker_update ch rules ms now t)) \<and>
    tbl_get (fst (tracker_update ch rules ms now t)) (i, n) = None"
proof -
  have none: "tbl_get (rules_by_id rules) i = None"
    using rules_by_id_Some [of rules i] assms(3) by (cases "tbl_get (rules_by_id rules) i")
      (auto simp: list_ex_iff)
  let ?evs = "snd (tracker_update ch rules ms now t)"
  have "ar_id (ae_rule e) \<noteq> i" if "e \<in> set ?evs" for e
  proof (cases "ae_kind e")
    case Triggered
    then have "event_key e \<in> set (map event_key (filter (\<lambda>e. ae_kind e = Triggered) ?evs))"
      using that by simp
    then obtain m where "m \<in> set (known rules ms)" "event_key e = alert_key m"
      unfolding triggers_due [OF assms(1,2)] by auto
    then show ?thesis
      using none by (auto simp: known_def event_key_def alert_key_def)
  next
    case Resolved
    then show ?thesis
      using that tracker_update_resolved [OF assms(1,2), of e ch now] none rules_by_id_Some
      by (fastforce simp: resolved_event_def)
  qed
  moreover have "update_entry ch rules ms now (i, n) old = None" for old
    using none by (cases old) (auto simp: update_entry_def gone_entry_def known_def find_Some_iff
        alert_key_def split: option.splits dest: nth_mem)
  ultimately show ?thesis
    using tracker_update_spec [OF assms(1,2) prod.collapse [symmetric], of ch now]
    by (auto simp: list_ex_iff)
qed

theorem disabled_rule_is_silent_witness:
  "snd (tracker_update chrono_simple [demo_rule\<lparr>ar_enabled := False\<rparr>] [demo_match] 7
      [((''cpu'', ''n1''), demo_active)]) = [] \<and>
   tbl_get (fst (tracker_update chrono_simple [demo_rule\<lparr>ar_enabled := False\<rparr>] [demo_match] 7
      [((''cpu'', ''n1''), demo_active)])) (''cpu'', ''n1'') = None"
proof
  let ?u = "tracker_update chrono_simple [demo_rule\<lparr>ar_enabled := False\<rparr>] [demo_match] 7
      [((''cpu'', ''n1''), demo_active)]"
  have "\<not> list_ex (\<lambda>e. ar_id (ae_rule e) = ''cpu'') (snd ?u) \<and> tbl_get (fst ?u) (''cpu'', ''n1'') = None"
    by (rule disabled_rule_is_silent) (simp_all add: matches_ok_def known_def tbl_ok_def)
  then show "tbl_get (fst ?u) (''cpu'', ''n1'') = None"
    by simp
  show "snd ?u = []"
    by (simp add: tracker_update_def rules_by_id_def tracker_on_match_def tracker_on_gone_def)
qed

end
