(* ===== verification/Text.thy ===== *)
theory Text
  imports Prelude "HOL-Library.Char_ord" "HOL-Library.List_Lexorder"
begin

text \<open>
  Rust's \<open>str\<close> as the list of its UTF-8 bytes, the text helpers of \<open>nodelite-proto/src/text.rs\<close> and
  the shared validation of \<open>nodelite-proto/src/validation.rs\<close>. Strings are ordered by their bytes,
  which is Rust's order.
\<close>

section \<open>Characters of a string\<close>

definition byte :: "char \<Rightarrow> nat" where
  "byte c = of_char c"

definition is_continuation :: "char \<Rightarrow> bool" where
  "is_continuation c \<longleftrightarrow> 128 \<le> byte c \<and> byte c < 192"

text \<open>The characters: each first byte with the continuation bytes after it.\<close>

function chars :: "string \<Rightarrow> string list" where
  "chars [] = []"
| "chars (c # cs) =
     (c # takeWhile is_continuation cs) # chars (dropWhile is_continuation cs)"
  by pat_completeness auto
termination
  by (relation "measure length") (simp_all add: length_dropWhile_le le_imp_less_Suc)

fun code_point :: "string \<Rightarrow> nat" where
  "code_point [] = 0"
| "code_point (c # cs) =
     foldl (\<lambda>a b. a * 64 + byte b mod 64)
       (if byte c < 128 then byte c else if byte c < 224 then byte c mod 32
        else if byte c < 240 then byte c mod 16 else byte c mod 8) cs"

text \<open>\<open>char::is_control\<close> (general category Cc) and \<open>char::is_whitespace\<close>.\<close>

definition is_control :: "string \<Rightarrow> bool" where
  "is_control ch \<longleftrightarrow> (let p = code_point ch in p < 32 \<or> (127 \<le> p \<and> p < 160))"

definition is_whitespace :: "string \<Rightarrow> bool" where
  "is_whitespace ch \<longleftrightarrow> (let p = code_point ch in
     (9 \<le> p \<and> p \<le> 13) \<or> (0x2000 \<le> p \<and> p \<le> 0x200A) \<or>
     p \<in> {32, 0x85, 0xA0, 0x1680, 0x2028, 0x2029, 0x202F, 0x205F, 0x3000})"

definition str_trim_end :: "string \<Rightarrow> string" where
  "str_trim_end s = concat (rev (dropWhile is_whitespace (rev (chars s))))"

definition str_trim :: "string \<Rightarrow> string" where
  "str_trim s = concat (rev (dropWhile is_whitespace (rev (dropWhile is_whitespace (chars s)))))"

lemmas chars_defs = is_whitespace_def is_control_def is_continuation_def byte_def

text \<open>\<open>str::split\<close> at an ASCII character: always at least one segment.\<close>

fun str_split :: "char \<Rightarrow> string \<Rightarrow> string list" where
  "str_split d [] = [[]]"
| "str_split d (c # cs) =
     (if c = d then [] # str_split d cs
      else case str_split d cs of [] \<Rightarrow> [[c]] | seg # segs \<Rightarrow> (c # seg) # segs)"

definition is_ascii_digit :: "char \<Rightarrow> bool" where
  "is_ascii_digit c \<longleftrightarrow> 48 \<le> byte c \<and> byte c \<le> 57"

definition is_ascii_alphanumeric :: "char \<Rightarrow> bool" where
  "is_ascii_alphanumeric c \<longleftrightarrow> is_ascii_digit c \<or> (65 \<le> byte c \<and> byte c \<le> 90) \<or>
     (97 \<le> byte c \<and> byte c \<le> 122)"

definition is_ascii_hexdigit :: "char \<Rightarrow> bool" where
  "is_ascii_hexdigit c \<longleftrightarrow> is_ascii_digit c \<or> (65 \<le> byte c \<and> byte c \<le> 70) \<or>
     (97 \<le> byte c \<and> byte c \<le> 102)"

lemma concat_chars [simp]: "concat (chars s) = s"
  by (induction s rule: chars.induct) auto

text \<open>Every character but the first begins with a byte that does not continue the previous one.\<close>

fun wf_chars :: "string list \<Rightarrow> bool" where
  "wf_chars [] = True"
| "wf_chars (x # xs) = (x \<noteq> [] \<and> list_all is_continuation (tl x) \<and>
     list_all (\<lambda>y. y \<noteq> [] \<and> \<not> is_continuation (hd y) \<and> list_all is_continuation (tl y)) xs)"

lemma takeWhile_all: "list_all P xs \<Longrightarrow> (ys = [] \<or> \<not> P (hd ys)) \<Longrightarrow>
    takeWhile P (xs @ ys) = xs \<and> dropWhile P (xs @ ys) = ys"
  by (induction xs) (cases ys; auto)+

lemma chars_concat: "wf_chars xs \<Longrightarrow> chars (concat xs) = xs"
proof (induction xs)
  case (Cons x xs)
  then obtain c ts where x: "x = c # ts" and ts: "list_all is_continuation ts"
    by (cases x) auto
  have "concat xs = [] \<or> \<not> is_continuation (hd (concat xs))"
    using Cons.prems by (cases xs) auto
  from takeWhile_all [OF ts this] have "chars (concat (x # xs)) = x # chars (concat xs)"
    by (simp add: x)
  moreover have "wf_chars xs"
    using Cons.prems by (cases xs) auto
  ultimately show ?case
    using Cons.IH by simp
qed simp

lemma wf_chars_chars: "wf_chars (chars s)"
proof (induction s rule: chars.induct)
  case (2 c cs)
  have "dropWhile is_continuation cs = [] \<or> \<not> is_continuation (hd (dropWhile is_continuation cs))"
    using hd_dropWhile by metis
  moreover have "list_all is_continuation (takeWhile is_continuation cs)"
    by (auto simp: list_all_iff dest: set_takeWhileD)
  ultimately show ?case
    using 2 by (cases "dropWhile is_continuation cs") (simp_all del: dropWhile_eq_Nil_conv)
qed simp

lemma wf_chars_suffix: "wf_chars (xs @ ys) \<Longrightarrow> wf_chars ys"
  by (induction xs) (cases ys; auto)+

lemma wf_chars_prefix: "wf_chars (xs @ ys) \<Longrightarrow> wf_chars xs"
  by (cases xs) auto

definition trim_list :: "string list \<Rightarrow> string list" where
  "trim_list xs = rev (dropWhile is_whitespace (rev (dropWhile is_whitespace xs)))"

lemma trim_list_infix: "\<exists>as bs. xs = as @ trim_list xs @ bs"
proof -
  let ?d = "dropWhile is_whitespace xs"
  have "rev ?d = takeWhile is_whitespace (rev ?d) @ dropWhile is_whitespace (rev ?d)"
    by simp
  then have "?d = trim_list xs @ rev (takeWhile is_whitespace (rev ?d))"
    unfolding trim_list_def by (metis rev_append rev_rev_ident)
  then have "xs = takeWhile is_whitespace xs @ trim_list xs @ rev (takeWhile is_whitespace (rev ?d))"
    by (metis takeWhile_dropWhile_id)
  then show ?thesis
    by blast
qed

lemma trim_list_twice: "trim_list (trim_list xs) = trim_list xs"
proof (cases "dropWhile is_whitespace xs")
  case (Cons y ys)
  then have y: "\<not> is_whitespace y"
    by (metis dropWhile_eq_Cons_conv)
  have "rev (dropWhile is_whitespace (rev (y # ys))) = y # rev (dropWhile is_whitespace (rev ys))"
    using y by (simp add: dropWhile_append3)
  moreover have "dropWhile P (dropWhile P zs) = dropWhile P zs" for P and zs :: "string list"
    by (induction zs) auto
  ultimately show ?thesis
    using y Cons by (simp add: trim_list_def dropWhile_append3)
qed (simp add: trim_list_def del: dropWhile_eq_Nil_conv)

lemma chars_trim: "chars (str_trim s) = trim_list (chars s)"
proof -
  obtain as bs where "chars s = as @ trim_list (chars s) @ bs"
    using trim_list_infix by blast
  then have "wf_chars (trim_list (chars s))"
    using wf_chars_chars [of s] wf_chars_suffix wf_chars_prefix by metis
  then show ?thesis
    using chars_concat by (simp add: str_trim_def trim_list_def)
qed

lemma str_trim_twice [simp]: "str_trim (str_trim s) = str_trim s"
proof -
  have "str_trim (str_trim s) = concat (trim_list (chars (str_trim s)))"
    by (simp add: str_trim_def trim_list_def)
  also have "\<dots> = concat (trim_list (chars s))"
    by (simp add: chars_trim trim_list_twice)
  finally show ?thesis
    by (simp add: str_trim_def trim_list_def)
qed

section \<open>Truncation\<close>

definition is_char_boundary :: "string \<Rightarrow> nat \<Rightarrow> bool" where
  "is_char_boundary s i \<longleftrightarrow>
     i = 0 \<or> i = length s \<or> (i < length s \<and> \<not> is_continuation (s ! i))"

fun boundary_at_most :: "string \<Rightarrow> nat \<Rightarrow> nat" where
  "boundary_at_most s 0 = 0"
| "boundary_at_most s (Suc i) = (if \<not> is_char_boundary s (Suc i) then boundary_at_most s i else Suc i)"

definition truncate_to_byte_boundary :: "string \<Rightarrow> nat \<Rightarrow> string" where
  "truncate_to_byte_boundary s max_bytes =
     (if length s \<le> max_bytes then s else take (boundary_at_most s max_bytes) s)"

definition truncate_string_to_byte_boundary :: "string \<Rightarrow> nat \<Rightarrow> string" where
  "truncate_string_to_byte_boundary s max_bytes =
     take (length (truncate_to_byte_boundary s max_bytes)) s"

lemma boundary_at_most_spec:
  "boundary_at_most s i \<le> i \<and> is_char_boundary s (boundary_at_most s i) \<and>
    (\<forall>j \<le> i. is_char_boundary s j \<longrightarrow> j \<le> boundary_at_most s i)"
proof (induction i)
  case (Suc i)
  then show ?case
    by (auto simp: le_Suc_eq)
qed (simp add: is_char_boundary_def)

lemma truncate_alt:
  "truncate_string_to_byte_boundary s n = truncate_to_byte_boundary s n"
  by (simp add: truncate_string_to_byte_boundary_def truncate_to_byte_boundary_def min_def)

lemma truncate_length: "length (truncate_string_to_byte_boundary s n) \<le> n"
  using boundary_at_most_spec [of s n]
  by (auto simp: truncate_alt truncate_to_byte_boundary_def)

lemma wf_chars_append:
  "\<lbrakk>wf_chars xs; wf_chars ys; ys = [] \<or> \<not> is_continuation (hd (hd ys))\<rbrakk> \<Longrightarrow> wf_chars (xs @ ys)"
proof (induction xs)
  case (Cons x xs)
  then show ?case by (cases xs; cases ys) auto
qed simp

lemma hd_chars: "s \<noteq> [] \<Longrightarrow> hd (hd (chars s)) = hd s"
  by (cases s) auto

lemma chars_Nil_iff [simp]: "chars s = [] \<longleftrightarrow> s = []"
  by (cases s) auto

lemma chars_append:
  assumes "b = [] \<or> \<not> is_continuation (hd b)"
  shows "chars (a @ b) = chars a @ chars b"
proof -
  have "wf_chars (chars a @ chars b)"
    using assms by (intro wf_chars_append wf_chars_chars) (auto simp: hd_chars)
  from chars_concat [OF this] show ?thesis by simp
qed

lemma chars_truncate: "\<exists>ys. chars s = chars (truncate_string_to_byte_boundary s n) @ ys"
proof (cases "length s \<le> n")
  case False
  let ?b = "boundary_at_most s n"
  have "drop ?b s = [] \<or> \<not> is_continuation (hd (drop ?b s)) \<or> ?b = 0"
    using boundary_at_most_spec [of s n] by (auto simp: is_char_boundary_def hd_drop_conv_nth)
  then have "chars (take ?b s @ drop ?b s) = chars (take ?b s) @ chars (drop ?b s)"
    using chars_append [of "drop ?b s" "take ?b s"] by auto
  then show ?thesis
    using False by (auto simp: truncate_alt truncate_to_byte_boundary_def)
qed (simp add: truncate_alt truncate_to_byte_boundary_def)

text \<open>Case conversion, comparison and search of the standard library, and the decimal digits of a number.\<close>

definition ascii_lower :: "char \<Rightarrow> char" where
  "ascii_lower c = (if 65 \<le> byte c \<and> byte c \<le> 90 then char_of (byte c + 32) else c)"

definition ascii_upper :: "char \<Rightarrow> char" where
  "ascii_upper c = (if 97 \<le> byte c \<and> byte c \<le> 122 then char_of (byte c - 32) else c)"

definition eq_ignore_ascii_case :: "string \<Rightarrow> string \<Rightarrow> bool" where
  "eq_ignore_ascii_case a b \<longleftrightarrow> map ascii_lower a = map ascii_lower b"

definition str_contains :: "string \<Rightarrow> string \<Rightarrow> bool" where
  "str_contains needle s \<longleftrightarrow>
     list_ex (\<lambda>i. take (length needle) (drop i s) = needle) [0..<Suc (length s)]"

fun decimal :: "nat \<Rightarrow> string" where
  "decimal n = (if n < 10 then [char_of (48 + n)] else decimal (n div 10) @ [char_of (48 + n mod 10)])"

declare decimal.simps [simp del]

section \<open>Validation\<close>

text \<open>The field that an error message names; the entries of a list are named by their index.\<close>

datatype field = Field string | Entry string nat

datatype validation_error =
    MustNotBeEmpty field
  | TooManyBytes field nat
  | HasControlCharacters field
  | TooManyCharacters field nat
  | NotAnIdentifier field
  | TooManyTags string nat

definition IDENTIFIER_MAX_CHARS :: nat where
  "IDENTIFIER_MAX_CHARS = 128"

definition validate_non_empty :: "field \<Rightarrow> string \<Rightarrow> validation_error + unit" where
  "validate_non_empty f s = (if str_trim s = [] then Inl (MustNotBeEmpty f) else Inr ())"

definition validate_bounded_text :: "field \<Rightarrow> string \<Rightarrow> nat \<Rightarrow> validation_error + unit" where
  "validate_bounded_text f s max_bytes =
     (case validate_non_empty f s of
        Inl e \<Rightarrow> Inl e
      | Inr _ \<Rightarrow>
          if max_bytes < length s then Inl (TooManyBytes f max_bytes)
          else if list_ex is_control (chars s) then Inl (HasControlCharacters f)
          else Inr ())"

definition identifier_char :: "string \<Rightarrow> bool" where
  "identifier_char ch \<longleftrightarrow>
     (case ch of
        [c] \<Rightarrow> is_ascii_alphanumeric c \<or> c = CHR ''-'' \<or> c = CHR ''_'' \<or> c = CHR ''.''
      | _ \<Rightarrow> False)"

definition validate_identifier :: "field \<Rightarrow> string \<Rightarrow> validation_error + unit" where
  "validate_identifier f s =
     (case validate_non_empty f s of
        Inl e \<Rightarrow> Inl e
      | Inr _ \<Rightarrow>
          if IDENTIFIER_MAX_CHARS < length s then Inl (TooManyCharacters f IDENTIFIER_MAX_CHARS)
          else if \<not> list_all identifier_char (chars s) then Inl (NotAnIdentifier f)
          else Inr ())"

definition normalize_string_list :: "string list \<Rightarrow> string list" where
  "normalize_string_list values =
     remdups_adj (sort (filter (\<lambda>v. v \<noteq> []) (map str_trim values)))"

fun validate_tags_from :: "string \<Rightarrow> nat \<Rightarrow> string list \<Rightarrow> nat \<Rightarrow> validation_error + unit" where
  "validate_tags_from f i [] max_bytes = Inr ()"
| "validate_tags_from f i (v # vs) max_bytes =
     (case validate_bounded_text (Entry f i) v max_bytes of
        Inl e \<Rightarrow> Inl e
      | Inr _ \<Rightarrow> validate_tags_from f (Suc i) vs max_bytes)"

definition validate_tag_list ::
  "string \<Rightarrow> string list \<Rightarrow> nat \<Rightarrow> nat \<Rightarrow> validation_error + unit" where
  "validate_tag_list f values max_tags max_tag_bytes =
     (if max_tags < length values then Inl (TooManyTags f max_tags)
      else validate_tags_from f 0 values max_tag_bytes)"

text \<open>\<open>Display\<close>: the message of a validation error.\<close>

fun field_text :: "field \<Rightarrow> string" where
  "field_text (Field name) = name"
| "field_text (Entry name i) = name @ ''['' @ decimal i @ '']''"

fun validation_message :: "validation_error \<Rightarrow> string" where
  "validation_message (MustNotBeEmpty f) = field_text f @ '' must not be empty''"
| "validation_message (TooManyBytes f n) = field_text f @ '' must be <= '' @ decimal n @ '' bytes''"
| "validation_message (HasControlCharacters f) = field_text f @ '' must not contain control characters''"
| "validation_message (TooManyCharacters f n) = field_text f @ '' must be <= '' @ decimal n @ '' characters''"
| "validation_message (NotAnIdentifier f) =
     field_text f @ '' must use only ASCII letters, numbers, '' @ [CHR 0x27] @ ''-'' @ [CHR 0x27] @ '', '' @
     [CHR 0x27] @ ''_'' @ [CHR 0x27] @ '' or '' @ [CHR 0x27] @ ''.'' @ [CHR 0x27]"
| "validation_message (TooManyTags name n) = name @ '' must contain at most '' @ decimal n @ '' tags''"

section \<open>Facts\<close>

definition valid :: "'e + unit \<Rightarrow> bool" where
  "valid r \<longleftrightarrow> r = Inr ()"

lemma valid_simps [simp]: "valid (Inr u)" "\<not> valid (Inl e)"
  by (simp_all add: valid_def)

lemma valid_bounded_text:
  "valid (validate_bounded_text f s n) \<longleftrightarrow>
    str_trim s \<noteq> [] \<and> length s \<le> n \<and> \<not> list_ex is_control (chars s)"
  by (simp add: validate_bounded_text_def validate_non_empty_def)

lemma valid_tags_from:
  "valid (validate_tags_from f i vs n) \<longleftrightarrow>
    list_all (\<lambda>v. str_trim v \<noteq> [] \<and> length v \<le> n \<and> \<not> list_ex is_control (chars v)) vs"
proof (induction vs arbitrary: i)
  case (Cons v vs)
  then show ?case
    using valid_bounded_text [of "Entry f i" v n] by (auto simp: valid_def split: sum.split)
qed simp

lemma valid_tag_list:
  "valid (validate_tag_list f vs m n) \<longleftrightarrow> length vs \<le> m \<and>
    list_all (\<lambda>v. str_trim v \<noteq> [] \<and> length v \<le> n \<and> \<not> list_ex is_control (chars v)) vs"
  by (simp add: validate_tag_list_def valid_tags_from)

lemma validity_field_irrelevant:
  "valid (validate_identifier f s) = valid (validate_identifier g s)"
  by (simp add: validate_identifier_def validate_non_empty_def)

lemma set_normalize: "set (normalize_string_list vs) = {v \<in> str_trim ` set vs. v \<noteq> []}"
  by (auto simp: normalize_string_list_def)

lemma sorted_distinct_adj: "sorted xs \<Longrightarrow> distinct (remdups_adj xs)"
  for xs :: "'a::linorder list"
proof (induction xs rule: remdups_adj.induct)
  case (3 x y xs)
  then show ?case
    by (cases "x = y") auto
qed simp_all

section \<open>Properties\<close>

text \<open>
  Truncation returns the longest prefix of at most the given number of bytes that ends on a
  character boundary, and leaves a string that fits untouched.
\<close>

theorem truncate_longest_prefix:
  "length (truncate_string_to_byte_boundary s n) \<le> n \<and>
   s = truncate_string_to_byte_boundary s n @ drop (length (truncate_string_to_byte_boundary s n)) s \<and>
   is_char_boundary s (length (truncate_string_to_byte_boundary s n)) \<and>
   (length s \<le> n \<longrightarrow> truncate_string_to_byte_boundary s n = s) \<and>
   (j \<le> n \<longrightarrow> is_char_boundary s j \<longrightarrow> j \<le> length (truncate_string_to_byte_boundary s n))"
proof -
  let ?t = "truncate_string_to_byte_boundary s n" and ?b = "boundary_at_most s n"
  note b = boundary_at_most_spec [of s n]
  have prefix: "s = ?t @ drop (length ?t) s"
    by (auto simp: truncate_alt truncate_to_byte_boundary_def min_def)
  have len: "length ?t = (if length s \<le> n then length s else ?b)"
    using b by (simp add: truncate_alt truncate_to_byte_boundary_def)
  have short: "?t = s" if "length s \<le> n"
    using that by (simp add: truncate_alt truncate_to_byte_boundary_def)
  have boundary: "is_char_boundary s (length ?t)"
    using b [THEN conjunct2, THEN conjunct1] unfolding len by (simp add: is_char_boundary_def)
  have maximal: "j \<le> length ?t" if "j \<le> n" "is_char_boundary s j"
  proof (cases "length s \<le> n")
    case True
    then show ?thesis
      using that(2) unfolding len by (auto simp: is_char_boundary_def)
  next
    case False
    then show ?thesis
      using b [THEN conjunct2, THEN conjunct2] that unfolding len by simp
  qed
  show ?thesis
    using truncate_length [of s n] prefix boundary short maximal by blast
qed

theorem truncate_longest_prefix_witness:
  "truncate_string_to_byte_boundary [CHR ''a'', CHR 0xE6, CHR 0x97, CHR 0xA5] 3 = ''a''"
  using truncate_longest_prefix [of "[CHR ''a'', CHR 0xE6, CHR 0x97, CHR 0xA5]" 3 1]
  by (simp add: truncate_string_to_byte_boundary_def truncate_to_byte_boundary_def
      is_char_boundary_def is_continuation_def byte_def eval_nat_numeral)

text \<open>
  C34: normalising a list of tags is the sorted enumeration of the set of its trimmed non-blank
  members: neither order nor repetition of the input matters.
\<close>

theorem normalize_string_list_canonical:
  "normalize_string_list vs = sorted_list_of_set {v \<in> str_trim ` set vs. v \<noteq> []}"
proof -
  have "sorted (normalize_string_list vs)" "distinct (normalize_string_list vs)"
    by (simp_all add: normalize_string_list_def sorted_remdups_adj sorted_distinct_adj)
  from sorted_list_of_set.idem_if_sorted_distinct [OF this]
  show ?thesis
    by (simp add: set_normalize)
qed

end
