(* ===== verification/NetAddr.thy ===== *)
theory NetAddr
  imports Text "HOL-Library.Product_Lexorder" "HOL-Library.Option_ord"
begin

text \<open>
  Network addresses: the standard library's \<open>IpAddr\<close> with its order and its text parser
  (\<open>str::parse\<close>), and the resolution of the client address behind reverse proxies of
  \<open>nodelite-server/src/admission.rs\<close>.
\<close>

section \<open>Addresses\<close>

datatype ip_addr = V4 "32 word" | V6 "128 word"

fun ip_rank :: "ip_addr \<Rightarrow> nat \<times> nat" where
  "ip_rank (V4 a) = (0, unat a)"
| "ip_rank (V6 a) = (1, unat a)"

lemma ip_rank_inject: "ip_rank x = ip_rank y \<longleftrightarrow> x = y"
  by (cases x; cases y) (auto simp: word_unat_eq_iff)

instantiation ip_addr :: linorder
begin

definition less_eq_ip_addr :: "ip_addr \<Rightarrow> ip_addr \<Rightarrow> bool" where
  "less_eq_ip_addr x y \<longleftrightarrow> ip_rank x \<le> ip_rank y"

definition less_ip_addr :: "ip_addr \<Rightarrow> ip_addr \<Rightarrow> bool" where
  "less_ip_addr x y \<longleftrightarrow> ip_rank x < ip_rank y"

instance
proof
  fix x y z :: ip_addr
  show "x < y \<longleftrightarrow> x \<le> y \<and> \<not> y \<le> x"
    unfolding less_eq_ip_addr_def less_ip_addr_def by (rule less_le_not_le)
  show "x \<le> x"
    unfolding less_eq_ip_addr_def by (rule order_refl)
  show "x \<le> y \<Longrightarrow> y \<le> z \<Longrightarrow> x \<le> z"
    unfolding less_eq_ip_addr_def by (rule order_trans)
  show "x \<le> y \<Longrightarrow> y \<le> x \<Longrightarrow> x = y"
    unfolding less_eq_ip_addr_def ip_rank_inject [symmetric] by (rule order_antisym)
  show "x \<le> y \<or> y \<le> x"
    unfolding less_eq_ip_addr_def by (rule linear)
qed

end

definition is_loopback :: "ip_addr \<Rightarrow> bool" where
  "is_loopback ip = (case ip of V4 a \<Rightarrow> drop_bit 24 a = 127 | V6 a \<Rightarrow> a = 1)"

section \<open>The address parser of the standard library\<close>

definition digit_value :: "nat \<Rightarrow> char \<Rightarrow> nat option" where
  "digit_value radix c =
     (let n = of_char c :: nat;
          v = (if 48 \<le> n \<and> n \<le> 57 then n - 48
               else if 97 \<le> n \<and> n \<le> 122 then n - 87
               else if 65 \<le> n \<and> n \<le> 90 then n - 55 else 36)
      in if v < radix then Some v else None)"

fun read_digits :: "nat \<Rightarrow> string \<Rightarrow> nat list \<times> string" where
  "read_digits radix [] = ([], [])"
| "read_digits radix (c # cs) =
     (case digit_value radix c of
        None \<Rightarrow> ([], c # cs)
      | Some v \<Rightarrow> (let (ds, rest) = read_digits radix cs in (v # ds, rest)))"

definition digits_value :: "nat \<Rightarrow> nat list \<Rightarrow> nat" where
  "digits_value radix ds = foldl (\<lambda>a d. a * radix + d) 0 ds"

text \<open>\<open>read_number\<close>: at least one and at most \<open>max_digits\<close> digits, below \<open>bound\<close>, and without a
  leading zero unless allowed.\<close>

definition read_number ::
  "nat \<Rightarrow> nat \<Rightarrow> bool \<Rightarrow> nat \<Rightarrow> string \<Rightarrow> (nat \<times> string) option" where
  "read_number radix max_digits allow_zero_prefix bound s =
     (let (ds, rest) = read_digits radix s; v = digits_value radix ds in
      if ds = [] \<or> max_digits < length ds \<or> bound \<le> v then None
      else if \<not> allow_zero_prefix \<and> hd ds = 0 \<and> 1 < length ds then None
      else Some (v, rest))"

definition read_char :: "char \<Rightarrow> string \<Rightarrow> string option" where
  "read_char c s = (case s of [] \<Rightarrow> None | x # xs \<Rightarrow> if x = c then Some xs else None)"

text \<open>\<open>read_separator\<close>: the separator precedes every item but the first.\<close>

definition after_separator :: "char \<Rightarrow> nat \<Rightarrow> string \<Rightarrow> string option" where
  "after_separator sep index s = (if index = 0 then Some s else read_char sep s)"

fun read_octets :: "nat \<Rightarrow> nat \<Rightarrow> string \<Rightarrow> (nat list \<times> string) option" where
  "read_octets i 0 s = Some ([], s)"
| "read_octets i (Suc n) s =
     (case after_separator CHR ''.'' i s of
        None \<Rightarrow> None
      | Some s1 \<Rightarrow>
          (case read_number 10 3 False 256 s1 of
             None \<Rightarrow> None
           | Some (v, s2) \<Rightarrow>
               (case read_octets (Suc i) n s2 of
                  None \<Rightarrow> None
                | Some (vs, s3) \<Rightarrow> Some (v # vs, s3))))"

definition read_ipv4 :: "string \<Rightarrow> (nat \<times> string) option" where
  "read_ipv4 s =
     (case read_octets 0 4 s of
        None \<Rightarrow> None
      | Some (vs, rest) \<Rightarrow> Some (digits_value 256 vs, rest))"

text \<open>
  \<open>read_groups\<close>: groups of 16 bits from position \<open>i\<close>, at most \<open>n\<close> more; an embedded IPv4 address
  fills two groups and ends the sequence.
\<close>

fun read_groups :: "nat \<Rightarrow> nat \<Rightarrow> string \<Rightarrow> nat list \<times> bool \<times> string" where
  "read_groups i 0 s = ([], False, s)"
| "read_groups i (Suc n) s =
     (case (if n = 0 then None
            else Option.bind (after_separator CHR '':'' i s) read_ipv4) of
        Some (v, rest) \<Rightarrow> ([v div 65536, v mod 65536], True, rest)
      | None \<Rightarrow>
          (case Option.bind (after_separator CHR '':'' i s) (read_number 16 4 True 65536) of
             None \<Rightarrow> ([], False, s)
           | Some (g, rest) \<Rightarrow>
               (let (gs, v4, rest') = read_groups (Suc i) n rest in (g # gs, v4, rest'))))"

definition read_ipv6 :: "string \<Rightarrow> (nat \<times> string) option" where
  "read_ipv6 s =
     (let (head, head_v4, rest) = read_groups 0 8 s in
      if length head = 8 then Some (digits_value 65536 head, rest)
      else if head_v4 then None
      else
        case Option.bind (read_char CHR '':'' rest) (read_char CHR '':'') of
          None \<Rightarrow> None
        | Some rest \<Rightarrow>
            (let (tail, _, rest) = read_groups 0 (8 - (length head + 1)) rest in
             Some (digits_value 65536
               (head @ replicate (8 - length head - length tail) 0 @ tail), rest)))"

definition parse_ip_addr :: "string \<Rightarrow> ip_addr option" where
  "parse_ip_addr s =
     (case read_ipv4 s of
        Some (v, rest) \<Rightarrow> if rest = [] then Some (V4 (of_nat v)) else None
      | None \<Rightarrow>
          (case read_ipv6 s of
             Some (v, rest) \<Rightarrow> if rest = [] then Some (V6 (of_nat v)) else None
           | None \<Rightarrow> None))"

section \<open>The client address behind proxies\<close>

text \<open>
  The networks of the \<open>ipnet\<close> crate are a parameter: \<open>contains\<close> is \<open>IpNet::contains\<close>. A header map
  is the function from a name to the value that \<open>get\<close> and \<open>to_str\<close> of the \<open>http\<close> crate return.
\<close>

type_synonym header_map = "string \<Rightarrow> string option"

definition ip_is_trusted_proxy ::
  "('net \<Rightarrow> ip_addr \<Rightarrow> bool) \<Rightarrow> ip_addr \<Rightarrow> 'net list \<Rightarrow> bool" where
  "ip_is_trusted_proxy contains ip trusted \<longleftrightarrow>
     is_loopback ip \<or> list_ex (\<lambda>net. contains net ip) trusted"

fun collect_option :: "'a option list \<Rightarrow> 'a list option" where
  "collect_option [] = Some []"
| "collect_option (None # xs) = None"
| "collect_option (Some x # xs) = map_option ((#) x) (collect_option xs)"

definition forwarded_chain_of :: "string \<Rightarrow> ip_addr list option" where
  "forwarded_chain_of value =
     (case collect_option (map parse_ip_addr
             (filter (\<lambda>s. s \<noteq> []) (map str_trim (str_split CHR '','' value)))) of
        None \<Rightarrow> None
      | Some chain \<Rightarrow> if chain = [] then None else Some chain)"

definition forwarded_chain_from_header :: "header_map \<Rightarrow> ip_addr list option" where
  "forwarded_chain_from_header headers =
     Option.bind (headers ''x-forwarded-for'') forwarded_chain_of"

definition real_ip_header :: "ip_addr \<Rightarrow> header_map \<Rightarrow> ip_addr option" where
  "real_ip_header peer headers =
     (case headers ''x-real-ip'' of
        None \<Rightarrow> None
      | Some value \<Rightarrow>
          (let v = str_trim value in
           if v = [] then None
           else case parse_ip_addr v of
                  None \<Rightarrow> None
                | Some ip \<Rightarrow> if ip \<noteq> peer then Some ip else None))"

definition forwarded_ip_from_headers ::
  "('net \<Rightarrow> ip_addr \<Rightarrow> bool) \<Rightarrow> ip_addr \<Rightarrow> 'net list \<Rightarrow> header_map \<Rightarrow> ip_addr option" where
  "forwarded_ip_from_headers contains peer trusted headers =
     (case Option.bind (forwarded_chain_from_header headers)
             (\<lambda>chain. List.find (\<lambda>ip. \<not> ip_is_trusted_proxy contains ip trusted) (rev chain)) of
        Some ip \<Rightarrow> Some ip
      | None \<Rightarrow> real_ip_header peer headers)"

definition resolve_client_ip ::
  "('net \<Rightarrow> ip_addr \<Rightarrow> bool) \<Rightarrow> 'net list \<Rightarrow> ip_addr \<Rightarrow> header_map \<Rightarrow> ip_addr" where
  "resolve_client_ip contains trusted peer headers =
     (if \<not> ip_is_trusted_proxy contains peer trusted then peer
      else case forwarded_ip_from_headers contains peer trusted headers of
             None \<Rightarrow> peer
           | Some ip \<Rightarrow> ip)"

lemmas read_octets_num [simp] = read_octets.simps(2) [of _ "pred_numeral n", folded numeral_eq_Suc] for n
lemmas read_groups_num [simp] = read_groups.simps(2) [of _ "pred_numeral n", folded numeral_eq_Suc] for n

lemmas replicate_num [simp] = replicate_Suc [of "pred_numeral n", folded numeral_eq_Suc] for n

lemmas parse_defs = parse_ip_addr_def read_ipv4_def read_ipv6_def read_number_def read_char_def
  after_separator_def digit_value_def digits_value_def Let_def

lemma parse_samples:
  "parse_ip_addr ''198.51.100.7'' = Some (V4 0xC6336407)"
  "parse_ip_addr ''01.2.3.4'' = None" "parse_ip_addr ''1.2.3.256'' = None"
  "parse_ip_addr ''::1'' = Some (V6 1)"
  "parse_ip_addr ''2001:db8::a'' = Some (V6 0x20010DB800000000000000000000000A)"
  "parse_ip_addr ''::ffff:1.2.3.4'' = Some (V6 0xFFFF01020304)"
  "parse_ip_addr ''1.2.3'' = None" "parse_ip_addr ''1:2'' = None"
  by (simp_all add: parse_defs)

section \<open>Facts\<close>

lemma str_split_not_Nil [simp]: "str_split d s \<noteq> []"
  by (induction s) (auto split: list.split)








section \<open>Properties\<close>



text \<open>The proxy has to set \<open>X-Real-IP\<close>: when it passes the client's own on, an unparsable
  \<open>X-Forwarded-For\<close> lets the client name its address.\<close>

lemma real_ip_of_the_client:
  "resolve_client_ip (=) [] (V6 1)
     ((\<lambda>_. None)(''x-forwarded-for'' := Some ''bogus,198.51.100.24'', ''x-real-ip'' := Some ''8.8.8.8'')) =
    V4 0x08080808"
  by (simp add: resolve_client_ip_def forwarded_ip_from_headers_def forwarded_chain_from_header_def
      forwarded_chain_of_def real_ip_header_def str_trim_def chars_defs parse_defs ip_is_trusted_proxy_def
      is_loopback_def Let_def)

end
