(* ===== verification/Admission.thy ===== *)
theory Admission
  imports NetAddr "HOL-Library.Multiset"
begin

text \<open>
  Admission control of \<open>nodelite-server/src/admission.rs\<close>: the authentication-failure tracker with
  its window, block and table limits, the WebSocket controller with its connection counters and
  permits, and the install controller. Time is passed in; the two mutexes make each operation one
  step. A poisoned mutex is the operation \<open>recover\<close>.
\<close>

section \<open>The failure tracker\<close>

definition WS_AUTH_FAILURE_TABLE_SOFT_LIMIT :: nat where
  "WS_AUTH_FAILURE_TABLE_SOFT_LIMIT = 1024"

definition INSTALL_AUTH_FAILURE_TABLE_SOFT_LIMIT :: nat where
  "INSTALL_AUTH_FAILURE_TABLE_SOFT_LIMIT = 1024"

definition WS_AUTH_FAILURE_TABLE_HARD_LIMIT :: nat where
  "WS_AUTH_FAILURE_TABLE_HARD_LIMIT = 4096"

definition INSTALL_AUTH_FAILURE_TABLE_HARD_LIMIT :: nat where
  "INSTALL_AUTH_FAILURE_TABLE_HARD_LIMIT = 4096"

record failure_state =
  fs_recent :: "instant list"
  fs_blocked :: "instant option"

definition fs_default :: failure_state where
  "fs_default = \<lparr>fs_recent = [], fs_blocked = None\<rparr>"

record failure_tracker =
  ft_failures :: "(ip_addr, failure_state) table"
  ft_soft_limit :: nat
  ft_hard_limit :: nat

definition failure_tracker_new :: "nat \<Rightarrow> nat \<Rightarrow> failure_tracker" where
  "failure_tracker_new soft hard = \<lparr>ft_failures = [], ft_soft_limit = soft, ft_hard_limit = hard\<rparr>"

definition prune_auth_failure_state ::
  "instant \<Rightarrow> duration \<Rightarrow> failure_state \<Rightarrow> failure_state" where
  "prune_auth_failure_state now window s =
     \<lparr>fs_recent = dropWhile (\<lambda>ts. window < duration_since now ts) (fs_recent s),
      fs_blocked = (case fs_blocked s of
          Some b \<Rightarrow> if b \<le> now then None else Some b
        | None \<Rightarrow> None)\<rparr>"

definition entry_or_default :: "(ip_addr, failure_state) table \<Rightarrow> ip_addr \<Rightarrow> failure_state" where
  "entry_or_default t ip = (case tbl_get t ip of None \<Rightarrow> fs_default | Some s \<Rightarrow> s)"

definition failure_check ::
  "ip_addr \<Rightarrow> instant \<Rightarrow> duration \<Rightarrow> failure_tracker \<Rightarrow> failure_tracker \<times> (nat + unit)" where
  "failure_check ip now window t =
     (let s = prune_auth_failure_state now window (entry_or_default (ft_failures t) ip);
          t1 = t\<lparr>ft_failures := tbl_put ip s (ft_failures t)\<rparr>;
          admitted = (if fs_recent s = [] \<and> fs_blocked s = None
                      then t1\<lparr>ft_failures := tbl_del ip (ft_failures t1)\<rparr> else t1)
      in case fs_blocked s of
           Some b \<Rightarrow> if now < b then (t1, Inl (max (as_secs (duration_since b now)) 1))
                     else (admitted, Inr ())
         | None \<Rightarrow> (admitted, Inr ()))"

definition sweep_expired_auth_failures ::
  "instant \<Rightarrow> duration \<Rightarrow> (ip_addr, failure_state) table \<Rightarrow> (ip_addr, failure_state) table" where
  "sweep_expired_auth_failures now window t =
     filter (\<lambda>(ip, s). fs_recent s \<noteq> [] \<or> fs_blocked s \<noteq> None)
       (map (\<lambda>(ip, s). (ip, prune_auth_failure_state now window s)) t)"

definition auth_failure_activity_key :: "failure_state \<Rightarrow> instant option" where
  "auth_failure_activity_key s =
     (case fs_blocked s of
        Some b \<Rightarrow> Some b
      | None \<Rightarrow> if fs_recent s = [] then None else Some (last (fs_recent s)))"

definition enforce_auth_failure_hard_cap ::
  "nat \<Rightarrow> (ip_addr, failure_state) table \<Rightarrow> (ip_addr, failure_state) table" where
  "enforce_auth_failure_hard_cap hard t =
     (if length t \<le> hard then t
      else
        let remove_count = length t - hard;
            candidates = sort_key (\<lambda>(ip, key). (key, ip))
              (map (\<lambda>(ip, s). (ip, auth_failure_activity_key s)) t)
        in fold (\<lambda>(ip, _). tbl_del ip) (take remove_count candidates) t)"

definition trim_auth_failure_table ::
  "instant \<Rightarrow> duration \<Rightarrow> nat \<Rightarrow> nat \<Rightarrow> (ip_addr, failure_state) table
    \<Rightarrow> (ip_addr, failure_state) table" where
  "trim_auth_failure_table now window soft hard t =
     enforce_auth_failure_hard_cap hard
       (if soft < length t then sweep_expired_auth_failures now window t else t)"

definition push_failure ::
  "instant \<Rightarrow> duration \<Rightarrow> nat \<Rightarrow> duration \<Rightarrow> failure_state \<Rightarrow> failure_state" where
  "push_failure now window max_attempts block s0 =
     (let s = prune_auth_failure_state now window s0;
          s = s\<lparr>fs_recent := fs_recent s @ [now]\<rparr>
      in if max_attempts \<le> length (fs_recent s)
         then s\<lparr>fs_blocked := Some (now + block), fs_recent := []\<rparr> else s)"

definition failure_record ::
  "ip_addr \<Rightarrow> instant \<Rightarrow> duration \<Rightarrow> nat \<Rightarrow> duration \<Rightarrow> failure_tracker \<Rightarrow> failure_tracker" where
  "failure_record ip now window max_attempts block t =
     (let s = push_failure now window max_attempts block (entry_or_default (ft_failures t) ip)
      in t\<lparr>ft_failures := trim_auth_failure_table now window (ft_soft_limit t) (ft_hard_limit t)
              (tbl_put ip s (ft_failures t))\<rparr>)"

definition failure_clear :: "ip_addr \<Rightarrow> failure_tracker \<Rightarrow> failure_tracker" where
  "failure_clear ip t = t\<lparr>ft_failures := tbl_del ip (ft_failures t)\<rparr>"

definition failure_recover :: "instant \<Rightarrow> duration \<Rightarrow> failure_tracker \<Rightarrow> failure_tracker" where
  "failure_recover now window t =
     t\<lparr>ft_failures := enforce_auth_failure_hard_cap (ft_hard_limit t)
        (filter (\<lambda>(ip, s). (case fs_blocked s of Some until \<Rightarrow> now < until | None \<Rightarrow> False)
                           \<or> fs_recent s \<noteq> [])
          (sweep_expired_auth_failures now window (ft_failures t)))\<rparr>"

section \<open>Configuration and controllers\<close>

record ws_config =
  wc_max_total_connections :: nat
  wc_max_connections_per_ip :: nat
  wc_auth_fail_window_secs :: nat
  wc_auth_fail_max_attempts :: nat
  wc_auth_block_secs :: nat

record install_config =
  in_window_secs :: nat
  in_max_attempts :: nat
  in_block_secs :: nat

definition auth_failure_admission_config :: "ws_config \<Rightarrow> install_config" where
  "auth_failure_admission_config ws =
     \<lparr>in_window_secs = wc_auth_fail_window_secs ws, in_max_attempts = wc_auth_fail_max_attempts ws,
      in_block_secs = wc_auth_block_secs ws\<rparr>"

definition sensitive_auth_failure_admission_config :: "ws_config \<Rightarrow> install_config" where
  "sensitive_auth_failure_admission_config ws =
     \<lparr>in_window_secs = wc_auth_fail_window_secs ws,
      in_max_attempts = max (wc_auth_fail_max_attempts ws div 2) 1,
      in_block_secs = wc_auth_block_secs ws\<rparr>"

record ws_admission =
  wa_total :: nat
  wa_by_ip :: "(ip_addr, nat) table"
  wa_failures :: failure_tracker

definition ws_admission_new :: ws_admission where
  "ws_admission_new = \<lparr>wa_total = 0, wa_by_ip = [], wa_failures = failure_tracker_new
     WS_AUTH_FAILURE_TABLE_SOFT_LIMIT WS_AUTH_FAILURE_TABLE_HARD_LIMIT\<rparr>"

datatype ws_admission_error = TotalCapacity | IpCapacity | Blocked nat

definition preflight_config :: "ws_config \<Rightarrow> ws_config" where
  "preflight_config c = c\<lparr>wc_max_total_connections := min (wc_max_total_connections c) 16,
                          wc_max_connections_per_ip := min (wc_max_connections_per_ip c) 2\<rparr>"

definition check_auth_block ::
  "ws_config \<Rightarrow> ip_addr \<Rightarrow> instant \<Rightarrow> ws_admission \<Rightarrow> ws_admission \<times> (ws_admission_error + unit)" where
  "check_auth_block c ip now w =
     (let (t, r) = failure_check ip now (from_secs (wc_auth_fail_window_secs c)) (wa_failures w)
      in (w\<lparr>wa_failures := t\<rparr>, case r of Inl secs \<Rightarrow> Inl (Blocked secs) | Inr u \<Rightarrow> Inr u))"

text \<open>\<open>usize::saturating_add\<close> on a 64-bit target.\<close>

definition usize_sat_add :: "nat \<Rightarrow> nat \<Rightarrow> nat" where
  "usize_sat_add a b = min (a + b) (2 ^ 64 - 1)"

text \<open>A permit is the client address that its destructor gives back.\<close>

definition try_acquire ::
  "ws_config \<Rightarrow> ip_addr \<Rightarrow> instant \<Rightarrow> ws_admission
    \<Rightarrow> ws_admission \<times> (ws_admission_error + ip_addr)" where
  "try_acquire c ip now w0 =
     (let (w, r) = check_auth_block c ip now w0 in
      case r of
        Inl e \<Rightarrow> (w, Inl e)
      | Inr _ \<Rightarrow>
          if wc_max_total_connections c \<le> wa_total w then (w, Inl TotalCapacity)
          else
            let active = (case tbl_get (wa_by_ip w) ip of None \<Rightarrow> 0 | Some n \<Rightarrow> n) in
            if wc_max_connections_per_ip c \<le> active then (w, Inl IpCapacity)
            else (w\<lparr>wa_total := usize_sat_add (wa_total w) 1,
                    wa_by_ip := tbl_put ip (active + 1) (wa_by_ip w)\<rparr>, Inr ip))"

definition ws_record_auth_failure ::
  "ws_config \<Rightarrow> ip_addr \<Rightarrow> instant \<Rightarrow> ws_admission \<Rightarrow> ws_admission" where
  "ws_record_auth_failure c ip now w =
     w\<lparr>wa_failures := failure_record ip now (from_secs (wc_auth_fail_window_secs c))
        (wc_auth_fail_max_attempts c) (from_secs (wc_auth_block_secs c)) (wa_failures w)\<rparr>"

definition ws_clear_auth_failures :: "ip_addr \<Rightarrow> ws_admission \<Rightarrow> ws_admission" where
  "ws_clear_auth_failures ip w = w\<lparr>wa_failures := failure_clear ip (wa_failures w)\<rparr>"

definition release_connection :: "ip_addr \<Rightarrow> ws_admission \<Rightarrow> ws_admission" where
  "release_connection ip w0 =
     (let w = w0\<lparr>wa_total := wa_total w0 - 1\<rparr> in
      case tbl_get (wa_by_ip w) ip of
        None \<Rightarrow> w
      | Some n \<Rightarrow> if n - 1 = 0 then w\<lparr>wa_by_ip := tbl_del ip (wa_by_ip w)\<rparr>
                  else w\<lparr>wa_by_ip := tbl_put ip (n - 1) (wa_by_ip w)\<rparr>)"

definition reconcile_ws_connection_counters :: "ws_config \<Rightarrow> ws_admission \<Rightarrow> ws_admission" where
  "reconcile_ws_connection_counters c w =
     (let by_ip = filter (\<lambda>(ip, n). 0 < n) (wa_by_ip w);
          summed = fold (\<lambda>(ip, n) acc. usize_sat_add acc n) by_ip 0
      in w\<lparr>wa_by_ip := by_ip,
           wa_total := min (max (wa_total w) summed) (wc_max_total_connections c)\<rparr>)"

definition ws_recover :: "ws_config \<Rightarrow> instant \<Rightarrow> ws_admission \<Rightarrow> ws_admission" where
  "ws_recover c now w =
     reconcile_ws_connection_counters c
       (w\<lparr>wa_failures := failure_recover now (from_secs (wc_auth_fail_window_secs c)) (wa_failures w)\<rparr>)"

definition ws_snapshot :: "ws_config \<Rightarrow> ws_admission \<Rightarrow> nat \<times> nat \<times> nat" where
  "ws_snapshot c w = (wa_total w, wc_max_total_connections c, wc_max_connections_per_ip c)"

text \<open>The install controller: the tracker alone, with the install limits.\<close>

definition install_admission_new :: failure_tracker where
  "install_admission_new = failure_tracker_new
     INSTALL_AUTH_FAILURE_TABLE_SOFT_LIMIT INSTALL_AUTH_FAILURE_TABLE_HARD_LIMIT"

definition install_check ::
  "install_config \<Rightarrow> ip_addr \<Rightarrow> instant \<Rightarrow> failure_tracker \<Rightarrow> failure_tracker \<times> (nat + unit)" where
  "install_check c ip now t = failure_check ip now (from_secs (in_window_secs c)) t"

definition install_record_auth_failure ::
  "install_config \<Rightarrow> ip_addr \<Rightarrow> instant \<Rightarrow> failure_tracker \<Rightarrow> failure_tracker" where
  "install_record_auth_failure c ip now t =
     failure_record ip now (from_secs (in_window_secs c)) (in_max_attempts c)
       (from_secs (in_block_secs c)) t"

definition install_clear_auth_failures :: "ip_addr \<Rightarrow> failure_tracker \<Rightarrow> failure_tracker" where
  "install_clear_auth_failures ip t = failure_clear ip t"

definition install_recover :: "install_config \<Rightarrow> instant \<Rightarrow> failure_tracker \<Rightarrow> failure_tracker" where
  "install_recover c now t = failure_recover now (from_secs (in_window_secs c)) t"

text \<open>The HTTP response to a refusal: status code, and the \<open>Retry-After\<close> seconds.\<close>

definition ws_admission_error_response :: "ws_admission_error \<Rightarrow> nat \<times> nat option" where
  "ws_admission_error_response e =
     (case e of TotalCapacity \<Rightarrow> (503, None) | IpCapacity \<Rightarrow> (429, None)
        | Blocked secs \<Rightarrow> (429, Some secs))"

section \<open>Facts about the table operations\<close>

lemma tbl_ok_sweep [table_intros]: "tbl_ok t \<Longrightarrow> tbl_ok (sweep_expired_auth_failures now window t)"
  unfolding sweep_expired_auth_failures_def
  by (rule tbl_ok_filter) (simp add: tbl_ok_def comp_def case_prod_beta)

lemma sweep_get:
  assumes "tbl_ok t"
  shows "tbl_get (sweep_expired_auth_failures now window t) ip =
    (case tbl_get t ip of
       None \<Rightarrow> None
     | Some s \<Rightarrow> (let s' = prune_auth_failure_state now window s in
         if fs_recent s' \<noteq> [] \<or> fs_blocked s' \<noteq> None then Some s' else None))"
proof -
  have "tbl_ok (map (\<lambda>(ip, s). (ip, prune_auth_failure_state now window s)) t)"
    using assms by (simp add: tbl_ok_def comp_def case_prod_beta)
  from tbl_get_filter [OF this] show ?thesis
    unfolding sweep_expired_auth_failures_def by (simp add: tbl_get_map_snd Let_def split: option.split)
qed

lemma length_sweep: "length (sweep_expired_auth_failures now window t) \<le> length t"
  unfolding sweep_expired_auth_failures_def by (rule le_trans [OF length_filter_le]) simp

lemma fold_del_get:
  "tbl_get (fold (\<lambda>(ip, _). tbl_del ip) ks t) ip = (if ip \<in> fst ` set ks then None else tbl_get t ip)"
  by (induction ks arbitrary: t) (auto simp: table_simps)

lemma fold_del_ok: "tbl_ok t \<Longrightarrow> tbl_ok (fold (\<lambda>(ip, _). tbl_del ip) ks t)"
  by (induction ks arbitrary: t) (auto intro: table_intros)

lemma tbl_ok_cap [table_intros]: "tbl_ok t \<Longrightarrow> tbl_ok (enforce_auth_failure_hard_cap hard t)"
  by (simp add: enforce_auth_failure_hard_cap_def Let_def fold_del_ok)

text \<open>What the hard cap keeps: the entries with the latest activity, ties broken by address.\<close>

definition rank :: "(ip_addr, failure_state) table \<Rightarrow> ip_addr \<Rightarrow> instant option \<times> ip_addr" where
  "rank t ip = (auth_failure_activity_key (entry_or_default t ip), ip)"

lemma cap_spec:
  assumes "tbl_ok t"
  obtains R where "\<And>ip. tbl_get (enforce_auth_failure_hard_cap hard t) ip =
      (if ip \<in> R then None else tbl_get t ip)"
    and "R \<subseteq> dom (tbl_get t)" and "card R = length t - hard" and "finite R"
    and "\<And>i k. i \<in> R \<Longrightarrow> k \<in> dom (tbl_get t) - R \<Longrightarrow> rank t i \<le> rank t k"
proof (cases "length t \<le> hard")
  case True
  then show ?thesis
    using that [of "{}"] by (simp add: enforce_auth_failure_hard_cap_def)
next
  case False
  let ?f = "\<lambda>(ip, key). (key, ip) :: instant option \<times> ip_addr"
  let ?m = "map (\<lambda>(ip, s). (ip, auth_failure_activity_key s)) t"
  let ?C = "sort_key ?f ?m" and ?n = "length t - hard"
  let ?R = "fst ` set (take ?n ?C)"
  have fst_m: "map fst ?m = map fst t"
    by (simp add: comp_def case_prod_beta)
  have fst_C: "fst ` set ?C = dom (tbl_get t)"
    using fst_m by (metis list.set_map set_sort tbl_dom)
  have "distinct (map fst ?C)"
  proof -
    have "mset (map fst ?C) = mset (map fst t)"
      using fst_m by (metis mset_map mset_sort)
    then show ?thesis
      using assms by (metis mset_eq_imp_distinct_iff tbl_ok_def)
  qed
  then have split: "distinct (map fst (take ?n ?C) @ map fst (drop ?n ?C))"
    by (simp add: map_append [symmetric] del: map_append)
  have rank: "?f (ip, key) = rank t ip" if "(ip, key) \<in> set ?C" for ip key
  proof -
    from that obtain s where s: "(ip, s) \<in> set t" "key = auth_failure_activity_key s"
      by auto
    then have "tbl_get t ip = Some s"
      using tbl_get_in [OF assms] by simp
    then show ?thesis
      using s by (simp add: rank_def entry_or_default_def)
  qed
  have sorted: "sorted (map ?f (take ?n ?C) @ map ?f (drop ?n ?C))"
    by (simp add: map_append [symmetric] del: map_append)
  show ?thesis
  proof (rule that [of ?R])
    show "tbl_get (enforce_auth_failure_hard_cap hard t) ip = (if ip \<in> ?R then None else tbl_get t ip)" for ip
      using False by (simp add: enforce_auth_failure_hard_cap_def Let_def fold_del_get)
    show "?R \<subseteq> dom (tbl_get t)"
      unfolding fst_C [symmetric] by (intro image_mono set_take_subset)
    show "card ?R = length t - hard"
      using split distinct_card [of "map fst (take ?n ?C)"] by simp
    show "finite ?R"
      by simp
    show "rank t i \<le> rank t k" if i: "i \<in> ?R" and k: "k \<in> dom (tbl_get t) - ?R" for i k
    proof -
      obtain a where a: "(i, a) \<in> set (take ?n ?C)"
        using i by auto
      have "k \<in> fst ` set (take ?n ?C @ drop ?n ?C)"
        using k unfolding fst_C [symmetric] by simp
      then have "k \<in> fst ` set (drop ?n ?C)"
        using k unfolding set_append by blast
      then obtain b where b: "(k, b) \<in> set (drop ?n ?C)"
        by auto
      have "?f (i, a) \<le> ?f (k, b)"
        using sorted imageI [OF a, of ?f] imageI [OF b, of ?f]
        unfolding sorted_append set_map by blast
      then show ?thesis
        unfolding rank [OF in_set_takeD [OF a]] rank [OF in_set_dropD [OF b]] .
    qed
  qed
qed

lemma length_cap: "tbl_ok t \<Longrightarrow> length (enforce_auth_failure_hard_cap hard t) = min (length t) hard"
proof -
  assume ok: "tbl_ok t"
  obtain R where R: "\<And>ip. tbl_get (enforce_auth_failure_hard_cap hard t) ip =
      (if ip \<in> R then None else tbl_get t ip)" "R \<subseteq> dom (tbl_get t)" "card R = length t - hard" "finite R"
    using cap_spec [OF ok, of hard] by metis
  have "dom (tbl_get (enforce_auth_failure_hard_cap hard t)) = dom (tbl_get t) - R"
    by (auto simp: R(1) dom_def split: if_splits)
  then have "length (enforce_auth_failure_hard_cap hard t) = card (dom (tbl_get t)) - card R"
    using card_Diff_subset [OF R(4,2)] length_tbl_card [OF tbl_ok_cap [OF ok]] by simp
  then show ?thesis
    using R(3) length_tbl_card [OF ok] by simp
qed

lemma trim_length:
  "tbl_ok t \<Longrightarrow> length (trim_auth_failure_table now window soft hard t) \<le> hard"
  by (simp add: trim_auth_failure_table_def length_cap tbl_ok_sweep)

lemma tbl_ok_trim [table_intros]: "tbl_ok t \<Longrightarrow> tbl_ok (trim_auth_failure_table now window soft hard t)"
  by (simp add: trim_auth_failure_table_def tbl_ok_cap tbl_ok_sweep)

section \<open>The gate as an interface\<close>

text \<open>
  What the connection and request handlers rely on: a check answers from the state of that client
  alone, and clearing gives a client a clean record and touches no other.
\<close>

locale failure_gate =
  fixes check :: "'ip \<Rightarrow> instant \<Rightarrow> 's \<Rightarrow> 's \<times> (nat + unit)"
    and clear :: "'ip \<Rightarrow> 's \<Rightarrow> 's"
    and verdict :: "'s \<Rightarrow> 'ip \<Rightarrow> instant \<Rightarrow> nat option"
    and inv :: "'s \<Rightarrow> bool"
  assumes check_result: "inv s \<Longrightarrow>
      snd (check ip now s) = (case verdict s ip now of None \<Rightarrow> Inr () | Some r \<Rightarrow> Inl r)"
    and check_verdict: "inv s \<Longrightarrow> now \<le> t \<Longrightarrow> verdict (fst (check ip now s)) ip' t = verdict s ip' t"
    and check_inv: "inv s \<Longrightarrow> inv (fst (check ip now s))"
    and clear_self: "inv s \<Longrightarrow> verdict (clear ip s) ip now = None"
    and clear_other: "inv s \<Longrightarrow> ip' \<noteq> ip \<Longrightarrow> verdict (clear ip s) ip' now = verdict s ip' now"
    and clear_inv: "inv s \<Longrightarrow> inv (clear ip s)"
begin

lemma checks_do_not_interfere:
  "inv s \<Longrightarrow> list_all (\<lambda>(ip, now). now \<le> t) qs \<Longrightarrow>
    snd (check ip t (fold (\<lambda>(ip, now) s. fst (check ip now s)) qs s)) = snd (check ip t s)"
proof -
  assume *: "inv s" "list_all (\<lambda>(ip, now). now \<le> t) qs"
  have "inv (fold (\<lambda>(ip, now) s. fst (check ip now s)) qs s) \<and>
      verdict (fold (\<lambda>(ip, now) s. fst (check ip now s)) qs s) ip t = verdict s ip t"
    using * by (induction qs arbitrary: s) (auto simp: check_verdict check_inv)
  then show ?thesis
    using * by (simp add: check_result)
qed

lemma clear_then_check:
  "inv s \<Longrightarrow> snd (check ip' now (clear ip s)) = (if ip' = ip then Inr () else snd (check ip' now s))"
  by (simp add: check_result clear_inv clear_self clear_other)

end

definition tracker_verdict :: "failure_tracker \<Rightarrow> ip_addr \<Rightarrow> instant \<Rightarrow> nat option" where
  "tracker_verdict t ip now =
     (case fs_blocked (entry_or_default (ft_failures t) ip) of
        Some b \<Rightarrow> if now < b then Some (max (as_secs (duration_since b now)) 1) else None
      | None \<Rightarrow> None)"

lemma failure_check_get:
  "tbl_get (ft_failures (fst (failure_check ip now window t))) =
    (let s = prune_auth_failure_state now window (entry_or_default (ft_failures t) ip) in
     (tbl_get (ft_failures t))(ip := if fs_recent s = [] \<and> fs_blocked s = None then None else Some s))"
  by (auto simp: failure_check_def Let_def table_simps split: option.split)

lemma failure_check_ok:
  "tbl_ok (ft_failures t) \<Longrightarrow> tbl_ok (ft_failures (fst (failure_check ip now window t)))"
  by (auto simp: failure_check_def Let_def intro: table_intros split: option.split)

lemma prune_default [simp]: "prune_auth_failure_state now window fs_default = fs_default"
  by (simp add: prune_auth_failure_state_def fs_default_def)

lemma failure_check_length:
  "length (ft_failures (fst (failure_check ip now window t))) \<le> length (ft_failures t)"
proof (cases "tbl_get (ft_failures t) ip")
  case None
  then show ?thesis
    by (simp add: failure_check_def entry_or_default_def Let_def fs_default_def
        prune_auth_failure_state_def delete_update_same length_tbl_del_le)
next
  case (Some s)
  then show ?thesis
    using length_tbl_del_le [of ip "tbl_put ip s' (ft_failures t)" for s']
    by (auto simp: failure_check_def Let_def length_tbl_put split: option.split)
qed

lemma failure_check_result:
  "snd (failure_check ip now window t) =
    (case tracker_verdict t ip now of None \<Rightarrow> Inr () | Some r \<Rightarrow> Inl r)"
  by (auto simp: failure_check_def tracker_verdict_def prune_auth_failure_state_def Let_def
      split: option.split)

lemma failure_check_verdict:
  assumes "now \<le> t'"
  shows "tracker_verdict (fst (failure_check ip now window t)) ip' t' = tracker_verdict t ip' t'"
  using assms
  by (auto simp: tracker_verdict_def entry_or_default_def failure_check_get Let_def fs_default_def
      prune_auth_failure_state_def split: option.split if_splits)

interpretation gate: failure_gate "\<lambda>ip now. failure_check ip now window" failure_clear
    tracker_verdict "\<lambda>t. tbl_ok (ft_failures t)"
proof unfold_locales
  fix s ip now t' ip'
  show "snd (failure_check ip now window s) =
      (case tracker_verdict s ip now of None \<Rightarrow> Inr () | Some r \<Rightarrow> Inl r)"
    by (rule failure_check_result)
  show "now \<le> t' \<Longrightarrow> tracker_verdict (fst (failure_check ip now window s)) ip' t' = tracker_verdict s ip' t'"
    by (rule failure_check_verdict)
  show "tbl_ok (ft_failures s) \<Longrightarrow> tbl_ok (ft_failures (fst (failure_check ip now window s)))"
    by (rule failure_check_ok)
qed (auto simp: failure_clear_def tracker_verdict_def entry_or_default_def fs_default_def table_simps
    intro: table_intros)

section \<open>Runs of the gate\<close>

text \<open>
  Operations of all clients in any order under a clock that only advances. The history of failures
  of a client since its last successful authentication is specification only.
\<close>

datatype gate_event = Tick nat | CheckIp ip_addr | FailIp ip_addr | ClearIp ip_addr | Poisoned

record gate_world =
  gw_now :: instant
  gw_tracker :: failure_tracker
  gw_hist :: "ip_addr \<Rightarrow> instant list"

definition gate_init :: "nat \<Rightarrow> nat \<Rightarrow> gate_world" where
  "gate_init soft hard = \<lparr>gw_now = 0, gw_tracker = failure_tracker_new soft hard, gw_hist = (\<lambda>_. [])\<rparr>"

definition gate_step :: "duration \<Rightarrow> nat \<Rightarrow> duration \<Rightarrow> gate_event \<Rightarrow> gate_world \<Rightarrow> gate_world" where
  "gate_step window max_attempts block e w =
     (let now = gw_now w; t = gw_tracker w in
      case e of
        Tick d \<Rightarrow> w\<lparr>gw_now := now + d\<rparr>
      | CheckIp ip \<Rightarrow> w\<lparr>gw_tracker := fst (failure_check ip now window t)\<rparr>
      | FailIp ip \<Rightarrow> w\<lparr>gw_tracker := failure_record ip now window max_attempts block t,
                        gw_hist := (gw_hist w)(ip := gw_hist w ip @ [now])\<rparr>
      | ClearIp ip \<Rightarrow> w\<lparr>gw_tracker := failure_clear ip t, gw_hist := (gw_hist w)(ip := [])\<rparr>
      | Poisoned \<Rightarrow> w\<lparr>gw_tracker := failure_recover now window t\<rparr>)"

text \<open>A run of at least \<open>max_attempts\<close> consecutive failures inside one window, and a block from it.\<close>

definition offence :: "duration \<Rightarrow> nat \<Rightarrow> duration \<Rightarrow> instant list \<Rightarrow> instant \<Rightarrow> bool" where
  "offence window max_attempts block h b \<longleftrightarrow>
     (\<exists>pre ts post. h = pre @ ts @ post \<and> ts \<noteq> [] \<and> max_attempts \<le> length ts \<and>
        last ts - hd ts \<le> window \<and> b = last ts + block)"

definition entry_ok :: "duration \<Rightarrow> nat \<Rightarrow> duration \<Rightarrow> instant list \<Rightarrow> failure_state \<Rightarrow> bool" where
  "entry_ok window max_attempts block h s \<longleftrightarrow> (\<exists>pre. h = pre @ fs_recent s) \<and>
     (\<forall>b. fs_blocked s = Some b \<longrightarrow> offence window max_attempts block h b)"

lemma offence_append: "offence window m block h b \<Longrightarrow> offence window m block (h @ [n]) b"
  unfolding offence_def by (metis append_assoc)

lemma entry_ok_default [simp]: "entry_ok window m block h fs_default"
  by (simp add: entry_ok_def fs_default_def)

lemma entry_ok_prune:
  "entry_ok window m block h s \<Longrightarrow> entry_ok window m block h (prune_auth_failure_state now window s)"
proof -
  assume ok: "entry_ok window m block h s"
  let ?P = "\<lambda>ts. window < duration_since now ts"
  from ok obtain pre where "h = pre @ fs_recent s"
    by (auto simp: entry_ok_def)
  then have "h = (pre @ takeWhile ?P (fs_recent s)) @ dropWhile ?P (fs_recent s)"
    by simp
  then have "\<exists>pre. h = pre @ dropWhile ?P (fs_recent s)"
    by blast
  then show ?thesis
    using ok by (simp add: entry_ok_def prune_auth_failure_state_def split: option.split)
qed

lemma entry_ok_push:
  assumes "entry_ok window m block h s" and "sorted (h @ [now])"
  shows "entry_ok window m block (h @ [now]) (push_failure now window m block s)"
proof -
  let ?p = "prune_auth_failure_state now window s"
  let ?rs = "fs_recent ?p @ [now]"
  have p: "entry_ok window m block h ?p"
    using assms(1) by (rule entry_ok_prune)
  then obtain pre where pre: "h = pre @ fs_recent ?p"
    by (auto simp: entry_ok_def)
  have "now - hd ?rs \<le> window"
  proof (cases "fs_recent ?p")
    case (Cons x xs)
    then have "\<not> window < duration_since now x"
      unfolding prune_auth_failure_state_def failure_state.simps by (metis dropWhile_eq_Cons_conv)
    then show ?thesis
      by (simp add: Cons duration_since_def)
  qed simp
  then have off: "offence window m block (h @ [now]) (now + block)" if "m \<le> length ?rs"
    using that pre unfolding offence_def
    by (intro exI [of _ pre] exI [of _ ?rs] exI [of _ "[]"]) simp
  show ?thesis
    using p pre off offence_append [of window m block h _ now]
    by (auto simp: push_failure_def Let_def entry_ok_def)
qed

definition gate_inv :: "nat \<Rightarrow> duration \<Rightarrow> nat \<Rightarrow> duration \<Rightarrow> gate_world \<Rightarrow> bool" where
  "gate_inv hard window m block w \<longleftrightarrow>
     tbl_ok (ft_failures (gw_tracker w)) \<and> length (ft_failures (gw_tracker w)) \<le> hard \<and>
     ft_hard_limit (gw_tracker w) = hard \<and> (\<forall>ip. sorted (gw_hist w ip @ [gw_now w])) \<and>
     (\<forall>ip. entry_ok window m block (gw_hist w ip) (entry_or_default (ft_failures (gw_tracker w)) ip))"

lemma gate_init_inv: "gate_inv hard window m block (gate_init soft hard)"
  by (simp add: gate_inv_def gate_init_def failure_tracker_new_def entry_or_default_def)

lemma entry_sweep:
  "tbl_ok t \<Longrightarrow> entry_or_default (sweep_expired_auth_failures now window t) ip \<in>
    {fs_default, prune_auth_failure_state now window (entry_or_default t ip)}"
  by (auto simp: entry_or_default_def sweep_get Let_def split: option.split)

lemma entry_cap:
  assumes "tbl_ok t"
  shows "entry_or_default (enforce_auth_failure_hard_cap hard t) ip \<in> {fs_default, entry_or_default t ip}"
proof -
  obtain R where "\<And>ip. tbl_get (enforce_auth_failure_hard_cap hard t) ip =
      (if ip \<in> R then None else tbl_get t ip)"
    using cap_spec [OF assms, of hard] by metis
  then show ?thesis
    by (simp add: entry_or_default_def)
qed

lemma entry_trim:
  assumes "tbl_ok t"
  shows "entry_or_default (trim_auth_failure_table now window soft hard t) ip \<in>
    {fs_default, entry_or_default t ip, prune_auth_failure_state now window (entry_or_default t ip)}"
proof (cases "soft < length t")
  case True
  then show ?thesis
    using entry_cap [OF tbl_ok_sweep [OF assms], of hard now window ip]
      entry_sweep [OF assms, of now window ip] by (auto simp: trim_auth_failure_table_def)
next
  case False
  then show ?thesis
    using entry_cap [OF assms, of hard ip] by (auto simp: trim_auth_failure_table_def)
qed

lemma entry_recover:
  assumes "tbl_ok (ft_failures t)"
  shows "entry_or_default (ft_failures (failure_recover now window t)) ip \<in>
    {fs_default, prune_auth_failure_state now window (entry_or_default (ft_failures t) ip)}"
proof -
  let ?P = "\<lambda>(ip :: ip_addr) s. (case fs_blocked s of Some until \<Rightarrow> now < until | None \<Rightarrow> False) \<or> fs_recent s \<noteq> []"
  let ?s = "sweep_expired_auth_failures now window (ft_failures t)"
  have ok: "tbl_ok ?s" "tbl_ok (filter (\<lambda>(ip, s). ?P ip s) ?s)"
    using assms by (auto intro: table_intros)
  have "entry_or_default (filter (\<lambda>(ip, s). ?P ip s) ?s) ip \<in> {fs_default, entry_or_default ?s ip}"
    unfolding entry_or_default_def tbl_get_filter [OF ok(1), of ?P] by (auto split: option.split)
  then show ?thesis
    using entry_cap [OF ok(2), of "ft_hard_limit t" ip] entry_sweep [OF assms, of now window ip]
    by (auto simp: failure_recover_def)
qed

lemma failure_record_entry:
  assumes "tbl_ok (ft_failures t)"
  shows "entry_or_default (ft_failures (failure_record ip now window m block t)) ip' \<in>
    (let e = (if ip' = ip then push_failure now window m block (entry_or_default (ft_failures t) ip)
              else entry_or_default (ft_failures t) ip')
     in {fs_default, e, prune_auth_failure_state now window e})"
proof -
  let ?s = "push_failure now window m block (entry_or_default (ft_failures t) ip)"
  have "entry_or_default (tbl_put ip ?s (ft_failures t)) ip' =
      (if ip' = ip then ?s else entry_or_default (ft_failures t) ip')"
    by (simp add: entry_or_default_def tbl_get_put)
  then show ?thesis
    using entry_trim [OF tbl_ok_put [OF assms, of ip ?s], of now window "ft_soft_limit t" "ft_hard_limit t" ip']
    by (simp add: failure_record_def Let_def)
qed

lemma gate_step_inv:
  assumes "gate_inv hard window m block w"
  shows "gate_inv hard window m block (gate_step window m block e w)"
proof -
  let ?t = "gw_tracker w" and ?now = "gw_now w" and ?h = "gw_hist w"
  have ok: "tbl_ok (ft_failures ?t)" and len: "length (ft_failures ?t) \<le> hard"
    and lim: "ft_hard_limit ?t = hard" and sorted: "\<And>ip. sorted (?h ip @ [?now])"
    and entries: "\<And>ip. entry_ok window m block (?h ip) (entry_or_default (ft_failures ?t) ip)"
    using assms by (auto simp: gate_inv_def)
  show ?thesis
  proof (cases e)
    case (Tick d)
    have "sorted (?h ip @ [?now + d])" for ip
      using sorted [of ip] by (auto simp: sorted_append)
    then show ?thesis
      using assms by (simp add: Tick gate_inv_def gate_step_def)
  next
    case (CheckIp ip)
    let ?c = "fst (failure_check ip ?now window ?t)"
    have "entry_ok window m block (?h ip') (entry_or_default (ft_failures ?c) ip')" for ip'
    proof -
      have "entry_or_default (ft_failures ?c) ip' \<in> {fs_default, entry_or_default (ft_failures ?t) ip',
          prune_auth_failure_state ?now window (entry_or_default (ft_failures ?t) ip')}"
        by (auto simp: entry_or_default_def failure_check_get Let_def split: option.split)
      then show ?thesis
        using entries [of ip'] entry_ok_prune [OF entries [of ip'], of ?now] by auto
    qed
    moreover have "ft_hard_limit ?c = ft_hard_limit ?t"
      by (simp add: failure_check_def Let_def split: option.split)
    ultimately show ?thesis
      using failure_check_ok [OF ok] le_trans [OF failure_check_length len] lim sorted
      by (simp add: CheckIp gate_inv_def gate_step_def Let_def)
  next
    case (FailIp ip)
    let ?c = "failure_record ip ?now window m block ?t"
    have "entry_ok window m block ((?h(ip := ?h ip @ [?now])) ip') (entry_or_default (ft_failures ?c) ip')" for ip'
      using failure_record_entry [OF ok, of ip ?now window m block ip'] entries [of ip']
        entry_ok_prune [OF entries [of ip'], of ?now] entry_ok_push [OF entries sorted, of ip]
        entry_ok_prune [OF entry_ok_push [OF entries sorted, of ip], of ?now]
      by (auto simp: Let_def)
    moreover have "sorted ((?h(ip := ?h ip @ [?now])) ip' @ [?now])" for ip'
      using sorted [of ip'] by (auto simp: sorted_append)
    moreover have "tbl_ok (ft_failures ?c)" "length (ft_failures ?c) \<le> hard" "ft_hard_limit ?c = hard"
      using ok lim by (auto simp: failure_record_def Let_def trim_length tbl_ok_put intro: table_intros)
    ultimately show ?thesis
      by (simp add: FailIp gate_inv_def gate_step_def Let_def del: fun_upd_apply)
  next
    case (ClearIp ip)
    have "entry_ok window m block ((?h(ip := [])) ip') (entry_or_default (ft_failures (failure_clear ip ?t)) ip')" for ip'
      using entries [of ip'] by (auto simp: failure_clear_def entry_or_default_def table_simps)
    moreover have "sorted ((?h(ip := [])) ip' @ [?now])" for ip'
      using sorted [of ip'] by auto
    moreover have "tbl_ok (ft_failures (failure_clear ip ?t))"
        "length (ft_failures (failure_clear ip ?t)) \<le> hard" "ft_hard_limit (failure_clear ip ?t) = hard"
      using ok lim le_trans [OF length_tbl_del_le len, of ip]
      by (simp_all add: failure_clear_def tbl_ok_del)
    ultimately show ?thesis
      by (simp add: ClearIp gate_inv_def gate_step_def Let_def del: fun_upd_apply)
  next
    case Poisoned
    let ?c = "failure_recover ?now window ?t"
    have "entry_ok window m block (?h ip') (entry_or_default (ft_failures ?c) ip')" for ip'
      using entry_recover [OF ok, of ?now window ip'] entry_ok_prune [OF entries [of ip'], of ?now] by auto
    moreover have "tbl_ok (ft_failures ?c)" "length (ft_failures ?c) \<le> hard" "ft_hard_limit ?c = hard"
      using ok lim by (simp_all add: failure_recover_def length_cap tbl_ok_filter tbl_ok_sweep tbl_ok_cap)
    ultimately show ?thesis
      using sorted by (simp add: Poisoned gate_inv_def gate_step_def Let_def)
  qed
qed

interpretation gate_run: machine "gate_step window m block" "gate_inv hard window m block" "\<lambda>_. True"
  by unfold_locales (rule gate_step_inv)

section \<open>The connection counters\<close>

text \<open>Operations on the controller with the permits that are alive, oldest first.\<close>

datatype ws_event =
    Acquire ip_addr instant
  | DropPermit nat
  | WsFail ip_addr instant
  | WsClear ip_addr
  | WsCheck ip_addr instant
  | WsPoisoned instant

record ws_world =
  ww_state :: ws_admission
  ww_permits :: "ip_addr list"

definition ws_init :: ws_world where
  "ws_init = \<lparr>ww_state = ws_admission_new, ww_permits = []\<rparr>"

definition ws_step :: "ws_config \<Rightarrow> ws_event \<Rightarrow> ws_world \<Rightarrow> ws_world" where
  "ws_step c e w =
     (case e of
        Acquire ip now \<Rightarrow>
          (case try_acquire c ip now (ww_state w) of
             (s, Inr p) \<Rightarrow> \<lparr>ww_state = s, ww_permits = ww_permits w @ [p]\<rparr>
           | (s, Inl _) \<Rightarrow> w\<lparr>ww_state := s\<rparr>)
      | DropPermit i \<Rightarrow>
          if i < length (ww_permits w)
          then \<lparr>ww_state = release_connection (ww_permits w ! i) (ww_state w),
                ww_permits = take i (ww_permits w) @ drop (Suc i) (ww_permits w)\<rparr>
          else w
      | WsFail ip now \<Rightarrow> w\<lparr>ww_state := ws_record_auth_failure c ip now (ww_state w)\<rparr>
      | WsClear ip \<Rightarrow> w\<lparr>ww_state := ws_clear_auth_failures ip (ww_state w)\<rparr>
      | WsCheck ip now \<Rightarrow> w\<lparr>ww_state := fst (check_auth_block c ip now (ww_state w))\<rparr>
      | WsPoisoned now \<Rightarrow> w\<lparr>ww_state := ws_recover c now (ww_state w)\<rparr>)"

definition counters_exact :: "ws_admission \<Rightarrow> ip_addr list \<Rightarrow> bool" where
  "counters_exact s ps \<longleftrightarrow> tbl_ok (wa_by_ip s) \<and> wa_total s = length ps \<and>
     (\<forall>ip. tbl_get (wa_by_ip s) ip = (if ip \<in> set ps then Some (count_list ps ip) else None))"

definition ws_inv :: "ws_config \<Rightarrow> ws_world \<Rightarrow> bool" where
  "ws_inv c w \<longleftrightarrow> counters_exact (ww_state w) (ww_permits w) \<and>
     length (ww_permits w) \<le> wc_max_total_connections c \<and> wc_max_total_connections c < 2 ^ 64 \<and>
     (\<forall>ip. count_list (ww_permits w) ip \<le> wc_max_connections_per_ip c)"

lemma check_auth_block_counters [simp]:
  "wa_total (fst (check_auth_block c ip now s)) = wa_total s"
  "wa_by_ip (fst (check_auth_block c ip now s)) = wa_by_ip s"
  by (simp_all add: check_auth_block_def case_prod_beta)

lemma try_acquire_cases:
  assumes "counters_exact s ps"
  shows "(\<exists>e. snd (try_acquire c ip now s) = Inl e \<and>
        wa_total (fst (try_acquire c ip now s)) = wa_total s \<and>
        wa_by_ip (fst (try_acquire c ip now s)) = wa_by_ip s) \<or>
    (snd (try_acquire c ip now s) = Inr ip \<and> length ps < wc_max_total_connections c \<and>
      count_list ps ip < wc_max_connections_per_ip c \<and>
      wa_total (fst (try_acquire c ip now s)) = usize_sat_add (length ps) 1 \<and>
      wa_by_ip (fst (try_acquire c ip now s)) = tbl_put ip (count_list ps ip + 1) (wa_by_ip s))"
proof -
  have n: "(case tbl_get (wa_by_ip s) ip of None \<Rightarrow> 0 | Some n \<Rightarrow> n) = count_list ps ip"
    using assms by (auto simp: counters_exact_def count_list_0_iff)
  obtain s1 r where "check_auth_block c ip now s = (s1, r)"
    by (cases "check_auth_block c ip now s")
  moreover have "wa_total s1 = wa_total s" "wa_by_ip s1 = wa_by_ip s"
    using check_auth_block_counters [of c ip now s] calculation by simp_all
  ultimately show ?thesis
    using n assms by (auto simp: try_acquire_def counters_exact_def Let_def split: sum.split)
qed

lemma count_list_split:
  "i < length ps \<Longrightarrow> count_list ps x =
    count_list (take i ps @ drop (Suc i) ps) x + (if ps ! i = x then 1 else 0)"
  by (subst id_take_nth_drop [of i ps]) auto

lemma same_count_mem: "count_list xs a = count_list ys a \<Longrightarrow> a \<in> set xs \<longleftrightarrow> a \<in> set ys"
  using count_list_0_iff [of xs a] count_list_0_iff [of ys a] by simp

lemma release_exact:
  assumes "counters_exact s ps" and "i < length ps"
  shows "counters_exact (release_connection (ps ! i) s) (take i ps @ drop (Suc i) ps)"
proof -
  let ?x = "ps ! i" and ?ps = "take i ps @ drop (Suc i) ps"
  have x: "tbl_get (wa_by_ip s) ?x = Some (count_list ps ?x)"
    using assms by (simp add: counters_exact_def)
  note n = count_list_split [OF assms(2)]
  have mem: "ip \<in> set ps \<longleftrightarrow> ip \<in> set ?ps \<or> ip = ?x" for ip
  proof (cases "ip = ?x")
    case False
    then show ?thesis
      using same_count_mem [of ps ip ?ps] n [of ip] by (simp del: set_append)
  qed (use assms(2) in simp)
  have other: "count_list ps ip = count_list ?ps ip" if "ip \<noteq> ?x" for ip
    using n [of ip] that by simp
  have self: "count_list ps ?x - 1 = count_list ?ps ?x"
    using n [of ?x] by simp
  have len: "length ps - 1 = length ?ps"
    using assms(2) by simp
  have gone: "count_list ?ps ?x = 0 \<longleftrightarrow> ?x \<notin> set ?ps"
    by (rule count_list_0_iff)
  show ?thesis
    using assms(1) mem other gone
    unfolding counters_exact_def release_connection_def Let_def
    by (simp add: x self len table_simps table_intros del: set_append One_nat_def)
qed

lemma sum_table_counts:
  assumes "tbl_ok t" and "\<And>ip. tbl_get t ip = (if ip \<in> set ps then Some (count_list ps ip) else None)"
  shows "sum_list (map snd t) = length ps"
proof -
  have "sum_list (map snd t) = (\<Sum>kv\<in>set t. snd kv)"
    using assms(1) by (simp add: sum_list_distinct_conv_sum_set tbl_ok_def distinct_map)
  also have "\<dots> = (\<Sum>kv\<in>set t. count_list ps (fst kv))"
    using assms by (intro sum.cong) (auto simp: tbl_get_in [symmetric] split: if_splits dest!: tbl_get_in [OF assms(1), THEN iffD1])
  also have "\<dots> = (\<Sum>k\<in>fst ` set t. count_list ps k)"
    using assms(1) by (simp add: sum.reindex tbl_ok_def distinct_map)
  also have "fst ` set t = set ps"
    using assms(2) unfolding tbl_dom [symmetric] by (auto simp: dom_def split: if_splits)
  finally show ?thesis
    by (simp add: sum_count_set)
qed

lemma fold_sat_sum:
  "a \<le> 2 ^ 64 - 1 \<Longrightarrow> fold (\<lambda>(ip, n) acc. usize_sat_add acc n) t a = min (a + sum_list (map snd t)) (2 ^ 64 - 1)"
  by (induction t arbitrary: a) (auto simp: usize_sat_add_def)

lemma reconcile_exact:
  assumes "counters_exact s ps" and "length ps \<le> wc_max_total_connections c"
    and "wc_max_total_connections c < 2 ^ 64"
  shows "reconcile_ws_connection_counters c s = s"
proof -
  have get: "tbl_get (wa_by_ip s) ip = (if ip \<in> set ps then Some (count_list ps ip) else None)" for ip
    using assms(1) by (simp add: counters_exact_def)
  have ok: "tbl_ok (wa_by_ip s)" and total: "wa_total s = length ps"
    using assms(1) by (simp_all add: counters_exact_def)
  have "0 < n" if "(ip, n) \<in> set (wa_by_ip s)" for ip n
    using that get [of ip] tbl_get_in [OF ok] count_list_0_iff [of ps ip] by (auto split: if_splits)
  then have same: "filter (\<lambda>(ip, n). 0 < n) (wa_by_ip s) = wa_by_ip s"
    by (intro filter_True) auto
  have "fold (\<lambda>(ip, n) acc. usize_sat_add acc n) (wa_by_ip s) 0 = length ps"
    using assms(2,3) sum_table_counts [OF ok get] by (simp add: fold_sat_sum)
  then show ?thesis
    using assms(2) by (simp add: reconcile_ws_connection_counters_def same total Let_def)
qed

lemma counters_exact_failures [simp]:
  "counters_exact (s\<lparr>wa_failures := t\<rparr>) ps = counters_exact s ps"
  by (simp add: counters_exact_def)

lemma ws_step_inv:
  assumes "ws_inv c w"
  shows "ws_inv c (ws_step c e w)"
proof -
  let ?s = "ww_state w" and ?ps = "ww_permits w"
  have ex: "counters_exact ?s ?ps" and len: "length ?ps \<le> wc_max_total_connections c"
    and max: "wc_max_total_connections c < 2 ^ 64"
    and per: "\<And>ip. count_list ?ps ip \<le> wc_max_connections_per_ip c"
    using assms by (auto simp: ws_inv_def)
  show ?thesis
  proof (cases e)
    case (Acquire ip now)
    obtain s r where s: "try_acquire c ip now ?s = (s, r)"
      by (cases "try_acquire c ip now ?s")
    show ?thesis
    proof (cases r)
      case (Inl err)
      then have "counters_exact s ?ps"
        using try_acquire_cases [OF ex, of c ip now] ex by (simp add: s counters_exact_def)
      then show ?thesis
        using len max per by (simp add: Acquire ws_step_def ws_inv_def s Inl)
    next
      case (Inr p)
      then have r: "p = ip" "length ?ps < wc_max_total_connections c"
          "count_list ?ps ip < wc_max_connections_per_ip c" "wa_total s = usize_sat_add (length ?ps) 1"
          "wa_by_ip s = tbl_put ip (count_list ?ps ip + 1) (wa_by_ip ?s)"
        using try_acquire_cases [OF ex, of c ip now] by (simp_all add: s)
      have "counters_exact s (?ps @ [ip])"
        using ex r max by (auto simp: counters_exact_def usize_sat_add_def table_simps intro: table_intros)
      then show ?thesis
        using len max per r by (simp add: Acquire ws_step_def ws_inv_def s Inr Suc_le_eq)
    qed
  next
    case (DropPermit i)
    have "count_list (take i ?ps @ drop (Suc i) ?ps) ip \<le> wc_max_connections_per_ip c"
      if "i < length ?ps" for ip
      using per [of ip] count_list_split [OF that, of ip] by simp
    then show ?thesis
      using assms release_exact [OF ex, of i] len max
      by (auto simp: DropPermit ws_step_def ws_inv_def simp del: count_list_append)
  next
    case (WsCheck ip now)
    then show ?thesis
      using assms by (simp add: ws_step_def ws_inv_def counters_exact_def)
  next
    case (WsPoisoned now)
    then show ?thesis
      using assms reconcile_exact [OF _ len max] ex by (simp add: ws_step_def ws_inv_def ws_recover_def)
  qed (use assms in \<open>simp_all add: ws_step_def ws_inv_def ws_record_auth_failure_def ws_clear_auth_failures_def\<close>)
qed

interpretation ws_run: machine "ws_step c" "ws_inv c" "\<lambda>_. True"
  by unfold_locales (rule ws_step_inv)

section \<open>One client failing repeatedly\<close>

lemma dropWhile_twice [simp]: "dropWhile P (dropWhile P xs) = dropWhile P xs"
  by (induction xs) auto

lemma prune_push:
  "0 < block \<Longrightarrow> fs_recent (prune_auth_failure_state now window (push_failure now window m block s)) =
      fs_recent (push_failure now window m block s) \<and>
    fs_blocked (prune_auth_failure_state now window (push_failure now window m block s)) =
      fs_blocked (push_failure now window m block s)"
  by (simp add: push_failure_def prune_auth_failure_state_def Let_def dropWhile_append3
      duration_since_def split: option.split)

lemma failure_state_eqI: "fs_recent s = fs_recent t \<Longrightarrow> fs_blocked s = fs_blocked t \<Longrightarrow> s = t"
  for s t :: failure_state
  by simp

lemma push_nonempty: "fs_recent (push_failure now window m block s) \<noteq> [] \<or>
    fs_blocked (push_failure now window m block s) \<noteq> None"
  by (simp add: push_failure_def Let_def)

definition room :: "ip_addr \<Rightarrow> failure_tracker \<Rightarrow> bool" where
  "room ip t \<longleftrightarrow> tbl_ok (ft_failures t) \<and> length (tbl_put ip fs_default (ft_failures t)) \<le> ft_hard_limit t"

lemma record_self:
  assumes "room ip t" and "0 < block"
  shows "room ip (failure_record ip now window m block t) \<and>
    entry_or_default (ft_failures (failure_record ip now window m block t)) ip =
      push_failure now window m block (entry_or_default (ft_failures t) ip)"
proof -
  let ?s = "push_failure now window m block (entry_or_default (ft_failures t) ip)"
  let ?t = "tbl_put ip ?s (ft_failures t)"
  let ?sw = "if ft_soft_limit t < length ?t then sweep_expired_auth_failures now window ?t else ?t"
  have ok: "tbl_ok ?t" and len: "length ?t \<le> ft_hard_limit t"
    using assms(1) by (simp_all add: room_def tbl_ok_put length_tbl_put)
  have pr: "prune_auth_failure_state now window ?s = ?s"
    using prune_push [OF assms(2)] by (intro failure_state_eqI) simp_all
  have get: "tbl_get ?sw ip = Some ?s"
    using push_nonempty [of now window m block "entry_or_default (ft_failures t) ip"]
    by (simp add: sweep_get [OF ok] tbl_get_put pr)
  have sw: "tbl_ok ?sw" "length ?sw \<le> ft_hard_limit t"
    using ok len le_trans [OF length_sweep len] by (auto intro: table_intros)
  then have rec: "ft_failures (failure_record ip now window m block t) = ?sw"
    by (simp add: failure_record_def Let_def trim_auth_failure_table_def enforce_auth_failure_hard_cap_def)
  have "ft_hard_limit (failure_record ip now window m block t) = ft_hard_limit t"
    by (simp add: failure_record_def Let_def)
  then show ?thesis
    using sw get unfolding room_def rec by (simp add: length_tbl_put entry_or_default_def)
qed

lemma record_run:
  assumes "room ip t" and "0 < block" and "entry_or_default (ft_failures t) ip = fs_default"
    and "sorted ts" and "ts \<noteq> [] \<Longrightarrow> last ts - hd ts \<le> window" and "length ts \<le> m" and "1 \<le> m"
  defines "t' \<equiv> fold (\<lambda>now. failure_record ip now window m block) ts t"
  shows "room ip t' \<and> entry_or_default (ft_failures t') ip =
    (if length ts < m then \<lparr>fs_recent = ts, fs_blocked = None\<rparr>
     else \<lparr>fs_recent = [], fs_blocked = Some (last ts + block)\<rparr>)"
  using assms(4-6) unfolding t'_def
proof (induction ts rule: rev_induct)
  case Nil
  then show ?case
    using assms(1,3,7) by (simp add: fs_default_def)
next
  case (snoc now ts)
  have IH: "room ip (fold (\<lambda>now. failure_record ip now window m block) ts t)"
      "entry_or_default (ft_failures (fold (\<lambda>now. failure_record ip now window m block) ts t)) ip =
        \<lparr>fs_recent = ts, fs_blocked = None\<rparr>"
  proof -
    have "last ts - hd ts \<le> window" if "ts \<noteq> []"
    proof -
      have "last ts \<le> now" and "now - hd ts \<le> window"
        using snoc.prems(1,2) that last_in_set [OF that] by (auto simp: sorted_append)
      then show ?thesis
        using diff_le_mono [of "last ts" now "hd ts"] by linarith
    qed
    moreover have "sorted ts" "length ts \<le> m" "length ts < m"
      using snoc.prems by (simp_all add: sorted_append)
    ultimately show "room ip (fold (\<lambda>now. failure_record ip now window m block) ts t)"
      "entry_or_default (ft_failures (fold (\<lambda>now. failure_record ip now window m block) ts t)) ip =
        \<lparr>fs_recent = ts, fs_blocked = None\<rparr>"
      using snoc.IH by simp_all
  qed
  have "\<not> window < duration_since now x" if "x \<in> set ts" for x
  proof -
    have "hd (ts @ [now]) \<le> x"
      using snoc.prems(1) that by (cases ts) auto
    then show ?thesis
      using snoc.prems(2) by (simp add: duration_since_def)
  qed
  then have "dropWhile (\<lambda>x. window < duration_since now x) ts = ts"
    by (cases ts) auto
  then show ?case
    using record_self [OF IH(1) assms(2), of now window m] snoc.prems(3)
    by (auto simp: IH(2) push_failure_def prune_auth_failure_state_def Let_def)
qed

section \<open>Properties\<close>

text \<open>
  A client is blocked exactly by its \<open>max_attempts\<close>-th failure inside the window, until
  \<open>block\<close> after that failure, with the remaining whole seconds (at least one) as the retry hint;
  with fewer failures it is let through.
\<close>

theorem blocked_at_the_limit:
  assumes "room ip t" and "entry_or_default (ft_failures t) ip = fs_default"
    and "sorted ts" and "last ts - hd ts \<le> window" and "length ts = m" and "1 \<le> m"
    and "last ts \<le> now" and "now < last ts + block" and "n < m"
  shows "snd (failure_check ip now window (fold (\<lambda>at. failure_record ip at window m block) ts t)) =
      Inl (max (as_secs (last ts + block - now)) 1) \<and>
    snd (failure_check ip now window (fold (\<lambda>at. failure_record ip at window m block) (take n ts) t)) =
      Inr ()"
proof
  have b: "0 < block"
    using assms(7,8) by simp
  show "snd (failure_check ip now window (fold (\<lambda>at. failure_record ip at window m block) ts t)) =
      Inl (max (as_secs (last ts + block - now)) 1)"
    using record_run [OF assms(1) b assms(2,3), of window m] assms(4-8)
    by (simp add: failure_check_result tracker_verdict_def duration_since_def)
  have take: "last (take n ts) - hd (take n ts) \<le> window" if "take n ts \<noteq> []"
  proof -
    have "last (take n ts) \<in> set ts" and "hd (take n ts) = hd ts" and "ts \<noteq> []"
      using that last_in_set [OF that] in_set_takeD [of _ n ts] by (cases ts; auto)+
    moreover have "x \<le> last ts" if "x \<in> set ts" for x
      using assms(3) that by (induction ts) auto
    ultimately show ?thesis
      using assms(4) by (metis diff_le_mono le_trans)
  qed
  show "snd (failure_check ip now window (fold (\<lambda>at. failure_record ip at window m block) (take n ts) t)) =
      Inr ()"
    using record_run [OF assms(1) b assms(2) sorted_wrt_take [OF assms(3), of n] take, of m] assms(5,6,9)
    by (simp add: failure_check_result tracker_verdict_def)
qed

theorem blocked_at_the_limit_witness:
  "snd (failure_check (V4 1) (25 * NANOS) (60 * NANOS)
     (fold (\<lambda>at. failure_record (V4 1) at (60 * NANOS) 2 (300 * NANOS)) [10 * NANOS, 20 * NANOS]
       install_admission_new)) = Inl 295"
  using blocked_at_the_limit [of "V4 1" install_admission_new "[10 * NANOS, 20 * NANOS]" "60 * NANOS" 2
      "25 * NANOS" "300 * NANOS" 1]
  by (simp add: room_def install_admission_new_def failure_tracker_new_def entry_or_default_def
      INSTALL_AUTH_FAILURE_TABLE_HARD_LIMIT_def NANOS_def as_secs_def)

text \<open>
  C25: whatever all clients do, in any order, the failure table never exceeds its hard limit - also while
  a flood of distinct addresses fails and nobody is blocked -, and a client is only ever refused because
  of its own failures since its last success: at least \<open>max_attempts\<close> of them within one window, with the
  block of the last one still running and its remaining whole seconds as the hint.
\<close>

theorem refused_only_for_own_failures:
  fixes es window m block soft hard
  defines "w \<equiv> fold (gate_step window m block) es (gate_init soft hard)"
  shows "length (ft_failures (gw_tracker w)) \<le> hard \<and>
    (case snd (failure_check ip (gw_now w) window (gw_tracker w)) of
       Inr _ \<Rightarrow> True
     | Inl secs \<Rightarrow> \<exists>b. offence window m block (gw_hist w ip) b \<and> gw_now w < b \<and>
         secs = max (as_secs (b - gw_now w)) 1)"
proof -
  have inv: "gate_inv hard window m block w"
    unfolding w_def by (rule gate_run.run_inv [OF gate_init_inv]) (simp add: list_all_iff)
  then have ok: "entry_ok window m block (gw_hist w ip) (entry_or_default (ft_failures (gw_tracker w)) ip)"
    by (simp add: gate_inv_def)
  show ?thesis
    using ok inv
    by (auto simp: failure_check_result tracker_verdict_def entry_ok_def gate_inv_def
        duration_since_def split: option.splits if_splits sum.splits)
qed

theorem refused_only_for_own_failures_witness:
  "\<exists>b. offence 60 2 300 [5, 6] b \<and> 6 < b"
proof -
  let ?w = "fold (gate_step 60 2 300) [Tick 5, FailIp (V4 1), Tick 1, FailIp (V4 1)] (gate_init 10 20)"
  have w: "gw_now ?w = 6" "gw_hist ?w (V4 1) = [5, 6]"
    by (simp_all add: gate_step_def gate_init_def Let_def)
  have "snd (failure_check (V4 1) (gw_now ?w) 60 (gw_tracker ?w)) = Inl 1"
    by (simp add: gate_step_def gate_init_def Let_def failure_tracker_new_def failure_record_def
        failure_check_def entry_or_default_def fs_default_def prune_auth_failure_state_def
        push_failure_def trim_auth_failure_table_def enforce_auth_failure_hard_cap_def
        duration_since_def as_secs_def NANOS_def)
  with refused_only_for_own_failures [of 60 2 300 "[Tick 5, FailIp (V4 1), Tick 1, FailIp (V4 1)]" 10 20 "V4 1"]
  show ?thesis
    unfolding w by auto
qed

text \<open>
  The hard limit evicts exactly the surplus, oldest activity first, so that a client still
  blocked is evicted only if every entry left is blocked or failed later than that block ends.
\<close>

theorem hard_cap_evicts_oldest:
  assumes "tbl_ok t" and "tbl_get t i = Some s" and "tbl_get (enforce_auth_failure_hard_cap hard t) i = None"
    and "tbl_get (enforce_auth_failure_hard_cap hard t) k = Some s'"
  shows "length (enforce_auth_failure_hard_cap hard t) = hard \<and> tbl_get t k = Some s' \<and>
    auth_failure_activity_key s \<le> auth_failure_activity_key s' \<and>
    (fs_blocked s' = None \<longrightarrow> fs_blocked s = Some b \<longrightarrow> fs_recent s' \<noteq> [] \<and> b \<le> last (fs_recent s'))"
proof -
  obtain R where R: "\<And>ip. tbl_get (enforce_auth_failure_hard_cap hard t) ip =
      (if ip \<in> R then None else tbl_get t ip)" "card R = length t - hard" "finite R"
      "\<And>i k. i \<in> R \<Longrightarrow> k \<in> dom (tbl_get t) - R \<Longrightarrow> rank t i \<le> rank t k"
    using cap_spec [OF assms(1), of hard] by metis
  have i: "i \<in> R" and k: "tbl_get t k = Some s'" "k \<in> dom (tbl_get t) - R"
    using assms(2-4) by (auto simp: R(1) split: if_splits)
  then have "card R \<noteq> 0"
    using R(3) by auto
  then have "length (enforce_auth_failure_hard_cap hard t) = hard"
    using R(2) by (simp add: length_cap [OF assms(1)])
  moreover have "auth_failure_activity_key s \<le> auth_failure_activity_key s'"
    using R(4) [OF i k(2)] assms(2) k(1) by (auto simp: rank_def entry_or_default_def)
  ultimately show ?thesis
    using k(1) by (auto simp: auth_failure_activity_key_def split: option.splits if_splits)
qed

theorem hard_cap_evicts_oldest_witness:
  "tbl_get (enforce_auth_failure_hard_cap 1
      [(V4 1, \<lparr>fs_recent = [], fs_blocked = Some 40\<rparr>), (V4 2, \<lparr>fs_recent = [7], fs_blocked = None\<rparr>)])
     (V4 1) = Some \<lparr>fs_recent = [], fs_blocked = Some 40\<rparr> \<and>
   auth_failure_activity_key \<lparr>fs_recent = [7], fs_blocked = None\<rparr> \<le> Some 40"
proof -
  let ?t = "[(V4 1, \<lparr>fs_recent = [], fs_blocked = Some (40 :: nat)\<rparr>),
    (V4 2, \<lparr>fs_recent = [7], fs_blocked = None\<rparr>)]"
  have cap: "enforce_auth_failure_hard_cap 1 ?t = [(V4 1, \<lparr>fs_recent = [], fs_blocked = Some 40\<rparr>)]"
    by (simp add: enforce_auth_failure_hard_cap_def auth_failure_activity_key_def less_eq_ip_addr_def)
  have "auth_failure_activity_key \<lparr>fs_recent = [7], fs_blocked = None\<rparr> \<le>
      auth_failure_activity_key \<lparr>fs_recent = [], fs_blocked = Some 40\<rparr>"
    using hard_cap_evicts_oldest [of ?t "V4 2" "\<lparr>fs_recent = [7], fs_blocked = None\<rparr>" 1 "V4 1"
        "\<lparr>fs_recent = [], fs_blocked = Some 40\<rparr>"] unfolding cap
    by (simp add: tbl_ok_def)
  then show ?thesis
    unfolding cap by (simp add: auth_failure_activity_key_def)
qed

text \<open>
  C14: after any sequence of connections, disconnections, failures and recoveries from a poisoned
  lock, the counters equal the number of live permits, in total and per client, and neither limit
  is ever exceeded.
\<close>

theorem connection_limits_hold:
  fixes es c
  defines "w \<equiv> fold (ws_step c) es ws_init"
  assumes "wc_max_total_connections c < 2 ^ 64"
  shows "wa_total (ww_state w) = length (ww_permits w) \<and>
    length (ww_permits w) \<le> wc_max_total_connections c \<and>
    count_list (ww_permits w) ip \<le> wc_max_connections_per_ip c \<and>
    tbl_get (wa_by_ip (ww_state w)) ip =
      (if ip \<in> set (ww_permits w) then Some (count_list (ww_permits w) ip) else None)"
proof -
  have "ws_inv c ws_init"
    using assms(2) by (simp add: ws_inv_def ws_init_def ws_admission_new_def counters_exact_def)
  then have "ws_inv c w"
    unfolding w_def by (rule ws_run.run_inv) (simp add: list_all_iff)
  then show ?thesis
    by (simp add: ws_inv_def counters_exact_def)
qed

theorem connection_limits_hold_witness:
  "wa_total (ww_state (fold (ws_step \<lparr>wc_max_total_connections = 2, wc_max_connections_per_ip = 1,
      wc_auth_fail_window_secs = 60, wc_auth_fail_max_attempts = 2, wc_auth_block_secs = 60\<rparr>)
    [Acquire (V4 1) 0, Acquire (V4 1) 0, Acquire (V4 2) 0, DropPermit 0] ws_init)) = 1"
  using connection_limits_hold [of "\<lparr>wc_max_total_connections = 2, wc_max_connections_per_ip = 1,
      wc_auth_fail_window_secs = 60, wc_auth_fail_max_attempts = 2, wc_auth_block_secs = 60\<rparr>"
      "[Acquire (V4 1) 0, Acquire (V4 1) 0, Acquire (V4 2) 0, DropPermit 0]" "V4 1"]
  by (simp add: ws_step_def ws_init_def ws_admission_new_def try_acquire_def check_auth_block_def
      failure_check_def failure_tracker_new_def entry_or_default_def fs_default_def Let_def
      prune_auth_failure_state_def release_connection_def usize_sat_add_def)

text \<open>
  An authentication success lets that client in again at once and leaves every other client's
  standing as it was; checks never change any later answer.
\<close>

theorem success_clears_only_own_block:
  assumes "tbl_ok (ft_failures t)" and "list_all (\<lambda>(ip, at). at \<le> now) qs"
  shows "snd (failure_check ip now window (failure_clear ip' t)) =
      (if ip = ip' then Inr () else snd (failure_check ip now window t)) \<and>
    snd (failure_check ip now window (fold (\<lambda>(ip, at) t. fst (failure_check ip at window t)) qs t)) =
      snd (failure_check ip now window t)"
  using gate.clear_then_check [OF assms(1)] gate.checks_do_not_interfere [OF assms] by simp

theorem success_clears_only_own_block_witness:
  "snd (failure_check (V4 1) 20 60 (failure_clear (V4 1)
      \<lparr>ft_failures = [(V4 1, \<lparr>fs_recent = [], fs_blocked = Some 40\<rparr>)], ft_soft_limit = 4,
       ft_hard_limit = 8\<rparr>)) = Inr ()"
  using success_clears_only_own_block [of "\<lparr>ft_failures = [(V4 1, \<lparr>fs_recent = [], fs_blocked = Some 40\<rparr>)],
      ft_soft_limit = 4, ft_hard_limit = 8\<rparr>" 20 "[(V4 2, 10)]" "V4 1" 60 "V4 1"]
  by (simp add: tbl_ok_def)

end
