(* ===== verification/Sanitize.thy ===== *)
theory Sanitize
  imports Floats Text
begin

text \<open>
  Cleaning of external input: the snapshot types of \<open>nodelite-proto/src/model.rs\<close> and the checks of
  \<open>nodelite-server/src/sanitize.rs\<close> on Agent telemetry, the sliding window that disconnects a
  misbehaving Agent, and the free-text fields of the settings page.
\<close>

section \<open>Snapshots\<close>

record load_average =
  la_one :: f64
  la_five :: f64
  la_fifteen :: f64

record memory_usage =
  mu_total_bytes :: u64
  mu_used_bytes :: u64
  mu_available_bytes :: u64
  mu_swap_total_bytes :: u64
  mu_swap_used_bytes :: u64

record disk_usage =
  du_device :: string
  du_mount_point :: string
  du_fs_type :: string
  du_total_bytes :: u64
  du_available_bytes :: u64
  du_used_bytes :: u64
  du_used_percent :: f64

record network_counters =
  nc_total_rx_bytes :: u64
  nc_total_tx_bytes :: u64
  nc_rx_bytes_per_sec :: "f64 option"
  nc_tx_bytes_per_sec :: "f64 option"
  nc_packet_loss_percent :: "f64 option"

record node_snapshot =
  ns_collected_at :: datetime
  ns_cpu_usage_percent :: "f64 option"
  ns_load :: load_average
  ns_memory :: memory_usage
  ns_uptime_secs :: u64
  ns_disks :: "disk_usage list"
  ns_network :: network_counters

definition percentage :: "u64 \<Rightarrow> u64 \<Rightarrow> f64" where
  "percentage used total_bytes =
     (if total_bytes = 0 then F64_Fin 0 else f64_times (f64_div_u64 used total_bytes) 100)"

section \<open>The report\<close>

record sanitization_report =
  sr_clamped_percents :: u32
  sr_clamped_loads :: u32
  sr_clamped_memory_bytes :: u32
  sr_clamped_disk_bytes :: u32
  sr_truncated_strings :: u32
  sr_dropped_disks :: u32
  sr_sanitized_rates :: u32
  sr_trimmed_disks :: u32
  sr_deduplicated_disks :: u32

definition report_default :: sanitization_report where
  "report_default = \<lparr>sr_clamped_percents = 0, sr_clamped_loads = 0, sr_clamped_memory_bytes = 0,
     sr_clamped_disk_bytes = 0, sr_truncated_strings = 0, sr_dropped_disks = 0,
     sr_sanitized_rates = 0, sr_trimmed_disks = 0, sr_deduplicated_disks = 0\<rparr>"

definition report_total :: "sanitization_report \<Rightarrow> u32" where
  "report_total r =
     sat_add (sat_add (sat_add (sat_add (sat_add (sat_add (sr_clamped_percents r)
       (sr_clamped_loads r)) (sr_clamped_memory_bytes r)) (sr_clamped_disk_bytes r))
       (sr_truncated_strings r)) (sr_dropped_disks r)) (sr_sanitized_rates r)"

definition report_modified :: "sanitization_report \<Rightarrow> bool" where
  "report_modified r \<longleftrightarrow> 0 < report_total r"

section \<open>Numbers\<close>

definition MAX_SANITIZED_RATE_BYTES_PER_SEC :: rat where
  "MAX_SANITIZED_RATE_BYTES_PER_SEC = 1000000000000"

definition MAX_SANITIZED_LOAD :: rat where
  "MAX_SANITIZED_LOAD = 1000000"

fun sanitize_non_negative_f64 :: "f64 \<Rightarrow> rat \<Rightarrow> f64" where
  "sanitize_non_negative_f64 F64_NaN m = F64_Fin 0"
| "sanitize_non_negative_f64 (F64_Inf neg) m = (if neg then F64_Fin 0 else F64_Fin m)"
| "sanitize_non_negative_f64 (F64_Fin x) m = (if x < 0 then F64_Fin 0 else F64_Fin (min x m))"

text \<open>A sanitised number and its counter, increased when the number was changed.\<close>

definition sanitize_counted :: "rat \<Rightarrow> f64 \<Rightarrow> u32 \<Rightarrow> f64 \<times> u32" where
  "sanitize_counted m v counter =
     (let s = sanitize_non_negative_f64 v m
      in (s, if \<not> f64_eq v s then sat_add counter 1 else counter))"

definition sanitize_percentage :: "f64 \<Rightarrow> u32 \<Rightarrow> f64 \<times> u32" where
  "sanitize_percentage v counter = sanitize_counted 100 v counter"

definition sanitize_load_value :: "f64 \<Rightarrow> u32 \<Rightarrow> f64 \<times> u32" where
  "sanitize_load_value v counter = sanitize_counted MAX_SANITIZED_LOAD v counter"

definition sanitize_optional_percentage :: "f64 option \<Rightarrow> u32 \<Rightarrow> f64 option \<times> u32" where
  "sanitize_optional_percentage v counter =
     (case v of None \<Rightarrow> (None, counter)
      | Some x \<Rightarrow> (let (s, c) = sanitize_percentage x counter in (Some s, c)))"

definition sanitize_optional_rate :: "f64 option \<Rightarrow> rat \<Rightarrow> u32 \<Rightarrow> f64 option \<times> u32" where
  "sanitize_optional_rate v m counter =
     (case v of None \<Rightarrow> (None, counter)
      | Some x \<Rightarrow> (let (s, c) = sanitize_counted m x counter in (Some s, c)))"

definition sanitize_load_average ::
  "load_average \<Rightarrow> sanitization_report \<Rightarrow> load_average \<times> sanitization_report" where
  "sanitize_load_average l r =
     (let (one, c) = sanitize_load_value (la_one l) (sr_clamped_loads r);
          (five, c) = sanitize_load_value (la_five l) c;
          (fifteen, c) = sanitize_load_value (la_fifteen l) c
      in (\<lparr>la_one = one, la_five = five, la_fifteen = fifteen\<rparr>, r\<lparr>sr_clamped_loads := c\<rparr>))"

definition sanitize_memory_usage ::
  "memory_usage \<Rightarrow> sanitization_report \<Rightarrow> memory_usage \<times> sanitization_report" where
  "sanitize_memory_usage m0 r =
     (let m = m0\<lparr>mu_used_bytes := min (mu_used_bytes m0) (mu_total_bytes m0),
                 mu_available_bytes := min (mu_available_bytes m0) (mu_total_bytes m0)\<rparr>;
          m = (if mu_total_bytes m < sat_add (mu_used_bytes m) (mu_available_bytes m)
               then m\<lparr>mu_available_bytes := sat_sub (mu_total_bytes m) (mu_used_bytes m)\<rparr> else m);
          m = m\<lparr>mu_swap_used_bytes := min (mu_swap_used_bytes m) (mu_swap_total_bytes m)\<rparr>
      in (m, if mu_used_bytes m \<noteq> mu_used_bytes m0 \<or>
                mu_available_bytes m \<noteq> mu_available_bytes m0 \<or>
                mu_swap_used_bytes m \<noteq> mu_swap_used_bytes m0
             then r\<lparr>sr_clamped_memory_bytes := sat_add (sr_clamped_memory_bytes r) 1\<rparr> else r))"

definition sanitize_network_counters ::
  "network_counters \<Rightarrow> sanitization_report \<Rightarrow> network_counters \<times> sanitization_report" where
  "sanitize_network_counters n r =
     (let (rx, c) = sanitize_optional_rate (nc_rx_bytes_per_sec n) MAX_SANITIZED_RATE_BYTES_PER_SEC
            (sr_sanitized_rates r);
          (tx, c) = sanitize_optional_rate (nc_tx_bytes_per_sec n) MAX_SANITIZED_RATE_BYTES_PER_SEC c;
          (loss, p) = sanitize_optional_percentage (nc_packet_loss_percent n) (sr_clamped_percents r)
      in (n\<lparr>nc_rx_bytes_per_sec := rx, nc_tx_bytes_per_sec := tx, nc_packet_loss_percent := loss\<rparr>,
          r\<lparr>sr_sanitized_rates := c, sr_clamped_percents := p\<rparr>))"

section \<open>Disks\<close>

definition disk_incomplete :: "disk_usage \<Rightarrow> bool" where
  "disk_incomplete d \<longleftrightarrow> du_device d = [] \<or> du_mount_point d = [] \<or> du_fs_type d = []"

definition trim_disk :: "disk_usage \<Rightarrow> disk_usage" where
  "trim_disk d = d\<lparr>du_device := str_trim (du_device d), du_mount_point := str_trim (du_mount_point d),
                   du_fs_type := str_trim (du_fs_type d)\<rparr>"

definition truncate_disk :: "nat \<Rightarrow> disk_usage \<Rightarrow> disk_usage" where
  "truncate_disk n d =
     d\<lparr>du_device := truncate_string_to_byte_boundary (du_device d) n,
       du_mount_point := truncate_string_to_byte_boundary (du_mount_point d) n,
       du_fs_type := truncate_string_to_byte_boundary (du_fs_type d) n\<rparr>"

definition clamp_disk :: "disk_usage \<Rightarrow> disk_usage" where
  "clamp_disk d0 =
     (let d = d0\<lparr>du_available_bytes := min (du_available_bytes d0) (du_total_bytes d0),
                 du_used_bytes := min (du_used_bytes d0) (du_total_bytes d0)\<rparr>
      in if du_total_bytes d < sat_add (du_used_bytes d) (du_available_bytes d)
         then d\<lparr>du_used_bytes := sat_sub (du_total_bytes d) (du_available_bytes d)\<rparr> else d)"

definition sanitize_disk_usage ::
  "nat \<Rightarrow> disk_usage \<Rightarrow> sanitization_report \<Rightarrow> disk_usage option \<times> sanitization_report" where
  "sanitize_disk_usage max_string_bytes d0 r =
     (let d = trim_disk d0 in
      if disk_incomplete d
      then (None, r\<lparr>sr_dropped_disks := sat_add (sr_dropped_disks r) 1\<rparr>)
      else
        let t = truncate_disk max_string_bytes d;
            r = (if length (du_device t) \<noteq> length (du_device d) \<or>
                    length (du_mount_point t) \<noteq> length (du_mount_point d) \<or>
                    length (du_fs_type t) \<noteq> length (du_fs_type d)
                 then r\<lparr>sr_truncated_strings := sat_add (sr_truncated_strings r) 1\<rparr> else r)
        in if disk_incomplete t
           then (None, r\<lparr>sr_dropped_disks := sat_add (sr_dropped_disks r) 1\<rparr>)
           else
             let c = clamp_disk t;
                 r = (if du_used_bytes c \<noteq> du_used_bytes t \<or> du_available_bytes c \<noteq> du_available_bytes t
                      then r\<lparr>sr_clamped_disk_bytes := sat_add (sr_clamped_disk_bytes r) 1\<rparr> else r);
                 (pc, n) = sanitize_percentage (percentage (du_used_bytes c) (du_total_bytes c))
                   (sr_clamped_percents r)
             in (Some (c\<lparr>du_used_percent := pc\<rparr>), r\<lparr>sr_clamped_percents := n\<rparr>))"

text \<open>The identity is the text \<open>device:total\<close>; the number has no colon, so it is the pair.\<close>

definition disk_device_identity :: "disk_usage \<Rightarrow> string \<times> u64" where
  "disk_device_identity d = (du_device d, du_total_bytes d)"

record sanitize_config =
  sc_ignored_filesystems :: "string list"
  sc_max_sanitized_string_bytes :: nat
  sc_max_sanitized_disks :: nat

text \<open>One disk of the loop: the disks kept so far, the identities seen, the report.\<close>

definition sanitize_disk_step ::
  "sanitize_config \<Rightarrow> disk_usage \<Rightarrow> disk_usage list \<times> (string \<times> u64) set \<times> sanitization_report
    \<Rightarrow> disk_usage list \<times> (string \<times> u64) set \<times> sanitization_report" where
  "sanitize_disk_step cfg d = (\<lambda>(kept, seen, r).
     if list_ex (\<lambda>fs. fs = du_fs_type d) (sc_ignored_filesystems cfg) then (kept, seen, r)
     else case sanitize_disk_usage (sc_max_sanitized_string_bytes cfg) d r of
            (None, r) \<Rightarrow> (kept, seen, r)
          | (Some d, r) \<Rightarrow>
              if disk_device_identity d \<in> seen
              then (kept, seen, r\<lparr>sr_deduplicated_disks := sat_add (sr_deduplicated_disks r) 1\<rparr>)
              else if sc_max_sanitized_disks cfg \<le> length kept
              then (kept, insert (disk_device_identity d) seen,
                    r\<lparr>sr_trimmed_disks := sat_add (sr_trimmed_disks r) 1\<rparr>)
              else (kept @ [d], insert (disk_device_identity d) seen, r))"

definition sanitize_snapshot ::
  "sanitize_config \<Rightarrow> node_snapshot \<Rightarrow> node_snapshot \<times> sanitization_report" where
  "sanitize_snapshot cfg s =
     (let r = report_default;
          (cpu, c) = sanitize_optional_percentage (ns_cpu_usage_percent s) (sr_clamped_percents r);
          r = r\<lparr>sr_clamped_percents := c\<rparr>;
          (load, r) = sanitize_load_average (ns_load s) r;
          (mem, r) = sanitize_memory_usage (ns_memory s) r;
          (net, r) = sanitize_network_counters (ns_network s) r;
          (disks, _, r) = fold (sanitize_disk_step cfg) (ns_disks s) ([], {}, r)
      in (s\<lparr>ns_cpu_usage_percent := cpu, ns_load := load, ns_memory := mem, ns_network := net,
            ns_disks := disks\<rparr>, r))"

section \<open>The anomaly window\<close>

definition METRIC_ANOMALY_WINDOW_SECS :: nat where
  "METRIC_ANOMALY_WINDOW_SECS = 300"

definition update_metric_anomaly_window ::
  "sanitization_report \<Rightarrow> instant \<Rightarrow> instant list \<Rightarrow> instant list" where
  "update_metric_anomaly_window report now window =
     (let kept = dropWhile (\<lambda>at'. from_secs METRIC_ANOMALY_WINDOW_SECS < duration_since now at') window
      in if report_modified report then kept @ [now] else kept)"

definition should_disconnect_for_metric_anomalies :: "instant list \<Rightarrow> nat \<Rightarrow> bool" where
  "should_disconnect_for_metric_anomalies window limit \<longleftrightarrow> limit \<le> length window"

section \<open>Identifiers and free text\<close>

datatype text_error = InvalidRefreshId | InvalidTrafficControlRate
  | PriceTooLong | PriceControlCharacters | PriceSurroundingWhitespace | PriceEmpty
  | LocationTooLong string | LocationControlCharacters string | LocationSurroundingWhitespace string
  | CountryRequired | LatitudeRange | LongitudeRange | CoordinatesTogether

definition validate_refresh_id :: "string \<Rightarrow> text_error + unit" where
  "validate_refresh_id s =
     (if length s = 64 \<and> list_all is_ascii_hexdigit s then Inr () else Inl InvalidRefreshId)"

text \<open>\<open>split_once('-')\<close>: the text before and after the first dash.\<close>

definition split_once :: "char \<Rightarrow> string \<Rightarrow> (string \<times> string) option" where
  "split_once d s =
     (case dropWhile (\<lambda>c. c \<noteq> d) s of
        [] \<Rightarrow> None
      | _ # rest \<Rightarrow> Some (takeWhile (\<lambda>c. c \<noteq> d) s, rest))"

definition valid_test_release_tag :: "string \<Rightarrow> bool" where
  "valid_test_release_tag tag =
     (if 64 < length tag \<or> \<not> list_all (\<lambda>c. byte c < 128) tag then False
      else
        let version = (case tag of c # rest \<Rightarrow> if c = CHR ''v'' then rest else tag | [] \<Rightarrow> tag) in
        case split_once CHR ''-'' version of
          None \<Rightarrow> False
        | Some (base, suffix) \<Rightarrow>
            if suffix = [] \<or>
               \<not> list_all (\<lambda>c. is_ascii_alphanumeric c \<or> c = CHR ''.'' \<or> c = CHR ''-'') suffix
            then False
            else
              let parts = str_split CHR ''.'' base in
              3 \<le> length parts \<and> list_all (\<lambda>p. p \<noteq> [] \<and> list_all is_ascii_digit p) parts)"

definition rate_ok :: "u64 option \<Rightarrow> bool" where
  "rate_ok rate = (case rate of None \<Rightarrow> True | Some r \<Rightarrow> 1 \<le> r \<and> r \<le> 100000000)"

definition validate_traffic_control_rates :: "u64 option \<Rightarrow> u64 option \<Rightarrow> text_error + unit" where
  "validate_traffic_control_rates desired applied =
     (if \<not> (rate_ok desired \<and> rate_ok applied) then Inl InvalidTrafficControlRate else Inr ())"

definition MAX_RENEWAL_PRICE_BYTES :: nat where
  "MAX_RENEWAL_PRICE_BYTES = 64"

definition MAX_LOCATION_OVERRIDE_TEXT_BYTES :: nat where
  "MAX_LOCATION_OVERRIDE_TEXT_BYTES = 64"

definition sanitize_renewal_price :: "string option \<Rightarrow> text_error + string option" where
  "sanitize_renewal_price value =
     (case value of
        None \<Rightarrow> Inr None
      | Some v0 \<Rightarrow>
          let v = str_trim v0 in
          if v = [] then Inr None
          else if MAX_RENEWAL_PRICE_BYTES < length v then Inl PriceTooLong
          else if list_ex is_control (chars v) then Inl PriceControlCharacters
          else Inr (Some v))"

definition validate_renewal_price :: "string \<Rightarrow> text_error + unit" where
  "validate_renewal_price v =
     (if str_trim v \<noteq> v then Inl PriceSurroundingWhitespace
      else if v = [] then Inl PriceEmpty
      else case sanitize_renewal_price (Some v) of Inl e \<Rightarrow> Inl e | Inr _ \<Rightarrow> Inr ())"

record geoip_location =
  gl_country :: string
  gl_city :: "string option"
  gl_latitude :: "f64 option"
  gl_longitude :: "f64 option"

definition sanitize_location_text :: "string option \<Rightarrow> string \<Rightarrow> text_error + string option" where
  "sanitize_location_text value what =
     (case value of
        None \<Rightarrow> Inr None
      | Some v0 \<Rightarrow>
          let v = str_trim v0 in
          if v = [] then Inr None
          else if MAX_LOCATION_OVERRIDE_TEXT_BYTES < length v then Inl (LocationTooLong what)
          else if list_ex is_control (chars v) then Inl (LocationControlCharacters what)
          else Inr (Some v))"

definition coordinate_ok :: "rat \<Rightarrow> f64 \<Rightarrow> bool" where
  "coordinate_ok bound x = (case x of F64_Fin r \<Rightarrow> - bound \<le> r \<and> r \<le> bound | _ \<Rightarrow> False)"

definition sanitize_location_coordinates ::
  "f64 option \<Rightarrow> f64 option \<Rightarrow> text_error + f64 option \<times> f64 option" where
  "sanitize_location_coordinates latitude longitude =
     (case (latitude, longitude) of
        (None, None) \<Rightarrow> Inr (None, None)
      | (Some la, Some lo) \<Rightarrow>
          if \<not> coordinate_ok 90 la then Inl LatitudeRange
          else if \<not> coordinate_ok 180 lo then Inl LongitudeRange
          else Inr (Some la, Some lo)
      | _ \<Rightarrow> Inl CoordinatesTogether)"

definition sanitize_location_override ::
  "string option \<Rightarrow> string option \<Rightarrow> f64 option \<Rightarrow> f64 option
    \<Rightarrow> text_error + geoip_location option" where
  "sanitize_location_override country0 city0 latitude longitude =
     (case sanitize_location_text country0 ''location country'' of
        Inl e \<Rightarrow> Inl e
      | Inr country \<Rightarrow>
          (case sanitize_location_text city0 ''location city'' of
             Inl e \<Rightarrow> Inl e
           | Inr city \<Rightarrow>
               if country = None \<and> city = None \<and> latitude = None \<and> longitude = None then Inr None
               else case country of
                      None \<Rightarrow> Inl CountryRequired
                    | Some c \<Rightarrow>
                        (case sanitize_location_coordinates latitude longitude of
                           Inl e \<Rightarrow> Inl e
                         | Inr (la, lo) \<Rightarrow>
                             Inr (Some \<lparr>gl_country = c, gl_city = city, gl_latitude = la,
                                        gl_longitude = lo\<rparr>))))"

definition validate_location_override :: "geoip_location \<Rightarrow> text_error + unit" where
  "validate_location_override l =
     (case sanitize_location_text (Some (gl_country l)) ''location country'' of
        Inl e \<Rightarrow> Inl e
      | Inr c \<Rightarrow>
          if c \<noteq> Some (gl_country l) then Inl (LocationSurroundingWhitespace ''location country'')
          else
            let rest = (case sanitize_location_coordinates (gl_latitude l) (gl_longitude l) of
                          Inl e \<Rightarrow> Inl e | Inr _ \<Rightarrow> Inr ())
            in case gl_city l of
                 None \<Rightarrow> rest
               | Some city \<Rightarrow>
                   (case sanitize_location_text (Some city) ''location city'' of
                      Inl e \<Rightarrow> Inl e
                    | Inr t \<Rightarrow> if t \<noteq> Some city
                        then Inl (LocationSurroundingWhitespace ''location city'') else rest))"

section \<open>Facts\<close>

lemma min_sat_sum: "unat a + unat (sat_sub t a) \<le> unat t" if "a \<le> t" for a t :: "'a::len word"
  using that by (simp add: sat_simps word_le_nat_alt)

lemma non_negative_bounds:
  "0 \<le> m \<Longrightarrow> \<exists>x. sanitize_non_negative_f64 v m = F64_Fin x \<and> 0 \<le> x \<and> x \<le> m"
  by (cases v) auto

lemma non_negative_exact:
  "0 \<le> m \<Longrightarrow> f64_eq v (sanitize_non_negative_f64 v m) \<longleftrightarrow> (\<exists>x. v = F64_Fin x \<and> 0 \<le> x \<and> x \<le> m)"
  by (cases v) (auto simp: f64_eq_def min_def)

definition in_range :: "rat \<Rightarrow> f64 \<Rightarrow> bool" where
  "in_range m v \<longleftrightarrow> (\<exists>x. v = F64_Fin x \<and> 0 \<le> x \<and> x \<le> m)"

definition opt_in_range :: "rat \<Rightarrow> f64 option \<Rightarrow> bool" where
  "opt_in_range m v \<longleftrightarrow> (case v of None \<Rightarrow> True | Some x \<Rightarrow> in_range m x)"

lemma counted_in_range: "0 \<le> m \<Longrightarrow> in_range m (fst (sanitize_counted m v c))"
  using non_negative_bounds [of m v] by (simp add: sanitize_counted_def in_range_def Let_def)

lemma counted_clean: "0 \<le> m \<Longrightarrow> in_range m v \<Longrightarrow> sanitize_counted m v c = (v, c)"
  using non_negative_exact [of m v]
  by (auto simp: sanitize_counted_def in_range_def Let_def f64_eq_def)

lemma rate_in_range:
  "opt_in_range MAX_SANITIZED_RATE_BYTES_PER_SEC
     (fst (sanitize_optional_rate v MAX_SANITIZED_RATE_BYTES_PER_SEC c))"
  using counted_in_range [of MAX_SANITIZED_RATE_BYTES_PER_SEC]
  by (auto simp: sanitize_optional_rate_def opt_in_range_def case_prod_beta
      MAX_SANITIZED_RATE_BYTES_PER_SEC_def split: option.split)

lemma percent_in_range: "opt_in_range 100 (fst (sanitize_optional_percentage v c))"
  using counted_in_range [of 100]
  by (auto simp: sanitize_optional_percentage_def sanitize_percentage_def opt_in_range_def
      case_prod_beta split: option.split)

definition memory_ok :: "memory_usage \<Rightarrow> bool" where
  "memory_ok m \<longleftrightarrow> unat (mu_used_bytes m) + unat (mu_available_bytes m) \<le> unat (mu_total_bytes m) \<and>
     mu_swap_used_bytes m \<le> mu_swap_total_bytes m"

lemma sat_add_le: "sat_add a b \<le> t \<longleftrightarrow> unat a + unat b \<le> unat t \<or> t = - 1"
  for a b t :: "'a::len word"
proof -
  define N where "N = 2 ^ LENGTH('a) - (1 :: nat)"
  have "unat t < 2 ^ LENGTH('a)"
    by (rule unsigned_less)
  then have "unat t \<le> N"
    unfolding N_def by linarith
  moreover have "t = - 1 \<longleftrightarrow> unat t = N"
    unfolding N_def by (metis unat_max_word word_unat_eq_iff)
  moreover have "sat_add a b \<le> t \<longleftrightarrow> min (unat a + unat b) N \<le> unat t"
    by (simp add: word_le_nat_alt unat_sat_add N_def)
  ultimately show ?thesis
    by (auto simp: min_def)
qed

text \<open>
  The comparison with the saturated sum misses an inconsistency only when the total itself is the
  largest 64-bit value.
\<close>

lemma memory_sanitized:
  assumes "mu_total_bytes m \<noteq> - 1"
  shows "memory_ok (fst (sanitize_memory_usage m r))"
proof -
  have "\<not> sat_add u a \<le> t \<Longrightarrow> u \<le> t \<Longrightarrow> unat u + unat (sat_sub t u) \<le> unat t" for u a t :: u64
    by (rule min_sat_sum)
  then show ?thesis
    using assms by (auto simp: sanitize_memory_usage_def Let_def memory_ok_def not_less sat_add_le
        not_le [symmetric] min_sat_sum)
qed

definition disk_ok :: "nat \<Rightarrow> disk_usage \<Rightarrow> bool" where
  "disk_ok n d \<longleftrightarrow> \<not> disk_incomplete d \<and> length (du_device d) \<le> n \<and>
     length (du_mount_point d) \<le> n \<and> length (du_fs_type d) \<le> n \<and>
     du_used_bytes d \<le> du_total_bytes d \<and> du_available_bytes d \<le> du_total_bytes d \<and>
     (du_total_bytes d \<noteq> - 1 \<longrightarrow>
        unat (du_used_bytes d) + unat (du_available_bytes d) \<le> unat (du_total_bytes d)) \<and>
     in_range 100 (du_used_percent d)"

lemma clamp_disk_ok:
  "du_used_bytes (clamp_disk d) \<le> du_total_bytes (clamp_disk d) \<and>
   du_available_bytes (clamp_disk d) \<le> du_total_bytes (clamp_disk d) \<and>
   (du_total_bytes (clamp_disk d) \<noteq> - 1 \<longrightarrow> unat (du_used_bytes (clamp_disk d)) +
      unat (du_available_bytes (clamp_disk d)) \<le> unat (du_total_bytes (clamp_disk d)))"
proof -
  have "sat_sub t a \<le> t" for t a :: u64
    by (simp add: word_le_nat_alt unat_sat_sub)
  then show ?thesis
    using min_sat_sum [of "min (du_available_bytes d) (du_total_bytes d)" "du_total_bytes d"]
    by (auto simp: clamp_disk_def Let_def not_less sat_add_le add.commute)
qed

lemma clamp_disk_texts [simp]:
  "du_device (clamp_disk d) = du_device d" "du_mount_point (clamp_disk d) = du_mount_point d"
  "du_fs_type (clamp_disk d) = du_fs_type d" "du_total_bytes (clamp_disk d) = du_total_bytes d"
  by (simp_all add: clamp_disk_def Let_def)

lemma sanitize_disk_ok:
  assumes "sanitize_disk_usage n d r = (Some d', r')"
  shows "disk_ok n d'"
proof -
  let ?t = "truncate_disk n (trim_disk d)" and ?c = "clamp_disk (truncate_disk n (trim_disk d))"
  have "\<not> disk_incomplete ?t" and
    "\<exists>p. d' = ?c\<lparr>du_used_percent := p\<rparr> \<and> in_range 100 p"
    using assms counted_in_range [of 100]
    by (auto simp: sanitize_disk_usage_def Let_def sanitize_percentage_def case_prod_beta
        split: if_splits)
  then show ?thesis
    using clamp_disk_ok [of ?t] truncate_length
    by (auto simp: disk_ok_def disk_incomplete_def truncate_disk_def)
qed

definition disks_ok :: "sanitize_config \<Rightarrow> disk_usage list \<Rightarrow> (string \<times> u64) set \<Rightarrow> bool" where
  "disks_ok cfg kept seen \<longleftrightarrow> list_all (disk_ok (sc_max_sanitized_string_bytes cfg)) kept \<and>
     length kept \<le> sc_max_sanitized_disks cfg \<and> distinct (map disk_device_identity kept) \<and>
     disk_device_identity ` set kept \<subseteq> seen"

lemma disk_step_ok:
  "disks_ok cfg kept seen \<Longrightarrow> sanitize_disk_step cfg d (kept, seen, r) = (kept', seen', r') \<Longrightarrow>
    disks_ok cfg kept' seen'"
  using sanitize_disk_ok [of "sc_max_sanitized_string_bytes cfg" d r]
  by (fastforce simp: sanitize_disk_step_def disks_ok_def split: if_splits prod.splits option.splits)

lemma fold_disks_ok:
  "disks_ok cfg kept seen \<Longrightarrow> fold (sanitize_disk_step cfg) ds (kept, seen, r) = (kept', seen', r') \<Longrightarrow>
    disks_ok cfg kept' seen'"
proof (induction ds arbitrary: kept seen r)
  case (Cons d ds)
  obtain k1 s1 r1 where "sanitize_disk_step cfg d (kept, seen, r) = (k1, s1, r1)"
    by (metis prod_cases3)
  then show ?case
    using Cons.IH [OF disk_step_ok [OF Cons.prems(1)]] Cons.prems(2) by simp
qed simp

section \<open>Properties\<close>

text \<open>
  C23: whatever an Agent sends (not-a-number and infinities included), the sanitised snapshot has
  every percentage in 0 to 100, loads and rates within their limits, consistent memory and disk
  sizes, no more disks than configured, each with non-empty bounded names, and no disk twice. The
  sizes are consistent up to a total of the largest 64-bit value itself.
\<close>

theorem sanitized_snapshot_in_bounds:
  fixes cfg s
  defines "s' \<equiv> fst (sanitize_snapshot cfg s)"
  shows "opt_in_range 100 (ns_cpu_usage_percent s') \<and>
    in_range MAX_SANITIZED_LOAD (la_one (ns_load s')) \<and>
    in_range MAX_SANITIZED_LOAD (la_five (ns_load s')) \<and>
    in_range MAX_SANITIZED_LOAD (la_fifteen (ns_load s')) \<and>
    (mu_total_bytes (ns_memory s) = - 1 \<or> memory_ok (ns_memory s')) \<and>
    opt_in_range MAX_SANITIZED_RATE_BYTES_PER_SEC (nc_rx_bytes_per_sec (ns_network s')) \<and>
    opt_in_range MAX_SANITIZED_RATE_BYTES_PER_SEC (nc_tx_bytes_per_sec (ns_network s')) \<and>
    opt_in_range 100 (nc_packet_loss_percent (ns_network s')) \<and>
    list_all (disk_ok (sc_max_sanitized_string_bytes cfg)) (ns_disks s') \<and>
    length (ns_disks s') \<le> sc_max_sanitized_disks cfg \<and>
    distinct (map disk_device_identity (ns_disks s'))"
proof -
  obtain r1 where r1: "snd (sanitize_network_counters (ns_network s)
      (snd (sanitize_memory_usage (ns_memory s) (snd (sanitize_load_average (ns_load s)
        (report_default\<lparr>sr_clamped_percents := snd (sanitize_optional_percentage
          (ns_cpu_usage_percent s) (sr_clamped_percents report_default))\<rparr>)))))) = r1"
    by simp
  obtain kept seen r where f: "fold (sanitize_disk_step cfg) (ns_disks s) ([], {}, r1) = (kept, seen, r)"
    by (metis prod_cases3)
  have disks: "disks_ok cfg kept seen"
    by (rule fold_disks_ok [OF _ f]) (simp add: disks_ok_def)
  have s': "s' = s\<lparr>ns_cpu_usage_percent := fst (sanitize_optional_percentage (ns_cpu_usage_percent s) 0),
      ns_load := fst (sanitize_load_average (ns_load s) (report_default\<lparr>sr_clamped_percents :=
        snd (sanitize_optional_percentage (ns_cpu_usage_percent s) 0)\<rparr>)),
      ns_memory := ns_memory s', ns_network := ns_network s', ns_disks := kept\<rparr>"
    using r1 f by (simp add: s'_def sanitize_snapshot_def Let_def case_prod_beta report_default_def)
  have load: "in_range MAX_SANITIZED_LOAD (la_one (ns_load s'))" "in_range MAX_SANITIZED_LOAD (la_five (ns_load s'))"
      "in_range MAX_SANITIZED_LOAD (la_fifteen (ns_load s'))"
    using counted_in_range [of MAX_SANITIZED_LOAD]
    by (simp_all add: s'_def sanitize_snapshot_def Let_def case_prod_beta sanitize_load_average_def
        sanitize_load_value_def MAX_SANITIZED_LOAD_def)
  have mem: "mu_total_bytes (ns_memory s) = - 1 \<or> memory_ok (ns_memory s')"
    using memory_sanitized [of "ns_memory s"]
    by (cases "mu_total_bytes (ns_memory s) = - 1")
      (simp_all add: s'_def sanitize_snapshot_def Let_def case_prod_beta)
  have net: "opt_in_range MAX_SANITIZED_RATE_BYTES_PER_SEC (nc_rx_bytes_per_sec (ns_network s'))"
    "opt_in_range MAX_SANITIZED_RATE_BYTES_PER_SEC (nc_tx_bytes_per_sec (ns_network s'))"
    "opt_in_range 100 (nc_packet_loss_percent (ns_network s'))"
    using rate_in_range percent_in_range
    by (simp_all add: s'_def sanitize_snapshot_def Let_def case_prod_beta sanitize_network_counters_def)
  have cpu: "opt_in_range 100 (ns_cpu_usage_percent s')" and kept: "ns_disks s' = kept"
    by (subst s', simp add: percent_in_range)+
  show ?thesis
    using disks load mem net cpu unfolding kept disks_ok_def by blast
qed

text \<open>
  C32: what the settings page accepts as a renewal price or a manual location is accepted again when
  the stored registry is validated, so that a saved value can never make the registry unreadable.
\<close>

theorem accepted_settings_stay_valid:
  "(sanitize_renewal_price (Some p) = Inr (Some p') \<longrightarrow> validate_renewal_price p' = Inr ()) \<and>
   (sanitize_location_override co ci la lo = Inr (Some l) \<longrightarrow> validate_location_override l = Inr ())"
proof (intro conjI impI)
  assume "sanitize_renewal_price (Some p) = Inr (Some p')"
  then show "validate_renewal_price p' = Inr ()"
    by (auto simp: sanitize_renewal_price_def validate_renewal_price_def Let_def split: if_splits)
next
  have fixed: "sanitize_location_text (Some c) w = Inr (Some c)"
    if "sanitize_location_text v w = Inr (Some c)" for v w c
    using that by (auto simp: sanitize_location_text_def Let_def split: option.splits if_splits)
  assume *: "sanitize_location_override co ci la lo = Inr (Some l)"
  then have texts: "sanitize_location_text co ''location country'' = Inr (Some (gl_country l))"
    and city: "sanitize_location_text ci ''location city'' = Inr (gl_city l)"
    and coords: "sanitize_location_coordinates (gl_latitude l) (gl_longitude l) = Inr (gl_latitude l, gl_longitude l)"
    by (auto simp: sanitize_location_override_def sanitize_location_coordinates_def
        split: sum.splits option.splits if_splits)
  then show "validate_location_override l = Inr ()"
    unfolding validate_location_override_def fixed [OF texts]
    using fixed city by (cases "gl_city l") (simp_all add: coords)
qed

theorem accepted_settings_stay_valid_witness:
  "validate_renewal_price ''$5/mo'' = Inr () \<and>
   validate_location_override \<lparr>gl_country = ''HK'', gl_city = None, gl_latitude = Some (F64_Fin 22),
     gl_longitude = Some (F64_Fin 114)\<rparr> = Inr ()"
  by (rule accepted_settings_stay_valid [THEN conjunct1, THEN mp, of "'' $5/mo ''", THEN conjI,
        OF _ accepted_settings_stay_valid [THEN conjunct2, THEN mp, of "Some ''HK''" None
          "Some (F64_Fin 22)" "Some (F64_Fin 114)"]])
    (simp_all add: sanitize_renewal_price_def sanitize_location_override_def str_trim_def Let_def
      sanitize_location_text_def sanitize_location_coordinates_def coordinate_ok_def chars_defs
      MAX_RENEWAL_PRICE_BYTES_def MAX_LOCATION_OVERRIDE_TEXT_BYTES_def)

text \<open>A run of reports in time order: each frame's report and the time it was checked.\<close>

definition anomaly_run :: "(sanitization_report \<times> instant) list \<Rightarrow> instant list" where
  "anomaly_run frames = fold (\<lambda>(r, now). update_metric_anomaly_window r now) frames []"

lemma dropWhile_sorted_filter:
  "sorted xs \<Longrightarrow> dropWhile (\<lambda>x. d < now - x) xs = filter (\<lambda>x. now - x \<le> d) xs"
  for now :: nat
proof (induction xs)
  case (Cons x xs)
  then show ?case
    by (cases "d < now - x") (auto intro!: filter_True [symmetric])
qed simp

lemma anomaly_run_window:
  "sorted (map snd frames) \<Longrightarrow> list_all (\<lambda>f. snd f \<le> t) frames \<Longrightarrow>
    anomaly_run (frames @ [(r, t)]) =
      filter (\<lambda>at'. t - at' \<le> from_secs METRIC_ANOMALY_WINDOW_SECS)
        (map snd (filter (\<lambda>f. report_modified (fst f)) (frames @ [(r, t)])))"
proof (induction frames arbitrary: r t rule: rev_induct)
  case Nil
  then show ?case
    by (simp add: anomaly_run_def update_metric_anomaly_window_def)
next
  case (snoc f frames)
  obtain rf tf where f: "f = (rf, tf)"
    by (cases f)
  let ?W = "from_secs METRIC_ANOMALY_WINDOW_SECS"
  let ?a = "map snd (filter (\<lambda>f. report_modified (fst f)) (frames @ [(rf, tf)]))"
  have prems: "sorted (map snd frames)" "list_all (\<lambda>f. snd f \<le> tf) frames" "tf \<le> t"
    using snoc.prems by (auto simp: f sorted_append list_all_iff)
  have IH: "anomaly_run (frames @ [(rf, tf)]) = filter (\<lambda>at'. tf - at' \<le> ?W) ?a"
    using snoc.IH [OF prems(1,2)] .
  have srt: "sorted ?a"
    using snoc.prems(1) unfolding f by (rule sorted_filter)
  have "dropWhile (\<lambda>x. ?W < t - x) (filter (\<lambda>at'. tf - at' \<le> ?W) ?a) = filter (\<lambda>x. t - x \<le> ?W) ?a"
    unfolding dropWhile_sorted_filter [OF sorted_wrt_filter [OF srt]] filter_filter
    using prems(3) by (intro filter_cong) auto
  then show ?case
    using IH by (simp add: anomaly_run_def update_metric_anomaly_window_def f Let_def duration_since_def)
qed

text \<open>
  C33: an Agent is disconnected exactly when at least the configured number of its frames within the
  last five minutes had to be corrected; older anomalies of a long session never count.
\<close>

theorem disconnect_counts_recent_anomalies:
  assumes "sorted (map snd (frames @ [(r, now)]))"
  shows "should_disconnect_for_metric_anomalies (anomaly_run (frames @ [(r, now)])) limit \<longleftrightarrow>
    limit \<le> length (filter (\<lambda>f. report_modified (fst f) \<and>
      now - snd f \<le> from_secs METRIC_ANOMALY_WINDOW_SECS) (frames @ [(r, now)]))"
proof -
  have "sorted (map snd frames)" "list_all (\<lambda>f. snd f \<le> now) frames"
    using assms by (auto simp: sorted_append list_all_iff)
  note w = anomaly_run_window [OF this, of r]
  show ?thesis
    unfolding w should_disconnect_for_metric_anomalies_def
    by (simp add: filter_map comp_def)
qed

theorem disconnect_counts_recent_anomalies_witness:
  "should_disconnect_for_metric_anomalies (anomaly_run
     [(report_default\<lparr>sr_dropped_disks := 1\<rparr>, 0), (report_default\<lparr>sr_dropped_disks := 1\<rparr>, 200 * NANOS),
      (report_default\<lparr>sr_clamped_loads := 2\<rparr>, 400 * NANOS)]) 2"
  using disconnect_counts_recent_anomalies [of
      "[(report_default\<lparr>sr_dropped_disks := 1\<rparr>, 0), (report_default\<lparr>sr_dropped_disks := 1\<rparr>, 200 * NANOS)]"
      "report_default\<lparr>sr_clamped_loads := 2\<rparr>" "400 * NANOS" 2]
  by (simp add: report_modified_def report_total_def report_default_def sat_add_def from_secs_def
      METRIC_ANOMALY_WINDOW_SECS_def NANOS_def)

text \<open>
  The saturating comparison overlooks inconsistent sizes when the reported total is the largest
  64-bit value.
\<close>

lemma inconsistent_memory_overlooked:
  "fst (sanitize_memory_usage \<lparr>mu_total_bytes = - 1, mu_used_bytes = - 1, mu_available_bytes = - 1,
      mu_swap_total_bytes = 0, mu_swap_used_bytes = 0\<rparr> r) =
    \<lparr>mu_total_bytes = - 1, mu_used_bytes = - 1, mu_available_bytes = - 1,
     mu_swap_total_bytes = 0, mu_swap_used_bytes = 0\<rparr>"
  by (simp add: sanitize_memory_usage_def sat_add_def)

text \<open>The ignore list is compared with the name before it is trimmed.\<close>

lemma padded_filesystem_not_ignored:
  "map du_fs_type (fst (sanitize_disk_step
      \<lparr>sc_ignored_filesystems = [''tmpfs''], sc_max_sanitized_string_bytes = 256, sc_max_sanitized_disks = 64\<rparr>
      \<lparr>du_device = ''d'', du_mount_point = ''/t'', du_fs_type = '' tmpfs'', du_total_bytes = 0,
       du_available_bytes = 0, du_used_bytes = 0, du_used_percent = F64_Fin 0\<rparr> ([], {}, report_default))) =
    [''tmpfs'']"
  by (simp add: sanitize_disk_step_def sanitize_disk_usage_def trim_disk_def str_trim_def chars_defs
      disk_incomplete_def truncate_disk_def truncate_string_to_byte_boundary_def
      truncate_to_byte_boundary_def clamp_disk_def sat_add_def percentage_def sanitize_percentage_def
      sanitize_counted_def f64_eq_def Let_def)

end
