(* ===== verification/Registry.thy ===== *)
theory Registry
  imports TrafficLedger Sanitize
begin

text \<open>
  The node registry of \<open>nodelite-server/src/registry.rs\<close>: its records, strict validation
  (\<open>registry/validate.rs\<close>), token status and matching (\<open>registry/auth.rs\<close>, \<open>registry/token.rs\<close>),
  issuing (\<open>registry/issue.rs\<close>), the two-phase renewal (\<open>registry/renewal.rs\<close>) and the edits of the
  lifecycle (\<open>registry/lifecycle.rs\<close>, \<open>registry/service_meta.rs\<close>), each as the operation on the
  registry file that the store commits. Random tokens, salts and clock readings are arguments.
\<close>

section \<open>Records\<close>

record pending_token =
  pt_refresh_id :: string
  pt_token_hash :: string
  pt_generation :: u64
  pt_expires_at :: datetime

record registered_node =
  rn_node_id :: string
  rn_node_label :: string
  rn_token_hash :: string
  rn_token_generation :: u64
  rn_previous_token_hash :: string
  rn_previous_token_generation :: "u64 option"
  rn_previous_token_valid_until :: "datetime option"
  rn_pending_tokens :: "pending_token list"
  rn_token :: string
  rn_tags :: "string list"
  rn_created_at :: datetime
  rn_token_expires_at :: "datetime option"
  rn_service_expires_at :: "datetime option"
  rn_service_unlimited :: bool
  rn_renewal_price :: "string option"
  rn_traffic_limit_bytes :: "u64 option"
  rn_traffic_accounting :: traffic_accounting
  rn_traffic_throttle_kbps :: "u64 option"
  rn_location_country :: "string option"
  rn_location_city :: "string option"
  rn_location_latitude :: "int option"
  rn_location_longitude :: "int option"

record install_session =
  is_token :: string
  is_node_id :: string
  is_created_at :: datetime
  is_expires_at :: datetime
  is_node_session_token :: string

record registry_file =
  rf_version :: u64
  rf_nodes :: "registered_node list"
  rf_install_sessions :: "install_session list"

record registry_state =
  rs_version :: u64
  rs_entries :: "(string, registered_node) table"
  rs_install_sessions :: "(string, install_session) table"

record token_status =
  ts_generation :: u64
  ts_token_expires_at :: "datetime option"
  ts_registry_revision :: u64

record matched_token =
  mt_generation :: u64
  mt_expires_at :: "datetime option"

datatype reg_message =
    TextInvalid validation_error
  | SettingInvalid text_error
  | DuplicateNode string
  | DuplicateInstallToken
  | UnknownInstallNode string
  | TokenHashEmpty
  | GraceFieldsMixed
  | TooManyPending
  | InvalidPending
  | ThrottleWithoutLimit
  | ThrottleOutOfRange
  | LocationWithoutCountry
  | LocationHalfCoordinates
  | GenerationExhausted
  | PendingLimitReached
  | VersionExhausted
  | WriteRetriesExceeded
  | ZeroTrafficLimit

datatype registry_error =
    Unauthorized
  | TokenExpired string
  | NodeNotFound string
  | Validation reg_message
  | VersionConflict u64 u64
  | Diverged "u64 option" u64
  | Io string

text \<open>The \<open>argon2\<close> crate: whether a PHC string parses, hashing with a salt, and verification.\<close>

record argon2 =
  phc_ok :: "string \<Rightarrow> bool"
  argon_hash :: "string \<Rightarrow> string \<Rightarrow> string"
  argon_verify :: "string \<Rightarrow> string \<Rightarrow> bool"

text \<open>What is documented of it: a hash is a non-empty PHC string that verifies the token it was
  made from and no other.\<close>

definition argon2_ok :: "argon2 \<Rightarrow> bool" where
  "argon2_ok cr \<longleftrightarrow> (\<forall>salt tok. argon_hash cr salt tok \<noteq> [] \<and> phc_ok cr (argon_hash cr salt tok) \<and>
     (\<forall>tok'. argon_verify cr tok' (argon_hash cr salt tok) = (tok' = tok)))"

text \<open>An instance for evaluation: the token behind a dollar sign.\<close>

definition argon2_plain :: argon2 where
  "argon2_plain = \<lparr>phc_ok = (\<lambda>s. s \<noteq> []), argon_hash = (\<lambda>salt tok. CHR ''$'' # tok),
     argon_verify = (\<lambda>tok s. s = CHR ''$'' # tok)\<rparr>"

lemma argon2_plain_ok: "argon2_ok argon2_plain"
  by (auto simp: argon2_ok_def argon2_plain_def)

section \<open>Constants\<close>

definition DAY :: timedelta where
  "DAY = 86400000000000"

definition MINUTE_NS :: timedelta where
  "MINUTE_NS = 60000000000"

definition DEFAULT_TOKEN_VALIDITY_DAYS :: int where
  "DEFAULT_TOKEN_VALIDITY_DAYS = 30"

definition TOKEN_REFRESH_GRACE_MINUTES :: int where
  "TOKEN_REFRESH_GRACE_MINUTES = 10"

definition INSTALL_TOKEN_TTL_MINUTES :: int where
  "INSTALL_TOKEN_TTL_MINUTES = 15"

definition MAX_TRAFFIC_THROTTLE_KBPS :: u64 where
  "MAX_TRAFFIC_THROTTLE_KBPS = 100000000"

definition MAX_PENDING_TOKENS :: nat where
  "MAX_PENDING_TOKENS = 8"

definition MAX_NODE_TAGS :: nat where
  "MAX_NODE_TAGS = 64"

definition MAX_NODE_TAG_BYTES :: nat where
  "MAX_NODE_TAG_BYTES = 256"

definition MAX_NODE_IDENTITY_TEXT_BYTES :: nat where
  "MAX_NODE_IDENTITY_TEXT_BYTES = 256"

section \<open>Checks in sequence\<close>

text \<open>The \<open>?\<close> operator over a list of checks: the first error.\<close>

fun first_error :: "('e + unit) list \<Rightarrow> 'e + unit" where
  "first_error [] = Inr ()"
| "first_error (Inl e # rs) = Inl e"
| "first_error (Inr _ # rs) = first_error rs"

definition text_check :: "validation_error + unit \<Rightarrow> registry_error + unit" where
  "text_check r = map_sum (\<lambda>e. Validation (TextInvalid e)) id r"

definition setting_check :: "text_error + unit \<Rightarrow> registry_error + unit" where
  "setting_check r = map_sum (\<lambda>e. Validation (SettingInvalid e)) id r"

definition check_that :: "bool \<Rightarrow> reg_message \<Rightarrow> registry_error + unit" where
  "check_that ok e = (if ok then Inr () else Inl (Validation e))"

lemma first_error_ok: "first_error rs = Inr () \<longleftrightarrow> list_all (\<lambda>r. r = Inr ()) rs"
  by (induction rs rule: first_error.induct) auto

lemma check_ok [simp]: "check_that ok e = Inr () \<longleftrightarrow> ok"
  "text_check r = Inr () \<longleftrightarrow> valid r" "setting_check s = Inr () \<longleftrightarrow> valid s"
  by (auto simp: check_that_def text_check_def setting_check_def valid_def map_sum_def split: sum.splits)

section \<open>Validation\<close>

definition microdegrees_to_coordinate :: "int \<Rightarrow> f64" where
  "microdegrees_to_coordinate v = F64_Fin (f64_of_rat (of_int v / 1000000))"

definition coordinate_to_microdegrees :: "f64 \<Rightarrow> int" where
  "coordinate_to_microdegrees v =
     (case f64_round (f64_times v 1000000) of
        F64_Fin r \<Rightarrow> max (- (2 ^ 31)) (min (2 ^ 31 - 1) \<lfloor>r\<rfloor>)
      | F64_Inf neg \<Rightarrow> if neg then - (2 ^ 31) else 2 ^ 31 - 1
      | F64_NaN \<Rightarrow> 0)"

definition location_override :: "registered_node \<Rightarrow> geoip_location option" where
  "location_override n =
     (case rn_location_country n of
        None \<Rightarrow> None
      | Some c \<Rightarrow> Some \<lparr>gl_country = c, gl_city = rn_location_city n,
          gl_latitude = map_option microdegrees_to_coordinate (rn_location_latitude n),
          gl_longitude = map_option microdegrees_to_coordinate (rn_location_longitude n)\<rparr>)"

definition validate_previous_token :: "registered_node \<Rightarrow> registry_error + unit" where
  "validate_previous_token n =
     (let has_hash = rn_previous_token_hash n \<noteq> [];
          has_generation = rn_previous_token_generation n \<noteq> None;
          has_deadline = rn_previous_token_valid_until n \<noteq> None
      in check_that (has_hash = has_generation \<and> has_generation = has_deadline) GraceFieldsMixed)"

fun pending_metadata_ok ::
  "argon2 \<Rightarrow> u64 \<Rightarrow> string set \<Rightarrow> u64 set \<Rightarrow> pending_token list \<Rightarrow> registry_error + unit" where
  "pending_metadata_ok cr gen ids gens [] = Inr ()"
| "pending_metadata_ok cr gen ids gens (p # ps) =
     first_error
      [setting_check (validate_refresh_id (pt_refresh_id p)),
       check_that (\<not> (pt_generation p \<le> gen \<or> pt_refresh_id p \<in> ids \<or> pt_generation p \<in> gens \<or>
                      \<not> phc_ok cr (pt_token_hash p))) InvalidPending,
       pending_metadata_ok cr gen (insert (pt_refresh_id p) ids) (insert (pt_generation p) gens) ps]"

definition validate_pending_tokens :: "argon2 \<Rightarrow> registered_node \<Rightarrow> registry_error + unit" where
  "validate_pending_tokens cr n =
     first_error
      [check_that (length (rn_pending_tokens n) \<le> MAX_PENDING_TOKENS) TooManyPending,
       pending_metadata_ok cr (rn_token_generation n) {} {} (rn_pending_tokens n)]"

definition throttle_rate_ok :: "u64 option \<Rightarrow> bool" where
  "throttle_rate_ok rate =
     (case rate of None \<Rightarrow> True | Some r \<Rightarrow> \<not> (r = 0 \<or> MAX_TRAFFIC_THROTTLE_KBPS < r))"

definition validate_traffic_combination ::
  "u64 option \<Rightarrow> u64 option \<Rightarrow> registry_error + unit" where
  "validate_traffic_combination limit rate =
     first_error
      [check_that (\<not> (rate \<noteq> None \<and> limit = None)) ThrottleWithoutLimit,
       check_that (throttle_rate_ok rate) ThrottleOutOfRange]"

definition validate_traffic_settings :: "registered_node \<Rightarrow> registry_error + unit" where
  "validate_traffic_settings n =
     first_error
      [check_that (\<not> (rn_traffic_throttle_kbps n \<noteq> None \<and> rn_traffic_limit_bytes n = None))
         ThrottleWithoutLimit,
       check_that (throttle_rate_ok (rn_traffic_throttle_kbps n)) ThrottleOutOfRange]"

definition validate_location_override_fields :: "registered_node \<Rightarrow> registry_error + unit" where
  "validate_location_override_fields n =
     (if rn_location_country n = None \<and> rn_location_city n = None \<and>
         rn_location_latitude n = None \<and> rn_location_longitude n = None then Inr ()
      else case location_override n of
             None \<Rightarrow> Inl (Validation LocationWithoutCountry)
           | Some l \<Rightarrow>
               first_error
                [check_that ((rn_location_latitude n \<noteq> None) = (rn_location_longitude n \<noteq> None))
                   LocationHalfCoordinates,
                 setting_check (validate_location_override l)])"

definition validate_registered_node :: "argon2 \<Rightarrow> registered_node \<Rightarrow> registry_error + unit" where
  "validate_registered_node cr n =
     first_error
      [text_check (validate_identifier (Field ''node.node_id'') (rn_node_id n)),
       text_check (validate_bounded_text (Field ''node.node_label'') (rn_node_label n)
         MAX_NODE_IDENTITY_TEXT_BYTES),
       check_that (\<not> (rn_token_hash n = [] \<and> rn_token n = [])) TokenHashEmpty,
       validate_previous_token n,
       validate_pending_tokens cr n,
       text_check (validate_tag_list ''node.tags'' (rn_tags n) MAX_NODE_TAGS MAX_NODE_TAG_BYTES),
       (case rn_renewal_price n of None \<Rightarrow> Inr () | Some p \<Rightarrow> setting_check (validate_renewal_price p)),
       validate_traffic_settings n,
       validate_location_override_fields n]"

definition validate_install_session :: "install_session \<Rightarrow> registry_error + unit" where
  "validate_install_session s =
     first_error
      [text_check (validate_non_empty (Field ''install_session.token'') (is_token s)),
       text_check (validate_identifier (Field ''install_session.node_id'') (is_node_id s))]"

fun validate_nodes ::
  "argon2 \<Rightarrow> string set \<Rightarrow> registered_node list \<Rightarrow> registry_error + unit" where
  "validate_nodes cr seen [] = Inr ()"
| "validate_nodes cr seen (n # ns) =
     first_error
      [validate_registered_node cr n,
       check_that (rn_node_id n \<notin> seen) (DuplicateNode (rn_node_id n)),
       validate_nodes cr (insert (rn_node_id n) seen) ns]"

fun validate_sessions ::
  "string set \<Rightarrow> string set \<Rightarrow> install_session list \<Rightarrow> registry_error + unit" where
  "validate_sessions nodes seen [] = Inr ()"
| "validate_sessions nodes seen (s # ss) =
     first_error
      [validate_install_session s,
       check_that (is_node_id s \<in> nodes) (UnknownInstallNode (is_node_id s)),
       check_that (is_token s \<notin> seen) DuplicateInstallToken,
       validate_sessions nodes (insert (is_token s) seen) ss]"

definition validate_registry_file :: "argon2 \<Rightarrow> registry_file \<Rightarrow> registry_error + unit" where
  "validate_registry_file cr f =
     first_error
      [validate_nodes cr {} (rf_nodes f),
       validate_sessions (rn_node_id ` set (rf_nodes f)) {} (rf_install_sessions f)]"

section \<open>Identities\<close>

record node_identity =
  id_node_id :: string
  id_node_label :: string
  id_hostname :: string
  id_os :: string
  id_kernel_version :: "string option"
  id_cpu_model :: "string option"
  id_cpu_cores :: u32
  id_agent_version :: string
  id_boot_time :: "datetime option"
  id_tags :: "string list"

record authorized_node =
  an_identity :: node_identity
  an_generation :: u64
  an_token_expires_at :: "datetime option"
  an_registry_revision :: u64
  an_location_override :: "geoip_location option"

definition optional_text :: "string \<Rightarrow> string option \<Rightarrow> registry_error + unit" where
  "optional_text f v =
     (case v of None \<Rightarrow> Inr ()
      | Some s \<Rightarrow> text_check (validate_bounded_text (Field f) s MAX_NODE_IDENTITY_TEXT_BYTES))"

definition validate_runtime_identity :: "node_identity \<Rightarrow> registry_error + unit" where
  "validate_runtime_identity i =
     first_error
      [text_check (validate_identifier (Field ''identity.node_id'') (id_node_id i)),
       optional_text ''identity.node_label'' (Some (id_node_label i)),
       optional_text ''identity.hostname'' (Some (id_hostname i)),
       optional_text ''identity.os'' (Some (id_os i)),
       optional_text ''identity.agent_version'' (Some (id_agent_version i)),
       optional_text ''identity.kernel_version'' (id_kernel_version i),
       optional_text ''identity.cpu_model'' (id_cpu_model i),
       text_check (validate_tag_list ''identity.tags'' (id_tags i) MAX_NODE_TAGS MAX_NODE_TAG_BYTES)]"

section \<open>Token status and matching\<close>

definition token_is_unexpired :: "registered_node \<Rightarrow> datetime \<Rightarrow> bool" where
  "token_is_unexpired n now =
     (case rn_token_expires_at n of None \<Rightarrow> True | Some e \<Rightarrow> now < e)"

definition token_status_for_node ::
  "registered_node \<Rightarrow> u64 \<Rightarrow> u64 \<Rightarrow> datetime \<Rightarrow> token_status option" where
  "token_status_for_node n session_generation revision now =
     (if session_generation = rn_token_generation n \<and> token_is_unexpired n now
      then Some \<lparr>ts_generation = rn_token_generation n,
                 ts_token_expires_at = rn_token_expires_at n, ts_registry_revision = revision\<rparr>
      else
        case List.find (\<lambda>p. pt_generation p = session_generation \<and> now < pt_expires_at p)
               (rn_pending_tokens n) of
          Some p \<Rightarrow> Some \<lparr>ts_generation = session_generation,
                         ts_token_expires_at = Some (pt_expires_at p), ts_registry_revision = revision\<rparr>
        | None \<Rightarrow>
            (case (rn_previous_token_generation n, rn_previous_token_valid_until n) of
               (Some g, Some valid_until) \<Rightarrow>
                 if session_generation = g \<and> rn_previous_token_hash n \<noteq> [] \<and> now < valid_until
                 then Some \<lparr>ts_generation = g, ts_token_expires_at = Some valid_until,
                            ts_registry_revision = revision\<rparr>
                 else None
             | _ \<Rightarrow> None))"

text \<open>The clock is read once per candidate: reading \<open>i\<close> for pending token \<open>i\<close>, the next for the
  previous token.\<close>

fun match_pending ::
  "argon2 \<Rightarrow> (nat \<Rightarrow> datetime) \<Rightarrow> nat \<Rightarrow> string \<Rightarrow> pending_token list \<Rightarrow> matched_token option" where
  "match_pending cr clock i input [] = None"
| "match_pending cr clock i input (p # ps) =
     (if clock i < pt_expires_at p \<and> argon_verify cr input (pt_token_hash p)
      then Some \<lparr>mt_generation = pt_generation p, mt_expires_at = Some (pt_expires_at p)\<rparr>
      else match_pending cr clock (Suc i) input ps)"

definition match_previous ::
  "argon2 \<Rightarrow> datetime \<Rightarrow> string \<Rightarrow> registered_node \<Rightarrow> matched_token option" where
  "match_previous cr now input n =
     (case rn_previous_token_valid_until n of
        None \<Rightarrow> None
      | Some valid_until \<Rightarrow>
          (case rn_previous_token_generation n of
             None \<Rightarrow> None
           | Some g \<Rightarrow>
               if rn_previous_token_hash n = [] \<or> valid_until \<le> now then None
               else if argon_verify cr input (rn_previous_token_hash n)
               then Some \<lparr>mt_generation = g, mt_expires_at = Some valid_until\<rparr>
               else None))"

definition current_matches :: "argon2 \<Rightarrow> string \<Rightarrow> registered_node \<Rightarrow> bool" where
  "current_matches cr input n =
     (if rn_token_hash n \<noteq> [] then argon_verify cr input (rn_token_hash n)
      else if rn_token n \<noteq> [] then input = rn_token n
      else False)"

definition token_matches_entry ::
  "argon2 \<Rightarrow> (nat \<Rightarrow> datetime) \<Rightarrow> string \<Rightarrow> registered_node \<Rightarrow> matched_token option" where
  "token_matches_entry cr clock input n =
     (if current_matches cr input n
      then Some \<lparr>mt_generation = rn_token_generation n, mt_expires_at = rn_token_expires_at n\<rparr>
      else
        case match_pending cr clock 0 input (rn_pending_tokens n) of
          Some m \<Rightarrow> Some m
        | None \<Rightarrow> match_previous cr (clock (length (rn_pending_tokens n))) input n)"

definition token_material_matches :: "registered_node \<Rightarrow> registered_node \<Rightarrow> bool" where
  "token_material_matches l r \<longleftrightarrow>
     rn_token_generation l = rn_token_generation r \<and> rn_token_hash l = rn_token_hash r \<and>
     rn_token_expires_at l = rn_token_expires_at r \<and>
     rn_previous_token_hash l = rn_previous_token_hash r \<and>
     rn_previous_token_generation l = rn_previous_token_generation r \<and>
     rn_previous_token_valid_until l = rn_previous_token_valid_until r \<and>
     rn_pending_tokens l = rn_pending_tokens r \<and> rn_token l = rn_token r"

text \<open>
  The registry may change while a token is verified: a round is the entry read first, the clock
  readings of the verification, and the entry with the revision read afterwards.
\<close>

record verify_round =
  vr_entry :: "registered_node option"
  vr_clock :: "nat \<Rightarrow> datetime"
  vr_current :: "(registered_node \<times> u64) option"

fun match_rounds ::
  "argon2 \<Rightarrow> string \<Rightarrow> verify_round list
    \<Rightarrow> registry_error + registered_node \<times> u64 \<times> matched_token" where
  "match_rounds cr input [] = Inl Unauthorized"
| "match_rounds cr input (r # rs) =
     (case vr_entry r of
        None \<Rightarrow> Inl Unauthorized
      | Some entry \<Rightarrow>
          (let matched = token_matches_entry cr (vr_clock r) input entry in
           case vr_current r of
             None \<Rightarrow> Inl Unauthorized
           | Some (current, revision) \<Rightarrow>
               if \<not> token_material_matches entry current then match_rounds cr input rs
               else case matched of
                      None \<Rightarrow> Inl Unauthorized
                    | Some m \<Rightarrow> Inr (current, revision, m)))"

definition match_registered_token ::
  "argon2 \<Rightarrow> string \<Rightarrow> verify_round \<Rightarrow> verify_round
    \<Rightarrow> registry_error + registered_node \<times> u64 \<times> matched_token" where
  "match_registered_token cr input r1 r2 = match_rounds cr input [r1, r2]"

definition authorized_node_from_entry ::
  "node_identity \<Rightarrow> registered_node \<Rightarrow> u64 \<Rightarrow> u64 \<Rightarrow> datetime option \<Rightarrow> datetime
    \<Rightarrow> registry_error + authorized_node" where
  "authorized_node_from_entry i n revision generation expires now =
     (if (case expires of None \<Rightarrow> False | Some e \<Rightarrow> e \<le> now) then Inl (TokenExpired (rn_node_id n))
      else Inr \<lparr>an_identity = i\<lparr>id_node_id := rn_node_id n, id_node_label := rn_node_label n,
                                id_tags := rn_tags n\<rparr>,
                an_generation = generation, an_token_expires_at = expires,
                an_registry_revision = revision, an_location_override = location_override n\<rparr>)"

definition authorize ::
  "argon2 \<Rightarrow> node_identity \<Rightarrow> string \<Rightarrow> verify_round \<Rightarrow> verify_round \<Rightarrow> datetime
    \<Rightarrow> registry_error + authorized_node" where
  "authorize cr i token r1 r2 now =
     (case first_error [validate_runtime_identity i,
             text_check (validate_non_empty (Field ''hello.token'') token)] of
        Inl e \<Rightarrow> Inl e
      | Inr _ \<Rightarrow>
          (case match_registered_token cr token r1 r2 of
             Inl e \<Rightarrow> Inl e
           | Inr (entry, revision, m) \<Rightarrow>
               authorized_node_from_entry i entry revision (mt_generation m) (mt_expires_at m) now))"

definition session_token_status ::
  "argon2 \<Rightarrow> string \<Rightarrow> u64 \<Rightarrow> verify_round \<Rightarrow> verify_round \<Rightarrow> datetime
    \<Rightarrow> registry_error + token_status" where
  "session_token_status cr token generation r1 r2 now =
     (case match_registered_token cr token r1 r2 of
        Inl e \<Rightarrow> Inl e
      | Inr (_, revision, m) \<Rightarrow>
          if mt_generation m \<noteq> generation \<or>
             (case mt_expires_at m of None \<Rightarrow> False | Some e \<Rightarrow> e \<le> now)
          then Inl Unauthorized
          else Inr \<lparr>ts_generation = generation, ts_token_expires_at = mt_expires_at m,
                    ts_registry_revision = revision\<rparr>)"

section \<open>Operations on the registry file\<close>

text \<open>An edit: an error, or its result, whether the file is to be written, and the new file.\<close>

type_synonym 'a edit = "registry_file \<Rightarrow> registry_error + 'a \<times> bool \<times> registry_file"

fun position :: "('a \<Rightarrow> bool) \<Rightarrow> 'a list \<Rightarrow> nat option" where
  "position P [] = None"
| "position P (x # xs) = (if P x then Some 0 else map_option Suc (position P xs))"

definition prune_expired_install_sessions :: "datetime \<Rightarrow> registry_file \<Rightarrow> registry_file \<times> bool" where
  "prune_expired_install_sessions now f =
     (let kept = filter (\<lambda>s. now < is_expires_at s) (rf_install_sessions f)
      in (f\<lparr>rf_install_sessions := kept\<rparr>, length (rf_install_sessions f) \<noteq> length kept))"

definition mint_install_session ::
  "string \<Rightarrow> string \<Rightarrow> datetime \<Rightarrow> string \<Rightarrow> registry_file \<Rightarrow> install_session \<times> registry_file" where
  "mint_install_session install_token node_id now session_token f =
     (let kept = filter (\<lambda>s. is_node_id s \<noteq> node_id) (rf_install_sessions f);
          s = \<lparr>is_token = install_token, is_node_id = node_id, is_created_at = now,
               is_expires_at = now + INSTALL_TOKEN_TTL_MINUTES * MINUTE_NS,
               is_node_session_token = session_token\<rparr>
      in (s, f\<lparr>rf_install_sessions := kept @ [s]\<rparr>))"

text \<open>The largest generation in use, plus one if that does not overflow.\<close>

definition next_generation :: "registered_node \<Rightarrow> u64 option" where
  "next_generation n =
     (let m = fold max (map pt_generation (rn_pending_tokens n)) (rn_token_generation n)
      in if m = - 1 then None else Some (m + 1))"

record issue_request =
  rq_node_id :: string
  rq_node_label :: "string option"
  rq_tags :: "string list"

record issue_result =
  ir_node :: registered_node
  ir_node_session_token :: string
  ir_created :: bool
  ir_rotated_token :: bool
  ir_install_token :: string
  ir_install_token_expires_at :: datetime

text \<open>The checks of \<open>issue_node_guarded\<close> before the file is touched.\<close>

definition issue_precheck :: "issue_request \<Rightarrow> registry_error + unit" where
  "issue_precheck rq =
     first_error
      [text_check (validate_identifier (Field ''node_id'') (rq_node_id rq)),
       (case rq_node_label rq of None \<Rightarrow> Inr ()
        | Some l \<Rightarrow> text_check (validate_bounded_text (Field ''node_label'') l MAX_NODE_IDENTITY_TEXT_BYTES)),
       text_check (validate_tag_list ''tags'' (normalize_string_list (rq_tags rq)) MAX_NODE_TAGS
         MAX_NODE_TAG_BYTES)]"

definition rotate_credentials ::
  "string \<Rightarrow> u64 \<Rightarrow> datetime \<Rightarrow> registered_node \<Rightarrow> registered_node" where
  "rotate_credentials hash generation now n =
     n\<lparr>rn_token_hash := hash, rn_token_generation := generation, rn_previous_token_hash := [],
       rn_pending_tokens := [], rn_previous_token_generation := None,
       rn_previous_token_valid_until := None,
       rn_token_expires_at := Some (now + DEFAULT_TOKEN_VALIDITY_DAYS * DAY), rn_token := []\<rparr>"

definition fresh_node :: "issue_request \<Rightarrow> string \<Rightarrow> datetime \<Rightarrow> registered_node" where
  "fresh_node rq hash now =
     \<lparr>rn_node_id = str_trim (rq_node_id rq),
      rn_node_label = (case rq_node_label rq of
          None \<Rightarrow> rq_node_id rq
        | Some l \<Rightarrow> if str_trim l = [] then rq_node_id rq else str_trim l),
      rn_token_hash = hash, rn_token_generation = 1, rn_previous_token_hash = [],
      rn_previous_token_generation = None, rn_previous_token_valid_until = None,
      rn_pending_tokens = [], rn_token = [], rn_tags = normalize_string_list (rq_tags rq),
      rn_created_at = now, rn_token_expires_at = Some (now + DEFAULT_TOKEN_VALIDITY_DAYS * DAY),
      rn_service_expires_at = None, rn_service_unlimited = False, rn_renewal_price = None,
      rn_traffic_limit_bytes = None, rn_traffic_accounting = Bidirectional,
      rn_traffic_throttle_kbps = None, rn_location_country = None, rn_location_city = None,
      rn_location_latitude = None, rn_location_longitude = None\<rparr>"

definition issued :: "registered_node \<Rightarrow> string \<Rightarrow> bool \<Rightarrow> install_session \<Rightarrow> issue_result" where
  "issued n token created s =
     \<lparr>ir_node = n, ir_node_session_token = token, ir_created = created, ir_rotated_token = \<not> created,
      ir_install_token = is_token s, ir_install_token_expires_at = is_expires_at s\<rparr>"

definition issue_edit ::
  "argon2 \<Rightarrow> issue_request \<Rightarrow> string \<Rightarrow> string \<Rightarrow> string \<Rightarrow> datetime \<Rightarrow> issue_result edit" where
  "issue_edit cr rq new_token salt install_token now f0 =
     (let f = fst (prune_expired_install_sessions now f0); hash = argon_hash cr salt new_token in
      case position (\<lambda>n. rn_node_id n = rq_node_id rq) (rf_nodes f) of
        Some i \<Rightarrow>
          (let n = rf_nodes f ! i;
               n = (case rq_node_label rq of None \<Rightarrow> n | Some l \<Rightarrow> n\<lparr>rn_node_label := str_trim l\<rparr>);
               n = (if rq_tags rq \<noteq> [] then n\<lparr>rn_tags := normalize_string_list (rq_tags rq)\<rparr> else n)
           in case next_generation n of
                None \<Rightarrow> Inl (Validation GenerationExhausted)
              | Some g \<Rightarrow>
                  (let n = rotate_credentials hash g now n in
                   case validate_registered_node cr n of
                     Inl e \<Rightarrow> Inl e
                   | Inr _ \<Rightarrow>
                       (let (s, f) = mint_install_session install_token (rn_node_id n) now new_token
                              (f\<lparr>rf_nodes := (rf_nodes f)[i := n]\<rparr>)
                        in Inr (issued n new_token False s, True, f))))
      | None \<Rightarrow>
          (let n = fresh_node rq hash now in
           case validate_registered_node cr n of
             Inl e \<Rightarrow> Inl e
           | Inr _ \<Rightarrow>
               (let (s, f) = mint_install_session install_token (rn_node_id n) now new_token
                      (f\<lparr>rf_nodes := sort_key rn_node_id (rf_nodes f @ [n])\<rparr>)
                in Inr (issued n new_token True s, True, f))))"

section \<open>Renewal\<close>

record prepared_token =
  pp_token :: string
  pp_refresh_id :: string
  pp_generation :: u64
  pp_expires_at :: datetime

definition live_pending :: "datetime \<Rightarrow> registered_node \<Rightarrow> pending_token list" where
  "live_pending now n = filter (\<lambda>p. now < pt_expires_at p) (rn_pending_tokens n)"

definition precheck_token_refresh ::
  "registry_state \<Rightarrow> string \<Rightarrow> u64 \<Rightarrow> datetime \<Rightarrow> registry_error + unit" where
  "precheck_token_refresh st node_id generation now =
     (case tbl_get (rs_entries st) node_id of
        None \<Rightarrow> Inl (NodeNotFound node_id)
      | Some n \<Rightarrow>
          if token_status_for_node n generation 0 now = None then Inl Unauthorized
          else if MAX_PENDING_TOKENS \<le> length (live_pending now n)
          then Inl (Validation PendingLimitReached) else Inr ())"

definition prepare_node ::
  "u64 \<Rightarrow> string \<Rightarrow> string \<Rightarrow> string \<Rightarrow> datetime \<Rightarrow> registered_node
    \<Rightarrow> registry_error + prepared_token \<times> registered_node" where
  "prepare_node generation token refresh_id hash now n0 =
     (if token_status_for_node n0 generation 0 now = None then Inl Unauthorized
      else
        let n = n0\<lparr>rn_pending_tokens := live_pending now n0\<rparr> in
        if MAX_PENDING_TOKENS \<le> length (rn_pending_tokens n) then Inl (Validation PendingLimitReached)
        else case next_generation n of
               None \<Rightarrow> Inl (Validation GenerationExhausted)
             | Some g \<Rightarrow>
                 (let expires = now + DEFAULT_TOKEN_VALIDITY_DAYS * DAY;
                      p = \<lparr>pt_refresh_id = refresh_id, pt_token_hash = hash, pt_generation = g,
                           pt_expires_at = expires\<rparr>
                  in Inr (\<lparr>pp_token = token, pp_refresh_id = refresh_id, pp_generation = g,
                           pp_expires_at = expires\<rparr>,
                          n\<lparr>rn_pending_tokens := rn_pending_tokens n @ [p]\<rparr>)))"

definition commit_node ::
  "string \<Rightarrow> datetime \<Rightarrow> registered_node \<Rightarrow> registry_error + (u64 \<times> datetime) \<times> registered_node" where
  "commit_node refresh_id now n =
     (case List.find (\<lambda>p. pt_refresh_id p = refresh_id \<and> now < pt_expires_at p) (rn_pending_tokens n) of
        None \<Rightarrow> Inl Unauthorized
      | Some c \<Rightarrow>
          (let grace = now + TOKEN_REFRESH_GRACE_MINUTES * MINUTE_NS in
           Inr ((pt_generation c, pt_expires_at c),
                n\<lparr>rn_previous_token_hash := rn_token_hash n, rn_token_hash := pt_token_hash c,
                  rn_previous_token_generation := Some (rn_token_generation n),
                  rn_previous_token_valid_until := Some
                    (case rn_token_expires_at n of Some e \<Rightarrow> min e grace | None \<Rightarrow> grace),
                  rn_token_generation := pt_generation c,
                  rn_token_expires_at := Some (pt_expires_at c), rn_token := [],
                  rn_pending_tokens := []\<rparr>)))"

text \<open>An edit of the first node with an id.\<close>

definition edit_node ::
  "string \<Rightarrow> registry_error \<Rightarrow> (registered_node \<Rightarrow> registry_error + 'a \<times> registered_node) \<Rightarrow> 'a edit" where
  "edit_node node_id missing g f =
     (case position (\<lambda>n. rn_node_id n = node_id) (rf_nodes f) of
        None \<Rightarrow> Inl missing
      | Some i \<Rightarrow>
          (case g (rf_nodes f ! i) of
             Inl e \<Rightarrow> Inl e
           | Inr (x, n) \<Rightarrow> Inr (x, True, f\<lparr>rf_nodes := (rf_nodes f)[i := n]\<rparr>)))"

definition prepare_edit ::
  "string \<Rightarrow> u64 \<Rightarrow> string \<Rightarrow> string \<Rightarrow> string \<Rightarrow> datetime \<Rightarrow> prepared_token edit" where
  "prepare_edit node_id generation token refresh_id hash now =
     edit_node node_id (NodeNotFound node_id) (prepare_node generation token refresh_id hash now)"

definition commit_edit :: "string \<Rightarrow> string \<Rightarrow> datetime \<Rightarrow> (u64 \<times> datetime) edit" where
  "commit_edit node_id refresh_id now = edit_node node_id Unauthorized (commit_node refresh_id now)"

text \<open>\<open>activate_saved_token\<close>: the refresh id to commit, if the generation is a pending one.\<close>

definition activation_target ::
  "registry_state \<Rightarrow> string \<Rightarrow> u64 \<Rightarrow> registry_error + string option" where
  "activation_target st node_id generation =
     (case tbl_get (rs_entries st) node_id of
        None \<Rightarrow> Inl Unauthorized
      | Some n \<Rightarrow> Inr (map_option pt_refresh_id
          (List.find (\<lambda>p. pt_generation p = generation) (rn_pending_tokens n))))"

section \<open>The other edits\<close>

definition remove_node_edit :: "string \<Rightarrow> datetime \<Rightarrow> registered_node edit" where
  "remove_node_edit node_id now f0 =
     (let f = fst (prune_expired_install_sessions now f0) in
      case position (\<lambda>n. rn_node_id n = node_id) (rf_nodes f) of
        None \<Rightarrow> Inl (NodeNotFound node_id)
      | Some i \<Rightarrow>
          (let removed = rf_nodes f ! i in
           Inr (removed, True,
             f\<lparr>rf_nodes := take i (rf_nodes f) @ drop (Suc i) (rf_nodes f),
               rf_install_sessions :=
                 filter (\<lambda>s. is_node_id s \<noteq> rn_node_id removed) (rf_install_sessions f)\<rparr>)))"

definition consume_install_edit ::
  "string \<Rightarrow> datetime \<Rightarrow> (registered_node \<times> string) option edit" where
  "consume_install_edit token now f0 =
     (let (f, pruned) = prune_expired_install_sessions now f0 in
      case position (\<lambda>s. is_token s = token) (rf_install_sessions f) of
        None \<Rightarrow> Inr (None, pruned, f)
      | Some i \<Rightarrow>
          (let s = rf_install_sessions f ! i;
               f = f\<lparr>rf_install_sessions :=
                      take i (rf_install_sessions f) @ drop (Suc i) (rf_install_sessions f)\<rparr>
           in Inr (map_option (\<lambda>n. (n, is_node_session_token s))
                     (List.find (\<lambda>n. rn_node_id n = is_node_id s) (rf_nodes f)), True, f)))"

definition set_location :: "geoip_location option \<Rightarrow> registered_node \<Rightarrow> registered_node" where
  "set_location l n =
     (case l of
        Some loc \<Rightarrow>
          n\<lparr>rn_location_country := Some (gl_country loc), rn_location_city := gl_city loc,
            rn_location_latitude := map_option coordinate_to_microdegrees (gl_latitude loc),
            rn_location_longitude := map_option coordinate_to_microdegrees (gl_longitude loc)\<rparr>
      | None \<Rightarrow>
          n\<lparr>rn_location_country := None, rn_location_city := None, rn_location_latitude := None,
            rn_location_longitude := None\<rparr>)"

definition update_location_edit ::
  "argon2 \<Rightarrow> string \<Rightarrow> geoip_location option \<Rightarrow> registered_node edit" where
  "update_location_edit cr node_id l =
     edit_node node_id (NodeNotFound node_id) (\<lambda>n.
       let n = set_location l n in
       case validate_registered_node cr n of Inl e \<Rightarrow> Inl e | Inr _ \<Rightarrow> Inr (n, n))"

record metadata_patch =
  mp_service_expires_at :: "datetime option option"
  mp_service_unlimited :: "bool option"
  mp_renewal_price :: "string option option"
  mp_traffic_limit_bytes :: "u64 option option"
  mp_traffic_accounting :: "traffic_accounting option"
  mp_traffic_throttle_kbps :: "u64 option option"

definition keep_or :: "'a option \<Rightarrow> 'a \<Rightarrow> 'a" where
  "keep_or patch old = (case patch of None \<Rightarrow> old | Some new \<Rightarrow> new)"

definition patch_node :: "metadata_patch \<Rightarrow> registered_node \<Rightarrow> registered_node" where
  "patch_node p n0 =
     (let n = n0\<lparr>rn_service_unlimited := keep_or (mp_service_unlimited p) (rn_service_unlimited n0),
                 rn_service_expires_at := keep_or (mp_service_expires_at p) (rn_service_expires_at n0)\<rparr>;
          n = (if rn_service_unlimited n then n\<lparr>rn_service_expires_at := None\<rparr> else n)
      in n\<lparr>rn_renewal_price := keep_or (mp_renewal_price p) (rn_renewal_price n),
           rn_traffic_limit_bytes := keep_or (mp_traffic_limit_bytes p) (rn_traffic_limit_bytes n),
           rn_traffic_accounting := keep_or (mp_traffic_accounting p) (rn_traffic_accounting n),
           rn_traffic_throttle_kbps := keep_or (mp_traffic_throttle_kbps p) (rn_traffic_throttle_kbps n)\<rparr>)"

text \<open>The checks before the file is touched: the price is sanitised and a zero limit refused.\<close>

definition patch_precheck :: "metadata_patch \<Rightarrow> registry_error + metadata_patch" where
  "patch_precheck p =
     (case (case mp_renewal_price p of
              None \<Rightarrow> Inr p
            | Some price \<Rightarrow>
                (case sanitize_renewal_price price of
                   Inl e \<Rightarrow> Inl (Validation (SettingInvalid e))
                 | Inr price \<Rightarrow> Inr (p\<lparr>mp_renewal_price := Some price\<rparr>))) of
        Inl e \<Rightarrow> Inl e
      | Inr p \<Rightarrow> if mp_traffic_limit_bytes p = Some (Some 0) then Inl (Validation ZeroTrafficLimit)
                 else Inr p)"

definition update_metadata_edit ::
  "argon2 \<Rightarrow> string \<Rightarrow> metadata_patch \<Rightarrow> registered_node edit" where
  "update_metadata_edit cr node_id p =
     edit_node node_id (NodeNotFound node_id) (\<lambda>n.
       let n = patch_node p n in
       case first_error
              [validate_traffic_combination (rn_traffic_limit_bytes n) (rn_traffic_throttle_kbps n),
               validate_registered_node cr n] of
         Inl e \<Rightarrow> Inl e
       | Inr _ \<Rightarrow> Inr (n, n))"

definition registry_traffic_quota :: "registry_state \<Rightarrow> string \<Rightarrow> traffic_quota option" where
  "registry_traffic_quota st node_id =
     Option.bind (tbl_get (rs_entries st) node_id) (\<lambda>n.
       map_option (\<lambda>limit. \<lparr>tq_limit_bytes = limit, tq_accounting = rn_traffic_accounting n,
                            tq_throttle_kbps = rn_traffic_throttle_kbps n\<rparr>)
         (rn_traffic_limit_bytes n))"

section \<open>Facts\<close>

lemma argon_facts:
  assumes "argon2_ok cr"
  shows "argon_hash cr salt tok \<noteq> []" "phc_ok cr (argon_hash cr salt tok)"
    "argon_verify cr tok' (argon_hash cr salt tok) \<longleftrightarrow> tok' = tok"
  using assms by (auto simp: argon2_ok_def)

lemma max_fold_ge: "x \<le> fold max xs x \<and> (\<forall>y \<in> set xs. y \<le> fold max xs x)"
  for x :: "'a::linorder"
proof (induction xs arbitrary: x)
  case (Cons a xs)
  then show ?case
    by (auto intro: order_trans [of _ "max a x"])
qed simp

lemma next_generation_greater:
  assumes "next_generation n = Some g"
  shows "rn_token_generation n < g" and "p \<in> set (rn_pending_tokens n) \<Longrightarrow> pt_generation p < g"
proof -
  let ?m = "fold max (map pt_generation (rn_pending_tokens n)) (rn_token_generation n)"
  have g: "g = ?m + 1" "?m \<noteq> - 1"
    using assms by (auto simp: next_generation_def Let_def split: if_splits)
  have "?m < ?m + 1"
    using g(2) inc_less_eq_self_iff_eq [of ?m] by (simp add: not_le [symmetric])
  then show "rn_token_generation n < g" and "p \<in> set (rn_pending_tokens n) \<Longrightarrow> pt_generation p < g"
    using max_fold_ge [of "rn_token_generation n" "map pt_generation (rn_pending_tokens n)"] g(1)
    by (auto intro: le_less_trans)
qed

lemma match_pending_none:
  "list_all (\<lambda>p. \<not> argon_verify cr input (pt_token_hash p)) ps \<Longrightarrow> match_pending cr clock i input ps = None"
  by (induction ps arbitrary: i) auto

lemma match_pending_append:
  "list_all (\<lambda>p. \<not> argon_verify cr input (pt_token_hash p)) ps \<Longrightarrow>
    match_pending cr clock i input (ps @ [p]) =
      (if clock (i + length ps) < pt_expires_at p \<and> argon_verify cr input (pt_token_hash p)
       then Some \<lparr>mt_generation = pt_generation p, mt_expires_at = Some (pt_expires_at p)\<rparr> else None)"
  by (induction ps arbitrary: i) auto

definition prepared_node :: "prepared_token \<Rightarrow> string \<Rightarrow> datetime \<Rightarrow> registered_node \<Rightarrow> registered_node" where
  "prepared_node p hash now n = n\<lparr>rn_pending_tokens := live_pending now n @
     [\<lparr>pt_refresh_id = pp_refresh_id p, pt_token_hash = hash, pt_generation = pp_generation p,
       pt_expires_at = pp_expires_at p\<rparr>]\<rparr>"

lemma prepare_node_result:
  assumes "prepare_node gen token rid hash now n = Inr (p, n1)"
  shows "n1 = prepared_node p hash now n \<and> pp_token p = token \<and> pp_refresh_id p = rid \<and>
    pp_expires_at p = now + DEFAULT_TOKEN_VALIDITY_DAYS * DAY \<and>
    next_generation (n\<lparr>rn_pending_tokens := live_pending now n\<rparr>) = Some (pp_generation p) \<and>
    length (live_pending now n) < MAX_PENDING_TOKENS \<and> token_status_for_node n gen 0 now \<noteq> None"
  using assms
  by (auto simp: prepare_node_def prepared_node_def Let_def not_le split: if_splits option.splits)

lemma find_append: "List.find P (xs @ ys) = (case List.find P xs of None \<Rightarrow> List.find P ys | Some x \<Rightarrow> Some x)"
  by (induction xs) auto

lemma find_none: "list_all (\<lambda>x. \<not> P x) xs \<Longrightarrow> List.find P xs = None"
  by (induction xs) auto

lemma position_less: "position P xs = Some i \<Longrightarrow> i < length xs \<and> P (xs ! i) \<and> (\<forall>j < i. \<not> P (xs ! j))"
proof (induction xs arbitrary: i)
  case (Cons x xs)
  show ?case
  proof (cases "P x")
    case False
    then obtain k where "i = Suc k" "position P xs = Some k"
      using Cons.prems by auto
    then show ?thesis
      using Cons.IH [of k] False by (auto simp: less_Suc_eq_0_disj)
  qed (use Cons.prems in auto)
qed simp

section \<open>Properties\<close>

definition foreign :: "argon2 \<Rightarrow> string \<Rightarrow> string \<Rightarrow> registered_node \<Rightarrow> bool" where
  "foreign cr tok rid n \<longleftrightarrow> list_all (\<lambda>p. \<not> argon_verify cr tok (pt_token_hash p) \<and>
     pt_refresh_id p \<noteq> rid) (rn_pending_tokens n)"

text \<open>
  C12: the two-phase renewal never locks an Agent out and retires the old token. After the prepare
  step the current token still authenticates with its generation, and so does the candidate; after
  the commit the candidate is the current credential under a strictly larger generation, and the
  old token works for the grace period of at most ten minutes (never beyond its own expiry) and not
  after it. Neither step depends on the other's answer having reached the Agent.
\<close>

theorem renewal_hands_over:
  assumes "argon2_ok cr" and "rn_token_hash n = argon_hash cr salt cur" and "new \<noteq> cur"
    and "foreign cr new rid n" and "foreign cr cur rid n"
    and "prepare_node gen new rid (argon_hash cr salt' new) t0 n = Inr (p, n1)"
    and "t0 \<le> t1" and "t1 < pp_expires_at p" and "commit_node rid t1 n1 = Inr (r, n2)"
  shows "token_matches_entry cr clock cur n1 =
      Some \<lparr>mt_generation = rn_token_generation n, mt_expires_at = rn_token_expires_at n\<rparr> \<and>
    token_matches_entry cr (\<lambda>_. t1) new n1 =
      Some \<lparr>mt_generation = pp_generation p, mt_expires_at = Some (pp_expires_at p)\<rparr> \<and>
    rn_token_generation n < pp_generation p \<and> r = (pp_generation p, pp_expires_at p) \<and>
    token_matches_entry cr clock new n2 =
      Some \<lparr>mt_generation = pp_generation p, mt_expires_at = Some (pp_expires_at p)\<rparr> \<and>
    token_matches_entry cr (\<lambda>_. t) cur n2 =
      (let limit = (case rn_token_expires_at n of
             None \<Rightarrow> t1 + 10 * MINUTE_NS | Some e \<Rightarrow> min e (t1 + 10 * MINUTE_NS))
       in if t < limit then Some \<lparr>mt_generation = rn_token_generation n, mt_expires_at = Some limit\<rparr>
          else None)"
proof -
  let ?c = "\<lparr>pt_refresh_id = rid, pt_token_hash = argon_hash cr salt' new, pt_generation = pp_generation p,
    pt_expires_at = pp_expires_at p\<rparr>"
  let ?live = "live_pending t0 n"
  note prep = prepare_node_result [OF assms(6)]
  have n1: "n1 = n\<lparr>rn_pending_tokens := ?live @ [?c]\<rparr>"
    using prep by (simp add: prepared_node_def)
  have live: "list_all (\<lambda>p. \<not> argon_verify cr new (pt_token_hash p)) ?live"
      "list_all (\<lambda>p. \<not> (pt_refresh_id p = rid \<and> t1 < pt_expires_at p)) ?live"
    using assms(4) by (auto simp: foreign_def live_pending_def list_all_iff)
  have "List.find (\<lambda>p. pt_refresh_id p = rid \<and> t1 < pt_expires_at p) (rn_pending_tokens n1) = Some ?c"
    using assms(8) find_none [OF live(2)] by (simp add: n1 find_append)
  then have n2: "r = (pp_generation p, pp_expires_at p) \<and> n2 = n\<lparr>
      rn_previous_token_hash := rn_token_hash n, rn_token_hash := argon_hash cr salt' new,
      rn_previous_token_generation := Some (rn_token_generation n),
      rn_previous_token_valid_until := Some (case rn_token_expires_at n of
         Some e \<Rightarrow> min e (t1 + TOKEN_REFRESH_GRACE_MINUTES * MINUTE_NS)
       | None \<Rightarrow> t1 + TOKEN_REFRESH_GRACE_MINUTES * MINUTE_NS),
      rn_token_generation := pp_generation p, rn_token_expires_at := Some (pp_expires_at p), rn_token := [],
      rn_pending_tokens := []\<rparr>"
    using assms(9) by (simp add: commit_node_def Let_def n1)
  note cr = argon_facts [OF assms(1)]
  have "token_matches_entry cr (\<lambda>_. t1) new n1 =
      Some \<lparr>mt_generation = pp_generation p, mt_expires_at = Some (pp_expires_at p)\<rparr>"
    using live(1) assms(2,3,8)
    by (simp add: token_matches_entry_def current_matches_def n1 cr match_pending_append)
  moreover have "rn_token_generation n < pp_generation p"
    using next_generation_greater(1) [of "n\<lparr>rn_pending_tokens := ?live\<rparr>"] prep by simp
  ultimately show ?thesis
    using assms(2,3) n2
    by (auto simp: token_matches_entry_def current_matches_def n1 cr match_previous_def
        TOKEN_REFRESH_GRACE_MINUTES_def Let_def split: option.split)
qed

definition demo_node :: registered_node where
  "demo_node = fresh_node \<lparr>rq_node_id = ''n1'', rq_node_label = None, rq_tags = []\<rparr> (CHR ''$'' # ''old'') 0"

theorem renewal_hands_over_witness:
  "\<exists>n1 n2. prepare_node 1 ''new'' ''rid'' (argon_hash argon2_plain [] ''new'') 5 demo_node =
      Inr (\<lparr>pp_token = ''new'', pp_refresh_id = ''rid'', pp_generation = 2, pp_expires_at = 5 + 30 * DAY\<rparr>, n1) \<and>
    commit_node ''rid'' 7 n1 = Inr ((2, 5 + 30 * DAY), n2) \<and>
    token_matches_entry argon2_plain (\<lambda>_. 100) ''old'' n2 =
      Some \<lparr>mt_generation = 1, mt_expires_at = Some (7 + 10 * MINUTE_NS)\<rparr>"
proof -
  let ?p = "\<lparr>pp_token = ''new'', pp_refresh_id = ''rid'', pp_generation = 2, pp_expires_at = 5 + 30 * DAY\<rparr>"
  obtain n1 where n1: "prepare_node 1 ''new'' ''rid'' (argon_hash argon2_plain [] ''new'') 5 demo_node =
      Inr (?p, n1)" and n1': "n1 = prepared_node ?p (CHR ''$'' # ''new'') 5 demo_node"
    by (simp add: prepare_node_def demo_node_def fresh_node_def token_status_for_node_def
        token_is_unexpired_def DEFAULT_TOKEN_VALIDITY_DAYS_def DAY_def Let_def live_pending_def
        MAX_PENDING_TOKENS_def next_generation_def prepared_node_def argon2_plain_def)
  obtain n2 where n2: "commit_node ''rid'' 7 n1 = Inr ((2, 5 + 30 * DAY), n2)"
    by (simp add: commit_node_def n1' prepared_node_def demo_node_def fresh_node_def live_pending_def
        DAY_def Let_def)
  have "rn_token_hash demo_node = argon_hash argon2_plain [] ''old''"
      "foreign argon2_plain tok rid demo_node" for tok rid
    by (simp_all add: demo_node_def fresh_node_def argon2_plain_def foreign_def)
  from renewal_hands_over [OF argon2_plain_ok this(1) _ this(2,2) n1 _ _ n2, of "\<lambda>_. 0" 100]
  have "token_matches_entry argon2_plain (\<lambda>_. 100) ''old'' n2 =
      Some \<lparr>mt_generation = 1, mt_expires_at = Some (7 + 10 * MINUTE_NS)\<rparr>"
    by (simp add: demo_node_def fresh_node_def Let_def DEFAULT_TOKEN_VALIDITY_DAYS_def DAY_def MINUTE_NS_def)
  then show ?thesis
    using n1 n2 by blast
qed

lemma issue_existing:
  assumes "issue_edit cr rq new salt itok now f = Inr (res, w, f')"
    and "position (\<lambda>n. rn_node_id n = rq_node_id rq) (rf_nodes f) = Some i"
  shows "\<exists>n g. ir_node res = rotate_credentials (argon_hash cr salt new) g now n \<and>
    next_generation (rf_nodes f ! i) = Some g \<and> rn_node_id n = rn_node_id (rf_nodes f ! i) \<and>
    validate_registered_node cr (ir_node res) = Inr () \<and> w \<and>
    rf_nodes f' = (rf_nodes f)[i := ir_node res] \<and>
    rf_install_sessions f' = filter (\<lambda>s. now < is_expires_at s \<and> is_node_id s \<noteq> rn_node_id n) (rf_install_sessions f) @
      [\<lparr>is_token = itok, is_node_id = rn_node_id n, is_created_at = now,
        is_expires_at = now + INSTALL_TOKEN_TTL_MINUTES * MINUTE_NS, is_node_session_token = new\<rparr>]"
proof -
  define n where "n = (let n = rf_nodes f ! i;
      n = (case rq_node_label rq of None \<Rightarrow> n | Some l \<Rightarrow> n\<lparr>rn_node_label := str_trim l\<rparr>)
    in if rq_tags rq \<noteq> [] then n\<lparr>rn_tags := normalize_string_list (rq_tags rq)\<rparr> else n)"
  have same: "next_generation n = next_generation (rf_nodes f ! i)" "rn_node_id n = rn_node_id (rf_nodes f ! i)"
    by (simp_all add: n_def Let_def next_generation_def split: option.split)
  show ?thesis
    using assms same unfolding issue_edit_def
    by (auto simp: Let_def prune_expired_install_sessions_def mint_install_session_def issued_def
        n_def [unfolded Let_def, symmetric] rotate_credentials_def
        split: option.splits sum.splits intro!: exI [of _ n])
qed

text \<open>
  C15: issuing a node again revokes everything issued before. The stored entry accepts the new token
  and no other, at any time; no earlier generation, pending or in grace, still counts as a valid
  session; and the node has exactly one install session, carrying the new token.
\<close>

theorem reissue_revokes_everything:
  assumes "argon2_ok cr" and "issue_edit cr rq new salt itok now f = Inr (res, w, f')"
    and "position (\<lambda>n. rn_node_id n = rq_node_id rq) (rf_nodes f) = Some i"
  shows "rf_nodes f' ! i = ir_node res \<and>
    (token_matches_entry cr clock tok (rf_nodes f' ! i) =
      (if tok = new then Some \<lparr>mt_generation = rn_token_generation (ir_node res),
         mt_expires_at = Some (now + 30 * DAY)\<rparr> else None)) \<and>
    (g \<le> rn_token_generation (rf_nodes f ! i) \<or> g \<in> pt_generation ` set (rn_pending_tokens (rf_nodes f ! i))
       \<longrightarrow> token_status_for_node (rf_nodes f' ! i) g revision t = None) \<and>
    map is_node_session_token (filter (\<lambda>s. is_node_id s = rn_node_id (rf_nodes f ! i))
      (rf_install_sessions f')) = [new]"
proof -
  obtain n g' where n: "ir_node res = rotate_credentials (argon_hash cr salt new) g' now n"
      "next_generation (rf_nodes f ! i) = Some g'" "rn_node_id n = rn_node_id (rf_nodes f ! i)"
      "rf_nodes f' = (rf_nodes f)[i := ir_node res]"
      "rf_install_sessions f' = filter (\<lambda>s. now < is_expires_at s \<and> is_node_id s \<noteq> rn_node_id n) (rf_install_sessions f) @
        [\<lparr>is_token = itok, is_node_id = rn_node_id n, is_created_at = now,
          is_expires_at = now + INSTALL_TOKEN_TTL_MINUTES * MINUTE_NS, is_node_session_token = new\<rparr>]"
    using issue_existing [OF assms(2,3)] by blast
  have "i < length (rf_nodes f)"
    using position_less [OF assms(3)] by simp
  then have at: "rf_nodes f' ! i = ir_node res"
    by (simp add: n(4))
  note cr = argon_facts [OF assms(1)]
  have status: "token_status_for_node (ir_node res) g revision t = None"
    if "g \<le> rn_token_generation (rf_nodes f ! i) \<or> g \<in> pt_generation ` set (rn_pending_tokens (rf_nodes f ! i))"
  proof -
    have "g < g'"
      using that next_generation_greater [OF n(2)] by (auto intro: le_less_trans)
    then have "g \<noteq> g'"
      by simp
    then show ?thesis
      by (simp add: n(1) rotate_credentials_def token_status_for_node_def)
  qed
  show ?thesis
    using status unfolding at
    by (auto simp: n(1,3,5) rotate_credentials_def token_matches_entry_def current_matches_def cr
        match_previous_def DEFAULT_TOKEN_VALIDITY_DAYS_def conj_commute)
qed

lemmas validation_defs = validate_registered_node_def first_error_ok validate_identifier_def
  validate_non_empty_def validate_bounded_text_def str_trim_def chars_defs IDENTIFIER_MAX_CHARS_def
  identifier_char_def is_ascii_alphanumeric_def is_ascii_digit_def MAX_NODE_IDENTITY_TEXT_BYTES_def
  validate_previous_token_def validate_pending_tokens_def validate_tag_list_def
  validate_traffic_settings_def normalize_string_list_def throttle_rate_ok_def
  validate_location_override_fields_def argon2_plain_def text_check_def check_that_def

theorem reissue_revokes_everything_witness:
  "\<exists>res f'. issue_edit argon2_plain \<lparr>rq_node_id = ''n1'', rq_node_label = None, rq_tags = []\<rparr>
      ''new'' [] ''itok'' 9 \<lparr>rf_version = 1, rf_nodes = [demo_node], rf_install_sessions = []\<rparr> =
      Inr (res, True, f') \<and> token_matches_entry argon2_plain (\<lambda>_. 10) ''old'' (rf_nodes f' ! 0) = None"
proof -
  let ?rq = "\<lparr>rq_node_id = ''n1'', rq_node_label = None, rq_tags = []\<rparr>"
  let ?f = "\<lparr>rf_version = 1, rf_nodes = [demo_node], rf_install_sessions = []\<rparr>"
  have pos: "position (\<lambda>n. rn_node_id n = rq_node_id ?rq) (rf_nodes ?f) = Some 0"
    by (simp add: demo_node_def fresh_node_def str_trim_def chars_defs)
  have "\<exists>res f'. issue_edit argon2_plain ?rq ''new'' [] ''itok'' 9 ?f = Inr (res, True, f')"
    by (simp add: issue_edit_def Let_def prune_expired_install_sessions_def demo_node_def
        fresh_node_def rotate_credentials_def mint_install_session_def next_generation_def validation_defs)
  then show ?thesis
    using reissue_revokes_everything [OF argon2_plain_ok _ pos] by fastforce
qed

section \<open>Validity is kept by the renewal\<close>

lemma pending_metadata_ok_iff:
  "pending_metadata_ok cr gen ids gens ps = Inr () \<longleftrightarrow>
    list_all (\<lambda>p. validate_refresh_id (pt_refresh_id p) = Inr () \<and> gen < pt_generation p \<and>
      phc_ok cr (pt_token_hash p)) ps \<and>
    distinct (map pt_refresh_id ps) \<and> distinct (map pt_generation ps) \<and>
    pt_refresh_id ` set ps \<inter> ids = {} \<and> pt_generation ` set ps \<inter> gens = {}"
  by (induction cr gen ids gens ps rule: pending_metadata_ok.induct)
    (auto simp: first_error_ok valid_def not_le)

lemma validate_nodes_iff:
  "validate_nodes cr seen ns = Inr () \<longleftrightarrow>
    list_all (\<lambda>n. validate_registered_node cr n = Inr ()) ns \<and> distinct (map rn_node_id ns) \<and>
    rn_node_id ` set ns \<inter> seen = {}"
  by (induction cr seen ns rule: validate_nodes.induct) (auto simp: first_error_ok)

lemma validate_edit_node:
  assumes "validate_registry_file cr f = Inr ()" and "i < length (rf_nodes f)"
    and "rn_node_id n = rn_node_id (rf_nodes f ! i)" and "validate_registered_node cr n = Inr ()"
  shows "validate_registry_file cr (f\<lparr>rf_nodes := (rf_nodes f)[i := n]\<rparr>) = Inr ()"
proof -
  have ids: "map rn_node_id ((rf_nodes f)[i := n]) = map rn_node_id (rf_nodes f)"
    using assms(2,3) by (simp add: map_update list_update_id [of "map rn_node_id _", symmetric])
      (metis list_update_id nth_map)
  have "rn_node_id ` set ((rf_nodes f)[i := n]) = rn_node_id ` set (rf_nodes f)"
    using arg_cong [OF ids, of set] by simp
  moreover have "list_all (\<lambda>n. validate_registered_node cr n = Inr ()) ((rf_nodes f)[i := n])"
    using assms(1,4) set_update_subset_insert [of "rf_nodes f" i n]
    by (auto simp: validate_registry_file_def first_error_ok validate_nodes_iff list_all_iff)
  ultimately show ?thesis
    using assms(1) ids by (simp add: validate_registry_file_def first_error_ok validate_nodes_iff)
qed

lemma edit_node_result:
  assumes "edit_node node_id missing g f = Inr (x, w, f')"
  shows "\<exists>i n. i < length (rf_nodes f) \<and> rn_node_id (rf_nodes f ! i) = node_id \<and>
    g (rf_nodes f ! i) = Inr (x, n) \<and> w \<and> f' = f\<lparr>rf_nodes := (rf_nodes f)[i := n]\<rparr>"
  using assms by (auto simp: edit_node_def dest: position_less split: option.splits sum.splits)

lemma unaffected_checks:
  assumes "rn_location_country m = rn_location_country n" "rn_location_city m = rn_location_city n"
    "rn_location_latitude m = rn_location_latitude n" "rn_location_longitude m = rn_location_longitude n"
    "rn_traffic_throttle_kbps m = rn_traffic_throttle_kbps n"
    "rn_traffic_limit_bytes m = rn_traffic_limit_bytes n"
  shows "validate_location_override_fields m = validate_location_override_fields n"
    "validate_traffic_settings m = validate_traffic_settings n"
proof -
  have "location_override m = location_override n"
    unfolding location_override_def assms ..
  then show "validate_location_override_fields m = validate_location_override_fields n"
    unfolding validate_location_override_fields_def assms by simp
  show "validate_traffic_settings m = validate_traffic_settings n"
    unfolding validate_traffic_settings_def assms ..
qed

lemma prepare_node_valid:
  assumes "argon2_ok cr" and "validate_registered_node cr n = Inr ()"
    and "prepare_node gen token rid (argon_hash cr salt token) now n = Inr (p, n1)"
    and "validate_refresh_id rid = Inr ()" and "rid \<notin> pt_refresh_id ` set (rn_pending_tokens n)"
  shows "validate_registered_node cr n1 = Inr () \<and> rn_node_id n1 = rn_node_id n"
proof -
  note p = prepare_node_result [OF assms(3)]
  note gen = next_generation_greater [of "n\<lparr>rn_pending_tokens := live_pending now n\<rparr>" "pp_generation p"]
  have pend: "validate_pending_tokens cr n = Inr ()"
    using assms(2) by (simp add: validate_registered_node_def first_error_ok)
  let ?L = "live_pending now n" and ?g = "pp_generation p"
  have L: "list_all (\<lambda>p. validate_refresh_id (pt_refresh_id p) = Inr () \<and>
      rn_token_generation n < pt_generation p \<and> phc_ok cr (pt_token_hash p)) ?L \<and>
    distinct (map pt_refresh_id ?L) \<and> distinct (map pt_generation ?L) \<and> length ?L < MAX_PENDING_TOKENS"
    using pend p by (auto simp: validate_pending_tokens_def first_error_ok pending_metadata_ok_iff
        live_pending_def list_all_iff distinct_map_filter)
  have g: "rn_token_generation n < ?g" "?g \<notin> pt_generation ` set ?L"
    using gen p by fastforce+
  have rid: "rid \<notin> pt_refresh_id ` set ?L"
    using assms(5) by (auto simp: live_pending_def)
  have "rn_pending_tokens n1 = ?L @ [\<lparr>pt_refresh_id = rid, pt_token_hash = argon_hash cr salt token,
      pt_generation = ?g, pt_expires_at = pp_expires_at p\<rparr>]" "rn_token_generation n1 = rn_token_generation n"
    using p by (simp_all add: prepared_node_def)
  then have "validate_pending_tokens cr n1 = Inr ()"
    using L g rid assms(4) argon_facts(2) [OF assms(1)]
    by (simp add: validate_pending_tokens_def first_error_ok pending_metadata_ok_iff)
  moreover have "validate_traffic_settings n1 = validate_traffic_settings n"
    "validate_location_override_fields n1 = validate_location_override_fields n"
    "validate_previous_token n1 = validate_previous_token n"
    using p by (auto simp: prepared_node_def validate_previous_token_def intro: unaffected_checks)
  ultimately show ?thesis
    using assms(2) p unfolding validate_registered_node_def first_error_ok
    by (simp add: prepared_node_def)
qed

lemma commit_node_valid:
  assumes "validate_registered_node cr n = Inr ()" and "commit_node rid now n = Inr (r, n2)"
    and "rn_token_hash n \<noteq> []" and "\<forall>s. phc_ok cr s \<longrightarrow> s \<noteq> []"
  shows "validate_registered_node cr n2 = Inr () \<and> rn_node_id n2 = rn_node_id n"
proof -
  obtain c where c: "List.find (\<lambda>p. pt_refresh_id p = rid \<and> now < pt_expires_at p) (rn_pending_tokens n) = Some c"
    using assms(2) by (auto simp: commit_node_def split: option.splits)
  then have "c \<in> set (rn_pending_tokens n)"
    by (auto simp: find_Some_iff)
  then have "phc_ok cr (pt_token_hash c)"
    using assms(1) by (auto simp: validate_registered_node_def first_error_ok
        validate_pending_tokens_def pending_metadata_ok_iff list_all_iff)
  then have hash: "pt_token_hash c \<noteq> []"
    using assms(4) by blast
  define limit where "limit = (case rn_token_expires_at n of
      Some e \<Rightarrow> min e (now + TOKEN_REFRESH_GRACE_MINUTES * MINUTE_NS)
    | None \<Rightarrow> now + TOKEN_REFRESH_GRACE_MINUTES * MINUTE_NS)"
  have n2: "n2 = n\<lparr>rn_previous_token_hash := rn_token_hash n, rn_token_hash := pt_token_hash c,
      rn_previous_token_generation := Some (rn_token_generation n),
      rn_previous_token_valid_until := Some limit, rn_token_generation := pt_generation c,
      rn_token_expires_at := Some (pt_expires_at c), rn_token := [], rn_pending_tokens := []\<rparr>"
    using assms(2) c by (simp add: commit_node_def Let_def limit_def)
  have "validate_previous_token n2 = Inr ()" "validate_pending_tokens cr n2 = Inr ()"
    by (simp_all add: n2 validate_previous_token_def assms(3) validate_pending_tokens_def first_error_ok)
  moreover have "validate_traffic_settings n2 = validate_traffic_settings n"
    "validate_location_override_fields n2 = validate_location_override_fields n"
    by (rule unaffected_checks; simp add: n2)+
  ultimately show ?thesis
    using assms(1) hash unfolding validate_registered_node_def first_error_ok by (simp add: n2)
qed

text \<open>
  C24: the renewal never produces a registry that validation refuses. From a valid registry without
  legacy plaintext tokens, the file after a prepare step and the file after a commit are valid, so
  that neither step can be rejected, or leave the server unable to load, because of its own edit.
\<close>

theorem renewal_keeps_registry_valid:
  assumes "argon2_ok cr" and "\<forall>s. phc_ok cr s \<longrightarrow> s \<noteq> []" and "validate_registry_file cr f = Inr ()"
    and "list_all (\<lambda>n. rn_token_hash n \<noteq> [] \<and> rid \<notin> pt_refresh_id ` set (rn_pending_tokens n)) (rf_nodes f)"
    and "validate_refresh_id rid = Inr ()"
    and "prepare_edit node_id gen token rid (argon_hash cr salt token) now f = Inr (p, w, f1)"
    and "commit_edit node_id rid now' f1 = Inr (r, w', f2)"
  shows "validate_registry_file cr f1 = Inr () \<and> validate_registry_file cr f2 = Inr ()"
proof -
  have node_ok: "validate_registered_node cr n = Inr ()" if "n \<in> set (rf_nodes g)"
    "validate_registry_file cr g = Inr ()" for n g
    using that by (auto simp: validate_registry_file_def first_error_ok validate_nodes_iff list_all_iff)
  obtain i n1 where i: "i < length (rf_nodes f)" "rn_node_id (rf_nodes f ! i) = node_id"
      "prepare_node gen token rid (argon_hash cr salt token) now (rf_nodes f ! i) = Inr (p, n1)"
      "f1 = f\<lparr>rf_nodes := (rf_nodes f)[i := n1]\<rparr>"
    using edit_node_result assms(6) unfolding prepare_edit_def by metis
  have mem: "rf_nodes f ! i \<in> set (rf_nodes f)"
    using i(1) by simp
  have "rid \<notin> pt_refresh_id ` set (rn_pending_tokens (rf_nodes f ! i))"
    using assms(4) mem by (auto simp: list_all_iff)
  note n1 = prepare_node_valid [OF assms(1) node_ok [OF mem assms(3)] i(3) assms(5) this]
  have f1: "validate_registry_file cr f1 = Inr ()"
    unfolding i(4) using n1 by (intro validate_edit_node [OF assms(3) i(1)]) simp_all
  have hashes: "rn_token_hash n \<noteq> []" if "n \<in> set (rf_nodes f1)" for n
  proof -
    have "rn_token_hash n1 = rn_token_hash (rf_nodes f ! i)"
      using prepare_node_result [OF i(3)] by (simp add: prepared_node_def)
    then show ?thesis
      using subsetD [OF set_update_subset_insert [of "rf_nodes f" i n1], of n] that assms(4) mem
      by (auto simp: i(4) list_all_iff)
  qed
  obtain k n2 where k: "k < length (rf_nodes f1)" "commit_node rid now' (rf_nodes f1 ! k) = Inr (r, n2)"
      "f2 = f1\<lparr>rf_nodes := (rf_nodes f1)[k := n2]\<rparr>"
    using edit_node_result assms(7) unfolding commit_edit_def by metis
  have mem': "rf_nodes f1 ! k \<in> set (rf_nodes f1)"
    using k(1) by simp
  note n2 = commit_node_valid [OF node_ok [OF mem' f1] k(2) hashes [OF mem'] assms(2)]
  show ?thesis
    using f1 n2 unfolding k(3) by (intro conjI validate_edit_node [OF f1 k(1)]) simp_all
qed

definition demo_file :: registry_file where
  "demo_file = \<lparr>rf_version = 4, rf_nodes = [demo_node], rf_install_sessions =
     [\<lparr>is_token = ''t'', is_node_id = ''n1'', is_created_at = 0, is_expires_at = 100,
       is_node_session_token = ''s''\<rparr>]\<rparr>"

lemma demo_file_valid: "validate_registry_file argon2_plain demo_file = Inr ()"
  by (simp add: validate_registry_file_def demo_file_def demo_node_def fresh_node_def
      validate_install_session_def validation_defs)

theorem renewal_keeps_registry_valid_witness:
  "\<exists>p f1 r f2. prepare_edit ''n1'' 1 ''new'' (replicate 64 CHR ''a'') (argon_hash argon2_plain [] ''new'') 5
      demo_file = Inr (p, True, f1) \<and>
    commit_edit ''n1'' (replicate 64 CHR ''a'') 7 f1 = Inr (r, True, f2) \<and>
    validate_registry_file argon2_plain f2 = Inr ()"
proof -
  let ?rid = "replicate 64 CHR ''a''"
  let ?p = "\<lparr>pp_token = ''new'', pp_refresh_id = ?rid, pp_generation = 2, pp_expires_at = 5 + 30 * DAY\<rparr>"
  let ?f1 = "demo_file\<lparr>rf_nodes := [prepared_node ?p (CHR ''$'' # ''new'') 5 demo_node]\<rparr>"
  have f1: "prepare_edit ''n1'' 1 ''new'' ?rid (argon_hash argon2_plain [] ''new'') 5 demo_file =
      Inr (?p, True, ?f1)"
    by (simp add: prepare_edit_def edit_node_def demo_file_def prepare_node_def demo_node_def fresh_node_def
        token_status_for_node_def token_is_unexpired_def DEFAULT_TOKEN_VALIDITY_DAYS_def DAY_def Let_def
        live_pending_def MAX_PENDING_TOKENS_def next_generation_def prepared_node_def argon2_plain_def
        str_trim_def chars_defs del: replicate.simps)
  obtain r f2 where f2: "commit_edit ''n1'' ?rid 7 ?f1 = Inr (r, True, f2)"
    by (auto simp: commit_edit_def edit_node_def commit_node_def demo_file_def prepared_node_def
        demo_node_def fresh_node_def live_pending_def DAY_def Let_def str_trim_def chars_defs
        simp del: replicate.simps)
  have "validate_refresh_id ?rid = Inr ()"
    by (simp add: validate_refresh_id_def is_ascii_hexdigit_def list_all_iff chars_defs byte_def)
  moreover have "list_all (\<lambda>n. rn_token_hash n \<noteq> [] \<and> ?rid \<notin> pt_refresh_id ` set (rn_pending_tokens n))
      (rf_nodes demo_file)" "\<forall>s. phc_ok argon2_plain s \<longrightarrow> s \<noteq> []"
    by (simp_all add: demo_file_def demo_node_def fresh_node_def argon2_plain_def)
  ultimately show ?thesis
    using f1 f2 renewal_keeps_registry_valid [OF argon2_plain_ok _ demo_file_valid _ _ f1 f2] by blast
qed

section \<open>Install tokens\<close>

lemma position_None: "position P xs = None \<longleftrightarrow> (\<forall>x \<in> set xs. \<not> P x)"
  by (induction P xs rule: position.induct) auto

lemma position_append:
  "\<lbrakk>\<forall>y \<in> set ys. \<not> P y; P x\<rbrakk> \<Longrightarrow> position P (ys @ x # zs) = Some (length ys)"
  by (induction ys) auto

lemma find_split:
  assumes "List.find P xs = Some x"
  shows "\<exists>ys zs. xs = ys @ x # zs \<and> P x \<and> (\<forall>y \<in> set ys. \<not> P y)"
proof -
  have "dropWhile (\<lambda>x. \<not> P x) xs = x # tl (dropWhile (\<lambda>x. \<not> P x) xs) \<and> P x"
    using assms by (induction xs) (auto split: if_splits)
  then show ?thesis
    by (metis set_takeWhileD takeWhile_dropWhile_id)
qed

lemma validate_sessions_iff:
  "validate_sessions nodes seen ss = Inr () \<longleftrightarrow>
    list_all (\<lambda>s. validate_install_session s = Inr () \<and> is_node_id s \<in> nodes) ss \<and>
    distinct (map is_token ss) \<and> is_token ` set ss \<inter> seen = {}"
  by (induction nodes seen ss rule: validate_sessions.induct) (auto simp: first_error_ok)

lemma consume_unknown:
  assumes "tok \<notin> is_token ` set (rf_install_sessions f)"
  shows "consume_install_edit tok now f = Inr (None, snd (prune_expired_install_sessions now f),
    fst (prune_expired_install_sessions now f))"
proof -
  have "position (\<lambda>s. is_token s = tok) (filter (\<lambda>s. now < is_expires_at s) (rf_install_sessions f)) = None"
    using assms by (auto simp: position_None)
  then show ?thesis
    by (simp add: consume_install_edit_def prune_expired_install_sessions_def Let_def)
qed

lemma consume_live:
  assumes "rf_install_sessions f = ys @ s # zs" and "is_token s = tok" and "now < is_expires_at s"
    and "tok \<notin> is_token ` set ys"
  shows "consume_install_edit tok now f =
    Inr (map_option (\<lambda>n. (n, is_node_session_token s)) (List.find (\<lambda>n. rn_node_id n = is_node_id s) (rf_nodes f)),
      True, f\<lparr>rf_install_sessions := filter (\<lambda>s. now < is_expires_at s) (ys @ zs)\<rparr>)"
proof -
  let ?ys = "filter (\<lambda>s. now < is_expires_at s) ys"
  have "\<forall>s \<in> set ?ys. is_token s \<noteq> tok"
    using assms(4) by auto
  from position_append [where P = "\<lambda>s. is_token s = tok", OF this assms(2)]
  have "position (\<lambda>s. is_token s = tok) (?ys @ s # filter (\<lambda>s. now < is_expires_at s) zs) = Some (length ?ys)"
    by simp
  then show ?thesis
    using assms(3) by (simp add: consume_install_edit_def prune_expired_install_sessions_def Let_def assms(1))
qed

text \<open>
  C20: an install token is good for one installation and only before its deadline. In a valid
  registry the first presentation of a live token yields the session token of its node, and any later
  presentation, whatever the clock says, yields nothing; a token past its deadline yields nothing and
  is removed. No node is changed by either.
\<close>

theorem install_token_single_use:
  assumes "validate_registry_file cr f = Inr ()"
  shows "\<exists>x w f1. consume_install_edit tok now f = Inr (x, w, f1) \<and> rf_nodes f1 = rf_nodes f \<and>
    tok \<notin> is_token ` set (rf_install_sessions f1) \<and>
    consume_install_edit tok later f1 = Inr (None, snd (prune_expired_install_sessions later f1),
      fst (prune_expired_install_sessions later f1)) \<and>
    (case List.find (\<lambda>s. is_token s = tok) (rf_install_sessions f) of
       None \<Rightarrow> x = None
     | Some s \<Rightarrow>
         if now < is_expires_at s
         then \<exists>n. x = Some (n, is_node_session_token s) \<and> rn_node_id n = is_node_id s \<and> n \<in> set (rf_nodes f)
         else x = None)"
proof -
  let ?live = "\<lambda>s. now < is_expires_at s"
  have ok: "distinct (map is_token (rf_install_sessions f))"
      "\<forall>s \<in> set (rf_install_sessions f). is_node_id s \<in> rn_node_id ` set (rf_nodes f)"
    using assms by (auto simp: validate_registry_file_def first_error_ok validate_sessions_iff list_all_iff)
  have gone: ?thesis if "tok \<notin> is_token ` set (filter ?live (rf_install_sessions f))"
    "\<And>s. List.find (\<lambda>s. is_token s = tok) (rf_install_sessions f) = Some s \<Longrightarrow> \<not> ?live s"
  proof -
    let ?f1 = "fst (prune_expired_install_sessions now f)"
    have "position (\<lambda>s. is_token s = tok) (filter ?live (rf_install_sessions f)) = None"
      using that(1) by (auto simp: position_None)
    then have "consume_install_edit tok now f = Inr (None, snd (prune_expired_install_sessions now f), ?f1)"
      by (simp add: consume_install_edit_def prune_expired_install_sessions_def Let_def)
    moreover have "rf_install_sessions ?f1 = filter ?live (rf_install_sessions f)" "rf_nodes ?f1 = rf_nodes f"
      by (simp_all add: prune_expired_install_sessions_def Let_def)
    ultimately show ?thesis
      using that consume_unknown [of tok ?f1 later] by (auto split: option.split)
  qed
  show ?thesis
  proof (cases "List.find (\<lambda>s. is_token s = tok) (rf_install_sessions f)")
    case None
    then show ?thesis by (intro gone) (auto simp: find_None_iff)
  next
    case (Some s)
    then obtain ys zs where f: "rf_install_sessions f = ys @ s # zs" "is_token s = tok" "tok \<notin> is_token ` set ys"
      using find_split [OF Some] by (metis (mono_tags, lifting) imageE)
    have rest: "tok \<notin> is_token ` set (ys @ zs)"
      using ok(1) f by auto
    show ?thesis
    proof (cases "?live s")
      case False
      then show ?thesis using rest f Some by (intro gone) auto
    next
      case True
      obtain n where n: "List.find (\<lambda>n. rn_node_id n = is_node_id s) (rf_nodes f) = Some n"
        using ok(2) f(1) by (cases "List.find (\<lambda>n. rn_node_id n = is_node_id s) (rf_nodes f)")
          (auto simp: find_None_iff)
      then have "rn_node_id n = is_node_id s" "n \<in> set (rf_nodes f)"
        by (auto simp: find_Some_iff)
      moreover have "tok \<notin> is_token ` set (filter ?live (ys @ zs))"
        using rest by auto
      ultimately show ?thesis
        using consume_live [OF f(1,2) True f(3)] consume_unknown [where f = "f\<lparr>rf_install_sessions := filter ?live (ys @ zs)\<rparr>" and now = later]
          Some n True by auto
    qed
  qed
qed

theorem install_token_single_use_witness:
  "\<exists>n w f1. consume_install_edit ''t'' 3 demo_file = Inr (Some (n, ''s''), w, f1) \<and>
    consume_install_edit ''t'' 4 f1 = Inr (None, snd (prune_expired_install_sessions 4 f1),
      fst (prune_expired_install_sessions 4 f1))"
  using install_token_single_use [OF demo_file_valid, of "''t''" 3 4] by (auto simp: demo_file_def)

end
