(* ===== verification/RegistryStore.thy ===== *)
theory RegistryStore
  imports Registry
begin

text \<open>
  The registry on disk and in memory: migration of old files (\<open>registry/migration.rs\<close>,
  \<open>registry/token.rs\<close>), loading and the optimistic write of \<open>registry/storage.rs\<close> and
  \<open>registry/storage/write.rs\<close>, and the state a server holds (\<open>registry/lifecycle.rs\<close>). The disk
  is the value that \<open>serde_json\<close> reads from the file. Writers interleave between the reading of the
  file, made without a lock, and the commit, made under one; every interleaving is shown to have the
  effect of atomic edits.
\<close>

section \<open>Migration of old files\<close>

definition sanitize_legacy_text :: "string \<Rightarrow> nat \<Rightarrow> string" where
  "sanitize_legacy_text value max_bytes =
     (let sanitized = concat (map (\<lambda>ch. if is_control ch then '' '' else ch) (chars value));
          sanitized = str_trim sanitized;
          sanitized = truncate_string_to_byte_boundary sanitized max_bytes
      in str_trim_end sanitized)"

definition migrate_node :: "registered_node \<Rightarrow> registered_node" where
  "migrate_node n =
     (let label = sanitize_legacy_text (rn_node_label n) MAX_NODE_IDENTITY_TEXT_BYTES;
          label = (if label = [] then rn_node_id n else label);
          tags = normalize_string_list (filter (\<lambda>t. t \<noteq> [])
            (map (\<lambda>t. sanitize_legacy_text t MAX_NODE_TAG_BYTES) (rn_tags n)));
          tags = take MAX_NODE_TAGS tags
      in n\<lparr>rn_node_label := label, rn_tags := tags\<rparr>)"

definition migrate_legacy_display_metadata :: "registry_file \<Rightarrow> registry_file \<times> bool" where
  "migrate_legacy_display_metadata f =
     (f\<lparr>rf_nodes := map migrate_node (rf_nodes f)\<rparr>,
      list_ex (\<lambda>n. rn_node_label (migrate_node n) \<noteq> rn_node_label n \<or>
                   rn_tags (migrate_node n) \<noteq> rn_tags n) (rf_nodes f))"

definition is_legacy_token :: "registered_node \<Rightarrow> bool" where
  "is_legacy_token n \<longleftrightarrow> rn_token_hash n = [] \<and> rn_token n \<noteq> []"

text \<open>The salt drawn for an entry is a parameter.\<close>

definition migrate_legacy_tokens ::
  "argon2 \<Rightarrow> (registered_node \<Rightarrow> string) \<Rightarrow> registry_file \<Rightarrow> registry_file \<times> bool" where
  "migrate_legacy_tokens cr salt f =
     (f\<lparr>rf_nodes := map (\<lambda>n.
          if is_legacy_token n
          then n\<lparr>rn_token_hash := argon_hash cr (salt n) (rn_token n), rn_token := [],
                 rn_token_generation := (if rn_token_generation n = 0 then 1 else rn_token_generation n)\<rparr>
          else n) (rf_nodes f)\<rparr>,
      list_ex is_legacy_token (rf_nodes f))"

section \<open>Reading and the guard\<close>

datatype registry_guard = AllowCreate | RequireExisting u64

definition guard_check :: "registry_guard \<Rightarrow> u64 option \<Rightarrow> registry_error + unit" where
  "guard_check g disk_version =
     (case g of
        AllowCreate \<Rightarrow> Inr ()
      | RequireExisting min_version \<Rightarrow>
          (case disk_version of
             Some version \<Rightarrow> if min_version \<le> version then Inr () else Inl (Diverged disk_version min_version)
           | None \<Rightarrow> Inl (Diverged disk_version min_version)))"

type_synonym disk = "registry_file option"

definition empty_file :: registry_file where
  "empty_file = \<lparr>rf_version = 0, rf_nodes = [], rf_install_sessions = []\<rparr>"

definition file_or_default :: "disk \<Rightarrow> registry_file" where
  "file_or_default d = (case d of None \<Rightarrow> empty_file | Some f \<Rightarrow> f)"

definition read_registry_file_sync :: "argon2 \<Rightarrow> disk \<Rightarrow> registry_error + disk" where
  "read_registry_file_sync cr d =
     (case d of
        None \<Rightarrow> Inr None
      | Some f \<Rightarrow>
          (let f = fst (migrate_legacy_display_metadata f) in
           case validate_registry_file cr f of Inl e \<Rightarrow> Inl e | Inr _ \<Rightarrow> Inr (Some f)))"

section \<open>The optimistic write\<close>

definition MAX_REGISTRY_WRITE_RETRIES :: nat where
  "MAX_REGISTRY_WRITE_RETRIES = 32"

text \<open>One attempt up to the temporary file: an error, nothing to write, or a prepared file with the
  version it is based on.\<close>

datatype 'a attempt =
    Failed registry_error
  | Unchanged 'a registry_file
  | Ready 'a u64 registry_file

definition prepare_write :: "argon2 \<Rightarrow> registry_guard \<Rightarrow> 'a edit \<Rightarrow> disk \<Rightarrow> 'a attempt" where
  "prepare_write cr g operation d =
     (case read_registry_file_sync cr d of
        Inl e \<Rightarrow> Failed e
      | Inr existing \<Rightarrow>
          (case guard_check g (map_option rf_version existing) of
             Inl e \<Rightarrow> Failed e
           | Inr _ \<Rightarrow>
               (let f = file_or_default existing; base_version = rf_version f in
                case operation f of
                  Inl e \<Rightarrow> Failed e
                | Inr (value, should_persist, f) \<Rightarrow>
                    if \<not> should_persist then Unchanged value f
                    else if base_version = - 1 then Failed (Validation VersionExhausted)
                    else
                      let f = f\<lparr>rf_version := base_version + 1\<rparr> in
                      case validate_registry_file cr f of
                        Inl e \<Rightarrow> Failed e
                      | Inr _ \<Rightarrow> Ready value base_version f)))"

text \<open>How the file operations of one attempt end: the temporary file, the lock, the renaming or the
  synchronisation of the directory may fail.\<close>

datatype write_io = IoFine | PayloadFails | LockFails | RenameFails | SyncFails

definition commit_prepared_registry_write ::
  "argon2 \<Rightarrow> registry_guard \<Rightarrow> write_io \<Rightarrow> u64 \<Rightarrow> registry_file \<Rightarrow> disk \<Rightarrow> (registry_error + unit) \<times> disk" where
  "commit_prepared_registry_write cr g io expected_version f d =
     (if io = LockFails then (Inl (Io ''locking''), d)
      else
        case read_registry_file_sync cr d of
          Inl e \<Rightarrow> (Inl e, d)
        | Inr existing \<Rightarrow>
            (case guard_check g (map_option rf_version existing) of
               Inl e \<Rightarrow> (Inl e, d)
             | Inr _ \<Rightarrow>
                 (let current_version = (case existing of None \<Rightarrow> 0 | Some f \<Rightarrow> rf_version f) in
                  if current_version \<noteq> expected_version
                  then (Inl (VersionConflict expected_version current_version), d)
                  else if io = RenameFails then (Inl (Io ''replacing''), d)
                  else if io = SyncFails then (Inl (Io ''fsyncing parent directory''), Some f)
                  else (Inr (), Some f))))"

text \<open>What an attempt meets: the disk when it reads, the disk when it holds the lock, its I/O.\<close>

record environment =
  ev_read :: disk
  ev_locked :: disk
  ev_io :: write_io

text \<open>The retry loop: \<open>n\<close> attempts left, the next is number \<open>k\<close>; the result and the disk as the last
  access of the loop left it.\<close>

fun mutate_attempts ::
  "argon2 \<Rightarrow> registry_guard \<Rightarrow> (nat \<Rightarrow> 'a edit) \<Rightarrow> (nat \<Rightarrow> environment) \<Rightarrow> nat \<Rightarrow> nat \<Rightarrow> disk
    \<Rightarrow> (registry_error + 'a \<times> registry_file) \<times> disk" where
  "mutate_attempts cr g operation env 0 k d = (Inl (Validation WriteRetriesExceeded), d)"
| "mutate_attempts cr g operation env (Suc n) k d =
     (case prepare_write cr g (operation k) (ev_read (env k)) of
        Failed e \<Rightarrow> (Inl e, ev_read (env k))
      | Unchanged value f \<Rightarrow> (Inr (value, f), ev_read (env k))
      | Ready value base_version f \<Rightarrow>
          if ev_io (env k) = PayloadFails then (Inl (Io ''writing''), ev_read (env k))
          else
            (case commit_prepared_registry_write cr g (ev_io (env k)) base_version f (ev_locked (env k)) of
               (Inr _, d') \<Rightarrow> (Inr (value, f), d')
             | (Inl (VersionConflict _ _), d') \<Rightarrow> mutate_attempts cr g operation env n (Suc k) d'
             | (Inl e, d') \<Rightarrow> (Inl e, d')))"

definition mutate_registry_file ::
  "argon2 \<Rightarrow> registry_guard \<Rightarrow> (nat \<Rightarrow> 'a edit) \<Rightarrow> (nat \<Rightarrow> environment)
    \<Rightarrow> (registry_error + 'a \<times> registry_file) \<times> disk" where
  "mutate_registry_file cr g operation env =
     mutate_attempts cr g operation env MAX_REGISTRY_WRITE_RETRIES 0 (ev_read (env 0))"

section \<open>Loading\<close>

fun load_nodes ::
  "(string, registered_node) table \<Rightarrow> registered_node list
    \<Rightarrow> registry_error + (string, registered_node) table" where
  "load_nodes t [] = Inr t"
| "load_nodes t (n # ns) =
     (if tbl_get t (rn_node_id n) \<noteq> None then Inl (Validation (DuplicateNode (rn_node_id n)))
      else load_nodes (tbl_put (rn_node_id n) n t) ns)"

fun load_sessions ::
  "(string, install_session) table \<Rightarrow> install_session list
    \<Rightarrow> registry_error + (string, install_session) table" where
  "load_sessions t [] = Inr t"
| "load_sessions t (s # ss) =
     (if tbl_get t (is_token s) \<noteq> None then Inl (Validation DuplicateInstallToken)
      else load_sessions (tbl_put (is_token s) s t) ss)"

definition load_registry_state_from_file :: "registry_file \<Rightarrow> registry_error + registry_state" where
  "load_registry_state_from_file f =
     (case load_nodes [] (rf_nodes f) of
        Inl e \<Rightarrow> Inl e
      | Inr entries \<Rightarrow>
          (case load_sessions [] (rf_install_sessions f) of
             Inl e \<Rightarrow> Inl e
           | Inr sessions \<Rightarrow> Inr \<lparr>rs_version = rf_version f, rs_entries = entries,
                                  rs_install_sessions = sessions\<rparr>))"

definition migration_edit ::
  "argon2 \<Rightarrow> (registered_node \<Rightarrow> string) \<Rightarrow> datetime \<Rightarrow> unit edit" where
  "migration_edit cr salt now f =
     Inr ((), True, fst (migrate_legacy_tokens cr salt (fst (prune_expired_install_sessions now f))))"

text \<open>What \<open>load_registry_state\<close> decides from the raw file: an error, the file to load as it is, or a
  rewriting of the file.\<close>

definition load_decision ::
  "argon2 \<Rightarrow> registry_guard \<Rightarrow> datetime \<Rightarrow> disk \<Rightarrow> registry_error + registry_file option" where
  "load_decision cr g now existing =
     (case guard_check g (map_option rf_version existing) of
        Inl e \<Rightarrow> Inl e
      | Inr _ \<Rightarrow>
          (let (f, pruned_sessions) = prune_expired_install_sessions now (file_or_default existing);
               (f, metadata_migrated) = migrate_legacy_display_metadata f
           in case validate_registry_file cr f of
                Inl e \<Rightarrow> Inl e
              | Inr _ \<Rightarrow>
                  if metadata_migrated \<or> list_ex is_legacy_token (rf_nodes f) \<or> pruned_sessions
                  then Inr None else Inr (Some f)))"

definition load_registry_state ::
  "argon2 \<Rightarrow> registry_guard \<Rightarrow> datetime \<Rightarrow> (nat \<Rightarrow> unit edit) \<Rightarrow> (nat \<Rightarrow> environment) \<Rightarrow> disk
    \<Rightarrow> (registry_error + registry_state) \<times> disk" where
  "load_registry_state cr g now migration env d =
     (case load_decision cr g now d of
        Inl e \<Rightarrow> (Inl e, d)
      | Inr (Some f) \<Rightarrow> (load_registry_state_from_file f, d)
      | Inr None \<Rightarrow>
          (case mutate_registry_file cr g migration env of
             (Inl e, d') \<Rightarrow> (Inl e, d')
           | (Inr (_, f), d') \<Rightarrow> (load_registry_state_from_file f, d')))"

section \<open>The state of a server\<close>

datatype registry_file_fingerprint =
    FileMissing
  | FilePresent u64 "int option" u64 u64

record node_registry =
  nr_state :: registry_state
  nr_checkpoint :: "registry_file_fingerprint option"
  nr_revision :: u64

text \<open>Equality of hash tables and of states, whatever the iteration order.\<close>

definition tbl_same :: "('k, 'v) table \<Rightarrow> ('k, 'v) table \<Rightarrow> bool" where
  "tbl_same s t \<longleftrightarrow> length s = length t \<and> list_all (\<lambda>(k, v). tbl_get t k = Some v) s"

definition state_same :: "registry_state \<Rightarrow> registry_state \<Rightarrow> bool" where
  "state_same s t \<longleftrightarrow> rs_version s = rs_version t \<and> tbl_same (rs_entries s) (rs_entries t) \<and>
     tbl_same (rs_install_sessions s) (rs_install_sessions t)"

definition apply_loaded_state ::
  "registry_state \<Rightarrow> registry_file_fingerprint option \<Rightarrow> node_registry \<Rightarrow> bool \<times> node_registry" where
  "apply_loaded_state next_state fingerprint r =
     (if rs_version next_state < rs_version (nr_state r) then (False, r)
      else
        let changed = \<not> state_same (nr_state r) next_state;
            r = (if changed then r\<lparr>nr_state := next_state, nr_revision := nr_revision r + 1\<rparr> else r)
        in (changed, r\<lparr>nr_checkpoint := fingerprint\<rparr>))"

definition replace_state_from_file :: "registry_file \<Rightarrow> node_registry \<Rightarrow> registry_error + node_registry" where
  "replace_state_from_file f r =
     (case load_registry_state_from_file f of
        Inl e \<Rightarrow> Inl e
      | Inr s \<Rightarrow> Inr (snd (apply_loaded_state s None r)))"

definition write_guard :: "node_registry \<Rightarrow> registry_guard" where
  "write_guard r =
     (if rs_version (nr_state r) = 0 \<and> rs_entries (nr_state r) = [] then AllowCreate
      else RequireExisting (rs_version (nr_state r)))"

definition registry_load ::
  "argon2 \<Rightarrow> registry_file_fingerprint \<Rightarrow> datetime \<Rightarrow> (nat \<Rightarrow> unit edit) \<Rightarrow> (nat \<Rightarrow> environment) \<Rightarrow> disk
    \<Rightarrow> (registry_error + node_registry) \<times> disk" where
  "registry_load cr fingerprint now migration env d =
     (case load_registry_state cr AllowCreate now migration env d of
        (Inl e, d') \<Rightarrow> (Inl e, d')
      | (Inr s, d') \<Rightarrow> (Inr \<lparr>nr_state = s, nr_checkpoint = Some fingerprint, nr_revision = 1\<rparr>, d'))"

definition reload_from_disk ::
  "argon2 \<Rightarrow> registry_file_fingerprint \<Rightarrow> datetime \<Rightarrow> (nat \<Rightarrow> unit edit) \<Rightarrow> (nat \<Rightarrow> environment) \<Rightarrow> disk
    \<Rightarrow> node_registry \<Rightarrow> (registry_error + bool) \<times> node_registry \<times> disk" where
  "reload_from_disk cr fingerprint now migration env d r =
     (case load_registry_state cr (write_guard r) now migration env d of
        (Inl e, d') \<Rightarrow> (Inl e, r, d')
      | (Inr s, d') \<Rightarrow>
          (let (changed, r) = apply_loaded_state s (Some fingerprint) r in (Inr changed, r, d')))"

definition reload_if_file_changed ::
  "argon2 \<Rightarrow> registry_file_fingerprint \<Rightarrow> datetime \<Rightarrow> (nat \<Rightarrow> unit edit) \<Rightarrow> (nat \<Rightarrow> environment) \<Rightarrow> disk
    \<Rightarrow> node_registry \<Rightarrow> (registry_error + bool) \<times> node_registry \<times> disk" where
  "reload_if_file_changed cr fingerprint now migration env d r =
     (if nr_checkpoint r = Some fingerprint then (Inr False, r, d)
      else reload_from_disk cr fingerprint now migration env d r)"

text \<open>An operation of the server: write with the guard of its memory, then take over the result.\<close>

definition registry_operation ::
  "argon2 \<Rightarrow> (nat \<Rightarrow> 'a edit) \<Rightarrow> (nat \<Rightarrow> environment) \<Rightarrow> node_registry
    \<Rightarrow> (registry_error + 'a) \<times> node_registry \<times> disk" where
  "registry_operation cr operation env r =
     (case mutate_registry_file cr (write_guard r) operation env of
        (Inl e, d) \<Rightarrow> (Inl e, r, d)
      | (Inr (value, f), d) \<Rightarrow>
          (case replace_state_from_file f r of
             Inl e \<Rightarrow> (Inl e, r, d)
           | Inr r' \<Rightarrow> (Inr value, r', d)))"

section \<open>Interleaved writers\<close>

text \<open>
  A server and any number of writers, some of them in other processes (the command line tools), on
  one file. Between two accesses a writer holds what its thread holds: its guard, its closure, and
  the file it prepared or committed. A conflict sends it back to the start.
\<close>

datatype 'a writer =
    Idle
  | Prepared registry_guard "'a edit" 'a u64 registry_file
  | Committed registry_file

record 'a store_sys =
  ss_disk :: disk
  ss_memory :: node_registry
  ss_writers :: "nat \<Rightarrow> 'a writer"

datatype 'a store_event =
    PrepareEvent nat bool "'a edit"
  | CommitEvent nat write_io
  | ApplyEvent nat
  | ReloadEvent datetime registry_file_fingerprint

definition after_prepare :: "registry_guard \<Rightarrow> 'a edit \<Rightarrow> 'a attempt \<Rightarrow> 'a writer" where
  "after_prepare g operation a =
     (case a of
        Failed _ \<Rightarrow> Idle
      | Unchanged _ f \<Rightarrow> Committed f
      | Ready value base_version f \<Rightarrow> Prepared g operation value base_version f)"

fun store_step :: "argon2 \<Rightarrow> 'a store_event \<Rightarrow> 'a store_sys \<Rightarrow> 'a store_sys" where
  "store_step cr (PrepareEvent w outside operation) s =
     (let g = (if outside then AllowCreate else write_guard (ss_memory s))
      in s\<lparr>ss_writers := (ss_writers s)(w :=
             after_prepare g operation (prepare_write cr g operation (ss_disk s)))\<rparr>)"
| "store_step cr (CommitEvent w io) s =
     (case ss_writers s w of
        Prepared g operation value base_version f \<Rightarrow>
          (if io = PayloadFails then s\<lparr>ss_writers := (ss_writers s)(w := Idle)\<rparr>
           else case commit_prepared_registry_write cr g io base_version f (ss_disk s) of
             (Inr _, d) \<Rightarrow> s\<lparr>ss_disk := d, ss_writers := (ss_writers s)(w := Committed f)\<rparr>
           | (Inl _, d) \<Rightarrow> s\<lparr>ss_disk := d, ss_writers := (ss_writers s)(w := Idle)\<rparr>)
      | _ \<Rightarrow> s)"
| "store_step cr (ApplyEvent w) s =
     (case ss_writers s w of
        Committed f \<Rightarrow>
          (case replace_state_from_file f (ss_memory s) of
             Inl _ \<Rightarrow> s\<lparr>ss_writers := (ss_writers s)(w := Idle)\<rparr>
           | Inr r \<Rightarrow> s\<lparr>ss_memory := r, ss_writers := (ss_writers s)(w := Idle)\<rparr>)
      | _ \<Rightarrow> s)"
| "store_step cr (ReloadEvent now fingerprint) s =
     (case load_decision cr (write_guard (ss_memory s)) now (ss_disk s) of
        Inr (Some f) \<Rightarrow>
          (case load_registry_state_from_file f of
             Inl _ \<Rightarrow> s
           | Inr st \<Rightarrow> s\<lparr>ss_memory := snd (apply_loaded_state st (Some fingerprint) (ss_memory s))\<rparr>)
      | _ \<Rightarrow> s)"

text \<open>The edits leave the version to the store, and an edit that is not to be written leaves the
  nodes alone.\<close>

definition well_behaved :: "'a edit \<Rightarrow> bool" where
  "well_behaved operation \<longleftrightarrow>
     (\<forall>f. case operation f of
        Inl _ \<Rightarrow> True
      | Inr (_, persist, f') \<Rightarrow> rf_version f' = rf_version f \<and> (persist \<or> rf_nodes f' = rf_nodes f))"

fun event_ok :: "'a store_event \<Rightarrow> bool" where
  "event_ok (PrepareEvent w outside operation) = well_behaved operation"
| "event_ok _ = True"

definition disk_version :: "disk \<Rightarrow> u64" where
  "disk_version d = (case d of None \<Rightarrow> 0 | Some f \<Rightarrow> rf_version f)"

definition guard_passes :: "registry_guard \<Rightarrow> disk \<Rightarrow> bool" where
  "guard_passes g d = (guard_check g (map_option rf_version d) = Inr ())"

definition writer_ok :: "argon2 \<Rightarrow> disk \<Rightarrow> 'a writer \<Rightarrow> bool" where
  "writer_ok cr d w =
     (case w of
        Idle \<Rightarrow> True
      | Prepared g operation value base_version f \<Rightarrow>
          base_version \<le> disk_version d \<and> guard_passes g d \<and>
          (base_version = disk_version d \<longrightarrow> prepare_write cr g operation d = Ready value base_version f)
      | Committed f \<Rightarrow> rf_version f \<le> disk_version d \<and> (rf_nodes f = [] \<or> d \<noteq> None))"

definition memory_behind :: "disk \<Rightarrow> node_registry \<Rightarrow> bool" where
  "memory_behind d r \<longleftrightarrow> rs_version (nr_state r) \<le> disk_version d \<and>
     (rs_entries (nr_state r) = [] \<or> d \<noteq> None)"

definition store_inv :: "argon2 \<Rightarrow> 'a store_sys \<Rightarrow> bool" where
  "store_inv cr s \<longleftrightarrow> memory_behind (ss_disk s) (ss_memory s) \<and>
     (\<forall>w. writer_ok cr (ss_disk s) (ss_writers s w))"

text \<open>The abstract store: an edit is one atomic action on the file.\<close>

fun atomic_edit :: "argon2 \<Rightarrow> registry_guard \<times> 'a edit \<Rightarrow> disk \<Rightarrow> disk" where
  "atomic_edit cr (g, operation) d =
     (case prepare_write cr g operation d of Ready _ _ f \<Rightarrow> Some f | _ \<Rightarrow> d)"

text \<open>The edit a step commits: that of a writer which finds its base version under the lock.\<close>

fun committed_edits :: "argon2 \<Rightarrow> 'a store_event \<Rightarrow> 'a store_sys \<Rightarrow> (registry_guard \<times> 'a edit) list" where
  "committed_edits cr (CommitEvent w io) s =
     (case ss_writers s w of
        Prepared g operation value base_version f \<Rightarrow>
          (if (io = IoFine \<or> io = SyncFails) \<and> base_version = disk_version (ss_disk s)
           then [(g, operation)] else [])
      | _ \<Rightarrow> [])"
| "committed_edits cr _ s = []"

section \<open>Facts\<close>

lemma read_version:
  "read_registry_file_sync cr d = Inr e \<Longrightarrow>
    map_option rf_version e = map_option rf_version d \<and> disk_version e = disk_version d"
  by (auto simp: read_registry_file_sync_def migrate_legacy_display_metadata_def disk_version_def Let_def
      split: option.splits sum.splits)

lemma version_of_default: "rf_version (file_or_default d) = disk_version d"
  by (simp add: file_or_default_def disk_version_def empty_file_def split: option.split)

lemma prepare_ready:
  assumes "prepare_write cr g operation d = Ready v b f"
  shows "b = disk_version d" and "rf_version f = b + 1" and "b < b + 1" and "guard_passes g d"
    and "validate_registry_file cr f = Inr ()"
    and "\<exists>e f0. read_registry_file_sync cr d = Inr e \<and> operation (file_or_default e) = Inr (v, True, f0) \<and>
      f = f0\<lparr>rf_version := b + 1\<rparr>"
proof -
  obtain e where e: "read_registry_file_sync cr d = Inr e"
    using assms by (auto simp: prepare_write_def split: sum.splits)
  note version = read_version [OF e]
  obtain f0 where f: "guard_passes g d" "b = rf_version (file_or_default e)" "b \<noteq> - 1"
      "operation (file_or_default e) = Inr (v, True, f0)" "f = f0\<lparr>rf_version := b + 1\<rparr>"
      "validate_registry_file cr f = Inr ()"
    using assms version e by (auto simp: prepare_write_def Let_def guard_passes_def split: sum.splits if_splits)
  then show "b = disk_version d" "rf_version f = b + 1" "guard_passes g d"
    "validate_registry_file cr f = Inr ()"
    "\<exists>e f0. read_registry_file_sync cr d = Inr e \<and> operation (file_or_default e) = Inr (v, True, f0) \<and>
      f = f0\<lparr>rf_version := b + 1\<rparr>"
    using version e by (auto simp: version_of_default)
  show "b < b + 1"
    using f(3) inc_less_eq_self_iff_eq [of b] by (simp add: not_le [symmetric])
qed

lemma prepare_unchanged:
  assumes "prepare_write cr g operation d = Unchanged v f" and "well_behaved operation"
  shows "rf_version f = disk_version d" and "rf_nodes f = [] \<or> d \<noteq> None"
proof -
  obtain e where e: "read_registry_file_sync cr d = Inr e"
    using assms(1) by (auto simp: prepare_write_def split: sum.splits)
  have "operation (file_or_default e) = Inr (v, False, f)"
    using assms(1) e by (auto simp: prepare_write_def Let_def split: sum.splits if_splits)
  then have f: "rf_version f = rf_version (file_or_default e)" "rf_nodes f = rf_nodes (file_or_default e)"
    using assms(2)[unfolded well_behaved_def, THEN spec, of "file_or_default e"] by simp_all
  then show "rf_version f = disk_version d"
    using read_version [OF e] by (simp add: version_of_default)
  show "rf_nodes f = [] \<or> d \<noteq> None"
    using f(2) e by (auto simp: read_registry_file_sync_def file_or_default_def empty_file_def)
qed

lemma commit_cases:
  assumes "guard_passes g d"
  shows "commit_prepared_registry_write cr g io b f d =
    (if io = LockFails then (Inl (Io ''locking''), d)
     else case read_registry_file_sync cr d of
       Inl e \<Rightarrow> (Inl e, d)
     | Inr _ \<Rightarrow>
         if disk_version d \<noteq> b then (Inl (VersionConflict b (disk_version d)), d)
         else if io = RenameFails then (Inl (Io ''replacing''), d)
         else (if io = SyncFails then Inl (Io ''fsyncing parent directory'') else Inr (), Some f))"
proof (cases "read_registry_file_sync cr d")
  case (Inr e)
  have "(case e of None \<Rightarrow> 0 | Some f \<Rightarrow> rf_version f) = disk_version d"
    using read_version [OF Inr] by (simp add: disk_version_def)
  then show ?thesis
    using assms read_version [OF Inr] Inr
    by (simp add: commit_prepared_registry_write_def guard_passes_def Let_def)
qed (simp add: commit_prepared_registry_write_def)

lemma guard_passes_mono:
  assumes "guard_passes g d" and "disk_version d \<le> disk_version d'" and "d' \<noteq> None"
  shows "guard_passes g d'"
  using assms by (auto simp: guard_passes_def guard_check_def disk_version_def
      split: registry_guard.splits option.splits if_splits)

lemma writer_ok_mono:
  assumes "writer_ok cr d w" and "disk_version d < disk_version d'"
  shows "writer_ok cr d' w"
proof -
  have "d' \<noteq> None" "disk_version d \<le> disk_version d'"
    using assms(2) by (auto simp: disk_version_def split: option.splits)
  then show ?thesis
    using assms guard_passes_mono [of _ d d'] unfolding writer_ok_def
    by (cases w) (auto dest: order.strict_trans1)
qed

lemma memory_behind_mono:
  "memory_behind d r \<Longrightarrow> disk_version d < disk_version d' \<Longrightarrow> memory_behind d' r"
  by (auto simp: memory_behind_def disk_version_def split: option.splits)

lemma write_guard_passes: "memory_behind d r \<Longrightarrow> guard_passes (write_guard r) d"
  by (auto simp: guard_passes_def guard_check_def write_guard_def memory_behind_def disk_version_def
      split: option.splits)

lemma load_nodes_empty: "load_nodes t ns = Inr t' \<Longrightarrow> t' = [] \<longleftrightarrow> t = [] \<and> ns = []"
proof (induction t ns rule: load_nodes.induct)
  case (2 t n ns)
  moreover have "tbl_put (rn_node_id n) n t \<noteq> []"
    by (cases t) auto
  ultimately show ?case by (auto split: if_splits)
qed auto

lemma loaded_state:
  assumes "load_registry_state_from_file f = Inr s"
  shows "rs_version s = rf_version f" and "rs_entries s = [] \<longleftrightarrow> rf_nodes f = []"
  using assms by (auto simp: load_registry_state_from_file_def load_nodes_empty split: sum.splits)

lemma apply_behind:
  assumes "memory_behind d r" and "rs_version s \<le> disk_version d" and "rs_entries s = [] \<or> d \<noteq> None"
  shows "memory_behind d (snd (apply_loaded_state s fp r))"
  using assms by (simp add: apply_loaded_state_def memory_behind_def Let_def)

lemma apply_version_mono:
  "rs_version (nr_state r) \<le> rs_version (nr_state (snd (apply_loaded_state s fp r)))"
  by (auto simp: apply_loaded_state_def Let_def)

lemma load_decision_file:
  assumes "load_decision cr g now d = Inr (Some f)"
  shows "rf_version f = disk_version d" and "rf_nodes f = [] \<or> d \<noteq> None"
  using assms
  by (auto simp: load_decision_def Let_def prune_expired_install_sessions_def
      migrate_legacy_display_metadata_def disk_version_def file_or_default_def empty_file_def
      split: sum.splits if_splits option.splits)

section \<open>Interleavings have atomic effect\<close>

lemma writers_upd:
  "\<lbrakk>\<forall>w. writer_ok cr d (ws w); writer_ok cr d x\<rbrakk> \<Longrightarrow> \<forall>w. writer_ok cr d ((ws(i := x)) w)"
  by simp

lemma after_prepare_ok:
  assumes "guard_passes g d" and "well_behaved operation"
  shows "writer_ok cr d (after_prepare g operation (prepare_write cr g operation d))"
proof (cases "prepare_write cr g operation d")
  case (Unchanged v f)
  then show ?thesis
    using prepare_unchanged [OF Unchanged assms(2)] by (simp add: after_prepare_def writer_ok_def)
next
  case (Ready v b f)
  then show ?thesis
    using prepare_ready(1) [OF Ready] assms(1) by (simp add: after_prepare_def writer_ok_def)
qed (simp add: after_prepare_def writer_ok_def)

lemma prepare_step_inv:
  assumes "store_inv cr s" and "well_behaved operation"
  shows "store_inv cr (store_step cr (PrepareEvent w outside operation) s)"
proof -
  let ?g = "if outside then AllowCreate else write_guard (ss_memory s)"
  have "guard_passes ?g (ss_disk s)"
    using assms(1) write_guard_passes by (auto simp: store_inv_def guard_passes_def guard_check_def)
  from after_prepare_ok [OF this assms(2), of cr]
  have "writer_ok cr (ss_disk s) (after_prepare ?g operation (prepare_write cr ?g operation (ss_disk s)))" .
  then show ?thesis
    using assms(1) by (cases outside) (simp_all add: store_inv_def Let_def)
qed

lemma commit_step:
  assumes "store_inv cr s" and "ss_writers s w = Prepared g operation value b f"
  shows "\<exists>x. store_step cr (CommitEvent w io) s =
      s\<lparr>ss_disk := fold (atomic_edit cr) (committed_edits cr (CommitEvent w io) s) (ss_disk s),
        ss_writers := (ss_writers s)(w := x)\<rparr> \<and>
    (x = Idle \<or> x = Committed f \<and> committed_edits cr (CommitEvent w io) s \<noteq> []) \<and>
    (committed_edits cr (CommitEvent w io) s = [] \<or>
      committed_edits cr (CommitEvent w io) s = [(g, operation)] \<and>
      atomic_edit cr (g, operation) (ss_disk s) = Some f \<and> disk_version (ss_disk s) < rf_version f)"
proof -
  have ok: "b \<le> disk_version (ss_disk s)" "guard_passes g (ss_disk s)"
    "b = disk_version (ss_disk s) \<longrightarrow> prepare_write cr g operation (ss_disk s) = Ready value b f"
    using assms by (auto simp: store_inv_def writer_ok_def dest: spec [where x = w])
  show ?thesis
  proof (cases "b = disk_version (ss_disk s)")
    case True
    then have ready: "prepare_write cr g operation (ss_disk s) = Ready value b f"
      using ok(3) by simp
    have "disk_version (ss_disk s) < rf_version f"
      using prepare_ready(2,3) [OF ready] True by simp
    moreover obtain e where "read_registry_file_sync cr (ss_disk s) = Inr e"
      using prepare_ready(6) [OF ready] by blast
    ultimately show ?thesis
      using assms(2) ready True
      by (intro exI [of _ "if io = IoFine then Committed f else Idle"])
        (cases io; simp add: commit_cases [OF ok(2)])
  next
    case False
    then show ?thesis
      using assms(2) by (intro exI [of _ Idle]) (simp add: commit_cases [OF ok(2)] split: sum.split)
  qed
qed

lemma commit_step_inv:
  assumes "store_inv cr s"
  shows "store_inv cr (store_step cr (CommitEvent w io) s)"
proof (cases "ss_writers s w")
  case (Prepared g operation v b f)
  obtain x where x: "store_step cr (CommitEvent w io) s =
      s\<lparr>ss_disk := fold (atomic_edit cr) (committed_edits cr (CommitEvent w io) s) (ss_disk s),
        ss_writers := (ss_writers s)(w := x)\<rparr>"
      "x = Idle \<or> x = Committed f \<and> committed_edits cr (CommitEvent w io) s \<noteq> []"
      "committed_edits cr (CommitEvent w io) s = [] \<or>
       committed_edits cr (CommitEvent w io) s = [(g, operation)] \<and>
       atomic_edit cr (g, operation) (ss_disk s) = Some f \<and> disk_version (ss_disk s) < rf_version f"
    using commit_step [OF assms Prepared] by blast
  from x(3) show ?thesis
  proof
    assume "committed_edits cr (CommitEvent w io) s = []"
    then show ?thesis
      using x(1,2) assms by (simp add: store_inv_def writer_ok_def)
  next
    assume new: "committed_edits cr (CommitEvent w io) s = [(g, operation)] \<and>
       atomic_edit cr (g, operation) (ss_disk s) = Some f \<and> disk_version (ss_disk s) < rf_version f"
    then have less: "disk_version (ss_disk s) < disk_version (Some f)"
      by (simp add: disk_version_def)
    have "writer_ok cr (Some f) x"
      using x(2) by (auto simp: writer_ok_def disk_version_def)
    moreover have "writer_ok cr (Some f) (ss_writers s i)" for i
      using assms by (intro writer_ok_mono [OF _ less]) (simp add: store_inv_def)
    moreover have "memory_behind (Some f) (ss_memory s)"
      using assms by (intro memory_behind_mono [OF _ less]) (simp add: store_inv_def)
    ultimately show ?thesis
      unfolding x(1) using new by (simp add: store_inv_def)
  qed
qed (use assms in simp_all)

lemma apply_step_inv:
  assumes "store_inv cr s"
  shows "store_inv cr (store_step cr (ApplyEvent w) s)"
proof (cases "ss_writers s w")
  case (Committed f)
  then have f: "rf_version f \<le> disk_version (ss_disk s) \<and> (rf_nodes f = [] \<or> ss_disk s \<noteq> None)"
    using assms by (auto simp: store_inv_def writer_ok_def dest: spec [where x = w])
  have idle: "writer_ok cr (ss_disk s) Idle"
    by (simp add: writer_ok_def)
  show ?thesis
  proof (cases "load_registry_state_from_file f")
    case (Inr st)
    have "memory_behind (ss_disk s) (snd (apply_loaded_state st None (ss_memory s)))"
      using f loaded_state [OF Inr] assms by (intro apply_behind) (auto simp: store_inv_def)
    then show ?thesis
      using Committed Inr assms idle by (simp add: replace_state_from_file_def store_inv_def)
  qed (use Committed assms idle in \<open>simp add: replace_state_from_file_def store_inv_def\<close>)
qed (use assms in simp_all)

lemma reload_step_inv:
  assumes "store_inv cr s"
  shows "store_inv cr (store_step cr (ReloadEvent now fp) s)"
proof (cases "\<exists>f st. load_decision cr (write_guard (ss_memory s)) now (ss_disk s) = Inr (Some f) \<and>
    load_registry_state_from_file f = Inr st")
  case True
  then obtain f st where f: "load_decision cr (write_guard (ss_memory s)) now (ss_disk s) = Inr (Some f)"
      "load_registry_state_from_file f = Inr st" by blast
  have "memory_behind (ss_disk s) (snd (apply_loaded_state st (Some fp) (ss_memory s)))"
    using load_decision_file [OF f(1)] loaded_state [OF f(2)] assms
    by (intro apply_behind) (auto simp: store_inv_def)
  then show ?thesis
    using assms f by (simp add: store_inv_def)
qed (use assms in \<open>auto split: sum.split option.split\<close>)

lemma store_step_inv: "store_inv cr s \<Longrightarrow> event_ok e \<Longrightarrow> store_inv cr (store_step cr e s)"
  by (cases e) (auto intro: prepare_step_inv commit_step_inv apply_step_inv reload_step_inv
      simp del: store_step.simps)

lemma store_step_effects:
  assumes "store_inv cr s"
  shows "ss_disk (store_step cr e s) = fold (atomic_edit cr) (committed_edits cr e s) (ss_disk s)"
proof (cases e)
  case (CommitEvent w io)
  show ?thesis
  proof (cases "ss_writers s w")
    case (Prepared g operation v b f)
    then show ?thesis
      using commit_step [OF assms Prepared, of io] CommitEvent by auto
  qed (simp_all add: CommitEvent)
qed (auto simp: Let_def split: writer.split sum.split option.split)

interpretation store: refinement "store_step cr" "store_inv cr" event_ok ss_disk "committed_edits cr"
  "atomic_edit cr" for cr
  by unfold_locales (auto intro: store_step_inv store_step_effects simp del: store_step.simps)

text \<open>Every edit of the registry is well behaved.\<close>

lemma well_behavedI:
  "(\<And>f x p f'. operation f = Inr (x, p, f') \<Longrightarrow> rf_version f' = rf_version f \<and> (p \<or> rf_nodes f' = rf_nodes f))
    \<Longrightarrow> well_behaved operation"
  by (auto simp: well_behaved_def split: sum.split)

lemma edit_node_well_behaved: "well_behaved (edit_node node_id missing g)"
  by (rule well_behavedI) (auto dest!: edit_node_result)

lemma registry_edits_well_behaved:
  "well_behaved (issue_edit cr rq new salt itok now)" "well_behaved (prepare_edit i gen tok rid hash now)"
  "well_behaved (commit_edit i rid now)" "well_behaved (remove_node_edit i now)"
  "well_behaved (consume_install_edit itok now)" "well_behaved (update_location_edit cr i l)"
  "well_behaved (update_metadata_edit cr i p)" "well_behaved (migration_edit cr salts now)"
  unfolding prepare_edit_def commit_edit_def update_location_edit_def update_metadata_edit_def
  by (auto intro!: edit_node_well_behaved well_behavedI
      simp: issue_edit_def remove_node_edit_def consume_install_edit_def migration_edit_def Let_def
        prune_expired_install_sessions_def mint_install_session_def migrate_legacy_tokens_def
      split: option.splits sum.splits if_splits)

definition store_start :: "disk \<Rightarrow> node_registry \<Rightarrow> 'a store_sys" where
  "store_start d r = \<lparr>ss_disk = d, ss_memory = r, ss_writers = (\<lambda>_. Idle)\<rparr>"

lemma store_start_inv: "memory_behind d r \<Longrightarrow> store_inv cr (store_start d r)"
  by (simp add: store_inv_def store_start_def writer_ok_def)

text \<open>
  C2: no update of the registry is lost, and none is applied to a stale file. However writers of
  several processes interleave, with conflicts and failing file operations anywhere, the file after a
  run is the one obtained by performing the committed edits atomically, one after the other in the
  order of their commits, each on the file its predecessor left.
\<close>

theorem interleaved_writes_are_atomic:
  assumes "memory_behind d r" and "list_all event_ok es"
  shows "ss_disk (fold (store_step cr) es (store_start d r)) =
    fold (atomic_edit cr) (run_effects (store_step cr) (committed_edits cr) es (store_start d r)) d"
  using store.run_refines [OF store_start_inv [OF assms(1)] assms(2), of cr]
  by (simp add: store_start_def)

definition no_sessions :: "unit edit" where
  "no_sessions f = Inr ((), True, f\<lparr>rf_install_sessions := []\<rparr>)"

definition empty_registry :: node_registry where
  "empty_registry = \<lparr>nr_state = \<lparr>rs_version = 0, rs_entries = [], rs_install_sessions = []\<rparr>,
     nr_checkpoint = None, nr_revision = 1\<rparr>"

definition demo_run :: "unit store_event list" where
  "demo_run = [PrepareEvent 1 False no_sessions, PrepareEvent 2 True no_sessions, CommitEvent 2 IoFine,
     CommitEvent 1 IoFine, PrepareEvent 1 False no_sessions, CommitEvent 1 IoFine, ApplyEvent 1]"

lemma demo_run_ok: "memory_behind (Some demo_file) empty_registry" "list_all event_ok demo_run"
  by (simp_all add: memory_behind_def empty_registry_def demo_run_def well_behaved_def no_sessions_def
      disk_version_def demo_file_def)

theorem interleaved_writes_are_atomic_witness:
  "ss_disk (fold (store_step argon2_plain) demo_run (store_start (Some demo_file) empty_registry)) =
    fold (atomic_edit argon2_plain) (run_effects (store_step argon2_plain) (committed_edits argon2_plain)
      demo_run (store_start (Some demo_file) empty_registry)) (Some demo_file)"
  by (rule interleaved_writes_are_atomic [OF demo_run_ok])

lemma step_versions:
  assumes "store_inv cr s"
  shows "rs_version (nr_state (ss_memory s)) \<le> rs_version (nr_state (ss_memory (store_step cr e s))) \<and>
    disk_version (ss_disk s) \<le> disk_version (ss_disk (store_step cr e s))"
proof (cases e)
  case (CommitEvent w io)
  show ?thesis
  proof (cases "ss_writers s w")
    case (Prepared g operation v b f)
    then show ?thesis
      using commit_step [OF assms Prepared, of io] CommitEvent
      by (auto simp: disk_version_def simp del: store_step.simps atomic_edit.simps committed_edits.simps)
  qed (simp_all add: CommitEvent)
qed (auto simp: Let_def replace_state_from_file_def apply_version_mono
    split: writer.split sum.split option.split)

lemma run_versions:
  assumes "store_inv cr s" and "list_all event_ok es"
  shows "rs_version (nr_state (ss_memory s)) \<le> rs_version (nr_state (ss_memory (fold (store_step cr) es s))) \<and>
    disk_version (ss_disk s) \<le> disk_version (ss_disk (fold (store_step cr) es s))"
  using assms
proof (induction es arbitrary: s)
  case (Cons e es)
  then show ?case
    using step_versions [OF Cons(2), of e] Cons(1) [OF store.step_inv [OF Cons(2)], of e]
    by (auto intro: order_trans)
qed simp

text \<open>
  C19: a server never finds its own registry diverged. In every interleaving of writers the state in
  memory is at most as new as the file, versions on disk and in memory never go back, and the guard
  that the server or any prepared writer puts to the file is satisfied, so that only a file tampered
  with from outside is refused.
\<close>

theorem memory_never_ahead_of_disk:
  fixes es :: "'a store_event list"
  assumes "memory_behind d r" and "list_all event_ok es"
    and "s = fold (store_step cr) es (store_start d r)"
  shows "rs_version (nr_state (ss_memory s)) \<le> disk_version (ss_disk s) \<and>
    rs_version (nr_state r) \<le> rs_version (nr_state (ss_memory s)) \<and>
    disk_version d \<le> disk_version (ss_disk s) \<and>
    guard_passes (write_guard (ss_memory s)) (ss_disk s) \<and>
    (case ss_writers s w of Prepared g _ _ _ _ \<Rightarrow> guard_passes g (ss_disk s) | _ \<Rightarrow> True)"
proof -
  have inv: "store_inv cr s"
    using store.run_inv [OF store_start_inv [OF assms(1)] assms(2), of cr] assms(3) by simp
  then have "writer_ok cr (ss_disk s) (ss_writers s w)" and mem: "memory_behind (ss_disk s) (ss_memory s)"
    by (simp_all add: store_inv_def)
  then show ?thesis
    using run_versions [OF store_start_inv [OF assms(1)] assms(2), of cr] write_guard_passes [OF mem]
    by (cases "ss_writers s w") (auto simp: assms(3) store_start_def writer_ok_def memory_behind_def)
qed

theorem memory_never_ahead_of_disk_witness:
  "guard_passes (write_guard (ss_memory (fold (store_step argon2_plain) demo_run
      (store_start (Some demo_file) empty_registry))))
    (ss_disk (fold (store_step argon2_plain) demo_run (store_start (Some demo_file) empty_registry)))"
  using memory_never_ahead_of_disk [OF demo_run_ok refl] by blast

section \<open>Files that went back\<close>

text \<open>
  C16: a registry file that vanished or was replaced by an older one is neither served nor
  overwritten. Reloading it is refused with the versions of both sides, before any migration could
  raise its version; a server operation that reads it is refused; and a write prepared earlier is
  refused at its commit. Memory and file stay as they are.
\<close>

theorem rolled_back_registry_refused:
  assumes "write_guard r = RequireExisting m" and "d = None \<or> disk_version d < m"
    and "ev_read (env 0) = d"
  shows "reload_from_disk cr fp now migration menv d r = (Inl (Diverged (map_option rf_version d) m), r, d) \<and>
    (\<exists>e. registry_operation cr operation env r = (Inl e, r, d)) \<and>
    (\<exists>e. commit_prepared_registry_write cr (write_guard r) io b f d = (Inl e, d))"
proof -
  have check: "guard_check (RequireExisting m) (map_option rf_version d) =
      Inl (Diverged (map_option rf_version d) m)"
    using assms(2) by (auto simp: guard_check_def disk_version_def not_le split: option.splits)
  have prepare: "\<exists>e. prepare_write cr (RequireExisting m) (operation k) d = Failed e" for k
    using read_version [of cr d] check by (cases "read_registry_file_sync cr d") (auto simp: prepare_write_def)
  obtain e where "prepare_write cr (RequireExisting m) (operation 0) d = Failed e"
    using prepare by blast
  then have "registry_operation cr operation env r = (Inl e, r, d)"
    using assms(1,3) by (simp add: registry_operation_def mutate_registry_file_def
        MAX_REGISTRY_WRITE_RETRIES_def eval_nat_numeral)
  moreover have "\<exists>e. commit_prepared_registry_write cr (RequireExisting m) io b f d = (Inl e, d)"
    using read_version [of cr d] check
    by (cases "read_registry_file_sync cr d") (auto simp: commit_prepared_registry_write_def)
  ultimately show ?thesis
    using assms(1) check by (simp add: reload_from_disk_def load_registry_state_def load_decision_def)
qed

theorem rolled_back_registry_refused_witness:
  "\<exists>r. reload_from_disk argon2_plain FileMissing 0 (\<lambda>_. no_sessions)
      (\<lambda>_. \<lparr>ev_read = None, ev_locked = None, ev_io = IoFine\<rparr>) None r = (Inl (Diverged None 3), r, None)"
proof -
  let ?r = "empty_registry\<lparr>nr_state := (nr_state empty_registry)\<lparr>rs_version := 3\<rparr>\<rparr>"
  have "write_guard ?r = RequireExisting 3"
    by (simp add: write_guard_def empty_registry_def)
  note refused = rolled_back_registry_refused [OF this, of None
      "\<lambda>_. \<lparr>ev_read = None, ev_locked = None, ev_io = IoFine\<rparr>", THEN conjunct1]
  have "reload_from_disk argon2_plain FileMissing 0 (\<lambda>_. no_sessions)
      (\<lambda>_. \<lparr>ev_read = None, ev_locked = None, ev_io = IoFine\<rparr>) None ?r = (Inl (Diverged None 3), ?r, None)"
    by (subst refused) simp_all
  then show ?thesis by blast
qed

section \<open>Progress of a writer\<close>

definition conflicts :: "argon2 \<Rightarrow> registry_guard \<Rightarrow> 'a edit \<Rightarrow> environment \<Rightarrow> bool" where
  "conflicts cr g operation ev =
     (case prepare_write cr g operation (ev_read ev) of
        Ready v b f \<Rightarrow> ev_io ev \<noteq> PayloadFails \<and>
          (\<exists>e c. fst (commit_prepared_registry_write cr g (ev_io ev) b f (ev_locked ev)) = Inl (VersionConflict e c))
      | _ \<Rightarrow> False)"

lemma commit_conflict_keeps:
  "commit_prepared_registry_write cr g io b f d = (Inl (VersionConflict e c), d') \<Longrightarrow> d' = d"
  by (auto simp: commit_prepared_registry_write_def Let_def split: sum.splits if_splits)

lemma attempts_skip_conflicts:
  assumes "\<forall>i<j. conflicts cr g (operation (k + i)) (env (k + i))"
  shows "mutate_attempts cr g operation env (j + n) k d =
    mutate_attempts cr g operation env n (k + j)
      (if j = 0 then d else ev_locked (env (k + j - 1)))"
  using assms
proof (induction j arbitrary: k d)
  case (Suc j)
  have "conflicts cr g (operation k) (env k)"
    using Suc(2) by (auto dest: spec [where x = 0])
  then obtain v b f e c where now: "prepare_write cr g (operation k) (ev_read (env k)) = Ready v b f"
      "ev_io (env k) \<noteq> PayloadFails"
      "commit_prepared_registry_write cr g (ev_io (env k)) b f (ev_locked (env k)) =
        (Inl (VersionConflict e c), ev_locked (env k))"
    using commit_conflict_keeps [of cr g]
    by (auto simp: conflicts_def split: attempt.splits) (metis prod.collapse)
  have "\<forall>i<j. conflicts cr g (operation (Suc k + i)) (env (Suc k + i))"
    using Suc(2) by auto
  from Suc(1) [OF this, of "ev_locked (env k)"] now show ?case
    by simp
qed simp

text \<open>
  C22: a writer that meets at most 31 conflicts commits: its first attempt during which nobody else
  commits, if its edit is accepted and its file operations succeed, ends the operation with the
  edit's result, its file on disk under the next version. After 32 conflicts it gives up, and the file is
  as the others left it.
\<close>

theorem undisturbed_attempt_commits:
  assumes "j < MAX_REGISTRY_WRITE_RETRIES" and "\<forall>k<j. conflicts cr g (operation k) (env k)"
    and "ev_locked (env j) = ev_read (env j)" and "ev_io (env j) = IoFine"
    and "prepare_write cr g (operation j) (ev_read (env j)) = Ready v b f"
    and "\<forall>k<MAX_REGISTRY_WRITE_RETRIES. conflicts cr g (operation' k) (env' k)"
  shows "mutate_registry_file cr g operation env = (Inr (v, f), Some f) \<and>
    rf_version f = disk_version (ev_read (env j)) + 1 \<and>
    mutate_registry_file cr g operation' env' =
      (Inl (Validation WriteRetriesExceeded), ev_locked (env' (MAX_REGISTRY_WRITE_RETRIES - 1)))"
proof -
  define n where "n = MAX_REGISTRY_WRITE_RETRIES - Suc j"
  have n: "MAX_REGISTRY_WRITE_RETRIES = j + Suc n"
    using assms(1) by (simp add: n_def)
  obtain e where "read_registry_file_sync cr (ev_read (env j)) = Inr e"
    using prepare_ready(6) [OF assms(5)] by blast
  moreover note prepare_ready(1,4) [OF assms(5)]
  ultimately have "commit_prepared_registry_write cr g IoFine b f (ev_read (env j)) = (Inr (), Some f)"
    by (simp add: commit_cases)
  then have "mutate_registry_file cr g operation env = (Inr (v, f), Some f)"
    using assms(2-5) attempts_skip_conflicts [of j cr g operation 0 env "Suc n"]
    by (simp add: mutate_registry_file_def n)
  moreover have "rf_version f = disk_version (ev_read (env j)) + 1"
    using prepare_ready(1,2) [OF assms(5)] by simp
  moreover have "mutate_registry_file cr g operation' env' =
      (Inl (Validation WriteRetriesExceeded), ev_locked (env' (MAX_REGISTRY_WRITE_RETRIES - 1)))"
    using assms(6) attempts_skip_conflicts [of MAX_REGISTRY_WRITE_RETRIES cr g operation' 0 env' 0]
    by (simp add: mutate_registry_file_def MAX_REGISTRY_WRITE_RETRIES_def)
  ultimately show ?thesis by blast
qed

section \<open>Migration settles\<close>

text \<open>Texts as migration leaves them: trimmed, without control characters, short.\<close>

definition clean_text :: "nat \<Rightarrow> string \<Rightarrow> bool" where
  "clean_text n s \<longleftrightarrow> trim_list (chars s) = chars s \<and> \<not> list_ex is_control (chars s) \<and> length s \<le> n"

lemma trim_end_chars: "chars (str_trim_end s) = rev (dropWhile is_whitespace (rev (chars s)))"
proof -
  have "chars s = rev (dropWhile is_whitespace (rev (chars s))) @ rev (takeWhile is_whitespace (rev (chars s)))"
    by (metis rev_append rev_rev_ident takeWhile_dropWhile_id)
  then have "wf_chars (rev (dropWhile is_whitespace (rev (chars s))))"
    using wf_chars_chars [of s] wf_chars_prefix by metis
  then show ?thesis
    by (simp add: str_trim_end_def chars_concat)
qed

lemma trim_list_fixed:
  assumes "trim_list xs = xs"
  shows "dropWhile is_whitespace xs = xs" and "dropWhile is_whitespace (rev xs) = rev xs"
proof -
  have "length xs \<le> length (dropWhile is_whitespace xs)"
    using arg_cong [OF assms, of length] length_dropWhile_le [of is_whitespace "rev (dropWhile is_whitespace xs)"]
    by (simp add: trim_list_def)
  moreover have "length xs = length (takeWhile is_whitespace xs) + length (dropWhile is_whitespace xs)"
    by (metis length_append takeWhile_dropWhile_id)
  ultimately have "takeWhile is_whitespace xs = []"
    by simp
  then show *: "dropWhile is_whitespace xs = xs"
    by (metis append_Nil takeWhile_dropWhile_id)
  show "dropWhile is_whitespace (rev xs) = rev xs"
    using assms unfolding trim_list_def * by (metis rev_rev_ident)
qed

lemma sanitize_clean: "clean_text n s \<Longrightarrow> sanitize_legacy_text s n = s"
proof -
  assume s: "clean_text n s"
  have "map (\<lambda>ch. if is_control ch then '' '' else ch) (chars s) = chars s"
    using s by (intro map_idI) (auto simp: clean_text_def list_ex_iff)
  moreover have "str_trim s = s" "str_trim_end s = s"
    using s trim_list_fixed [of "chars s"]
    by (simp_all add: clean_text_def str_trim_def str_trim_end_def trim_list_def)
  ultimately show ?thesis
    using s by (simp add: sanitize_legacy_text_def clean_text_def truncate_alt
        truncate_to_byte_boundary_def)
qed

lemma trim_list_ends:
  "trim_list xs = [] \<or> \<not> is_whitespace (hd (trim_list xs))"
proof (cases "dropWhile is_whitespace xs")
  case (Cons y ys)
  then have "\<not> is_whitespace y"
    by (metis dropWhile_eq_Cons_conv)
  then show ?thesis
    by (simp add: trim_list_def Cons dropWhile_append3)
qed (simp add: trim_list_def del: dropWhile_eq_Nil_conv)

lemma trim_prefix:
  assumes "trim_list xs = ys @ zs"
  shows "trim_list (rev (dropWhile is_whitespace (rev ys))) = rev (dropWhile is_whitespace (rev ys))"
proof (cases ys)
  case (Cons y ys')
  then have y: "\<not> is_whitespace y"
    using trim_list_ends [of xs] assms by simp
  have drop: "dropWhile is_whitespace (dropWhile is_whitespace vs) = dropWhile is_whitespace vs" for vs
    by (induction vs) auto
  have "rev (dropWhile is_whitespace (rev ys)) = y # rev (dropWhile is_whitespace (rev ys'))"
    using y Cons by (simp add: dropWhile_append3)
  then show ?thesis
    using y drop by (simp add: trim_list_def dropWhile_append3)
qed (simp add: trim_list_def)

lemma sanitized_clean: "clean_text n (sanitize_legacy_text s n)"
proof -
  define f where "f = (\<lambda>ch. if is_control ch then '' '' else ch)"
  define u where "u = concat (map f (chars s))"
  have space: "\<not> is_control '' ''" "\<not> is_continuation CHR '' ''"
    by (simp_all add: chars_defs)
  have "wf_chars xs \<Longrightarrow> wf_chars (map f xs)" for xs
    by (cases xs) (auto simp: f_def list_all_iff space)
  from chars_concat [OF this [OF wf_chars_chars]] have u: "chars u = map f (chars s)"
    by (simp add: u_def)
  obtain as bs where ab: "chars u = as @ trim_list (chars u) @ bs"
    using trim_list_infix by blast
  obtain ys where ys: "trim_list (chars u) = chars (truncate_string_to_byte_boundary (str_trim u) n) @ ys"
    using chars_truncate [of "str_trim u" n] chars_trim [of u] by metis
  let ?v = "truncate_string_to_byte_boundary (str_trim u) n"
  have t: "sanitize_legacy_text s n = str_trim_end ?v"
    by (simp add: sanitize_legacy_text_def u_def f_def Let_def)
  have "set (chars (str_trim_end ?v)) \<subseteq> set (chars ?v)"
    unfolding trim_end_chars by (auto dest: set_dropWhileD)
  also have "\<dots> \<subseteq> set (map f (chars s))"
    using ab ys unfolding u [symmetric] by (metis Un_iff set_append subsetI)
  finally have "\<not> list_ex is_control (chars (str_trim_end ?v))"
    using space by (auto simp: list_ex_iff f_def)
  moreover have "trim_list (chars (str_trim_end ?v)) = chars (str_trim_end ?v)"
    unfolding trim_end_chars by (rule trim_prefix [OF ys])
  moreover have "length (str_trim_end ?v) \<le> n"
  proof -
    have "length (concat (rev (dropWhile is_whitespace (rev (chars ?v))))) \<le> length (concat (chars ?v))"
      by (metis concat_append length_append le_add1 rev_append rev_rev_ident takeWhile_dropWhile_id)
    then show ?thesis
      using truncate_length [of "str_trim u" n] by (simp add: str_trim_end_def)
  qed
  ultimately show ?thesis
    by (simp add: clean_text_def t)
qed

lemma identifier_clean:
  assumes "validate_identifier fld s = Inr ()"
  shows "clean_text MAX_NODE_IDENTITY_TEXT_BYTES s \<and> s \<noteq> []"
proof -
  have ok: "str_trim s \<noteq> []" "list_all identifier_char (chars s)" "length s \<le> IDENTIFIER_MAX_CHARS"
    using assms by (auto simp: validate_identifier_def validate_non_empty_def split: if_splits)
  have one: "\<not> is_whitespace ch \<and> \<not> is_control ch" if "identifier_char ch" for ch
    using that by (auto simp: identifier_char_def is_ascii_alphanumeric_def is_ascii_digit_def chars_defs
        split: list.splits)
  have ends: "dropWhile is_whitespace xs = xs" if "list_all identifier_char xs" for xs
    using that one by (cases xs) auto
  have "trim_list (chars s) = chars s"
    using ok(2) ends [of "chars s"] ends [of "rev (chars s)"] by (simp add: trim_list_def)
  then show ?thesis
    using ok one by (auto simp: clean_text_def list_ex_iff list_all_iff
        IDENTIFIER_MAX_CHARS_def MAX_NODE_IDENTITY_TEXT_BYTES_def str_trim_def)
qed

definition settled_node :: "registered_node \<Rightarrow> bool" where
  "settled_node n \<longleftrightarrow> clean_text MAX_NODE_IDENTITY_TEXT_BYTES (rn_node_label n) \<and> rn_node_label n \<noteq> [] \<and>
     list_all (\<lambda>t. clean_text MAX_NODE_TAG_BYTES t \<and> t \<noteq> []) (rn_tags n) \<and>
     sorted (rn_tags n) \<and> distinct (rn_tags n) \<and> length (rn_tags n) \<le> MAX_NODE_TAGS"

lemma clean_trimmed: "clean_text n s \<Longrightarrow> str_trim s = s"
  by (simp add: clean_text_def str_trim_def trim_list_def)

lemma normalize_sorted: "sorted (normalize_string_list vs) \<and> distinct (normalize_string_list vs)"
  by (simp add: normalize_string_list_def sorted_remdups_adj sorted_distinct_adj)

lemma migrated_settled:
  assumes "validate_identifier fld (rn_node_id n) = Inr ()"
  shows "settled_node (migrate_node n)"
proof -
  let ?ts = "filter (\<lambda>t. t \<noteq> []) (map (\<lambda>t. sanitize_legacy_text t MAX_NODE_TAG_BYTES) (rn_tags n))"
  have "\<forall>t \<in> set ?ts. clean_text MAX_NODE_TAG_BYTES t \<and> t \<noteq> []"
    using sanitized_clean by auto
  moreover from this have "set (normalize_string_list ?ts) \<subseteq> set ?ts"
    using clean_trimmed unfolding set_normalize by fastforce
  ultimately have "list_all (\<lambda>t. clean_text MAX_NODE_TAG_BYTES t \<and> t \<noteq> []) (take MAX_NODE_TAGS (normalize_string_list ?ts))"
    by (auto simp: list_all_iff dest: in_set_takeD)
  then show ?thesis
    using identifier_clean [OF assms] sanitized_clean normalize_sorted [of ?ts]
    by (simp add: settled_node_def migrate_node_def Let_def sorted_wrt_take)
qed

lemma settled_fixed:
  assumes "settled_node n"
  shows "migrate_node n = n"
proof -
  have tags: "map (\<lambda>t. sanitize_legacy_text t MAX_NODE_TAG_BYTES) (rn_tags n) = rn_tags n"
    using assms sanitize_clean by (intro map_idI) (auto simp: settled_node_def list_all_iff)
  have "map str_trim (rn_tags n) = rn_tags n"
    using assms clean_trimmed by (intro map_idI) (auto simp: settled_node_def list_all_iff)
  moreover have "filter (\<lambda>t. t \<noteq> []) (rn_tags n) = rn_tags n"
    using assms by (auto simp: settled_node_def list_all_iff)
  ultimately have "normalize_string_list (rn_tags n) = rn_tags n" "filter (\<lambda>t. t \<noteq> []) (rn_tags n) = rn_tags n"
    using assms by (simp_all add: normalize_string_list_def settled_node_def sorted_sort_id
        remdups_adj_distinct)
  then show ?thesis
    using assms sanitize_clean tags by (simp add: migrate_node_def settled_node_def Let_def)
qed

text \<open>
  C35: rewriting an old registry settles it. The file that the migration at load commits, with
  plaintext tokens hashed and display fields cleaned, is loaded as it is by every later start or
  reload until one of its install sessions expires: it needs no further migration and no validation
  refuses it.
\<close>

theorem migration_settles:
  assumes "argon2_ok cr" and "prepare_write cr g (migration_edit cr salt now) d = Ready () b f"
    and "guard_passes g' (Some f)" and "list_all (\<lambda>s. later < is_expires_at s) (rf_install_sessions f)"
  shows "load_decision cr g' later (Some f) = Inr (Some f) \<and> \<not> list_ex is_legacy_token (rf_nodes f)"
proof -
  obtain e f0 where e: "read_registry_file_sync cr d = Inr e"
      "migration_edit cr salt now (file_or_default e) = Inr ((), True, f0)" "f = f0\<lparr>rf_version := b + 1\<rparr>"
    using prepare_ready(6) [OF assms(2)] by blast
  have source: "settled_node n" if mem: "n \<in> set (rf_nodes (file_or_default e))" for n
  proof -
    obtain f1 where "e = Some (fst (migrate_legacy_display_metadata f1))"
        "validate_registry_file cr (fst (migrate_legacy_display_metadata f1)) = Inr ()"
      using mem e(1) by (auto simp: read_registry_file_sync_def file_or_default_def empty_file_def Let_def
          split: option.splits sum.splits)
    then obtain n0 where "n = migrate_node n0" "validate_registered_node cr n = Inr ()"
      using mem by (auto simp: file_or_default_def migrate_legacy_display_metadata_def
          validate_registry_file_def first_error_ok validate_nodes_iff list_all_iff)
    moreover from this(2) have "validate_identifier (Field ''node.node_id'') (rn_node_id n) = Inr ()"
      by (simp add: validate_registered_node_def first_error_ok valid_def)
    moreover have "rn_node_id (migrate_node n0) = rn_node_id n0"
      by (simp add: migrate_node_def Let_def)
    ultimately show ?thesis
      using migrated_settled [of _ n0] by simp
  qed
  have nodes: "settled_node n \<and> \<not> is_legacy_token n" if "n \<in> set (rf_nodes f)" for n
    using that source argon_facts(1) [OF assms(1)] e(2)
    by (auto simp: e(3) migration_edit_def migrate_legacy_tokens_def prune_expired_install_sessions_def
        Let_def settled_node_def is_legacy_token_def)
  have migrate: "migrate_legacy_display_metadata f = (f, False)"
  proof -
    have "map migrate_node (rf_nodes f) = rf_nodes f"
      using nodes settled_fixed by (intro map_idI) blast
    moreover have "\<not> list_ex (\<lambda>n. rn_node_label (migrate_node n) \<noteq> rn_node_label n \<or>
        rn_tags (migrate_node n) \<noteq> rn_tags n) (rf_nodes f)"
      using nodes settled_fixed by (simp add: list_ex_iff)
    ultimately show ?thesis
      by (simp add: migrate_legacy_display_metadata_def)
  qed
  have prune: "prune_expired_install_sessions later f = (f, False)"
    using assms(4) by (simp add: prune_expired_install_sessions_def list_all_iff Let_def)
  have legacy: "\<not> list_ex is_legacy_token (rf_nodes f)"
    using nodes by (auto simp: list_ex_iff)
  show ?thesis
    using assms(3) prepare_ready(5) [OF assms(2)] legacy
    by (simp add: load_decision_def file_or_default_def guard_passes_def prune migrate Let_def)
qed

section \<open>Evaluation\<close>

lemma demo_settled: "settled_node demo_node"
  by (simp add: settled_node_def demo_node_def fresh_node_def clean_text_def trim_list_def
      normalize_string_list_def chars_defs MAX_NODE_IDENTITY_TEXT_BYTES_def)

lemma demo_migrated: "migrate_legacy_display_metadata demo_file = (demo_file, False)"
  by (simp add: migrate_legacy_display_metadata_def demo_file_def settled_fixed [OF demo_settled])

lemma demo_prepare:
  "prepare_write argon2_plain AllowCreate no_sessions (Some demo_file) =
    Ready () 4 (demo_file\<lparr>rf_install_sessions := [], rf_version := 5\<rparr>)"
proof -
  have "validate_registry_file argon2_plain (demo_file\<lparr>rf_install_sessions := [], rf_version := 5\<rparr>) = Inr ()"
    using demo_file_valid by (simp add: validate_registry_file_def first_error_ok)
  then show ?thesis
    by (simp add: prepare_write_def read_registry_file_sync_def demo_migrated demo_file_valid guard_check_def
        file_or_default_def no_sessions_def Let_def) (simp add: demo_file_def)
qed

theorem undisturbed_attempt_commits_witness:
  "\<exists>f env'. mutate_registry_file argon2_plain AllowCreate (\<lambda>_. no_sessions)
      (\<lambda>k. \<lparr>ev_read = Some demo_file, ev_locked = (if k = 0 then None else Some demo_file), ev_io = IoFine\<rparr>) =
        (Inr ((), f), Some f) \<and> rf_version f = 5 \<and>
    mutate_registry_file argon2_plain AllowCreate (\<lambda>_. no_sessions) env' =
      (Inl (Validation WriteRetriesExceeded), None)"
proof -
  let ?env = "\<lambda>k::nat. \<lparr>ev_read = Some demo_file, ev_locked = (if k = 0 then None else Some demo_file), ev_io = IoFine\<rparr>"
  let ?env' = "\<lambda>k::nat. \<lparr>ev_read = Some demo_file, ev_locked = None, ev_io = IoFine\<rparr>"
  have conflict: "conflicts argon2_plain AllowCreate no_sessions \<lparr>ev_read = Some demo_file, ev_locked = None, ev_io = IoFine\<rparr>"
    by (simp add: conflicts_def demo_prepare commit_prepared_registry_write_def read_registry_file_sync_def
        guard_check_def)
  have first: "\<forall>k<(1::nat). conflicts argon2_plain AllowCreate ((\<lambda>_. no_sessions) k) (?env k)"
    and all: "\<forall>k<MAX_REGISTRY_WRITE_RETRIES. conflicts argon2_plain AllowCreate ((\<lambda>_. no_sessions) k) (?env' k)"
    using conflict by (auto simp: less_Suc_eq)
  have prepare: "prepare_write argon2_plain AllowCreate ((\<lambda>_. no_sessions) (1::nat)) (ev_read (?env 1)) =
      Ready () 4 (demo_file\<lparr>rf_install_sessions := [], rf_version := 5\<rparr>)"
    by (simp add: demo_prepare)
  have less: "1 < MAX_REGISTRY_WRITE_RETRIES" and quiet: "ev_locked (?env 1) = ev_read (?env 1)"
    and io: "ev_io (?env 1) = IoFine"
    by (simp_all add: MAX_REGISTRY_WRITE_RETRIES_def)
  have "mutate_registry_file argon2_plain AllowCreate (\<lambda>_. no_sessions) ?env =
      (Inr ((), demo_file\<lparr>rf_install_sessions := [], rf_version := 5\<rparr>),
       Some (demo_file\<lparr>rf_install_sessions := [], rf_version := 5\<rparr>)) \<and>
    rf_version (demo_file\<lparr>rf_install_sessions := [], rf_version := 5\<rparr>) = disk_version (ev_read (?env 1)) + 1 \<and>
    mutate_registry_file argon2_plain AllowCreate (\<lambda>_. no_sessions) ?env' =
      (Inl (Validation WriteRetriesExceeded), ev_locked (?env' (MAX_REGISTRY_WRITE_RETRIES - 1)))"
    by (rule undisturbed_attempt_commits [OF less first quiet io prepare all])
  then show ?thesis
    by (intro exI [of _ "demo_file\<lparr>rf_install_sessions := [], rf_version := 5\<rparr>"] exI [of _ ?env']) simp
qed

theorem migration_settles_witness:
  "\<exists>f. prepare_write argon2_plain AllowCreate (migration_edit argon2_plain (\<lambda>_. []) 100) (Some demo_file) =
      Ready () 4 f \<and> load_decision argon2_plain (RequireExisting 5) 200 (Some f) = Inr (Some f)"
proof -
  let ?f = "demo_file\<lparr>rf_install_sessions := [], rf_version := 5\<rparr>"
  have "validate_registry_file argon2_plain ?f = Inr ()"
    using demo_file_valid by (simp add: validate_registry_file_def first_error_ok)
  moreover have "migration_edit argon2_plain (\<lambda>_. []) 100 demo_file = Inr ((), True, demo_file\<lparr>rf_install_sessions := []\<rparr>)"
    by (simp add: migration_edit_def migrate_legacy_tokens_def prune_expired_install_sessions_def Let_def
        demo_file_def is_legacy_token_def demo_node_def fresh_node_def)
  moreover have "rf_version demo_file = 4"
    by (simp add: demo_file_def)
  ultimately have f: "prepare_write argon2_plain AllowCreate (migration_edit argon2_plain (\<lambda>_. []) 100)
      (Some demo_file) = Ready () 4 ?f"
    by (simp add: prepare_write_def read_registry_file_sync_def demo_migrated demo_file_valid
        guard_check_def file_or_default_def Let_def)
  from migration_settles [OF argon2_plain_ok f, of "RequireExisting 5" 200]
  have "load_decision argon2_plain (RequireExisting 5) 200 (Some ?f) = Inr (Some ?f)"
    by (simp add: guard_passes_def guard_check_def)
  with f show ?thesis by blast
qed

end
