(* ===== verification/Updater.thy ===== *)
theory Updater
  imports Prelude Text
begin

text \<open>
  The signed Agent updater (\<open>nodelite-updater/src\<close>): its policy (\<open>policy.rs\<close>), the durable journal
  and its validation (\<open>state.rs\<close>), the acceptance of a signed release (\<open>download.rs\<close>), the activation
  state machine with its health trial and its rollback (\<open>activate.rs\<close>), the gate of the unattended
  recovery (\<open>gate.rs\<close>), the time floor (\<open>clock.rs\<close>), remote requests (\<open>remote.rs\<close>) and the dispatch of
  the commands (\<open>runtime.rs\<close>). A handler yields the list of its durable effects; the process may be
  killed after any of them, and any of them may fail. TUF verification, the URL parser and the hash
  function belong to libraries; what they and systemd report is part of the observed \<open>host\<close>.
\<close>

section \<open>Policy\<close>

datatype update_error = Policy string | Recovery string | Busy | Other string

record url =
  u_scheme :: string
  u_host :: "string option"
  u_username :: string
  u_password :: "string option"
  u_query :: "string option"
  u_fragment :: "string option"
  u_path :: string

record update_policy =
  pl_enabled :: bool
  pl_allow_remote_updates :: bool
  pl_metadata_url :: url
  pl_targets_url :: url
  pl_channel :: string
  pl_target :: string
  pl_baseline_sha256 :: string
  pl_baseline_sequence :: u64
  pl_minimum_sequence :: u64
  pl_trial_seconds :: u64
  pl_stability_seconds :: u64

definition is_lower_hex :: "char \<Rightarrow> bool" where
  "is_lower_hex c \<longleftrightarrow> is_ascii_digit c \<or> (97 \<le> byte c \<and> byte c \<le> 102)"

definition refuse :: "bool \<Rightarrow> update_error \<Rightarrow> update_error + unit" where
  "refuse bad e = (if bad then Inl e else Inr ())"

definition sanitize_digest :: "string \<Rightarrow> update_error + unit" where
  "sanitize_digest value = refuse (length value \<noteq> 64 \<or> \<not> list_all is_lower_hex value) (Policy ''invalid SHA256'')"

definition sanitize_sequence :: "u64 \<Rightarrow> update_error + unit" where
  "sanitize_sequence value =
     refuse (value = 0 \<or> push_bit 53 1 \<le> value) (Policy ''invalid release sequence'')"

text \<open>The checks of a function in sequence: the first error.\<close>

fun checks :: "(update_error + unit) list \<Rightarrow> update_error + unit" where
  "checks [] = Inr ()"
| "checks (Inl e # rs) = Inl e"
| "checks (Inr _ # rs) = checks rs"

text \<open>The platform: \<open>std::env::consts::ARCH\<close> and \<open>OS\<close>.\<close>

definition expected_target :: "string \<Rightarrow> string option" where
  "expected_target arch =
     (if arch = ''x86_64'' then Some ''x86_64-unknown-linux-musl''
      else if arch = ''aarch64'' then Some ''aarch64-unknown-linux-musl'' else None)"

definition ends_with_slash :: "string \<Rightarrow> bool" where
  "ends_with_slash s \<longleftrightarrow> s \<noteq> [] \<and> last s = CHR ''/''"

definition url_rejected :: "url \<Rightarrow> bool" where
  "url_rejected u \<longleftrightarrow>
     (let local = u_host u = Some ''127.0.0.1'' \<or> u_host u = Some ''[::1]'' in
      \<not> (u_scheme u = ''https'' \<or> (u_scheme u = ''http'' \<and> local)) \<or> u_username u \<noteq> [] \<or>
      u_password u \<noteq> None \<or> u_query u \<noteq> None \<or> u_fragment u \<noteq> None \<or> \<not> ends_with_slash (u_path u))"

definition validate_paused :: "string \<Rightarrow> string \<Rightarrow> update_policy \<Rightarrow> update_error + unit" where
  "validate_paused arch os p =
     checks
      [refuse (pl_channel p \<noteq> ''stable'' \<and> pl_channel p \<noteq> ''testing'') (Policy ''unsupported update channel''),
       refuse (expected_target arch = None) (Policy ''unsupported platform''),
       refuse (os \<noteq> ''linux'' \<or> expected_target arch \<noteq> Some (pl_target p)) (Policy ''unsupported platform''),
       refuse (url_rejected (pl_metadata_url p)) (Policy ''repository URL rejected''),
       refuse (url_rejected (pl_targets_url p)) (Policy ''repository URL rejected''),
       sanitize_digest (pl_baseline_sha256 p),
       sanitize_sequence (pl_baseline_sequence p),
       sanitize_sequence (pl_minimum_sequence p),
       refuse (pl_baseline_sequence p < pl_minimum_sequence p \<or>
               \<not> (5 \<le> pl_stability_seconds p \<and> pl_stability_seconds p \<le> 60) \<or>
               pl_trial_seconds p \<le> pl_stability_seconds p \<or> 300 < pl_trial_seconds p)
         (Policy ''invalid rollback floor or health deadline'')]"

definition validate_policy :: "string \<Rightarrow> string \<Rightarrow> update_policy \<Rightarrow> update_error + unit" where
  "validate_policy arch os p =
     checks [refuse (\<not> pl_enabled p) (Policy ''automatic updates are not explicitly enabled''),
             validate_paused arch os p]"

section \<open>Remote requests and their status\<close>

definition REQUEST_LIFETIME_SECS :: u64 where
  "REQUEST_LIFETIME_SECS = 60"

definition UPDATE_COOLDOWN_SECS :: u64 where
  "UPDATE_COOLDOWN_SECS = 300"

record update_request =
  uq_request_id :: string
  uq_issued_at :: u64
  uq_expires_at :: u64

definition valid_request_id :: "string \<Rightarrow> bool" where
  "valid_request_id v \<longleftrightarrow> length v = 32 \<and> list_all is_lower_hex v"

definition request_valid :: "update_request \<Rightarrow> u64 \<Rightarrow> bool" where
  "request_valid q now \<longleftrightarrow> valid_request_id (uq_request_id q) \<and> uq_issued_at q \<le> sat_add now 5 \<and>
     now < uq_expires_at q \<and> uq_issued_at q < uq_expires_at q \<and>
     uq_expires_at q - uq_issued_at q \<le> REQUEST_LIFETIME_SECS \<and> uq_expires_at q < push_bit 53 1"

datatype capability = Cap_Ready | Cap_Disabled | Cap_Unsupported | Cap_ManualRecovery

datatype status_phase =
    Up_Idle | Up_Queued | Up_Downloading | Up_Prepared | Up_Stopping | Up_Trial | Up_RollingBack
  | Up_Committed | Up_UpToDate | Up_RolledBack | Up_Failed | Up_ManualRecovery | Up_Unknown

datatype status_reason =
    Re_NotEnrolled | Re_DisabledByPolicy | Re_UnsupportedEnvironment | Re_LocalStateInvalid
  | Re_InvalidRequest | Re_RateLimited | Re_Busy | Re_UpdateFailed | Re_RequestExpired | Re_ManualRecovery

definition in_progress :: "status_phase \<Rightarrow> bool" where
  "in_progress p \<longleftrightarrow> p \<in> {Up_Queued, Up_Downloading, Up_Prepared, Up_Stopping, Up_Trial, Up_RollingBack}"

record update_status =
  st_capability :: capability
  st_phase :: status_phase
  st_request_id :: "string option"
  st_updated_at :: u64
  st_next_request_at :: u64
  st_installed_sequence :: "u64 option"
  st_target_sequence :: "u64 option"
  st_channel :: "string option"
  st_reason :: "status_reason option"

definition status_unavailable :: "capability \<Rightarrow> status_reason \<Rightarrow> update_status" where
  "status_unavailable c r =
     \<lparr>st_capability = c, st_phase = Up_Idle, st_request_id = None, st_updated_at = 0,
      st_next_request_at = 0, st_installed_sequence = None, st_target_sequence = None,
      st_channel = None, st_reason = Some r\<rparr>"

definition opt_all :: "('a \<Rightarrow> bool) \<Rightarrow> 'a option \<Rightarrow> bool" where
  "opt_all P v = (case v of None \<Rightarrow> True | Some x \<Rightarrow> P x)"

definition status_valid :: "update_status \<Rightarrow> bool" where
  "status_valid s \<longleftrightarrow> opt_all valid_request_id (st_request_id s) \<and> st_updated_at s < push_bit 53 1 \<and>
     st_next_request_at s < push_bit 53 1 \<and>
     opt_all (\<lambda>q. 0 < q \<and> q < push_bit 53 1) (st_installed_sequence s) \<and>
     opt_all (\<lambda>q. 0 < q \<and> q < push_bit 53 1) (st_target_sequence s) \<and>
     opt_all (\<lambda>c. c = ''stable'' \<or> c = ''testing'') (st_channel s) \<and>
     (\<not> in_progress (st_phase s) \<or> st_request_id s \<noteq> None)"

section \<open>The journal\<close>

record artifact =
  af_digest :: string
  af_sequence :: u64

datatype phase =
    Ph_Stable | Ph_Prepared | Ph_Stopping | Ph_Trial | Ph_RollbackIntent | Ph_Committed
  | Ph_RolledBack | Ph_ManualRecovery

definition terminal :: "phase \<Rightarrow> bool" where
  "terminal p \<longleftrightarrow> p = Ph_Stable \<or> p = Ph_Committed \<or> p = Ph_RolledBack"

record update_transaction =
  tx_from :: artifact
  tx_to :: artifact
  tx_boot :: string
  tx_deadline_ms :: u64
  tx_old_invocation :: string
  tx_bridge_exit :: string
  tx_rollback_consumed :: bool
  tx_recovery_requested :: bool
  tx_stable_since_ms :: "u64 option"
  tx_stable_sample_ms :: "u64 option"
  tx_stable_invocation :: "string option"

record remote_update =
  ru_request :: update_request
  ru_accepted_at :: u64
  ru_target :: "string option"
  ru_status :: update_status

record journal =
  j_remote_update :: "remote_update option"
  j_schema :: u32
  j_anchor :: string
  j_channel :: string
  j_target :: string
  j_phase :: phase
  j_installed :: artifact
  j_seen_sequence :: u64
  j_seen_digest :: string
  j_hard_floor :: u64
  j_time_high :: u64
  j_cache :: "string option"
  j_inventory :: "(string, string) table"
  j_roots :: "(u64, string) table"
  j_failed :: "string list"
  j_transaction :: "update_transaction option"

definition remote_validate :: "journal \<Rightarrow> update_error + unit" where
  "remote_validate j =
     (case j_remote_update j of
        None \<Rightarrow> Inr ()
      | Some u \<Rightarrow>
          checks
           [refuse (\<not> request_valid (ru_request u) (ru_accepted_at u) \<or> \<not> status_valid (ru_status u) \<or>
                    st_request_id (ru_status u) \<noteq> Some (uq_request_id (ru_request u)))
              (Recovery ''invalid remote request journal''),
            (case ru_target u of None \<Rightarrow> Inr () | Some t \<Rightarrow> sanitize_digest t)])"

text \<open>The checks of a journal on its own scope; \<open>anchor\<close> is the digest of the pinned root.\<close>

definition transaction_rejected :: "journal \<Rightarrow> update_transaction \<Rightarrow> bool" where
  "transaction_rejected j t \<longleftrightarrow>
     af_sequence (tx_to t) \<le> af_sequence (tx_from t) \<or>
     (tx_from t \<noteq> j_installed j \<and> j_phase j \<noteq> Ph_Committed) \<or>
     j_seen_sequence j < af_sequence (tx_to t) \<or>
     (af_sequence (tx_from t) < j_hard_floor j \<and> j_phase j \<noteq> Ph_Committed)"

definition scope_validate :: "update_policy \<Rightarrow> string \<Rightarrow> journal \<Rightarrow> update_error + unit" where
  "scope_validate p anchor j =
     checks
      ([refuse (j_schema j \<noteq> 1 \<or> j_anchor j \<noteq> anchor \<or> j_channel j \<noteq> pl_channel p \<or>
                j_target j \<noteq> pl_target p \<or> 64 < length (j_failed j) \<or> 128 < length (j_roots j) \<or>
                tbl_get (j_roots j) 0 \<noteq> None \<or> j_time_high j = 0)
          (Recovery ''journal scope or schema rejected'')] @
       map sanitize_digest ([af_digest (j_installed j), j_seen_digest j] @ j_failed j) @
       map sanitize_sequence [af_sequence (j_installed j), j_seen_sequence j, j_hard_floor j] @
       [refuse (j_seen_sequence j < af_sequence (j_installed j) \<or> af_sequence (j_installed j) < j_hard_floor j)
          (Recovery ''installed release is outside its trust floor''),
        refuse (\<not> terminal (j_phase j) \<and> j_phase j \<noteq> Ph_ManualRecovery \<and> j_transaction j = None)
          (Recovery ''pending transaction is missing''),
        (case j_transaction j of
           None \<Rightarrow> Inr ()
         | Some t \<Rightarrow>
             checks
              [sanitize_digest (af_digest (tx_from t)), sanitize_sequence (af_sequence (tx_from t)),
               sanitize_digest (af_digest (tx_to t)), sanitize_sequence (af_sequence (tx_to t)),
               refuse (transaction_rejected j t) (Recovery ''inconsistent transaction authorization'')])])"

definition journal_validate :: "update_policy \<Rightarrow> string \<Rightarrow> journal \<Rightarrow> update_error + unit" where
  "journal_validate p anchor j = checks [remote_validate j, scope_validate p anchor j]"

section \<open>The host\<close>

record update_health =
  uh_schema :: u32
  uh_pid :: string
  uh_invocation :: string
  uh_executable_sha256 :: string
  uh_sample_boottime_ms :: u64
  uh_collected_at_ms :: u64
  uh_sample_counter :: u64

text \<open>
  What a handler observes: the properties of the three systemd units (empty where absent), the boot,
  the readings of the boot clock by their place in the handler, the wall clock, the processes of the
  Agent's control group, the evidence file, which stored objects verify, and the file checks of the
  trust cache.
\<close>

record host =
  h_agent :: "string \<Rightarrow> string"
  h_preflight :: "string \<Rightarrow> string"
  h_stop :: "string \<Rightarrow> string"
  h_boot :: string
  h_clock :: "nat \<Rightarrow> u64"
  h_wall :: u64
  h_cgroup_procs :: "string option"
  h_evidence :: "update_health option"
  h_object_ok :: "string \<Rightarrow> bool"
  h_cache_ok :: bool

text \<open>The pid is compared as text; as text it is positive when it is not zero.\<close>

definition health_valid :: "update_health \<Rightarrow> bool" where
  "health_valid e \<longleftrightarrow> uh_schema e = 1 \<and> uh_pid e \<noteq> ''0'' \<and> 0 < uh_sample_counter e \<and>
     0 < uh_sample_boottime_ms e \<and> 0 < uh_collected_at_ms e \<and> length (uh_invocation e) = 32 \<and>
     length (uh_executable_sha256 e) = 64 \<and>
     list_all is_lower_hex (uh_invocation e @ uh_executable_sha256 e)"

text \<open>What is durable: the journal, the links to the active object and to the candidate, the markers
  for the privileged units, and the two flag files.\<close>

record update_store =
  us_journal :: journal
  us_active :: string
  us_candidate :: string
  us_markers :: "string list"
  us_pending :: bool
  us_recovery_required :: bool

definition store_active :: "host \<Rightarrow> update_store \<Rightarrow> update_error + string" where
  "store_active h s =
     (if h_object_ok h (us_active s) then Inr (us_active s) else Inl (Recovery ''committed executable changed''))"

definition health :: "host \<Rightarrow> update_store \<Rightarrow> string \<Rightarrow> update_error + update_health option" where
  "health h s expected =
     (if h_agent h ''ActiveState'' \<noteq> ''active'' then Inr None
      else
        case store_active h s of
          Inl e \<Rightarrow> Inl e
        | Inr active \<Rightarrow>
            if active \<noteq> expected then Inr None
            else
              case h_evidence h of
                None \<Rightarrow> Inr None
              | Some e \<Rightarrow>
                  let now = h_clock h 10; wall = h_wall h * 1000 in
                  if \<not> health_valid e \<or> uh_executable_sha256 e \<noteq> expected \<or>
                     uh_invocation e \<noteq> h_agent h ''InvocationID'' \<or> uh_pid e \<noteq> h_agent h ''MainPID'' \<or>
                     now < uh_sample_boottime_ms e \<or> 15000 < now - uh_sample_boottime_ms e \<or>
                     wall + 1000 < uh_collected_at_ms e \<or> 15000 < sat_sub wall (uh_collected_at_ms e)
                  then Inr None else Inr (Some e))"

definition starts_with :: "string \<Rightarrow> string \<Rightarrow> bool" where
  "starts_with prefix s \<longleftrightarrow> take (length prefix) s = prefix"

definition stopped :: "host \<Rightarrow> update_error + bool" where
  "stopped h =
     (if h_agent h ''ActiveState'' \<noteq> ''inactive'' \<or> h_agent h ''MainPID'' \<noteq> ''0'' then Inr False
      else
        let cgroup = h_agent h ''ControlGroup'' in
        if cgroup = [] then Inr True
        else if \<not> starts_with ''/system.slice/'' cgroup \<or> ''..'' \<in> set (str_split CHR ''/'' cgroup)
        then Inl (Recovery ''unexpected Agent cgroup'')
        else case h_cgroup_procs h of
               None \<Rightarrow> Inr True
             | Some procs \<Rightarrow> Inr (str_trim procs = []))"

section \<open>Effects\<close>

text \<open>A durable effect of a handler. The saved journal carries a refreshed remote status.\<close>

datatype update_effect =
    Save journal
  | ActivePointer string
  | CandidatePointer string
  | SetPending
  | RemovePending
  | Marker string
  | ClearMarkers
  | RequireRecovery

text \<open>The status of the last remote request, for the transaction it started.\<close>

definition owns_transaction :: "journal \<Rightarrow> bool" where
  "owns_transaction j \<longleftrightarrow>
     (case (j_remote_update j, j_transaction j) of
        (Some u, Some t) \<Rightarrow> ru_target u = Some (af_digest (tx_to t)) \<and>
          st_target_sequence (ru_status u) = Some (af_sequence (tx_to t))
      | _ \<Rightarrow> False)"

definition status_of_phase :: "phase \<Rightarrow> status_phase \<Rightarrow> status_phase" where
  "status_of_phase ph old =
     (case ph of Ph_Prepared \<Rightarrow> Up_Prepared | Ph_Stopping \<Rightarrow> Up_Stopping | Ph_Trial \<Rightarrow> Up_Trial
      | Ph_Committed \<Rightarrow> Up_Committed | Ph_RolledBack \<Rightarrow> Up_RolledBack
      | Ph_RollbackIntent \<Rightarrow> Up_RollingBack | Ph_ManualRecovery \<Rightarrow> Up_ManualRecovery | Ph_Stable \<Rightarrow> old)"

definition result_status :: "journal \<Rightarrow> update_status" where
  "result_status j =
     (let s = (case j_remote_update j of
                 Some u \<Rightarrow> ru_status u
               | None \<Rightarrow> (status_unavailable Cap_Ready Re_Busy)\<lparr>st_reason := None\<rparr>);
          s = s\<lparr>st_installed_sequence := Some (af_sequence (j_installed j)),
                st_next_request_at := (case j_remote_update j of
                    None \<Rightarrow> 0 | Some u \<Rightarrow> sat_add (ru_accepted_at u) UPDATE_COOLDOWN_SECS),
                st_channel := Some (j_channel j)\<rparr>
      in if owns_transaction j then s\<lparr>st_phase := status_of_phase (j_phase j) (st_phase s)\<rparr> else s)"

definition public_status :: "journal \<Rightarrow> update_status" where
  "public_status j =
     (let s = (result_status j)\<lparr>st_capability := Cap_Ready\<rparr> in
      if j_phase j = Ph_ManualRecovery
      then s\<lparr>st_capability := Cap_ManualRecovery, st_phase := Up_ManualRecovery, st_reason := Some Re_ManualRecovery\<rparr>
      else if \<not> terminal (j_phase j) \<and> \<not> owns_transaction j
      then s\<lparr>st_capability := Cap_Disabled, st_reason := Some Re_Busy\<rparr> else s)"

definition snapshot :: "journal \<Rightarrow> journal" where
  "snapshot j = j\<lparr>j_remote_update := map_option (\<lambda>u. u\<lparr>ru_status := result_status j\<rparr>) (j_remote_update j)\<rparr>"

fun perform :: "update_effect \<Rightarrow> update_store \<Rightarrow> update_store" where
  "perform (Save j) s = s\<lparr>us_journal := snapshot j\<rparr>"
| "perform (ActivePointer d) s = s\<lparr>us_active := d\<rparr>"
| "perform (CandidatePointer d) s = s\<lparr>us_candidate := d\<rparr>"
| "perform SetPending s = s\<lparr>us_pending := True\<rparr>"
| "perform RemovePending s = s\<lparr>us_pending := False\<rparr>"
| "perform (Marker m) s = s\<lparr>us_markers := List.insert m (us_markers s)\<rparr>"
| "perform ClearMarkers s = s\<lparr>us_markers := []\<rparr>"
| "perform RequireRecovery s = s\<lparr>us_recovery_required := True\<rparr>"

text \<open>A handler: its effects, the journal it holds in memory at the end, and whether it succeeded.\<close>

type_synonym outcome = "update_effect list \<times> journal \<times> (update_error + unit)"

definition fails :: "journal \<Rightarrow> update_error \<Rightarrow> outcome" where
  "fails j e = ([], j, Inl e)"

definition then_do :: "update_effect list \<Rightarrow> outcome \<Rightarrow> outcome" where
  "then_do es r = (es @ fst r, snd r)"

section \<open>Remote bookkeeping\<close>

definition downloading :: "remote_update \<Rightarrow> bool" where
  "downloading u \<longleftrightarrow> ru_target u = None \<and> st_phase (ru_status u) = Up_Downloading"

definition remote_bind :: "artifact \<Rightarrow> journal \<Rightarrow> journal" where
  "remote_bind to j =
     j\<lparr>j_remote_update := map_option (\<lambda>u.
        if downloading u
        then u\<lparr>ru_target := Some (af_digest to),
               ru_status := (ru_status u)\<lparr>st_target_sequence := Some (af_sequence to)\<rparr>\<rparr>
        else u) (j_remote_update j)\<rparr>"

definition remote_up_to_date :: "journal \<Rightarrow> journal" where
  "remote_up_to_date j =
     j\<lparr>j_remote_update := map_option (\<lambda>u.
        if downloading u then u\<lparr>ru_status := (ru_status u)\<lparr>st_phase := Up_UpToDate\<rparr>\<rparr> else u)
        (j_remote_update j)\<rparr>"

definition recover_download :: "journal \<Rightarrow> update_effect list \<times> journal" where
  "recover_download j =
     (case j_remote_update j of
        Some u \<Rightarrow>
          (if terminal (j_phase j) \<and> downloading u
           then let j = j\<lparr>j_remote_update := Some (u\<lparr>ru_status := (ru_status u)\<lparr>
                          st_phase := Up_Failed, st_reason := Some Re_UpdateFailed\<rparr>\<rparr>)\<rparr>
                in ([Save j], j)
           else ([], j))
      | None \<Rightarrow> ([], j))"

definition remote_accept ::
  "update_request \<Rightarrow> update_policy \<Rightarrow> u64 \<Rightarrow> journal \<Rightarrow> update_error + journal" where
  "remote_accept q p now j =
     (if \<not> pl_allow_remote_updates p \<or> \<not> request_valid q now
      then Inl (Policy ''remote update policy or request rejected'')
      else if \<not> terminal (j_phase j) then Inl Busy
      else if (case j_remote_update j of
                 None \<Rightarrow> False
               | Some u \<Rightarrow> uq_request_id (ru_request u) = uq_request_id q \<or>
                   now < sat_add (ru_accepted_at u) UPDATE_COOLDOWN_SECS)
      then Inl (Policy ''remote request replay or cooldown'')
      else
        let s = (public_status j)\<lparr>st_phase := Up_Downloading, st_request_id := Some (uq_request_id q),
                  st_reason := None, st_updated_at := now, st_target_sequence := None\<rparr>
        in Inr (j\<lparr>j_remote_update := Some \<lparr>ru_request = q, ru_accepted_at = now, ru_target = None,
                                           ru_status = s\<rparr>\<rparr>))"

definition remote_finish :: "(update_error + unit) \<Rightarrow> journal \<Rightarrow> journal" where
  "remote_finish result j =
     j\<lparr>j_remote_update := map_option (\<lambda>u.
        case result of
          Inl _ \<Rightarrow> u\<lparr>ru_status := (ru_status u)\<lparr>st_phase := Up_Failed, st_reason := Some Re_UpdateFailed\<rparr>\<rparr>
        | Inr _ \<Rightarrow> if ru_target u = None then u\<lparr>ru_status := (ru_status u)\<lparr>st_phase := Up_UpToDate\<rparr>\<rparr> else u)
        (j_remote_update j)\<rparr>"

section \<open>Activation\<close>

definition exit_stamp :: string where
  "exit_stamp = ''ExecMainExitTimestampMonotonic''"

text \<open>The unit has exited since the stamp that was recorded.\<close>

definition exited_since :: "(string \<Rightarrow> string) \<Rightarrow> string \<Rightarrow> bool" where
  "exited_since props stamp \<longleftrightarrow>
     props exit_stamp \<noteq> stamp \<and> \<not> (props exit_stamp = [] \<or> props exit_stamp = ''0'')"

definition act_prepare :: "host \<Rightarrow> update_policy \<Rightarrow> artifact \<Rightarrow> update_store \<Rightarrow> journal \<Rightarrow> outcome" where
  "act_prepare h p to s j0 =
     (if \<not> terminal (j_phase j0) \<or> af_sequence to \<le> af_sequence (j_installed j0) \<or>
         af_digest to \<in> set (j_failed j0) \<or> 64 \<le> length (j_failed j0) \<or>
         af_sequence (j_installed j0) < pl_minimum_sequence p \<or>
         af_sequence (j_installed j0) < j_hard_floor j0
      then fails j0 (Policy ''activation policy or enrolled baseline rejected'')
      else
        case store_active h s of
          Inl e \<Rightarrow> fails j0 e
        | Inr active \<Rightarrow>
            if active \<noteq> af_digest (j_installed j0)
            then fails j0 (Policy ''activation policy or enrolled baseline rejected'')
            else
              let j = remote_bind to j0;
                  t = \<lparr>tx_from = j_installed j, tx_to = to, tx_boot = h_boot h,
                       tx_deadline_ms = h_clock h 0 + 30000,
                       tx_old_invocation = h_agent h ''InvocationID'',
                       tx_bridge_exit = h_preflight h exit_stamp,
                       tx_rollback_consumed = False, tx_recovery_requested = False,
                       tx_stable_since_ms = None, tx_stable_sample_ms = None, tx_stable_invocation = None\<rparr>;
                  j = j\<lparr>j_transaction := Some t, j_phase := Ph_Prepared\<rparr>
              in ([CandidatePointer (af_digest to), SetPending, Save j, Marker ''preflight''], j, Inr ()))"

definition act_prepared :: "host \<Rightarrow> update_store \<Rightarrow> update_transaction \<Rightarrow> journal \<Rightarrow> outcome" where
  "act_prepared h s t j =
     (if tx_boot t \<noteq> h_boot h then
        (case store_active h s of
           Inl e \<Rightarrow> fails j e
         | Inr active \<Rightarrow>
             if active \<noteq> af_digest (tx_from t) then fails j (Recovery ''prepared pointer changed'')
             else let j = j\<lparr>j_phase := Ph_RolledBack\<rparr> in ([Save j], j, Inr ()))
      else
        let done' = exited_since (h_preflight h) (tx_bridge_exit t) in
        if done' \<and> h_preflight h ''Result'' = ''success'' \<and> h_preflight h ''ActiveState'' = ''active''
        then let t = t\<lparr>tx_bridge_exit := h_stop h exit_stamp, tx_deadline_ms := h_clock h 0 + 30000\<rparr>;
                 j = j\<lparr>j_transaction := Some t, j_phase := Ph_Stopping\<rparr>
             in ([Save j, Marker ''stop''], j, Inr ())
        else if done' \<or> tx_deadline_ms t < h_clock h 0
        then let j = j\<lparr>j_failed := j_failed j @ [af_digest (tx_to t)], j_phase := Ph_RolledBack\<rparr>
             in ([Save j], j, Inr ())
        else if ''preflight'' \<notin> set (us_markers s) \<and>
                h_preflight h ''ActiveState'' \<noteq> ''activating'' \<and> h_preflight h ''ActiveState'' \<noteq> ''deactivating''
        then ([Marker ''preflight''], j, Inr ())
        else ([], j, Inr ()))"

definition act_stopping ::
  "host \<Rightarrow> update_policy \<Rightarrow> update_store \<Rightarrow> update_transaction \<Rightarrow> journal \<Rightarrow> outcome" where
  "act_stopping h p s t j =
     (if tx_boot t \<noteq> h_boot h then
        (case store_active h s of
           Inl e \<Rightarrow> fails j e
         | Inr active \<Rightarrow>
             if active \<noteq> af_digest (tx_from t) then fails j (Recovery ''stopping pointer changed'')
             else let j = j\<lparr>j_phase := Ph_RolledBack\<rparr> in ([Save j], j, Inr ()))
      else
        let acknowledged = exited_since (h_stop h) (tx_bridge_exit t) \<and>
              h_stop h ''ActiveState'' = ''inactive'' \<and> h_stop h ''Result'' = ''success'';
            wait =
              (if tx_deadline_ms t < h_clock h 0
               then fails j (Recovery ''old service stop was not confirmed'')
               else if h_stop h ''ActiveState'' \<notin> {''active'', ''activating'', ''deactivating''} \<and>
                       ''stop'' \<notin> set (us_markers s)
               then ([Marker ''stop''], j, Inr ()) else ([], j, Inr ()))
        in if acknowledged \<and> ''stop'' \<notin> set (us_markers s)
           then
             (case stopped h of
                Inl e \<Rightarrow> fails j e
              | Inr False \<Rightarrow> wait
              | Inr True \<Rightarrow>
                  (let t = t\<lparr>tx_deadline_ms := h_clock h 0 + pl_trial_seconds p * 1000\<rparr>;
                       j = j\<lparr>j_transaction := Some t, j_phase := Ph_Trial\<rparr>
                   in ([Save j, ActivePointer (af_digest (tx_to t)), Marker ''restart''], j, Inr ())))
           else wait)"

definition act_rollback :: "host \<Rightarrow> update_store \<Rightarrow> update_transaction \<Rightarrow> journal \<Rightarrow> outcome" where
  "act_rollback h s t0 j0 =
     (if af_sequence (tx_from t0) < j_hard_floor j0 then fails j0 (Recovery ''rollback baseline revoked'')
      else
        let (es, t, j) =
          (if j_phase j0 \<noteq> Ph_RollbackIntent
           then let t = t0\<lparr>tx_rollback_consumed := True, tx_deadline_ms := h_clock h 2 + 60000\<rparr>;
                    j = j0\<lparr>j_transaction := Some t, j_failed := j_failed j0 @ [af_digest (tx_to t0)],
                           j_phase := Ph_RollbackIntent\<rparr>
                in ([Save j], t, j)
           else ([], t0, j0))
        in then_do es
          (if \<not> h_object_ok h (af_digest (tx_from t)) then fails j (Recovery ''committed executable changed'')
           else
             case health h s (af_digest (tx_from t)) of
               Inl e \<Rightarrow> fails j e
             | Inr (Some _) \<Rightarrow>
                 (let j = j\<lparr>j_phase := Ph_RolledBack\<rparr> in ([Save j], j, Inr ()))
             | Inr None \<Rightarrow>
                 if \<not> tx_recovery_requested t \<or> tx_boot t \<noteq> h_boot h
                 then let t' = t\<lparr>tx_recovery_requested := True, tx_boot := h_boot h,
                                 tx_deadline_ms := h_clock h 3 + 60000\<rparr>;
                          j = j\<lparr>j_transaction := Some t'\<rparr>
                      in ([ActivePointer (af_digest (tx_from t)), Marker ''restart'', Save j], j, Inr ())
                 else if tx_deadline_ms t < h_clock h 3
                 then fails j (Recovery ''rollback health not confirmed'')
                 else ([], j, Inr ())))"

text \<open>The evidence of one trial step: the first stable sample, the commit, or the loss of stability.\<close>

definition stable_long_enough :: "host \<Rightarrow> update_policy \<Rightarrow> update_transaction \<Rightarrow> update_health \<Rightarrow> bool" where
  "stable_long_enough h p t e \<longleftrightarrow>
     (case tx_stable_since_ms t of
        None \<Rightarrow> False
      | Some since \<Rightarrow> pl_stability_seconds p * 1000 \<le> sat_sub (h_clock h 0) since) \<and>
     (case tx_stable_sample_ms t of
        None \<Rightarrow> False
      | Some sample \<Rightarrow> pl_stability_seconds p * 1000 \<le> sat_sub (uh_collected_at_ms e) sample)"

definition trial_evidence ::
  "host \<Rightarrow> update_policy \<Rightarrow> update_health option \<Rightarrow> update_transaction \<Rightarrow> journal
    \<Rightarrow> update_effect list \<times> update_transaction \<times> journal" where
  "trial_evidence h p evidence t j =
     (case evidence of
        Some e \<Rightarrow>
          if uh_invocation e \<noteq> tx_old_invocation t then
            if tx_stable_invocation t \<noteq> Some (uh_invocation e)
            then let t = t\<lparr>tx_stable_invocation := Some (uh_invocation e),
                           tx_stable_since_ms := Some (h_clock h 0),
                           tx_stable_sample_ms := Some (uh_collected_at_ms e)\<rparr>;
                     j = j\<lparr>j_transaction := Some t\<rparr>
                 in ([Save j], t, j)
            else if stable_long_enough h p t e
            then let j = j\<lparr>j_installed := tx_to t, j_phase := Ph_Committed\<rparr> in ([Save j], t, j)
            else ([], t, j)
          else if tx_stable_since_ms t \<noteq> None
          then let t = t\<lparr>tx_stable_since_ms := None, tx_stable_invocation := None, tx_stable_sample_ms := None\<rparr>;
                   j = j\<lparr>j_transaction := Some t\<rparr>
               in ([Save j], t, j)
          else ([], t, j)
      | None \<Rightarrow>
          if tx_stable_since_ms t \<noteq> None
          then let t = t\<lparr>tx_stable_since_ms := None, tx_stable_invocation := None, tx_stable_sample_ms := None\<rparr>;
                   j = j\<lparr>j_transaction := Some t\<rparr>
               in ([Save j], t, j)
          else ([], t, j))"

definition act_trial ::
  "host \<Rightarrow> update_policy \<Rightarrow> update_store \<Rightarrow> update_transaction \<Rightarrow> journal \<Rightarrow> outcome" where
  "act_trial h p s t j =
     (if tx_boot t \<noteq> h_boot h then act_rollback h s t j
      else
        case health h s (af_digest (tx_to t)) of
          Inl e \<Rightarrow> fails j e
        | Inr evidence \<Rightarrow>
            (let (es, t, j) = trial_evidence h p evidence t j in
             then_do es
               (if j_phase j = Ph_Trial \<and> tx_deadline_ms t < h_clock h 1 then act_rollback h s t j
                else ([], j, Inr ()))))"

definition act_reconcile :: "host \<Rightarrow> update_policy \<Rightarrow> update_store \<Rightarrow> journal \<Rightarrow> outcome" where
  "act_reconcile h p s j =
     (if j_phase j = Ph_ManualRecovery then fails j (Recovery ''operator recovery required'')
      else
        case store_active h s of
          Inl e \<Rightarrow> fails j e
        | Inr active \<Rightarrow>
            if terminal (j_phase j) then
              (if active \<noteq> af_digest (j_installed j)
               then fails j (Recovery ''committed active pointer changed'') else ([], j, Inr ()))
            else
              case j_transaction j of
                None \<Rightarrow> fails j (Recovery ''missing transaction'')
              | Some t \<Rightarrow>
                  if active \<noteq> af_digest (tx_from t) \<and> active \<noteq> af_digest (tx_to t)
                  then fails j (Recovery ''unexpected active object'')
                  else
                    case j_phase j of
                      Ph_Prepared \<Rightarrow> act_prepared h s t j
                    | Ph_Stopping \<Rightarrow> act_stopping h p s t j
                    | Ph_Trial \<Rightarrow> act_trial h p s t j
                    | Ph_RollbackIntent \<Rightarrow> act_rollback h s t j
                    | _ \<Rightarrow> fails j (Recovery ''unexpected transaction phase''))"

section \<open>Signed releases\<close>

record release =
  rl_product :: string
  rl_component :: string
  rl_channel :: string
  rl_target :: string
  rl_release_sequence :: u64
  rl_min_rollback_sequence :: u64
  rl_version :: string

definition release_validate :: "release \<Rightarrow> update_policy \<Rightarrow> update_error + unit" where
  "release_validate r p =
     checks
      [refuse (rl_product r \<noteq> ''nodelite'' \<or> rl_component r \<noteq> ''agent'' \<or> rl_channel r \<noteq> pl_channel p \<or>
               rl_target r \<noteq> pl_target p \<or> rl_version r = [] \<or> 64 < length (rl_version r) \<or>
               \<not> list_all (\<lambda>c. is_ascii_alphanumeric c \<or> c \<in> set ''.-_'') (rl_version r))
         (Policy ''signed release scope rejected''),
       sanitize_sequence (rl_release_sequence r),
       sanitize_sequence (rl_min_rollback_sequence r),
       refuse (rl_release_sequence r < rl_min_rollback_sequence r)
         (Policy ''signed rollback floor exceeds release'')]"

text \<open>What the verified repository says of the one target the policy names.\<close>

record signed_target =
  sg_release :: release
  sg_hash :: string
  sg_length :: u64
  sg_consistent_snapshot :: bool

definition PAYLOAD_LIMIT :: u64 where
  "PAYLOAD_LIMIT = 33554432"

definition SKEW_SECS :: u64 where
  "SKEW_SECS = 5"

definition release_accept ::
  "update_policy \<Rightarrow> signed_target \<Rightarrow> u64 \<Rightarrow> journal \<Rightarrow> update_error + journal \<times> artifact" where
  "release_accept p g now j =
     (let r = sg_release g in
      case checks
            [release_validate r p,
             sanitize_digest (sg_hash g),
             refuse (sg_length g = 0 \<or> PAYLOAD_LIMIT < sg_length g \<or> \<not> sg_consistent_snapshot g \<or>
                     rl_release_sequence r < j_seen_sequence j \<or>
                     (rl_release_sequence r = j_seen_sequence j \<and> sg_hash g \<noteq> j_seen_digest j))
               (Policy ''release downgrade, equivocation or size rejected''),
             refuse (af_sequence (j_installed j) < rl_min_rollback_sequence r)
               (Policy ''baseline revoked: manual upgrade required'')] of
        Inl e \<Rightarrow> Inl e
      | Inr _ \<Rightarrow>
          Inr (j\<lparr>j_seen_sequence := rl_release_sequence r, j_seen_digest := sg_hash g,
                 j_hard_floor := max (max (j_hard_floor j) (rl_min_rollback_sequence r)) (pl_minimum_sequence p),
                 j_time_high := max now (j_time_high j)\<rparr>,
               \<lparr>af_digest = sg_hash g, af_sequence = rl_release_sequence r\<rparr>))"

section \<open>The gate and the time floor\<close>

datatype gate_decision = Proceed | GateIdle string

record gate_facts =
  gf_paused :: bool
  gf_recovery_required :: bool
  gf_terminal :: bool
  gf_active :: string
  gf_installed :: string
  gf_from :: "string option"

definition gate_reconcile :: "gate_facts \<Rightarrow> gate_decision" where
  "gate_reconcile f =
     (if gf_recovery_required f then
        (if gf_active f = gf_installed f \<or> Some (gf_active f) = gf_from f
         then GateIdle ''operator recovery required; recovery state preserved'' else Proceed)
      else if gf_paused f \<and> gf_terminal f \<and> gf_active f = gf_installed f
      then GateIdle ''signed updates paused by local policy''
      else Proceed)"

definition idle_gate :: "host \<Rightarrow> update_policy \<Rightarrow> update_store \<Rightarrow> journal \<Rightarrow> update_error + gate_decision" where
  "idle_gate h p s j =
     (if \<not> us_recovery_required s \<and> pl_enabled p then Inr Proceed
      else
        case store_active h s of
          Inl e \<Rightarrow> Inl e
        | Inr active \<Rightarrow>
            let from = (case j_transaction j of
                  None \<Rightarrow> None
                | Some t \<Rightarrow> if j_hard_floor j \<le> af_sequence (tx_from t) then Some (af_digest (tx_from t)) else None)
            in Inr (gate_reconcile
                 \<lparr>gf_paused = \<not> pl_enabled p, gf_recovery_required = us_recovery_required s,
                  gf_terminal = terminal (j_phase j), gf_active = active,
                  gf_installed = af_digest (j_installed j),
                  gf_from = (if terminal (j_phase j) then None else from)\<rparr>))"

datatype floor_reset = FloorUnchanged | FloorLowered u64 u64

definition floor_plan :: "bool \<Rightarrow> bool \<Rightarrow> bool \<Rightarrow> u64 \<Rightarrow> u64 \<Rightarrow> update_error + floor_reset" where
  "floor_plan confirmed term recovery_required time_high now =
     (if \<not> confirmed then Inl (Policy ''pass --confirm-clock-correct after verifying the system clock'')
      else if recovery_required then Inl (Recovery ''operator recovery required'')
      else if \<not> term then Inl Busy
      else if time_high \<le> sat_add now SKEW_SECS then Inr FloorUnchanged
      else Inr (FloorLowered time_high now))"

section \<open>Commands\<close>

text \<open>\<open>Store::load\<close>: validation, the cache files and the objects the journal names.\<close>

definition store_load :: "host \<Rightarrow> update_policy \<Rightarrow> string \<Rightarrow> update_store \<Rightarrow> update_error + journal" where
  "store_load h p anchor s =
     (let j = us_journal s; object = (\<lambda>d. refuse (\<not> h_object_ok h d) (Recovery ''committed executable changed'')) in
      case checks
            [journal_validate p anchor j,
             refuse (\<not> h_cache_ok h) (Recovery ''committed trust cache changed''),
             refuse (j_cache j = None \<and> j_inventory j \<noteq> []) (Recovery ''trust cache generation is missing''),
             object (af_digest (j_installed j)),
             (case j_transaction j of None \<Rightarrow> Inr ()
              | Some t \<Rightarrow> checks [object (af_digest (tx_from t)), object (af_digest (tx_to t))])] of
        Inl e \<Rightarrow> Inl e
      | Inr _ \<Rightarrow> Inr j)"

definition is_recovery :: "update_error \<Rightarrow> bool" where
  "is_recovery e = (case e of Recovery _ \<Rightarrow> True | _ \<Rightarrow> False)"

definition latched :: "journal \<Rightarrow> journal" where
  "latched j = j\<lparr>j_phase := Ph_ManualRecovery\<rparr>"

definition latch_failure :: "journal \<Rightarrow> update_error \<Rightarrow> update_effect list" where
  "latch_failure j e =
     (if \<not> terminal (j_phase j) \<or> is_recovery e then [Save (latched j), RequireRecovery] else [])"

text \<open>A fault: the process is killed before effect \<open>k\<close>, or effect \<open>k\<close> fails and the command ends with
  an error. The journal in memory is then the one last saved or being saved.\<close>

datatype fault = NoFault | KilledBefore nat | FailsAt nat

fun in_memory :: "journal \<Rightarrow> update_effect list \<Rightarrow> journal" where
  "in_memory j [] = j"
| "in_memory j (Save j' # es) = in_memory j' es"
| "in_memory j (e # es) = in_memory j es"

definition with_latch :: "fault \<Rightarrow> journal \<Rightarrow> outcome \<Rightarrow> update_effect list" where
  "with_latch flt j r =
     (case flt of
        KilledBefore k \<Rightarrow> take k (fst r)
      | FailsAt k \<Rightarrow>
          if k < length (fst r)
          then take k (fst r) @ latch_failure (in_memory j (take (Suc k) (fst r))) (Other ''input or output'')
          else fst r
      | NoFault \<Rightarrow>
          fst r @ (case snd (snd r) of
             Inl e \<Rightarrow> latch_failure (fst (snd r)) e
           | Inr _ \<Rightarrow> if terminal (j_phase (fst (snd r))) then [RemovePending] else []))"

text \<open>Effects whose failure leaves \<open>dispatch\<close> at once, by \<open>?\<close>, before the part that latches.\<close>

definition direct :: "fault \<Rightarrow> update_effect list \<Rightarrow> (fault \<Rightarrow> update_effect list) \<Rightarrow> update_effect list" where
  "direct flt es rest =
     (case flt of
        KilledBefore k \<Rightarrow> if k < length es then take k es else es @ rest (KilledBefore (k - length es))
      | FailsAt k \<Rightarrow> if k < length es then take k es else es @ rest (FailsAt (k - length es))
      | NoFault \<Rightarrow> es @ rest NoFault)"

text \<open>\<open>reconcile\<close>, at boot or by the timer.\<close>

definition dispatch_reconcile ::
  "bool \<Rightarrow> fault \<Rightarrow> host \<Rightarrow> update_policy \<Rightarrow> string \<Rightarrow> update_store \<Rightarrow> update_effect list" where
  "dispatch_reconcile boot flt h p anchor s =
     (case store_load h p anchor s of
        Inl e \<Rightarrow> [RequireRecovery]
      | Inr j \<Rightarrow>
          (case idle_gate h p s j of
             Inl e \<Rightarrow> []
           | Inr (GateIdle _) \<Rightarrow>
               direct flt ((if boot then [ClearMarkers] else []) @
                           (if terminal (j_phase j) then [RemovePending] else [])) (\<lambda>_. [])
           | Inr Proceed \<Rightarrow>
               if us_recovery_required s then []
               else
                 let es = (if boot then [ClearMarkers] else []);
                     s1 = fold perform es s;
                     (es', j') = recover_download j
                 in direct flt (es @ es') (\<lambda>flt. with_latch flt j' (act_reconcile h p s1 j'))))"

text \<open>\<open>download\<close> and \<open>apply\<close>. Collecting garbage and fetching may fail, and then nothing is latched;
  otherwise the repository yields the signed target. A payload that cannot be fetched once the release
  has been accepted is the failure of the effect after the \<open>Save\<close>.\<close>

definition dispatch_apply ::
  "bool \<Rightarrow> fault \<Rightarrow> host \<Rightarrow> update_policy \<Rightarrow> string \<Rightarrow> (update_error + signed_target) \<Rightarrow> update_store
    \<Rightarrow> update_effect list" where
  "dispatch_apply applied flt h p anchor fetched s =
     (case store_load h p anchor s of
        Inl e \<Rightarrow> [RequireRecovery]
      | Inr j \<Rightarrow>
          if us_recovery_required s \<or> \<not> terminal (j_phase j) \<or> sat_add (h_wall h) SKEW_SECS < j_time_high j then []
          else
            case fetched of
              Inl e \<Rightarrow> []
            | Inr g \<Rightarrow>
                (case release_accept p g (h_wall h) j of
                   Inl e \<Rightarrow> []
                 | Inr (j', candidate) \<Rightarrow>
                     direct flt [Save j'] (\<lambda>flt.
                       if applied \<and> candidate \<noteq> j_installed j'
                       then with_latch flt j' (act_prepare h p candidate s j')
                       else direct flt ((if applied then [Save (remote_up_to_date j')] else []) @ [RemovePending])
                              (\<lambda>_. []))))"

text \<open>\<open>remote\<close> is the acceptance of the request, then \<open>apply\<close>, then the recording of its result.\<close>

definition remote_begin ::
  "update_request \<Rightarrow> host \<Rightarrow> update_policy \<Rightarrow> string \<Rightarrow> update_store \<Rightarrow> update_effect list" where
  "remote_begin q h p anchor s =
     (case store_load h p anchor s of
        Inl e \<Rightarrow> [RequireRecovery]
      | Inr j \<Rightarrow>
          if us_recovery_required s then []
          else case remote_accept q p (h_wall h) j of
                 Inl e \<Rightarrow> []
               | Inr j' \<Rightarrow> [SetPending, Save j'])"

definition remote_end ::
  "(update_error + unit) \<Rightarrow> host \<Rightarrow> update_policy \<Rightarrow> string \<Rightarrow> update_store \<Rightarrow> update_effect list" where
  "remote_end result h p anchor s =
     (case store_load h p anchor s of Inl e \<Rightarrow> [] | Inr j \<Rightarrow> [Save (remote_finish result j)])"

definition reset_time_floor ::
  "bool \<Rightarrow> host \<Rightarrow> update_policy \<Rightarrow> string \<Rightarrow> update_store \<Rightarrow> update_effect list" where
  "reset_time_floor confirmed h p anchor s =
     (case store_load h p anchor s of
        Inl e \<Rightarrow> [RequireRecovery]
      | Inr j \<Rightarrow>
          (case floor_plan confirmed (terminal (j_phase j)) (us_recovery_required s) (j_time_high j) (h_wall h) of
             Inr (FloorLowered _ new) \<Rightarrow> [Save (j\<lparr>j_time_high := new\<rparr>)]
           | _ \<Rightarrow> []))"

definition initial_journal :: "update_policy \<Rightarrow> string \<Rightarrow> u64 \<Rightarrow> journal" where
  "initial_journal p anchor now =
     \<lparr>j_remote_update = None, j_schema = 1, j_anchor = anchor, j_channel = pl_channel p,
      j_target = pl_target p, j_phase = Ph_Stable,
      j_installed = \<lparr>af_digest = pl_baseline_sha256 p, af_sequence = pl_baseline_sequence p\<rparr>,
      j_seen_sequence = pl_baseline_sequence p, j_seen_digest = pl_baseline_sha256 p,
      j_hard_floor = pl_minimum_sequence p, j_time_high = now, j_cache = None, j_inventory = [],
      j_roots = [], j_failed = [], j_transaction = None\<rparr>"

section \<open>Runs\<close>

text \<open>What can happen to an enrolled host: commands with their observations and faults, and the
  privileged units consuming a marker.\<close>

datatype update_event =
    ReconcileEvent bool fault host
  | ApplyEvent bool fault host "update_error + signed_target"
  | RemoteBeginEvent nat update_request host
  | RemoteEndEvent "update_error + unit" host
  | ResetFloorEvent bool host
  | ConsumeMarkerEvent string

fun event_effects :: "update_policy \<Rightarrow> string \<Rightarrow> update_event \<Rightarrow> update_store \<Rightarrow> update_effect list" where
  "event_effects p anchor (ReconcileEvent boot flt h) s = dispatch_reconcile boot flt h p anchor s"
| "event_effects p anchor (ApplyEvent apply flt h fetched) s = dispatch_apply apply flt h p anchor fetched s"
| "event_effects p anchor (RemoteBeginEvent k q h) s = take k (remote_begin q h p anchor s)"
| "event_effects p anchor (RemoteEndEvent result h) s = remote_end result h p anchor s"
| "event_effects p anchor (ResetFloorEvent confirmed h) s = reset_time_floor confirmed h p anchor s"
| "event_effects p anchor (ConsumeMarkerEvent m) s = []"

definition update_step :: "update_policy \<Rightarrow> string \<Rightarrow> update_event \<Rightarrow> update_store \<Rightarrow> update_store" where
  "update_step p anchor e s =
     (case e of
        ConsumeMarkerEvent m \<Rightarrow> s\<lparr>us_markers := removeAll m (us_markers s)\<rparr>
      | _ \<Rightarrow> fold perform (event_effects p anchor e s) s)"

text \<open>The clock of a host is past 1970.\<close>

fun update_event_ok :: "update_event \<Rightarrow> bool" where
  "update_event_ok (ResetFloorEvent confirmed h) = (h_wall h \<noteq> 0)"
| "update_event_ok _ = True"

end
