(* ===== verification/UpdaterSafety.thy ===== *)
theory UpdaterSafety imports Updater
begin

text \<open>
  The signed updater keeps an authorised release active: the invariant of its journal and pointers over
  every run of commands, faults and crashes, what installs a release, and the two ways a host locks
  itself out. The last section runs one host through a committed and a rolled back update.
\<close>

section \<open>The invariant\<close>

lemma refuse_ok [simp]: "refuse bad e = Inr () \<longleftrightarrow> \<not> bad"
  by (simp add: refuse_def)

lemma checks_ok: "checks rs = Inr () \<longleftrightarrow> list_all (\<lambda>r. r = Inr ()) rs"
  by (induction rs rule: checks.induct) auto

lemma checks_cases: "(\<exists>e. checks rs = Inl e) \<or> checks rs = Inr ()"
  by (cases "checks rs") auto

definition seq_ok :: "u64 \<Rightarrow> bool" where
  "seq_ok v = (sanitize_sequence v = Inr ())"

definition dig_ok :: "string \<Rightarrow> bool" where
  "dig_ok d = (sanitize_digest d = Inr ())"

definition art_ok :: "artifact \<Rightarrow> bool" where
  "art_ok a \<longleftrightarrow> dig_ok (af_digest a) \<and> seq_ok (af_sequence a)"

text \<open>The facts of a valid journal, without its remote request.\<close>

definition trust_ok :: "update_policy \<Rightarrow> string \<Rightarrow> journal \<Rightarrow> bool" where
  "trust_ok p anchor j \<longleftrightarrow>
     j_schema j = 1 \<and> j_anchor j = anchor \<and> j_channel j = pl_channel p \<and> j_target j = pl_target p \<and>
     length (j_failed j) \<le> 64 \<and> length (j_roots j) \<le> 128 \<and> tbl_get (j_roots j) 0 = None \<and>
     j_time_high j \<noteq> 0 \<and> art_ok (j_installed j) \<and> dig_ok (j_seen_digest j) \<and> list_all dig_ok (j_failed j) \<and>
     seq_ok (j_seen_sequence j) \<and> seq_ok (j_hard_floor j) \<and>
     af_sequence (j_installed j) \<le> j_seen_sequence j \<and> j_hard_floor j \<le> af_sequence (j_installed j) \<and>
     (terminal (j_phase j) \<or> j_phase j = Ph_ManualRecovery \<or> j_transaction j \<noteq> None) \<and>
     (case j_transaction j of None \<Rightarrow> True
      | Some t \<Rightarrow> art_ok (tx_from t) \<and> art_ok (tx_to t) \<and> \<not> transaction_rejected j t)"

lemma scope_validate_iff: "scope_validate p anchor j = Inr () \<longleftrightarrow> trust_ok p anchor j"
  by (auto simp: scope_validate_def checks_ok trust_ok_def dig_ok_def seq_ok_def art_ok_def list_all_iff
      not_le not_less split: option.split)

definition candidate_phase :: "phase \<Rightarrow> bool" where
  "candidate_phase ph \<longleftrightarrow> ph = Ph_Prepared \<or> ph = Ph_Stopping \<or> ph = Ph_Trial"

definition safe :: "update_policy \<Rightarrow> string \<Rightarrow> journal \<Rightarrow> string \<Rightarrow> bool" where
  "safe p anchor j active \<longleftrightarrow>
     pl_minimum_sequence p \<le> af_sequence (j_installed j) \<and> j_hard_floor j \<le> af_sequence (j_installed j) \<and>
     (j_phase j = Ph_ManualRecovery \<or> trust_ok p anchor j) \<and>
     (active = af_digest (j_installed j) \<or>
      (j_phase j = Ph_Trial \<or> j_phase j = Ph_RollbackIntent \<or> j_phase j = Ph_ManualRecovery) \<and>
      map_option (\<lambda>t. af_digest (tx_to t)) (j_transaction j) = Some active) \<and>
     (candidate_phase (j_phase j) \<longrightarrow> length (j_failed j) < 64 \<and>
      (case j_transaction j of None \<Rightarrow> False | Some t \<Rightarrow> af_digest (tx_to t) \<notin> set (j_failed j))) \<and>
     (j_phase j = Ph_RollbackIntent \<longrightarrow>
      (case j_transaction j of None \<Rightarrow> False | Some t \<Rightarrow> af_digest (tx_to t) \<in> set (j_failed j)))"

text \<open>What never goes back: floors, the installed release, and the list of failed releases, none of
  which is installed later.\<close>

definition grows :: "journal \<Rightarrow> journal \<Rightarrow> bool" where
  "grows j j' \<longleftrightarrow> af_sequence (j_installed j) \<le> af_sequence (j_installed j') \<and>
     j_hard_floor j \<le> j_hard_floor j' \<and> set (j_failed j) \<subseteq> set (j_failed j') \<and>
     (j_installed j' = j_installed j \<or> af_digest (j_installed j') \<notin> set (j_failed j))"

text \<open>The effects keep the journal safe and growing after each of them.\<close>

fun trace_ok :: "update_policy \<Rightarrow> string \<Rightarrow> journal \<Rightarrow> string \<Rightarrow> update_effect list \<Rightarrow> bool" where
  "trace_ok p anchor j active [] = True"
| "trace_ok p anchor j active (Save j' # es) =
     (safe p anchor j' active \<and> grows j j' \<and> trace_ok p anchor j' active es)"
| "trace_ok p anchor j active (ActivePointer d # es) = (safe p anchor j d \<and> trace_ok p anchor j d es)"
| "trace_ok p anchor j active (e # es) = trace_ok p anchor j active es"

fun active_after :: "string \<Rightarrow> update_effect list \<Rightarrow> string" where
  "active_after a [] = a"
| "active_after a (ActivePointer d # es) = active_after d es"
| "active_after a (e # es) = active_after a es"

lemma grows_refl [simp]: "grows j j"
  by (simp add: grows_def)

lemma grows_trans: "grows j j' \<Longrightarrow> grows j' j'' \<Longrightarrow> grows j j''"
  by (auto simp: grows_def)

lemma snapshot_same [simp]:
  "j_phase (snapshot j) = j_phase j" "j_installed (snapshot j) = j_installed j"
  "j_failed (snapshot j) = j_failed j" "j_hard_floor (snapshot j) = j_hard_floor j"
  "j_transaction (snapshot j) = j_transaction j" "j_seen_sequence (snapshot j) = j_seen_sequence j"
  "j_time_high (snapshot j) = j_time_high j"
  by (simp_all add: snapshot_def)

lemma trust_ok_snapshot [simp]: "trust_ok p anchor (snapshot j) = trust_ok p anchor j"
  by (simp add: trust_ok_def transaction_rejected_def snapshot_def cong: option.case_cong)

lemma safe_snapshot [simp]: "safe p anchor (snapshot j) a = safe p anchor j a"
  by (simp add: safe_def cong: option.case_cong)

lemma grows_snapshot [simp]: "grows (snapshot j) j' = grows j j'" "grows j (snapshot j') = grows j j'"
  by (simp_all add: grows_def)

lemma safe_latched: "safe p anchor j a \<Longrightarrow> safe p anchor (latched j) a \<and> grows j (latched j)"
  by (auto simp: safe_def latched_def candidate_phase_def grows_def)

lemma perform_state:
  "us_active (fold perform es s) = active_after (us_active s) es \<and>
   (us_journal s = snapshot j \<or> us_journal s = j \<longrightarrow>
     us_journal (fold perform es s) = snapshot (in_memory j es) \<or>
     us_journal (fold perform es s) = in_memory j es)"
proof (induction es arbitrary: s j)
  case (Cons e es)
  then show ?case
    by (cases e) auto
qed simp

lemma trace_prefix:
  "safe p anchor j a \<Longrightarrow> trace_ok p anchor j a es \<Longrightarrow>
    safe p anchor (in_memory j (take k es)) (active_after a (take k es)) \<and>
    safe p anchor (in_memory j (take (Suc k) es)) (active_after a (take k es)) \<and>
    grows j (in_memory j (take k es)) \<and> grows j (in_memory j (take (Suc k) es))"
proof (induction es arbitrary: j a k)
  case (Cons e es)
  show ?case
  proof (cases k)
    case 0
    then show ?thesis using Cons(2,3) by (cases e) auto
  next
    case (Suc k')
    then show ?thesis using Cons by (cases e) (auto intro: grows_trans)
  qed
qed simp

lemma trace_all:
  assumes "safe p anchor j a" and "trace_ok p anchor j a es"
  shows "safe p anchor (in_memory j es) (active_after a es) \<and> grows j (in_memory j es)"
  using trace_prefix [OF assms, of "length es"] by simp

lemma trace_append:
  "trace_ok p anchor j a (es @ es') \<longleftrightarrow>
    trace_ok p anchor j a es \<and> trace_ok p anchor (in_memory j es) (active_after a es) es'"
proof (induction es arbitrary: j a)
  case (Cons e es)
  then show ?case by (cases e) auto
qed simp

lemma in_memory_append [simp]: "in_memory j (es @ es') = in_memory (in_memory j es) es'"
proof (induction es arbitrary: j)
  case (Cons e es)
  then show ?case by (cases e) auto
qed simp

lemma active_after_append [simp]: "active_after a (es @ es') = active_after (active_after a es) es'"
proof (induction es arbitrary: a)
  case (Cons e es)
  then show ?case by (cases e) auto
qed simp

definition outcome_ok :: "update_policy \<Rightarrow> string \<Rightarrow> journal \<Rightarrow> string \<Rightarrow> outcome \<Rightarrow> bool" where
  "outcome_ok p anchor j a r \<longleftrightarrow> trace_ok p anchor j a (fst r) \<and> fst (snd r) = in_memory j (fst r)"

lemma outcome_fails [simp]: "outcome_ok p anchor j a (fails j e)"
  by (simp add: outcome_ok_def fails_def)

lemma outcome_then:
  assumes "trace_ok p anchor j a es" and "outcome_ok p anchor (in_memory j es) (active_after a es) r"
  shows "outcome_ok p anchor j a (then_do es r)"
  using assms by (simp add: outcome_ok_def then_do_def trace_append)

text \<open>A pending transaction starts from the installed release, and its candidate is newer.\<close>

lemma safe_pending:
  assumes "safe p anchor j a" and "j_transaction j = Some t"
    and "j_phase j = Ph_Prepared \<or> j_phase j = Ph_Stopping \<or> j_phase j = Ph_Trial \<or> j_phase j = Ph_RollbackIntent"
  shows "tx_from t = j_installed j" and "art_ok (tx_to t)" and "af_sequence (tx_from t) < af_sequence (tx_to t)"
    and "af_sequence (tx_to t) \<le> j_seen_sequence j" and "j_hard_floor j \<le> af_sequence (tx_from t)"
    and "trust_ok p anchor j"
proof -
  have other: "j_phase j \<noteq> Ph_ManualRecovery" "j_phase j \<noteq> Ph_Committed"
    using assms(3) by auto
  show trust: "trust_ok p anchor j"
    using assms(1) other(1) by (simp add: safe_def)
  have "art_ok (tx_to t)" "\<not> transaction_rejected j t"
    using trust unfolding trust_ok_def assms(2) by simp_all
  then show "tx_from t = j_installed j" "art_ok (tx_to t)" "af_sequence (tx_from t) < af_sequence (tx_to t)"
    "af_sequence (tx_to t) \<le> j_seen_sequence j" "j_hard_floor j \<le> af_sequence (tx_from t)"
    using other(2) by (simp_all add: transaction_rejected_def not_le not_less)
qed

text \<open>Changes within a pending transaction.\<close>

lemma trust_step:
  assumes "trust_ok p anchor j" and "j_phase j \<noteq> Ph_Committed" and "j_transaction j = Some t"
    and "tx_from t' = tx_from t" and "tx_to t' = tx_to t" and "ph \<noteq> Ph_Committed"
    and "fs = j_failed j \<or> fs = j_failed j @ [af_digest (tx_to t)] \<and> length (j_failed j) < 64"
  shows "trust_ok p anchor (j\<lparr>j_transaction := Some t', j_failed := fs, j_phase := ph\<rparr>)"
  using assms by (auto simp: trust_ok_def transaction_rejected_def art_ok_def)

lemma safe_step:
  assumes "safe p anchor j a" and "j_transaction j = Some t"
    and "j_phase j = Ph_Prepared \<or> j_phase j = Ph_Stopping \<or> j_phase j = Ph_Trial \<or> j_phase j = Ph_RollbackIntent"
    and "tx_from t' = tx_from t" and "tx_to t' = tx_to t"
    and "j' = j\<lparr>j_transaction := Some t', j_failed := fs, j_phase := ph\<rparr>"
    and "fs = j_failed j \<or> fs = j_failed j @ [af_digest (tx_to t)] \<and> candidate_phase (j_phase j) \<and> \<not> candidate_phase ph"
    and "ph \<noteq> Ph_Committed" and "candidate_phase ph \<longrightarrow> candidate_phase (j_phase j)"
    and "ph = Ph_RollbackIntent \<longrightarrow> af_digest (tx_to t) \<in> set fs"
    and "a' = af_digest (tx_from t) \<or> a' = af_digest (tx_to t) \<and> (ph = Ph_Trial \<or> ph = Ph_RollbackIntent)"
  shows "safe p anchor j' a' \<and> grows j j'"
proof -
  note pending = safe_pending [OF assms(1-3)]
  have short: "candidate_phase (j_phase j) \<longrightarrow> length (j_failed j) < 64 \<and> af_digest (tx_to t) \<notin> set (j_failed j)"
    using assms(1,2) by (simp add: safe_def)
  have "trust_ok p anchor j'"
    unfolding assms(6) using assms(3,7) short
    by (intro trust_step [OF pending(6) _ assms(2,4,5,8)]) auto
  moreover have "grows j j'"
    using assms(7) by (auto simp: grows_def assms(6))
  moreover have "safe p anchor j' a'" if trust: "trust_ok p anchor j'"
    unfolding safe_def
  proof (intro conjI)
    show "pl_minimum_sequence p \<le> af_sequence (j_installed j')" "j_hard_floor j' \<le> af_sequence (j_installed j')"
      "j_phase j' = Ph_ManualRecovery \<or> trust_ok p anchor j'"
      using assms(1) trust by (simp_all add: safe_def assms(6))
    show "j_phase j' = Ph_RollbackIntent \<longrightarrow>
      (case j_transaction j' of None \<Rightarrow> False | Some t \<Rightarrow> af_digest (tx_to t) \<in> set (j_failed j'))"
      using assms(10) by (simp add: assms(5,6))
    show "a' = af_digest (j_installed j') \<or>
      (j_phase j' = Ph_Trial \<or> j_phase j' = Ph_RollbackIntent \<or> j_phase j' = Ph_ManualRecovery) \<and>
      map_option (\<lambda>t. af_digest (tx_to t)) (j_transaction j') = Some a'"
      using assms(11) pending(1) by (auto simp: assms(5,6))
    show "candidate_phase (j_phase j') \<longrightarrow> length (j_failed j') < 64 \<and>
      (case j_transaction j' of None \<Rightarrow> False | Some t \<Rightarrow> af_digest (tx_to t) \<notin> set (j_failed j'))"
      using assms(7,9) short by (simp add: assms(5,6)) blast
  qed
  ultimately show ?thesis by blast
qed

lemma same_record [simp]: "j\<lparr>j_transaction := j_transaction j\<rparr> = j" "j\<lparr>j_failed := j_failed j\<rparr> = j"
  by simp_all

lemma prepared_ok:
  assumes "safe p anchor j (us_active s)" and "j_transaction j = Some t" and "j_phase j = Ph_Prepared"
  shows "outcome_ok p anchor j (us_active s) (act_prepared h s t j)"
proof -
  have a: "us_active s = af_digest (tx_from t)"
    using assms safe_pending(1) [OF assms(1,2)] by (auto simp: safe_def)
  have 1: "safe p anchor (j\<lparr>j_phase := Ph_RolledBack\<rparr>) (us_active s) \<and> grows j (j\<lparr>j_phase := Ph_RolledBack\<rparr>)"
    by (rule safe_step [OF assms(1,2), where t' = t and fs = "j_failed j" and ph = Ph_RolledBack])
      (use a assms in \<open>auto simp: candidate_phase_def\<close>)
  have 2: "safe p anchor j' (us_active s) \<and> grows j j'"
    if "j' = j\<lparr>j_transaction := Some (t\<lparr>tx_bridge_exit := x, tx_deadline_ms := y\<rparr>), j_phase := Ph_Stopping\<rparr>" for j' x y
    by (rule safe_step [OF assms(1,2), where t' = "t\<lparr>tx_bridge_exit := x, tx_deadline_ms := y\<rparr>" and
        fs = "j_failed j" and ph = Ph_Stopping]) (use a assms that in \<open>auto simp: candidate_phase_def\<close>)
  have 3: "safe p anchor j' (us_active s) \<and> grows j j'"
    if "j' = j\<lparr>j_failed := j_failed j @ [af_digest (tx_to t)], j_phase := Ph_RolledBack\<rparr>" for j'
    by (rule safe_step [OF assms(1,2), where t' = t and fs = "j_failed j @ [af_digest (tx_to t)]" and
        ph = Ph_RolledBack]) (use a assms that in \<open>auto simp: candidate_phase_def\<close>)
  show ?thesis
    using 1 2 3 unfolding act_prepared_def
    by (auto simp: outcome_ok_def fails_def Let_def split: sum.split)
qed

lemma stopping_ok:
  assumes "safe p anchor j (us_active s)" and "j_transaction j = Some t" and "j_phase j = Ph_Stopping"
  shows "outcome_ok p anchor j (us_active s) (act_stopping h pol s t j)"
proof -
  have a: "us_active s = af_digest (tx_from t)"
    using assms safe_pending(1) [OF assms(1,2)] by (auto simp: safe_def)
  have 1: "safe p anchor (j\<lparr>j_phase := Ph_RolledBack\<rparr>) (us_active s) \<and> grows j (j\<lparr>j_phase := Ph_RolledBack\<rparr>)"
    by (rule safe_step [OF assms(1,2), where t' = t and fs = "j_failed j" and ph = Ph_RolledBack])
      (use a assms in \<open>auto simp: candidate_phase_def\<close>)
  have 2: "safe p anchor j' a' \<and> grows j j'"
    if "j' = j\<lparr>j_transaction := Some (t\<lparr>tx_deadline_ms := x\<rparr>), j_phase := Ph_Trial\<rparr>"
      "a' = us_active s \<or> a' = af_digest (tx_to t)" for j' a' x
    by (rule safe_step [OF assms(1,2), where t' = "t\<lparr>tx_deadline_ms := x\<rparr>" and fs = "j_failed j" and ph = Ph_Trial])
      (use a assms that in \<open>auto simp: candidate_phase_def\<close>)
  show ?thesis
    using 1 2 unfolding act_stopping_def
    by (auto simp: outcome_ok_def fails_def Let_def split: sum.split bool.split)
qed

lemma health_active: "health h s d = Inr (Some e) \<Longrightarrow> us_active s = d"
  by (auto simp: health_def store_active_def Let_def split: if_splits sum.splits option.splits)

lemma rollback_ok:
  assumes "safe p anchor j (us_active s)" and "j_transaction j = Some t"
    and "j_phase j = Ph_Trial \<or> j_phase j = Ph_RollbackIntent"
  shows "outcome_ok p anchor j (us_active s) (act_rollback h s t j)"
proof -
  note pending = safe_pending [OF assms(1,2)]
  have a: "us_active s = af_digest (tx_from t) \<or> us_active s = af_digest (tx_to t)"
    using assms pending(1) by (auto simp: safe_def)
  define t1 where "t1 = (if j_phase j \<noteq> Ph_RollbackIntent
    then t\<lparr>tx_rollback_consumed := True, tx_deadline_ms := h_clock h 2 + 60000\<rparr> else t)"
  define j1 where "j1 = (if j_phase j \<noteq> Ph_RollbackIntent
    then j\<lparr>j_transaction := Some t1, j_failed := j_failed j @ [af_digest (tx_to t)], j_phase := Ph_RollbackIntent\<rparr> else j)"
  define es where "es = (if j_phase j \<noteq> Ph_RollbackIntent then [Save j1] else [])"
  have t1: "tx_from t1 = tx_from t" "tx_to t1 = tx_to t"
    by (simp_all add: t1_def)
  have "safe p anchor j1 (us_active s) \<and> grows j j1"
  proof (cases "j_phase j = Ph_RollbackIntent")
    case False
    then show ?thesis
      by (intro safe_step [OF assms(1,2), where t' = t1 and fs = "j_failed j @ [af_digest (tx_to t)]" and ph = Ph_RollbackIntent])
        (use a assms t1 in \<open>auto simp: candidate_phase_def j1_def\<close>)
  qed (use assms(1) in \<open>simp add: j1_def\<close>)
  then have es: "trace_ok p anchor j (us_active s) es" "in_memory j es = j1" "active_after (us_active s) es = us_active s"
      and j1: "safe p anchor j1 (us_active s)"
    by (auto simp: es_def j1_def)
  have tx1: "j_transaction j1 = Some t1" "j_phase j1 = Ph_RollbackIntent"
    using assms(2) by (auto simp: j1_def t1_def)
  then have failed: "af_digest (tx_to t1) \<in> set (j_failed j1)"
    using j1 by (simp add: safe_def)
  have 1: "safe p anchor (j1\<lparr>j_phase := Ph_RolledBack\<rparr>) (us_active s) \<and> grows j1 (j1\<lparr>j_phase := Ph_RolledBack\<rparr>)"
    if "us_active s = af_digest (tx_from t1)"
    by (rule safe_step [OF j1 tx1(1), where t' = t1 and fs = "j_failed j1" and ph = Ph_RolledBack])
      (use that tx1 failed in \<open>auto simp: candidate_phase_def\<close>)
  have 2: "safe p anchor j' a' \<and> grows j1 j'"
    if "j' = j1\<lparr>j_transaction := Some (t1\<lparr>tx_recovery_requested := True, tx_boot := x, tx_deadline_ms := y\<rparr>)\<rparr>"
      "a' = af_digest (tx_from t1)" for j' a' x y
    by (rule safe_step [OF j1 tx1(1), where t' = "t1\<lparr>tx_recovery_requested := True, tx_boot := x, tx_deadline_ms := y\<rparr>"
          and fs = "j_failed j1" and ph = Ph_RollbackIntent]) (use that tx1 failed in \<open>auto simp: candidate_phase_def\<close>)
  have 3: "safe p anchor j1 (af_digest (tx_from t1))"
    by (rule safe_step [OF j1 tx1(1), where t' = t1 and fs = "j_failed j1" and ph = Ph_RollbackIntent, THEN conjunct1])
      (use tx1 failed in \<open>auto simp: candidate_phase_def\<close>)
  define r where "r = (if \<not> h_object_ok h (af_digest (tx_from t1)) then fails j1 (Recovery ''committed executable changed'')
     else case health h s (af_digest (tx_from t1)) of
       Inl e \<Rightarrow> fails j1 e
     | Inr (Some _) \<Rightarrow> (let j = j1\<lparr>j_phase := Ph_RolledBack\<rparr> in ([Save j], j, Inr ()))
     | Inr None \<Rightarrow>
         if \<not> tx_recovery_requested t1 \<or> tx_boot t1 \<noteq> h_boot h
         then let t' = t1\<lparr>tx_recovery_requested := True, tx_boot := h_boot h, tx_deadline_ms := h_clock h 3 + 60000\<rparr>;
                  j = j1\<lparr>j_transaction := Some t'\<rparr>
              in ([ActivePointer (af_digest (tx_from t1)), Marker ''restart'', Save j], j, Inr ())
         else if tx_deadline_ms t1 < h_clock h 3
         then fails j1 (Recovery ''rollback health not confirmed'') else ([], j1, Inr ()))"
  have "outcome_ok p anchor j1 (us_active s) r"
    using 1 2 3 health_active [of h s] unfolding r_def
    by (auto simp: outcome_ok_def fails_def Let_def split: sum.split option.split)
  then have "outcome_ok p anchor j (us_active s) (then_do es r)"
    using es by (intro outcome_then) simp_all
  moreover have "act_rollback h s t j =
      (if af_sequence (tx_from t) < j_hard_floor j then fails j (Recovery ''rollback baseline revoked'') else then_do es r)"
  proof -
    have "(if j_phase j \<noteq> Ph_RollbackIntent
       then let t' = t\<lparr>tx_rollback_consumed := True, tx_deadline_ms := h_clock h 2 + 60000\<rparr>;
                j' = j\<lparr>j_transaction := Some t', j_failed := j_failed j @ [af_digest (tx_to t)],
                       j_phase := Ph_RollbackIntent\<rparr>
            in ([Save j'], t', j')
       else ([], t, j)) = (es, t1, j1)"
      by (simp add: es_def j1_def t1_def Let_def)
    then show ?thesis
      unfolding act_rollback_def r_def by simp
  qed
  ultimately show ?thesis by simp
qed

lemma trial_evidence_ok:
  assumes "safe p anchor j (us_active s)" and "j_transaction j = Some t" and "j_phase j = Ph_Trial"
    and "evidence \<noteq> None \<longrightarrow> us_active s = af_digest (tx_to t)"
    and "trial_evidence h pol evidence t j = (es, t', j')"
  shows "trace_ok p anchor j (us_active s) es \<and> in_memory j es = j' \<and> active_after (us_active s) es = us_active s \<and>
    safe p anchor j' (us_active s) \<and> (j_phase j' = Ph_Trial \<longrightarrow> j_transaction j' = Some t')"
proof -
  note pending = safe_pending [OF assms(1,2)]
  have a: "us_active s = af_digest (tx_from t) \<or> us_active s = af_digest (tx_to t)"
    using assms pending(1) by (auto simp: safe_def)
  have 1: "safe p anchor (j\<lparr>j_transaction := Some u\<rparr>) (us_active s) \<and> grows j (j\<lparr>j_transaction := Some u\<rparr>)"
    if "tx_from u = tx_from t" "tx_to u = tx_to t" for u
    by (rule safe_step [OF assms(1,2), where t' = u and fs = "j_failed j" and ph = Ph_Trial])
      (use that assms(3) a in \<open>auto simp: candidate_phase_def\<close>)
  have 2: "safe p anchor k (us_active s) \<and> grows j k"
    if "k = j\<lparr>j_installed := tx_to t, j_phase := Ph_Committed\<rparr>" "us_active s = af_digest (tx_to t)" for k
  proof -
    have trial: "pl_minimum_sequence p \<le> af_sequence (j_installed j)" "af_digest (tx_to t) \<notin> set (j_failed j)"
      using assms(1,2,3) by (auto simp: safe_def candidate_phase_def)
    have newer: "af_sequence (j_installed j) < af_sequence (tx_to t)"
      using pending assms(3) by simp
    have "trust_ok p anchor k"
      using pending assms(2,3) newer unfolding that(1)
      by (auto simp: trust_ok_def transaction_rejected_def terminal_def)
    then show ?thesis
      using trial newer pending(5) assms(3) pending(1)
      by (auto simp: that safe_def candidate_phase_def grows_def)
  qed
  show ?thesis
  proof (cases evidence)
    case None
    then show ?thesis
      using assms(1,2,5) 1 by (auto simp: trial_evidence_def Let_def split: if_splits)
  next
    case (Some e)
    then have "us_active s = af_digest (tx_to t)"
      using assms(4) by simp
    then show ?thesis
      using assms(1,2,5) 1 2 Some by (auto simp: trial_evidence_def Let_def split: if_splits)
  qed
qed

lemma trial_ok:
  assumes "safe p anchor j (us_active s)" and "j_transaction j = Some t" and "j_phase j = Ph_Trial"
  shows "outcome_ok p anchor j (us_active s) (act_trial h pol s t j)"
proof (cases "tx_boot t \<noteq> h_boot h")
  case True
  then show ?thesis
    using rollback_ok [OF assms(1,2)] assms(3) by (simp add: act_trial_def)
next
  case False
  show ?thesis
  proof (cases "health h s (af_digest (tx_to t))")
    case (Inr evidence)
    obtain es t' j' where e: "trial_evidence h pol evidence t j = (es, t', j')"
      by (metis prod_cases3)
    have "evidence \<noteq> None \<longrightarrow> us_active s = af_digest (tx_to t)"
      using health_active Inr by blast
    note ok = trial_evidence_ok [OF assms this e]
    have "outcome_ok p anchor j' (us_active s)
        (if j_phase j' = Ph_Trial \<and> tx_deadline_ms t' < h_clock h 1 then act_rollback h s t' j' else ([], j', Inr ()))"
      using ok rollback_ok [of p anchor j' s t' h] by (simp add: outcome_ok_def)
    then have "outcome_ok p anchor j (us_active s) (then_do es
        (if j_phase j' = Ph_Trial \<and> tx_deadline_ms t' < h_clock h 1 then act_rollback h s t' j' else ([], j', Inr ())))"
      using ok by (intro outcome_then) simp_all
    then show ?thesis
      using False Inr e by (simp add: act_trial_def)
  qed (use False in \<open>simp add: act_trial_def\<close>)
qed

lemma reconcile_ok:
  assumes "safe p anchor j (us_active s)"
  shows "outcome_ok p anchor j (us_active s) (act_reconcile h pol s j)"
  using assms prepared_ok [OF assms] stopping_ok [OF assms] trial_ok [OF assms] rollback_ok [OF assms]
  unfolding act_reconcile_def
  by (cases "j_phase j") (auto simp: terminal_def outcome_ok_def [of p anchor j _ "([], j, Inr ())"]
      split: sum.split option.split)

lemma prepare_ok:
  assumes "safe p anchor j (us_active s)" and "art_ok to" and "af_sequence to \<le> j_seen_sequence j"
  shows "outcome_ok p anchor j (us_active s) (act_prepare h pol to s j)"
proof -
  define j' where "j' = (remote_bind to j)\<lparr>j_transaction := Some
      \<lparr>tx_from = j_installed (remote_bind to j), tx_to = to, tx_boot = h_boot h, tx_deadline_ms = h_clock h 0 + 30000,
       tx_old_invocation = h_agent h ''InvocationID'', tx_bridge_exit = h_preflight h exit_stamp,
       tx_rollback_consumed = False, tx_recovery_requested = False, tx_stable_since_ms = None,
       tx_stable_sample_ms = None, tx_stable_invocation = None\<rparr>, j_phase := Ph_Prepared\<rparr>"
  have "safe p anchor j' (us_active s) \<and> grows j j'"
    if "terminal (j_phase j)" "af_sequence (j_installed j) < af_sequence to" "af_digest to \<notin> set (j_failed j)"
      "length (j_failed j) < 64" "us_active s = af_digest (j_installed j)"
  proof -
    have "trust_ok p anchor j"
      using assms(1) that(1) by (auto simp: safe_def terminal_def)
    then have "trust_ok p anchor j'"
      using assms(2,3) that(2) by (simp add: trust_ok_def transaction_rejected_def j'_def remote_bind_def terminal_def not_le not_less)
    then show ?thesis
      using assms(1) that by (simp add: safe_def grows_def j'_def remote_bind_def candidate_phase_def)
  qed
  then show ?thesis
    unfolding act_prepare_def Let_def j'_def [symmetric]
    by (auto simp: outcome_ok_def fails_def store_active_def not_le)
qed

lemma latch_memory:
  "in_memory j (latch_failure j' e) = (if latch_failure j' e = [] then j else latched j') \<and>
   active_after a (latch_failure j' e) = a"
  by (simp add: latch_failure_def)

lemma latch_ok:
  assumes "safe p anchor (in_memory j es) (active_after a es)" and "grows j (in_memory j es)"
    and "safe p anchor j' (active_after a es)" and "grows j j'"
  shows "safe p anchor (in_memory j (es @ latch_failure j' e)) (active_after a (es @ latch_failure j' e)) \<and>
    grows j (in_memory j (es @ latch_failure j' e))"
  using assms safe_latched [OF assms(3)] latch_memory by (auto intro: grows_trans)

text \<open>After the effects the journal is safe, and nothing has gone back.\<close>

definition ends_ok :: "update_policy \<Rightarrow> string \<Rightarrow> journal \<Rightarrow> string \<Rightarrow> update_effect list \<Rightarrow> bool" where
  "ends_ok p anchor j a es \<longleftrightarrow>
     safe p anchor (in_memory j es) (active_after a es) \<and> grows j (in_memory j es)"

lemma ends_still:
  "safe p anchor j a \<Longrightarrow> in_memory j es = j \<Longrightarrow> active_after a es = a \<Longrightarrow> ends_ok p anchor j a es"
  by (simp add: ends_ok_def)

lemma with_latch_ok:
  assumes "safe p anchor j a" and "outcome_ok p anchor j a r"
  shows "ends_ok p anchor j a (with_latch flt j r)"
proof -
  have trace: "trace_ok p anchor j a (fst r)" and mem: "fst (snd r) = in_memory j (fst r)"
    using assms(2) by (simp_all add: outcome_ok_def)
  note prefix = trace_prefix [OF assms(1) trace] and all = trace_all [OF assms(1) trace]
  show ?thesis
  proof (cases flt)
    case NoFault
    then show ?thesis
      using all latch_ok [of p anchor j "fst r" a "in_memory j (fst r)"]
      by (auto simp: ends_ok_def with_latch_def mem split: sum.split)
  next
    case (FailsAt k)
    show ?thesis
    proof (cases "k < length (fst r)")
      case True
      have "safe p anchor (in_memory j (take k (fst r) @ latch_failure (in_memory j (take (Suc k) (fst r))) e))
          (active_after a (take k (fst r) @ latch_failure (in_memory j (take (Suc k) (fst r))) e)) \<and>
        grows j (in_memory j (take k (fst r) @ latch_failure (in_memory j (take (Suc k) (fst r))) e))" for e
        using prefix [of k] by (intro latch_ok) auto
      then show ?thesis
        using True FailsAt by (simp add: ends_ok_def with_latch_def del: in_memory_append active_after_append)
    next
      case False
      then show ?thesis
        using all FailsAt by (simp add: ends_ok_def with_latch_def)
    qed
  next
    case (KilledBefore k)
    then show ?thesis
      using prefix [of k] by (simp add: ends_ok_def with_latch_def)
  qed
qed

lemma direct_ok:
  assumes "safe p anchor j a" and "trace_ok p anchor j a es"
    and "\<And>flt'. ends_ok p anchor (in_memory j es) (active_after a es) (rest flt')"
  shows "ends_ok p anchor j a (direct flt es rest)"
proof -
  have whole: "ends_ok p anchor j a (es @ rest flt')" for flt'
    using assms(3) trace_all [OF assms(1,2)] by (auto simp: ends_ok_def intro: grows_trans)
  have part: "ends_ok p anchor j a (take k es)" for k
    using trace_prefix [OF assms(1,2), of k] by (simp add: ends_ok_def)
  show ?thesis
    by (simp add: direct_def whole part split: fault.split)
qed

lemma effects_ok:
  assumes "ends_ok p anchor (us_journal s) (us_active s) es"
  shows "safe p anchor (us_journal (fold perform es s)) (us_active (fold perform es s)) \<and>
    grows (us_journal s) (us_journal (fold perform es s))"
  using assms unfolding ends_ok_def using perform_state [of es s "us_journal s"] by auto

lemma load_journal: "store_load h p anchor s = Inr j \<Longrightarrow> j = us_journal s"
  by (auto simp: store_load_def Let_def split: sum.splits)

lemma safe_remote:
  "safe p anchor (j\<lparr>j_remote_update := u\<rparr>) a = safe p anchor j a \<and> grows j (j\<lparr>j_remote_update := u\<rparr>)"
  by (simp add: safe_def grows_def trust_ok_def transaction_rejected_def cong: option.case_cong)

lemma accept_ok:
  assumes "release_accept p g now j = Inr (j', c)" and "safe p anchor j a" and "terminal (j_phase j)"
    and "seq_ok (pl_minimum_sequence p)"
  shows "safe p anchor j' a \<and> grows j j' \<and> art_ok c \<and> af_sequence c \<le> j_seen_sequence j'"
proof -
  let ?r = "sg_release g"
  have r: "seq_ok (rl_release_sequence ?r)" "seq_ok (rl_min_rollback_sequence ?r)" "dig_ok (sg_hash g)"
      "j_seen_sequence j \<le> rl_release_sequence ?r"
      "rl_min_rollback_sequence ?r \<le> af_sequence (j_installed j)"
      and j': "j' = j\<lparr>j_seen_sequence := rl_release_sequence ?r, j_seen_digest := sg_hash g,
        j_hard_floor := max (max (j_hard_floor j) (rl_min_rollback_sequence ?r)) (pl_minimum_sequence p),
        j_time_high := max now (j_time_high j)\<rparr>"
      and c: "c = \<lparr>af_digest = sg_hash g, af_sequence = rl_release_sequence ?r\<rparr>"
    using assms(1) by (auto simp: release_accept_def Let_def checks_ok release_validate_def seq_ok_def dig_ok_def
        not_less split: sum.splits)
  have trust: "trust_ok p anchor j" and floors: "pl_minimum_sequence p \<le> af_sequence (j_installed j)"
      "j_hard_floor j \<le> af_sequence (j_installed j)"
    using assms(2,3) by (auto simp: safe_def terminal_def)
  let ?f = "max (max (j_hard_floor j) (rl_min_rollback_sequence ?r)) (pl_minimum_sequence p)"
  have f: "?f \<le> af_sequence (j_installed j)" "seq_ok ?f" "j_hard_floor j \<le> ?f"
    using floors r assms(4) trust by (auto simp: trust_ok_def max_def)
  have time: "max now (j_time_high j) \<noteq> 0"
    using trust by (auto simp: trust_ok_def max_def)
  have seen: "af_sequence (j_installed j) \<le> rl_release_sequence ?r"
    using trust r(4) by (auto simp: trust_ok_def intro: order_trans)
  have tx: "\<not> transaction_rejected j' t" if "j_transaction j = Some t" for t
  proof -
    have "\<not> transaction_rejected j t"
      using trust that by (simp add: trust_ok_def)
    then have "af_sequence (tx_from t) < af_sequence (tx_to t)" "af_sequence (tx_to t) \<le> j_seen_sequence j"
        "j_phase j = Ph_Committed \<or> tx_from t = j_installed j"
      by (auto simp: transaction_rejected_def not_le not_less)
    then show ?thesis
      using r(4) f(1) unfolding transaction_rejected_def j'
      by (auto simp del: max.bounded_iff simp: not_le not_less intro: order_trans)
  qed
  have trust': "trust_ok p anchor j'"
    using trust r(1,3) f(1,2) time seen tx unfolding trust_ok_def
    by (simp add: j' del: max.bounded_iff cong: option.case_cong split: option.split_asm)
  have same: "j_installed j' = j_installed j" "j_phase j' = j_phase j" "j_hard_floor j' = ?f"
    by (simp_all add: j')
  have phase: "\<not> candidate_phase (j_phase j)" "j_phase j \<noteq> Ph_RollbackIntent"
    using assms(3) by (auto simp: terminal_def candidate_phase_def)
  have active: "a = af_digest (j_installed j)"
    using assms(2,3) by (auto simp: safe_def terminal_def)
  have "safe p anchor j' a"
    using trust' floors(1) f(1) phase active unfolding safe_def same by blast
  moreover have "grows j j'"
    using f(3) by (simp add: grows_def j')
  ultimately show ?thesis
    using r(1,3) by (simp add: c j' art_ok_def)
qed

lemma apply_ok:
  assumes "safe p anchor (us_journal s) (us_active s)" and "seq_ok (pl_minimum_sequence p)"
  shows "ends_ok p anchor (us_journal s) (us_active s) (dispatch_apply applied flt h p anchor fetched s)"
proof (cases "store_load h p anchor s")
  case (Inr j)
  note j = load_journal [OF Inr]
  let ?a = "us_active s"
  have still: "ends_ok p anchor j ?a []"
    using assms(1) by (simp add: ends_still j)
  have "ends_ok p anchor j ?a (direct flt [Save j'] (\<lambda>flt.
      if applied \<and> c \<noteq> j_installed j' then with_latch flt j' (act_prepare h p c s j')
      else direct flt ((if applied then [Save (remote_up_to_date j')] else []) @ [RemovePending]) (\<lambda>_. [])))"
    if "release_accept p g (h_wall h) j = Inr (j', c)" and "terminal (j_phase j)" for g j' c
  proof (rule direct_ok)
    note ok = accept_ok [OF that(1) assms(1)[folded j] that(2) assms(2)]
    show "safe p anchor j ?a"
      using assms(1) by (simp add: j)
    show "trace_ok p anchor j ?a [Save j']"
      using ok by simp
    have "ends_ok p anchor j' ?a (with_latch flt' j' (act_prepare h p c s j'))" for flt'
      using ok by (intro with_latch_ok prepare_ok) simp_all
    moreover have "ends_ok p anchor j' ?a (direct flt'
        ((if applied then [Save (remote_up_to_date j')] else []) @ [RemovePending]) (\<lambda>_. []))" for flt'
      using ok safe_remote [where j = j' and a = ?a and p = p and anchor = anchor]
      by (intro direct_ok) (auto simp: ends_ok_def remote_up_to_date_def)
    ultimately show "ends_ok p anchor (in_memory j [Save j']) (active_after ?a [Save j'])
        (if applied \<and> c \<noteq> j_installed j' then with_latch flt' j' (act_prepare h p c s j')
         else direct flt' ((if applied then [Save (remote_up_to_date j')] else []) @ [RemovePending]) (\<lambda>_. []))" for flt'
      by simp
  qed
  then show ?thesis
    using still Inr by (auto simp: dispatch_apply_def j [symmetric] split: sum.split)
qed (use assms in \<open>simp add: dispatch_apply_def ends_ok_def\<close>)

lemma recover_ok:
  assumes "safe p anchor j a" and "recover_download j = (es, j')"
  shows "trace_ok p anchor j a es \<and> in_memory j es = j' \<and> active_after a es = a \<and> safe p anchor j' a"
  using assms safe_remote [where j = j and a = a and p = p and anchor = anchor]
  by (auto simp: recover_download_def Let_def split: option.splits if_splits)

lemma dispatch_reconcile_ok:
  assumes "safe p anchor (us_journal s) (us_active s)"
  shows "ends_ok p anchor (us_journal s) (us_active s) (dispatch_reconcile boot flt h p anchor s)"
proof (cases "store_load h p anchor s")
  case (Inr j)
  note j = load_journal [OF Inr]
  let ?es = "if boot then [ClearMarkers] else []"
  let ?s1 = "fold perform ?es s"
  obtain es' j' where rec: "recover_download j = (es', j')"
    by (cases "recover_download j")
  have s1: "us_active ?s1 = us_active s"
    by simp
  note ok = recover_ok [OF assms [folded j] rec]
  have 1: "ends_ok p anchor j (us_active s) (direct flt (?es @ es') (\<lambda>flt. with_latch flt j' (act_reconcile h p ?s1 j')))"
  proof (rule direct_ok)
    show "safe p anchor j (us_active s)"
      using assms by (simp add: j)
    show "trace_ok p anchor j (us_active s) (?es @ es')"
      using ok by (simp add: trace_append)
    have "ends_ok p anchor j' (us_active s) (with_latch flt' j' (act_reconcile h p ?s1 j'))" for flt'
      using ok reconcile_ok [of p anchor j' ?s1 h p] s1 by (intro with_latch_ok) simp_all
    moreover have "in_memory j (?es @ es') = j'" "active_after (us_active s) (?es @ es') = us_active s"
      using ok by simp_all
    ultimately show "ends_ok p anchor (in_memory j (?es @ es')) (active_after (us_active s) (?es @ es'))
        (with_latch flt' j' (act_reconcile h p ?s1 j'))" for flt'
      by (simp only:)
  qed
  have 2: "ends_ok p anchor j (us_active s) (direct flt (?es @ (if terminal (j_phase j) then [RemovePending] else [])) (\<lambda>_. []))"
    using assms by (intro direct_ok) (simp_all add: j ends_ok_def trace_append)
  have 3: "ends_ok p anchor j (us_active s) []"
    using assms by (simp add: ends_still j)
  show ?thesis
    using Inr 1 2 3 rec unfolding dispatch_reconcile_def j [symmetric]
    by (cases boot; cases "terminal (j_phase j)") (simp_all add: Let_def split: sum.split gate_decision.split)
qed (use assms in \<open>simp add: dispatch_reconcile_def ends_ok_def\<close>)

definition update_inv :: "update_policy \<Rightarrow> string \<Rightarrow> update_store \<Rightarrow> bool" where
  "update_inv p anchor s \<longleftrightarrow> safe p anchor (us_journal s) (us_active s) \<and> seq_ok (pl_minimum_sequence p)"

lemma event_effects_ok:
  assumes "update_inv p anchor s" and "update_event_ok e"
  shows "ends_ok p anchor (us_journal s) (us_active s) (event_effects p anchor e s)"
proof -
  have safe: "safe p anchor (us_journal s) (us_active s)" and seq: "seq_ok (pl_minimum_sequence p)"
    using assms(1) by (simp_all add: update_inv_def)
  show ?thesis
  proof (cases e)
    case (ReconcileEvent boot flt h)
    then show ?thesis using dispatch_reconcile_ok [OF safe] by simp
  next
    case (ApplyEvent app flt h fetched)
    then show ?thesis using apply_ok [OF safe seq] by simp
  next
    case (RemoteBeginEvent k q h)
    have "trace_ok p anchor (us_journal s) (us_active s) (remote_begin q h p anchor s)"
      using safe safe_remote [where j = "us_journal s" and a = "us_active s" and p = p and anchor = anchor]
      by (auto simp: remote_begin_def remote_accept_def Let_def dest!: load_journal split: sum.split)
    from trace_prefix [OF safe this, of k] show ?thesis
      using RemoteBeginEvent by (simp add: ends_ok_def)
  next
    case (RemoteEndEvent result h)
    then show ?thesis
      using safe safe_remote [where j = "us_journal s" and a = "us_active s" and p = p and anchor = anchor]
      by (auto simp: ends_ok_def remote_end_def remote_finish_def dest!: load_journal split: sum.split)
  next
    case (ResetFloorEvent confirmed h)
    have "safe p anchor ((us_journal s)\<lparr>j_time_high := h_wall h\<rparr>) (us_active s)"
      using safe assms(2) ResetFloorEvent
      by (simp add: safe_def trust_ok_def transaction_rejected_def cong: option.case_cong) blast
    moreover have "grows (us_journal s) ((us_journal s)\<lparr>j_time_high := h_wall h\<rparr>)"
      by (simp add: grows_def)
    ultimately show ?thesis
      using safe ResetFloorEvent
      by (auto simp: ends_ok_def reset_time_floor_def floor_plan_def dest!: load_journal split: sum.split)
  next
    case (ConsumeMarkerEvent m)
    then show ?thesis using safe by (simp add: ends_ok_def)
  qed
qed

lemma update_step_ok:
  assumes "update_inv p anchor s" and "update_event_ok e"
  shows "update_inv p anchor (update_step p anchor e s) \<and>
    grows (us_journal s) (us_journal (update_step p anchor e s))"
proof (cases "\<exists>m. e = ConsumeMarkerEvent m")
  case True
  then show ?thesis using assms(1) by (auto simp: update_step_def update_inv_def)
next
  case False
  then have "update_step p anchor e s = fold perform (event_effects p anchor e s) s"
    by (cases e) (simp_all add: update_step_def)
  then show ?thesis
    using effects_ok [OF event_effects_ok [OF assms]]
      assms(1) by (simp add: update_inv_def)
qed

interpretation updater: machine "update_step p anchor" "update_inv p anchor" update_event_ok for p anchor
  by unfold_locales (rule update_step_ok [THEN conjunct1])

lemma run_grows:
  assumes "update_inv p anchor s" and "list_all update_event_ok es"
  shows "grows (us_journal s) (us_journal (fold (update_step p anchor) es s))"
  using assms
proof (induction es arbitrary: s)
  case (Cons e es)
  then show ?case
    using update_step_ok [OF Cons(2), of e] Cons(1) [of "update_step p anchor e s"]
    by (auto intro: grows_trans)
qed simp


section \<open>What an enrolled host runs\<close>

text \<open>\<open>Store::initialize\<close>: the enrolled baseline is installed and active.\<close>

definition enrolled :: "update_policy \<Rightarrow> string \<Rightarrow> u64 \<Rightarrow> update_store" where
  "enrolled p anchor now =
     \<lparr>us_journal = initial_journal p anchor now, us_active = pl_baseline_sha256 p,
      us_candidate = pl_baseline_sha256 p, us_markers = [], us_pending = False, us_recovery_required = False\<rparr>"

lemma policy_floors:
  assumes "validate_policy arch os p = Inr ()"
  shows "dig_ok (pl_baseline_sha256 p)" and "seq_ok (pl_baseline_sequence p)"
    and "seq_ok (pl_minimum_sequence p)" and "pl_minimum_sequence p \<le> pl_baseline_sequence p"
  using assms by (simp_all add: validate_policy_def validate_paused_def checks_ok dig_ok_def seq_ok_def not_less)

lemma enrolled_inv:
  assumes "validate_policy arch os p = Inr ()" and "now \<noteq> 0"
  shows "update_inv p anchor (enrolled p anchor now)"
proof -
  have "trust_ok p anchor (initial_journal p anchor now)"
    using assms(2) policy_floors [OF assms(1)]
    by (simp add: trust_ok_def initial_journal_def art_ok_def terminal_def)
  then show ?thesis
    using policy_floors [OF assms(1)]
    by (simp add: update_inv_def safe_def enrolled_def initial_journal_def candidate_phase_def)
qed

lemma enrolled_run:
  assumes "validate_policy arch os p = Inr ()" and "now \<noteq> 0" and "list_all update_event_ok es"
  shows "update_inv p anchor (fold (update_step p anchor) es (enrolled p anchor now))"
  using updater.run_inv [OF enrolled_inv [OF assms(1,2)] assms(3)] .

subsection \<open>The remote request in the journal\<close>

text \<open>A request is accepted while the wall clock and the end of its cooldown fit the 53 bits of the protocol.\<close>

fun clock_in_range :: "update_event \<Rightarrow> bool" where
  "clock_in_range (RemoteBeginEvent k q h) = (sat_add (h_wall h) UPDATE_COOLDOWN_SECS < push_bit 53 1)"
| "clock_in_range _ = True"

text \<open>What every handler keeps of a remote request; saving the journal refreshes the rest of its status.\<close>

definition remote_sane :: "remote_update \<Rightarrow> bool" where
  "remote_sane u \<longleftrightarrow> request_valid (ru_request u) (ru_accepted_at u) \<and>
     sat_add (ru_accepted_at u) UPDATE_COOLDOWN_SECS < push_bit 53 1 \<and>
     st_request_id (ru_status u) = Some (uq_request_id (ru_request u)) \<and>
     st_updated_at (ru_status u) < push_bit 53 1 \<and>
     opt_all seq_ok (st_target_sequence (ru_status u)) \<and> opt_all dig_ok (ru_target u)"

abbreviation sane :: "journal \<Rightarrow> bool" where
  "sane j \<equiv> opt_all remote_sane (j_remote_update j)"

definition sane_saves :: "update_effect list \<Rightarrow> bool" where
  "sane_saves es \<longleftrightarrow> (\<forall>j. Save j \<in> set es \<longrightarrow> sane j)"

lemma sane_simps [simp]:
  "sane_saves []" "sane_saves (Save j # es) \<longleftrightarrow> sane j \<and> sane_saves es"
  "sane_saves (ActivePointer d # es) = sane_saves es" "sane_saves (CandidatePointer d # es) = sane_saves es"
  "sane_saves (SetPending # es) = sane_saves es" "sane_saves (RemovePending # es) = sane_saves es"
  "sane_saves (Marker m # es) = sane_saves es" "sane_saves (ClearMarkers # es) = sane_saves es"
  "sane_saves (RequireRecovery # es) = sane_saves es" "sane_saves (es @ fs) \<longleftrightarrow> sane_saves es \<and> sane_saves fs"
  by (auto simp: sane_saves_def)

lemma sane_take: "sane_saves es \<Longrightarrow> sane_saves (take k es)"
  by (auto simp: sane_saves_def dest: in_set_takeD)

lemma sane_memory: "sane j \<Longrightarrow> sane_saves es \<Longrightarrow> sane (in_memory j es)"
  by (induction j es rule: in_memory.induct) auto

lemma sane_latch: "sane j \<Longrightarrow> sane_saves (latch_failure j e)"
  by (simp add: latch_failure_def latched_def)

text \<open>What saving the journal writes into the status.\<close>

definition refreshed :: "journal \<Rightarrow> bool" where
  "refreshed j = opt_all (\<lambda>u.
     st_installed_sequence (ru_status u) = Some (af_sequence (j_installed j)) \<and>
     st_next_request_at (ru_status u) = sat_add (ru_accepted_at u) UPDATE_COOLDOWN_SECS \<and>
     st_channel (ru_status u) = Some (j_channel j)) (j_remote_update j)"

lemma result_status_fields:
  "st_installed_sequence (result_status j) = Some (af_sequence (j_installed j))"
  "st_channel (result_status j) = Some (j_channel j)"
  "j_remote_update j = Some u \<Longrightarrow>
    st_next_request_at (result_status j) = sat_add (ru_accepted_at u) UPDATE_COOLDOWN_SECS \<and>
    st_request_id (result_status j) = st_request_id (ru_status u) \<and>
    st_updated_at (result_status j) = st_updated_at (ru_status u) \<and>
    st_target_sequence (result_status j) = st_target_sequence (ru_status u)"
  by (simp_all add: result_status_def Let_def)

lemma refreshed_snapshot [simp]: "refreshed (snapshot j)"
  by (cases "j_remote_update j") (simp_all add: snapshot_def refreshed_def opt_all_def result_status_fields)

lemma sane_snapshot [simp]: "sane (snapshot j) = sane j"
  by (cases "j_remote_update j") (simp_all add: snapshot_def opt_all_def remote_sane_def result_status_fields)

lemma sane_validates:
  assumes "refreshed j" and "sane j" and "trust_ok p anchor j"
    and "pl_channel p = ''stable'' \<or> pl_channel p = ''testing''"
  shows "remote_validate j = Inr ()"
proof (cases "j_remote_update j")
  case (Some u)
  have sane: "remote_sane u"
    using assms(2) Some by (simp add: opt_all_def)
  have seq: "seq_ok v \<Longrightarrow> 0 < v \<and> v < push_bit 53 1" for v
    by (simp add: seq_ok_def sanitize_sequence_def word_neq_0_conv not_le)
  have "j_channel j = pl_channel p" "seq_ok (af_sequence (j_installed j))"
    using assms(3) by (simp_all add: trust_ok_def art_ok_def)
  then have st: "st_installed_sequence (ru_status u) = Some (af_sequence (j_installed j))"
      "st_next_request_at (ru_status u) = sat_add (ru_accepted_at u) UPDATE_COOLDOWN_SECS"
      "st_channel (ru_status u) = Some (pl_channel p)" "0 < af_sequence (j_installed j)"
      "af_sequence (j_installed j) < push_bit 53 1"
    using assms(1) seq by (simp_all add: refreshed_def Some opt_all_def)
  have target: "opt_all (\<lambda>q. 0 < q \<and> q < push_bit 53 1) (st_target_sequence (ru_status u))"
    using sane seq by (cases "st_target_sequence (ru_status u)") (auto simp: remote_sane_def opt_all_def)
  have "valid_request_id (uq_request_id (ru_request u))"
    using sane by (simp add: remote_sane_def request_valid_def)
  then have "status_valid (ru_status u)"
    using sane target st assms(4) unfolding status_valid_def remote_sane_def by (simp add: opt_all_def)
  moreover have "request_valid (ru_request u) (ru_accepted_at u)"
      "st_request_id (ru_status u) = Some (uq_request_id (ru_request u))" "opt_all dig_ok (ru_target u)"
    using sane by (simp_all add: remote_sane_def)
  ultimately show ?thesis
    by (cases "ru_target u") (simp_all add: remote_validate_def Some opt_all_def dig_ok_def checks_ok)
qed (simp add: remote_validate_def)

lemma sane_rollback: "sane j \<Longrightarrow> sane_saves (fst (act_rollback h s t j))"
  by (simp add: act_rollback_def Let_def then_do_def fails_def split: sum.split option.split prod.split)

lemma sane_trial:
  assumes "sane j"
  shows "sane_saves (fst (act_trial h p s t j))"
proof -
  have ev: "sane_saves es \<and> sane j'" if "trial_evidence h p ev t j = (es, t', j')" for ev es t' j'
    using that assms by (auto simp: trial_evidence_def Let_def split: option.splits if_splits)
  show ?thesis
    using assms sane_rollback
    by (auto simp: act_trial_def fails_def then_do_def dest: ev split: sum.split prod.split)
qed

lemma sane_prepared: "sane j \<Longrightarrow> sane_saves (fst (act_prepared h s t j))"
  by (simp add: act_prepared_def Let_def fails_def split: sum.split)

lemma sane_stopping: "sane j \<Longrightarrow> sane_saves (fst (act_stopping h p s t j))"
  by (simp add: act_stopping_def Let_def fails_def split: sum.split bool.split)

lemma sane_reconcile: "sane j \<Longrightarrow> sane_saves (fst (act_reconcile h p s j))"
  using sane_prepared sane_stopping sane_trial sane_rollback unfolding act_reconcile_def
  by (cases "j_phase j") (auto simp: fails_def split: sum.splits option.splits if_splits)

lemma sane_prepare:
  assumes "sane j" and "art_ok to"
  shows "sane_saves (fst (act_prepare h p to s j))"
proof -
  have "sane (remote_bind to j)"
    using assms by (cases "j_remote_update j") (auto simp: remote_bind_def opt_all_def remote_sane_def art_ok_def)
  then show ?thesis
    by (simp add: act_prepare_def Let_def fails_def split: sum.split)
qed

lemma sane_with_latch:
  assumes "sane j" and "sane_saves (fst r)" and "fst (snd r) = in_memory j (fst r)"
  shows "sane_saves (with_latch flt j r)"
proof -
  have "sane_saves (latch_failure (in_memory j (take k (fst r))) e)" "sane_saves (latch_failure (in_memory j (fst r)) e)" for k e
    by (intro sane_latch sane_memory assms sane_take)+
  then show ?thesis
    using assms sane_take [OF assms(2)] by (simp add: with_latch_def split: fault.split sum.split)
qed

lemma sane_direct:
  assumes "sane_saves es" and "\<And>flt'. sane_saves (rest flt')"
  shows "sane_saves (direct flt es rest)"
  using assms sane_take [OF assms(1)] by (simp add: direct_def split: fault.split)

lemma sane_apply:
  assumes "update_inv p anchor s" and "sane (us_journal s)"
  shows "sane_saves (dispatch_apply applied flt h p anchor fetched s)"
proof (cases "store_load h p anchor s")
  case (Inr j)
  note j = load_journal [OF Inr]
  have "sane_saves (direct flt [Save j'] (\<lambda>flt.
      if applied \<and> c \<noteq> j_installed j' then with_latch flt j' (act_prepare h p c s j')
      else direct flt ((if applied then [Save (remote_up_to_date j')] else []) @ [RemovePending]) (\<lambda>_. [])))"
    if "release_accept p g (h_wall h) j = Inr (j', c)" "terminal (j_phase j)" for g j' c
  proof (rule sane_direct)
    have "j_remote_update j' = j_remote_update j"
      using that by (auto simp: release_accept_def Let_def split: sum.splits)
    then have same: "sane j'"
      using assms(2) by (simp add: j)
    then show "sane_saves [Save j']"
      by simp
    have "art_ok c"
      using accept_ok [OF that(1) _ that(2), of anchor "us_active s"] assms(1) by (simp add: update_inv_def j)
    moreover have "fst (snd (act_prepare h p c s j')) = in_memory j' (fst (act_prepare h p c s j'))"
      by (simp add: act_prepare_def Let_def fails_def split: sum.split)
    ultimately have 1: "sane_saves (with_latch flt' j' (act_prepare h p c s j'))" for flt'
      using sane_with_latch [OF same sane_prepare [OF same]] by blast
    have "sane (remote_up_to_date j')"
      using same by (cases "j_remote_update j'") (auto simp: remote_up_to_date_def opt_all_def remote_sane_def)
    then have 2: "sane_saves (direct flt'
        ((if applied then [Save (remote_up_to_date j')] else []) @ [RemovePending]) (\<lambda>_. []))" for flt'
      by (intro sane_direct) simp_all
    show "sane_saves (if applied \<and> c \<noteq> j_installed j' then with_latch flt' j' (act_prepare h p c s j')
        else direct flt' ((if applied then [Save (remote_up_to_date j')] else []) @ [RemovePending]) (\<lambda>_. []))" for flt'
      using 1 2 by simp
  qed
  then show ?thesis
    using Inr by (simp add: dispatch_apply_def j [symmetric] split: sum.split prod.split)
qed (simp add: dispatch_apply_def)

lemma sane_recover: "sane j \<Longrightarrow> recover_download j = (es, j') \<Longrightarrow> sane_saves es \<and> sane j'"
  by (auto simp: recover_download_def Let_def opt_all_def remote_sane_def split: option.splits if_splits)

lemma sane_dispatch_reconcile:
  assumes "update_inv p anchor s" and "sane (us_journal s)"
  shows "sane_saves (dispatch_reconcile boot flt h p anchor s)"
proof (cases "store_load h p anchor s")
  case (Inr j)
  note j = load_journal [OF Inr]
  let ?es = "if boot then [ClearMarkers] else []"
  let ?s1 = "fold perform ?es s"
  obtain es' j' where rec: "recover_download j = (es', j')"
    by (cases "recover_download j")
  have safe: "safe p anchor j (us_active s)"
    using assms(1) by (simp add: update_inv_def j)
  have sane: "sane_saves es'" "sane j'"
    using sane_recover [OF _ rec] assms(2) by (simp_all add: j)
  have "fst (snd (act_reconcile h p ?s1 j')) = in_memory j' (fst (act_reconcile h p ?s1 j'))"
    using reconcile_ok [of p anchor j' ?s1 h p] recover_ok [OF safe rec] by (simp add: outcome_ok_def)
  then have "sane_saves (with_latch flt' j' (act_reconcile h p ?s1 j'))" for flt'
    by (intro sane_with_latch sane sane_reconcile)
  then have run: "sane_saves (direct flt (?es @ es') (\<lambda>flt. with_latch flt j' (act_reconcile h p ?s1 j')))"
    using sane(1) by (intro sane_direct) simp_all
  have idle: "sane_saves (direct flt (?es @ (if terminal (j_phase j) then [RemovePending] else [])) (\<lambda>_. []))"
    by (intro sane_direct) simp_all
  show ?thesis
    using Inr run idle rec unfolding dispatch_reconcile_def
    by (cases boot; cases "terminal (j_phase j)") (simp_all add: Let_def split: sum.split gate_decision.split)
qed (simp add: dispatch_reconcile_def)

lemma sane_finish: "sane j \<Longrightarrow> sane (remote_finish result j)"
  by (cases "j_remote_update j") (simp_all add: remote_finish_def opt_all_def remote_sane_def split: sum.split)

lemma sane_accept:
  assumes "remote_accept q p now j = Inr j'" and "sat_add now UPDATE_COOLDOWN_SECS < push_bit 53 1"
  shows "sane j'"
proof -
  have "request_valid q now" "now < uq_expires_at q" "uq_expires_at q < push_bit 53 1"
    using assms(1) by (auto simp: remote_accept_def request_valid_def split: if_splits)
  then have "now < push_bit 53 1"
    using less_trans by blast
  then show ?thesis
    using assms \<open>request_valid q now\<close>
    by (auto simp: remote_accept_def Let_def opt_all_def remote_sane_def split: if_splits)
qed

lemma sane_event:
  assumes "update_inv p anchor s" and "sane (us_journal s)" and "clock_in_range e"
  shows "sane_saves (event_effects p anchor e s)"
proof (cases e)
  case (RemoteBeginEvent k q h)
  have "sane_saves (remote_begin q h p anchor s)"
    using sane_accept assms(3) RemoteBeginEvent by (auto simp: remote_begin_def split: sum.split)
  then show ?thesis
    using RemoteBeginEvent sane_take by simp
next
  case (RemoteEndEvent result h)
  then show ?thesis
    using sane_finish assms(2) by (auto simp: remote_end_def dest!: load_journal split: sum.split)
next
  case (ResetFloorEvent confirmed h)
  then show ?thesis
    using assms(2) by (auto simp: reset_time_floor_def dest!: load_journal split: sum.split floor_reset.split)
qed (use sane_apply sane_dispatch_reconcile assms in simp_all)

definition journal_inv :: "update_policy \<Rightarrow> string \<Rightarrow> update_store \<Rightarrow> bool" where
  "journal_inv p anchor s \<longleftrightarrow> update_inv p anchor s \<and> sane (us_journal s) \<and> refreshed (us_journal s)"

lemma refreshed_perform: "refreshed (us_journal s) \<Longrightarrow> refreshed (us_journal (fold perform es s))"
proof (induction es arbitrary: s)
  case (Cons e es)
  then show ?case by (cases e) auto
qed simp

lemma journal_step:
  assumes "journal_inv p anchor s" and "update_event_ok e \<and> clock_in_range e"
  shows "journal_inv p anchor (update_step p anchor e s)"
proof -
  have inv: "update_inv p anchor s" "sane (us_journal s)" "refreshed (us_journal s)"
    using assms(1) by (simp_all add: journal_inv_def)
  have "sane (in_memory (us_journal s) (event_effects p anchor e s))"
    using assms(2) by (intro sane_memory inv sane_event) simp_all
  then have "sane (us_journal (update_step p anchor e s))"
    using perform_state [of "event_effects p anchor e s" s "us_journal s"] inv(2)
    by (cases e) (auto simp: update_step_def)
  moreover have "refreshed (us_journal (update_step p anchor e s))"
    using refreshed_perform [OF inv(3)] inv(3) by (cases e) (simp_all add: update_step_def)
  ultimately show ?thesis
    using update_step_ok [OF inv(1)] assms(2) by (simp add: journal_inv_def)
qed

interpretation journals: machine "update_step p anchor" "journal_inv p anchor" "\<lambda>e. update_event_ok e \<and> clock_in_range e" for p anchor
  by unfold_locales (rule journal_step)

lemma enrolled_journal:
  assumes "validate_policy arch os p = Inr ()" and "now \<noteq> 0" and "list_all update_event_ok es" and "list_all clock_in_range es"
  shows "journal_inv p anchor (fold (update_step p anchor) es (enrolled p anchor now))"
proof (rule journals.run_inv)
  show "journal_inv p anchor (enrolled p anchor now)"
    using enrolled_inv [OF assms(1,2)]
    by (simp add: journal_inv_def refreshed_def enrolled_def initial_journal_def opt_all_def)
  show "list_all (\<lambda>e. update_event_ok e \<and> clock_in_range e) es"
    using assms(3,4) by (simp add: list_all_iff)
qed

text \<open>C4: From enrolment on under one enabled policy, whatever commands run, whatever they observe and wherever
  they are killed or fail: the active executable is the installed release or, only during a trial, its
  rollback or a latched recovery, the candidate of the pending transaction; the installed release never
  falls below the hard floor nor the policy's minimum; and unless recovery is latched the journal passes its
  whole validation, that of the remote request included, as long as no request is accepted with a wall
  clock within 300 seconds of 2^53.\<close>

theorem updater_runs_an_authorised_release:
  assumes "validate_policy arch os p = Inr ()" and "now \<noteq> 0" and "list_all update_event_ok es"
    and "list_all clock_in_range es"
  shows "let s = fold (update_step p anchor) es (enrolled p anchor now); j = us_journal s in
    pl_minimum_sequence p \<le> j_hard_floor j \<and> j_hard_floor j \<le> af_sequence (j_installed j) \<and>
    (j_phase j = Ph_ManualRecovery \<or> journal_validate p anchor j = Inr ()) \<and>
    (us_active s = af_digest (j_installed j) \<or>
     (j_phase j = Ph_Trial \<or> j_phase j = Ph_RollbackIntent \<or> j_phase j = Ph_ManualRecovery) \<and>
     map_option (\<lambda>t. af_digest (tx_to t)) (j_transaction j) = Some (us_active s))"
proof -
  let ?s = "fold (update_step p anchor) es (enrolled p anchor now)"
  have floor: "pl_minimum_sequence p \<le> j_hard_floor (us_journal ?s)"
    using run_grows [OF enrolled_inv [OF assms(1,2)] assms(3)]
    by (simp add: grows_def enrolled_def initial_journal_def)
  have channel: "pl_channel p = ''stable'' \<or> pl_channel p = ''testing''"
    using assms(1) by (auto simp: validate_policy_def validate_paused_def checks_ok)
  have inv: "refreshed (us_journal ?s)" "sane (us_journal ?s)" "safe p anchor (us_journal ?s) (us_active ?s)"
    using enrolled_journal [OF assms] by (simp_all add: journal_inv_def update_inv_def)
  have "journal_validate p anchor (us_journal ?s) = Inr ()" if "trust_ok p anchor (us_journal ?s)"
    using sane_validates [OF inv(1,2) that channel] that
    by (simp add: journal_validate_def checks_ok scope_validate_iff)
  then show ?thesis
    using floor inv(3) unfolding Let_def safe_def by blast
qed

text \<open>C5: Once the rollback of a candidate has begun, the release is recorded as failed and is installed in no
  later run; the installed sequence and the hard floor never go back.\<close>

theorem rolled_back_release_never_installed:
  assumes "validate_policy arch os p = Inr ()" and "now \<noteq> 0" and "list_all update_event_ok (es @ fs)"
    and "j = us_journal (fold (update_step p anchor) es (enrolled p anchor now))"
    and "j' = us_journal (fold (update_step p anchor) (es @ fs) (enrolled p anchor now))"
    and "j_phase j = Ph_RollbackIntent" and "j_transaction j = Some t"
  shows "af_digest (tx_to t) \<in> set (j_failed j') \<and> j_installed j' \<noteq> tx_to t \<and>
    af_sequence (j_installed j) \<le> af_sequence (j_installed j') \<and> j_hard_floor j \<le> j_hard_floor j'"
proof -
  have inv: "update_inv p anchor (fold (update_step p anchor) es (enrolled p anchor now))"
    using assms(3) by (intro enrolled_run [OF assms(1,2)]) simp
  then have safe: "safe p anchor j (us_active (fold (update_step p anchor) es (enrolled p anchor now)))"
    by (simp add: update_inv_def assms(4))
  have grows: "grows j j'"
    using run_grows [OF inv, of fs] assms(3) by (simp add: assms(4,5))
  have failed: "af_digest (tx_to t) \<in> set (j_failed j)"
    using safe assms(6,7) by (simp add: safe_def)
  have "j_installed j \<noteq> tx_to t"
    using safe_pending(1,3) [OF safe assms(7)] assms(6) by auto
  then show ?thesis
    using grows failed by (auto simp: grows_def)
qed

section \<open>What installs a release\<close>

text \<open>The handlers but the trial leave the installed release as it is.\<close>

definition keeps :: "artifact \<Rightarrow> update_effect list \<Rightarrow> bool" where
  "keeps a es \<longleftrightarrow> (\<forall>j. Save j \<in> set es \<longrightarrow> j_installed j = a)"

lemma keeps_simps [simp]:
  "keeps a []" "keeps a (Save j # es) \<longleftrightarrow> j_installed j = a \<and> keeps a es"
  "keeps a (ActivePointer d # es) = keeps a es" "keeps a (CandidatePointer d # es) = keeps a es"
  "keeps a (SetPending # es) = keeps a es" "keeps a (RemovePending # es) = keeps a es"
  "keeps a (Marker m # es) = keeps a es" "keeps a (ClearMarkers # es) = keeps a es"
  "keeps a (RequireRecovery # es) = keeps a es" "keeps a (es @ fs) \<longleftrightarrow> keeps a es \<and> keeps a fs"
  by (auto simp: keeps_def)

lemma keeps_take: "keeps a es \<Longrightarrow> keeps a (take k es)"
  by (auto simp: keeps_def dest: in_set_takeD)

lemma keeps_memory: "keeps (j_installed j) es \<Longrightarrow> j_installed (in_memory j es) = j_installed j"
  by (induction j es rule: in_memory.induct) auto

lemma keeps_latch: "keeps (j_installed j) (latch_failure j e)"
  by (simp add: latch_failure_def latched_def)

lemma keeps_fails [simp]: "keeps a (fst (fails j e))"
  by (simp add: fails_def)

lemma keeps_prepared: "keeps (j_installed j) (fst (act_prepared h s t j))"
  by (simp add: act_prepared_def Let_def split: sum.split)

lemma keeps_stopping: "keeps (j_installed j) (fst (act_stopping h p s t j))"
  by (simp add: act_stopping_def Let_def split: sum.split bool.split)

lemma keeps_rollback: "keeps (j_installed j) (fst (act_rollback h s t j))"
  by (simp add: act_rollback_def Let_def then_do_def split: sum.split option.split prod.split)

lemma keeps_prepare: "keeps (j_installed j) (fst (act_prepare h p to s j))"
  by (simp add: act_prepare_def Let_def remote_bind_def split: sum.split)

lemma health_evidence:
  assumes "health h s d = Inr (Some e)"
  shows "h_evidence h = Some e" and "h_agent h ''ActiveState'' = ''active''" and "us_active s = d"
    and "uh_executable_sha256 e = d" and "uh_invocation e = h_agent h ''InvocationID''"
    and "uh_pid e = h_agent h ''MainPID''"
  using assms by (auto simp: health_def store_active_def Let_def split: if_splits sum.splits option.splits)

lemma trial_keeps:
  assumes "keeps (j_installed j) (fst (act_trial h p s t j)) \<Longrightarrow> False"
  obtains e where "tx_boot t = h_boot h" and "health h s (af_digest (tx_to t)) = Inr (Some e)"
    and "uh_invocation e \<noteq> tx_old_invocation t" and "tx_stable_invocation t = Some (uh_invocation e)"
    and "stable_long_enough h p t e"
    and "act_trial h p s t j =
      (let j' = j\<lparr>j_installed := tx_to t, j_phase := Ph_Committed\<rparr> in ([Save j'], j', Inr ()))"
proof (cases "tx_boot t = h_boot h")
  case True
  show ?thesis
  proof (cases "health h s (af_digest (tx_to t))")
    case (Inr ev)
    obtain es t' j' where e: "trial_evidence h p ev t j = (es, t', j')"
      by (metis prod_cases3)
    have trial: "act_trial h p s t j = then_do es
        (if j_phase j' = Ph_Trial \<and> tx_deadline_ms t' < h_clock h 1 then act_rollback h s t' j' else ([], j', Inr ()))"
      using True Inr e by (simp add: act_trial_def)
    show ?thesis
    proof (cases "\<exists>x. ev = Some x \<and> uh_invocation x \<noteq> tx_old_invocation t \<and>
        tx_stable_invocation t = Some (uh_invocation x) \<and> stable_long_enough h p t x")
      case commit: True
      then obtain x where x: "ev = Some x" "uh_invocation x \<noteq> tx_old_invocation t"
          "tx_stable_invocation t = Some (uh_invocation x)" "stable_long_enough h p t x"
        by blast
      then have "act_trial h p s t j =
          (let j' = j\<lparr>j_installed := tx_to t, j_phase := Ph_Committed\<rparr> in ([Save j'], j', Inr ()))"
        using trial e by (auto simp: trial_evidence_def then_do_def Let_def)
      then show ?thesis
        using that [of x] True Inr x by simp
    next
      case no: False
      have "j_installed j' = j_installed j \<and> keeps (j_installed j) es"
        using e no by (auto simp: trial_evidence_def Let_def split: option.splits if_splits)
      then have "keeps (j_installed j) (fst (act_trial h p s t j))"
        using keeps_rollback [of j' h s t'] by (simp add: trial then_do_def)
      then show ?thesis using assms by blast
    qed
  qed (use True assms in \<open>simp add: act_trial_def\<close>)
qed (use assms keeps_rollback [of j h s t] in \<open>simp add: act_trial_def\<close>)

text \<open>What a release must show to be installed.\<close>

definition proven :: "host \<Rightarrow> update_policy \<Rightarrow> update_store \<Rightarrow> update_transaction \<Rightarrow> update_health \<Rightarrow> bool" where
  "proven h p s t e \<longleftrightarrow>
     h_evidence h = Some e \<and> h_agent h ''ActiveState'' = ''active'' \<and> tx_boot t = h_boot h \<and>
     us_active s = af_digest (tx_to t) \<and> uh_executable_sha256 e = af_digest (tx_to t) \<and>
     uh_pid e = h_agent h ''MainPID'' \<and> uh_invocation e = h_agent h ''InvocationID'' \<and>
     uh_invocation e \<noteq> tx_old_invocation t \<and> tx_stable_invocation t = Some (uh_invocation e) \<and>
     (\<exists>since sample. tx_stable_since_ms t = Some since \<and> tx_stable_sample_ms t = Some sample \<and>
        pl_stability_seconds p * 1000 \<le> sat_sub (h_clock h 0) since \<and>
        pl_stability_seconds p * 1000 \<le> sat_sub (uh_collected_at_ms e) sample)"

lemma reconcile_installs:
  assumes "\<not> keeps (j_installed j) (fst (act_reconcile h p s j))"
  shows "\<exists>t e. j_phase j = Ph_Trial \<and> j_transaction j = Some t \<and> proven h p s t e \<and>
    act_reconcile h p s j =
      (let j' = j\<lparr>j_installed := tx_to t, j_phase := Ph_Committed\<rparr> in ([Save j'], j', Inr ()))"
proof -
  have "j_phase j = Ph_Trial \<and> (\<exists>t. j_transaction j = Some t \<and> act_reconcile h p s j = act_trial h p s t j)"
    using assms keeps_prepared keeps_stopping keeps_rollback unfolding act_reconcile_def
    by (cases "j_phase j") (auto split: sum.splits option.splits if_splits)
  then obtain t where t: "j_phase j = Ph_Trial" "j_transaction j = Some t"
      "act_reconcile h p s j = act_trial h p s t j"
    by blast
  obtain e where e: "tx_boot t = h_boot h" "health h s (af_digest (tx_to t)) = Inr (Some e)"
      "uh_invocation e \<noteq> tx_old_invocation t" "tx_stable_invocation t = Some (uh_invocation e)"
      "stable_long_enough h p t e"
      "act_trial h p s t j =
        (let j' = j\<lparr>j_installed := tx_to t, j_phase := Ph_Committed\<rparr> in ([Save j'], j', Inr ()))"
    by (rule trial_keeps [of j h p s t]) (use assms t in auto)
  have "proven h p s t e"
    using e health_evidence [OF e(2)] by (auto simp: proven_def stable_long_enough_def split: option.splits)
  then show ?thesis
    using t e(6) by auto
qed

lemma keeps_with_latch:
  assumes "keeps (j_installed j) (fst r)" and "fst (snd r) = in_memory j (fst r)"
  shows "keeps (j_installed j) (with_latch flt j r)"
proof -
  have "j_installed (in_memory j (take k (fst r))) = j_installed j" for k
    by (rule keeps_memory) (rule keeps_take [OF assms(1)])
  moreover have "j_installed (in_memory j (fst r)) = j_installed j"
    by (rule keeps_memory) (rule assms(1))
  ultimately have "keeps (j_installed j) (latch_failure (in_memory j (take k (fst r))) e)"
      "keeps (j_installed j) (latch_failure (in_memory j (fst r)) e)" for k e
    using keeps_latch by metis+
  then show ?thesis
    using assms keeps_take [OF assms(1)] by (simp add: with_latch_def split: fault.split sum.split)
qed

lemma keeps_direct:
  assumes "keeps a es" and "\<And>flt'. keeps a (rest flt')"
  shows "keeps a (direct flt es rest)"
  using assms keeps_take [OF assms(1)] by (simp add: direct_def split: fault.split)

lemma keeps_apply:
  assumes "update_inv p anchor s"
  shows "keeps (j_installed (us_journal s)) (dispatch_apply applied flt h p anchor fetched s)"
proof (cases "store_load h p anchor s")
  case (Inr j)
  note j = load_journal [OF Inr]
  have "keeps (j_installed j) (direct flt [Save j'] (\<lambda>flt.
      if applied \<and> c \<noteq> j_installed j' then with_latch flt j' (act_prepare h p c s j')
      else direct flt ((if applied then [Save (remote_up_to_date j')] else []) @ [RemovePending]) (\<lambda>_. [])))"
    if "release_accept p g (h_wall h) j = Inr (j', c)" for g j' c
  proof (rule keeps_direct)
    have same: "j_installed j' = j_installed j"
      using that by (auto simp: release_accept_def Let_def split: sum.splits)
    then show "keeps (j_installed j) [Save j']"
      by simp
    have "fst (snd (act_prepare h p c s j')) = in_memory j' (fst (act_prepare h p c s j'))"
      by (simp add: act_prepare_def Let_def fails_def split: sum.split)
    then have 1: "keeps (j_installed j) (with_latch flt' j' (act_prepare h p c s j'))" for flt'
      using keeps_with_latch [OF keeps_prepare] same by metis
    have 2: "keeps (j_installed j) (direct flt'
        ((if applied then [Save (remote_up_to_date j')] else []) @ [RemovePending]) (\<lambda>_. []))" for flt'
      using same by (intro keeps_direct) (simp_all add: remote_up_to_date_def)
    show "keeps (j_installed j) (if applied \<and> c \<noteq> j_installed j' then with_latch flt' j' (act_prepare h p c s j')
        else direct flt' ((if applied then [Save (remote_up_to_date j')] else []) @ [RemovePending]) (\<lambda>_. []))" for flt'
      using 1 2 by simp
  qed
  then show ?thesis
    using Inr by (simp add: dispatch_apply_def j [symmetric] split: sum.split prod.split)
qed (simp add: dispatch_apply_def)

lemma committed_memory:
  assumes "j_phase j' = Ph_Committed"
    and "m = in_memory j (direct flt (if boot then [ClearMarkers] else []) (\<lambda>flt. with_latch flt j ([Save j'], j', Inr ())))"
  shows "m = j \<or> m = j'"
proof -
  have "in_memory j (with_latch flt' j ([Save j'], j', Inr ())) = j \<or>
      in_memory j (with_latch flt' j ([Save j'], j', Inr ())) = j'" for flt'
    using assms(1) by (auto simp: with_latch_def latch_failure_def terminal_def is_recovery_def take_Cons'
        split: fault.split)
  then show ?thesis
    unfolding assms(2) by (auto simp: direct_def split: fault.split)
qed

lemma reconcile_effects_install:
  assumes "update_inv p anchor s"
    and "j_installed (in_memory (us_journal s) (dispatch_reconcile boot flt h p anchor s)) \<noteq> j_installed (us_journal s)"
  shows "\<exists>t e. j_phase (us_journal s) = Ph_Trial \<and> j_transaction (us_journal s) = Some t \<and> proven h p s t e \<and>
    in_memory (us_journal s) (dispatch_reconcile boot flt h p anchor s) =
      (us_journal s)\<lparr>j_installed := tx_to t, j_phase := Ph_Committed\<rparr>"
proof (cases "store_load h p anchor s")
  case (Inr j)
  note j = load_journal [OF Inr]
  let ?es = "if boot then [ClearMarkers] else []"
  let ?s1 = "fold perform ?es s"
  obtain es' j' where rec: "recover_download j = (es', j')"
    by (cases "recover_download j")
  have rec': "keeps (j_installed j) es' \<and> j_installed j' = j_installed j \<and> (\<not> terminal (j_phase j) \<longrightarrow> es' = [] \<and> j' = j)
      \<and> j_phase j' = j_phase j"
    using rec by (auto simp: recover_download_def Let_def split: option.splits if_splits)
  have safe: "safe p anchor j (us_active s)"
    using assms(1) by (simp add: update_inv_def j)
  let ?run = "direct flt (?es @ es') (\<lambda>flt. with_latch flt j' (act_reconcile h p ?s1 j'))"
  have es: "keeps (j_installed j) (?es @ es')"
    using rec' by simp
  have run: "dispatch_reconcile boot flt h p anchor s = ?run"
  proof (rule ccontr)
    assume "dispatch_reconcile boot flt h p anchor s \<noteq> ?run"
    then have "keeps (j_installed j) (dispatch_reconcile boot flt h p anchor s)"
      using Inr rec unfolding dispatch_reconcile_def
      by (auto simp: Let_def intro!: keeps_direct split: sum.splits gate_decision.splits if_splits)
    then show False
      using assms(2) keeps_memory [of j] by (simp add: j)
  qed
  have "\<not> keeps (j_installed j') (fst (act_reconcile h p ?s1 j'))"
  proof
    assume "keeps (j_installed j') (fst (act_reconcile h p ?s1 j'))"
    moreover have "fst (snd (act_reconcile h p ?s1 j')) = in_memory j' (fst (act_reconcile h p ?s1 j'))"
      using reconcile_ok [of p anchor j' ?s1 h p] recover_ok [OF safe rec] by (simp add: outcome_ok_def)
    ultimately have "keeps (j_installed j') (with_latch flt' j' (act_reconcile h p ?s1 j'))" for flt'
      by (intro keeps_with_latch)
    then have "keeps (j_installed j) ?run"
      using rec' by (intro keeps_direct [OF es]) simp
    then show False
      using assms(2) keeps_memory [of j] run by (simp add: j)
  qed
  then obtain t e where t: "j_phase j' = Ph_Trial" "j_transaction j' = Some t" "proven h p ?s1 t e"
      "act_reconcile h p ?s1 j' =
        (let k = j'\<lparr>j_installed := tx_to t, j_phase := Ph_Committed\<rparr> in ([Save k], k, Inr ()))"
    using reconcile_installs by blast
  have j': "j' = j" "es' = []"
    using t(1) rec' by (simp_all add: terminal_def)
  have "proven h p ?s1 t e = proven h p s t e"
    by (simp add: proven_def)
  then have "proven h p s t e"
    using t(3) by simp
  moreover have "?run = direct flt ?es (\<lambda>flt. with_latch flt j
      ([Save (j\<lparr>j_installed := tx_to t, j_phase := Ph_Committed\<rparr>)],
       j\<lparr>j_installed := tx_to t, j_phase := Ph_Committed\<rparr>, Inr ()))"
    using t(4) unfolding j' by (simp only: Let_def append_Nil2)
  then have "in_memory j ?run = j \<or> in_memory j ?run = j\<lparr>j_installed := tx_to t, j_phase := Ph_Committed\<rparr>"
    by (intro committed_memory [where flt = flt and boot = boot]) simp_all
  ultimately show ?thesis
    using assms(2) t(1,2) unfolding run by (auto simp: j j')
qed (use assms in \<open>simp add: dispatch_reconcile_def\<close>)

lemma other_effects_keep:
  assumes "update_inv p anchor s" and "\<nexists>boot flt h. e = ReconcileEvent boot flt h"
  shows "keeps (j_installed (us_journal s)) (event_effects p anchor e s)"
proof (cases e)
  case (ApplyEvent app flt h fetched)
  then show ?thesis
    using keeps_apply [OF assms(1)] by simp
next
  case (RemoteBeginEvent k q h)
  have "keeps (j_installed (us_journal s)) (remote_begin q h p anchor s)"
    by (auto simp: remote_begin_def remote_accept_def Let_def dest!: load_journal split: sum.split)
  then show ?thesis
    using RemoteBeginEvent keeps_take by simp
next
  case (RemoteEndEvent result h)
  then show ?thesis
    by (auto simp: remote_end_def remote_finish_def dest!: load_journal split: sum.split)
next
  case (ResetFloorEvent confirmed h)
  then show ?thesis
    by (auto simp: reset_time_floor_def dest!: load_journal split: sum.split floor_reset.split)
qed (use assms in auto)

lemma step_journal:
  "us_journal (update_step p anchor e s) = in_memory (us_journal s) (event_effects p anchor e s) \<or>
   us_journal (update_step p anchor e s) = snapshot (in_memory (us_journal s) (event_effects p anchor e s))"
  using perform_state [of "event_effects p anchor e s" s "us_journal s"]
  by (cases e) (auto simp: update_step_def)

text \<open>C6: The installed release changes in one place only: a reconcile in the trial of a pending transaction,
  on evidence from the running main process of the agent that it executes exactly the candidate, in a
  new invocation, which has stayed the same for the policy's stability time on the boot clock and on the
  agent's own samples; the new installed release is that candidate, and it never failed before.\<close>

theorem installed_only_on_proof:
  assumes "validate_policy arch os p = Inr ()" and "now \<noteq> 0" and "list_all update_event_ok es"
    and "s = fold (update_step p anchor) es (enrolled p anchor now)"
    and "j_installed (us_journal (update_step p anchor e s)) \<noteq> j_installed (us_journal s)"
  shows "\<exists>boot flt h t ev. e = ReconcileEvent boot flt h \<and> j_phase (us_journal s) = Ph_Trial \<and>
    j_transaction (us_journal s) = Some t \<and> proven h p s t ev \<and>
    j_installed (us_journal (update_step p anchor e s)) = tx_to t \<and>
    j_phase (us_journal (update_step p anchor e s)) = Ph_Committed \<and>
    af_digest (tx_to t) \<notin> set (j_failed (us_journal s))"
proof -
  have inv: "update_inv p anchor s"
    using enrolled_run [OF assms(1-3)] by (simp add: assms(4))
  let ?m = "in_memory (us_journal s) (event_effects p anchor e s)"
  have same: "j_installed (us_journal (update_step p anchor e s)) = j_installed ?m"
      "j_phase (us_journal (update_step p anchor e s)) = j_phase ?m"
    using step_journal [of p anchor e s] by auto
  have changed: "j_installed ?m \<noteq> j_installed (us_journal s)"
    using assms(5) same(1) by simp
  then obtain boot flt h where e: "e = ReconcileEvent boot flt h"
    using other_effects_keep [OF inv, of e] keeps_memory by blast
  obtain t ev where t: "j_phase (us_journal s) = Ph_Trial" "j_transaction (us_journal s) = Some t"
      "proven h p s t ev" "?m = (us_journal s)\<lparr>j_installed := tx_to t, j_phase := Ph_Committed\<rparr>"
    using reconcile_effects_install [OF inv, of boot flt h] changed by (auto simp: e)
  have "af_digest (tx_to t) \<notin> set (j_failed (us_journal s))"
    using inv t(1,2) by (simp add: update_inv_def safe_def candidate_phase_def)
  then show ?thesis
    using e t same by auto
qed

section \<open>Locking out\<close>

lemma checks_skip: "list_all (\<lambda>r. r = Inr ()) xs \<Longrightarrow> checks (xs @ ys) = checks ys"
  by (induction xs rule: checks.induct) auto

lemma loaded:
  assumes "store_load h p anchor s = Inr j"
  shows "j = us_journal s" and "scope_validate p anchor j = Inr ()"
  using assms by (auto simp: store_load_def Let_def checks_ok journal_validate_def split: sum.splits)

lemma load_fails:
  assumes "scope_validate p anchor (us_journal s) \<noteq> Inr ()"
  shows "\<exists>m. store_load h p anchor s = Inl m" and "dispatch_reconcile boot flt h p anchor s = [RequireRecovery]"
proof -
  show "\<exists>m. store_load h p anchor s = Inl m"
    using assms loaded [of h p anchor s] by (cases "store_load h p anchor s") auto
  then show "dispatch_reconcile boot flt h p anchor s = [RequireRecovery]"
    by (auto simp: dispatch_reconcile_def)
qed

lemma scope_validate_snapshot [simp]: "scope_validate p anchor (snapshot j) = scope_validate p anchor j"
  by (simp add: scope_validate_def transaction_rejected_def snapshot_def cong: option.case_cong)

lemma latched_commit:
  assumes "scope_validate p anchor j = Inr ()" and "j_transaction j = Some t" and "j_phase j = Ph_Committed"
    and "j_installed j = tx_to t"
  shows "scope_validate p anchor (latched j) = Inl (Recovery ''inconsistent transaction authorization'')"
proof -
  have "\<not> transaction_rejected j t"
    using assms(1,2) by (simp add: scope_validate_iff trust_ok_def)
  then have "transaction_rejected (latched j) t"
    using assms(3,4) by (auto simp: transaction_rejected_def latched_def)
  moreover have "list_all (\<lambda>r. r = Inr ())
      ([refuse (j_schema j \<noteq> 1 \<or> j_anchor j \<noteq> anchor \<or> j_channel j \<noteq> pl_channel p \<or>
                j_target j \<noteq> pl_target p \<or> 64 < length (j_failed j) \<or> 128 < length (j_roots j) \<or>
                tbl_get (j_roots j) 0 \<noteq> None \<or> j_time_high j = 0)
          (Recovery ''journal scope or schema rejected'')] @
       map sanitize_digest ([af_digest (j_installed j), j_seen_digest j] @ j_failed j) @
       map sanitize_sequence [af_sequence (j_installed j), j_seen_sequence j, j_hard_floor j] @
       [refuse (j_seen_sequence j < af_sequence (j_installed j) \<or> af_sequence (j_installed j) < j_hard_floor j)
          (Recovery ''installed release is outside its trust floor'')])"
    "sanitize_digest (af_digest (tx_from t)) = Inr ()" "sanitize_sequence (af_sequence (tx_from t)) = Inr ()"
      "sanitize_digest (af_digest (tx_to t)) = Inr ()" "sanitize_sequence (af_sequence (tx_to t)) = Inr ()"
    using assms(1) unfolding scope_validate_def checks_ok by (simp_all add: assms(2) checks_ok)
  ultimately show ?thesis
    using assms(2) unfolding scope_validate_def
    by (simp add: latched_def refuse_def checks_skip)
qed

text \<open>C36: Recovery latched after a commit is a lock-out: the latched journal fails its own validation, because its
  transaction no longer starts from the installed release, so every later command, the boot gate that
  is to let the agent start included, ends at the load of the journal.\<close>

theorem recovery_after_commit_locks_out:
  assumes "validate_policy arch os p = Inr ()" and "store_load h p anchor s = Inr (us_journal s)"
    and "j_phase (us_journal s) = Ph_Committed" and "j_transaction (us_journal s) = Some t"
    and "j_installed (us_journal s) = tx_to t"
    and "us_active s \<noteq> af_digest (tx_to t)" and "\<not> us_recovery_required s"
    and "s' = update_step p anchor (ReconcileEvent boot NoFault h) s"
  shows "j_phase (us_journal s') = Ph_ManualRecovery \<and> us_recovery_required s' \<and>
    scope_validate p anchor (us_journal s') = Inl (Recovery ''inconsistent transaction authorization'') \<and>
    (\<exists>m. store_load h' p anchor s' = Inl m) \<and>
    dispatch_reconcile boot' flt h' p anchor (s'\<lparr>us_active := a\<rparr>) = [RequireRecovery]"
proof -
  let ?j = "us_journal s"
  let ?es = "if boot then [ClearMarkers] else []"
  obtain es j' where rec: "recover_download ?j = (es, j')"
    by (cases "recover_download ?j")
  then have j': "\<exists>u. j' = ?j\<lparr>j_remote_update := u\<rparr>" and es: "es = [] \<or> es = [Save j']"
    by (auto simp: recover_download_def Let_def split: option.splits if_splits)
      (metis journal.surjective journal.update_convs(1))+
  have "pl_enabled p"
    using assms(1) by (simp add: validate_policy_def checks_ok)
  then have run: "dispatch_reconcile boot NoFault h p anchor s =
      ?es @ es @ with_latch NoFault j' (act_reconcile h p (fold perform ?es s) j')"
    using assms(2,7) rec by (simp add: dispatch_reconcile_def idle_gate_def direct_def)
  have same: "us_active (fold perform ?es s) = us_active s"
    by simp
  have "\<exists>m. act_reconcile h p (fold perform ?es s) j' = fails j' (Recovery m)"
    using j' assms(3,5,6) unfolding act_reconcile_def store_active_def same
    by (auto simp: terminal_def)
  then obtain m where "act_reconcile h p (fold perform ?es s) j' = fails j' (Recovery m)"
    by blast
  then have effects: "dispatch_reconcile boot NoFault h p anchor s = ?es @ es @ [Save (latched j'), RequireRecovery]"
    by (simp add: run with_latch_def fails_def latch_failure_def is_recovery_def)
  have s': "us_journal s' = snapshot (latched j')" "us_recovery_required s'"
    using es by (auto simp: assms(8) update_step_def effects)
  have "scope_validate p anchor j' = Inr ()"
    using loaded(2) [OF assms(2)] j' by (auto simp: scope_validate_iff trust_ok_def transaction_rejected_def
        cong: option.case_cong)
  then have "scope_validate p anchor (latched j') = Inl (Recovery ''inconsistent transaction authorization'')"
    using j' assms(3-5) by (intro latched_commit) auto
  then have scope: "scope_validate p anchor (us_journal s') = Inl (Recovery ''inconsistent transaction authorization'')"
    by (simp add: s'(1))
  then show ?thesis
    using s' load_fails(1) [where p = p and anchor = anchor and s = s' and h = h']
      load_fails(2) [where p = p and anchor = anchor and s = "s'\<lparr>us_active := a\<rparr>"]
    by (simp add: snapshot_def latched_def)
qed

text \<open>C37: A policy whose minimum has been raised above the installed release is locked out by the first accepted
  release: the floor it records is above the installed release, so the saved journal no longer loads,
  although the activation only refuses the release as a matter of policy.\<close>

theorem raised_minimum_locks_out:
  assumes "release_accept p g now (us_journal s) = Inr (j', c)"
    and "af_sequence (j_installed (us_journal s)) < pl_minimum_sequence p"
  shows "act_prepare h p c s j' = fails j' (Policy ''activation policy or enrolled baseline rejected'') \<and>
    (\<exists>m. scope_validate p anchor j' = Inl m) \<and>
    (\<exists>m. store_load h' p anchor (perform (Save j') s) = Inl m) \<and>
    dispatch_reconcile boot flt h' p anchor (perform (Save j') s) = [RequireRecovery]"
proof -
  have j': "j_installed j' = j_installed (us_journal s)" "pl_minimum_sequence p \<le> j_hard_floor j'"
    using assms(1) by (auto simp: release_accept_def Let_def split: sum.splits)
  then have low: "af_sequence (j_installed j') < j_hard_floor j'"
    using assms(2) by (auto intro: less_le_trans)
  then have bad: "scope_validate p anchor j' \<noteq> Inr ()"
    by (auto simp: scope_validate_iff trust_ok_def)
  then have "scope_validate p anchor (us_journal (perform (Save j') s)) \<noteq> Inr ()"
    by simp
  note locked = load_fails [OF this]
  have "\<exists>m. scope_validate p anchor j' = Inl m"
    using bad by (cases "scope_validate p anchor j'") auto
  then show ?thesis
    using locked assms(2) j'(1) by (simp add: act_prepare_def del: perform.simps)
qed

section \<open>Runs of one host\<close>

definition demo_digest :: "char \<Rightarrow> string" where
  "demo_digest c = replicate 64 c"

definition demo_url :: url where
  "demo_url = \<lparr>u_scheme = ''https'', u_host = Some ''updates.example'', u_username = [], u_password = None,
     u_query = None, u_fragment = None, u_path = ''/stable/''\<rparr>"

definition demo_policy :: update_policy where
  "demo_policy =
     \<lparr>pl_enabled = True, pl_allow_remote_updates = True, pl_metadata_url = demo_url, pl_targets_url = demo_url,
      pl_channel = ''stable'', pl_target = ''x86_64-unknown-linux-musl'', pl_baseline_sha256 = demo_digest CHR ''a'',
      pl_baseline_sequence = 1, pl_minimum_sequence = 1, pl_trial_seconds = 60, pl_stability_seconds = 5\<rparr>"

definition demo_target :: signed_target where
  "demo_target =
     \<lparr>sg_release = \<lparr>rl_product = ''nodelite'', rl_component = ''agent'', rl_channel = ''stable'',
        rl_target = ''x86_64-unknown-linux-musl'', rl_release_sequence = 2, rl_min_rollback_sequence = 1,
        rl_version = ''2.0''\<rparr>,
      sg_hash = demo_digest CHR ''b'', sg_length = 1000, sg_consistent_snapshot = True\<rparr>"

definition demo_props :: "(string \<times> string) list \<Rightarrow> string \<Rightarrow> string" where
  "demo_props xs k = (case map_of xs k of None \<Rightarrow> [] | Some v \<Rightarrow> v)"

definition demo_host ::
  "u64 \<Rightarrow> string \<Rightarrow> (string \<times> string) list \<Rightarrow> (string \<times> string) list \<Rightarrow> (string \<times> string) list
    \<Rightarrow> update_health option \<Rightarrow> host" where
  "demo_host t boot agent preflight stop e =
     \<lparr>h_agent = demo_props agent, h_preflight = demo_props preflight, h_stop = demo_props stop,
      h_boot = boot, h_clock = (\<lambda>_. t), h_wall = 100, h_cgroup_procs = None, h_evidence = e,
      h_object_ok = (\<lambda>_. True), h_cache_ok = True\<rparr>"

definition demo_evidence :: "u64 \<Rightarrow> update_health" where
  "demo_evidence t =
     \<lparr>uh_schema = 1, uh_pid = ''9'', uh_invocation = replicate 32 CHR ''c'',
      uh_executable_sha256 = demo_digest CHR ''b'', uh_sample_boottime_ms = t, uh_collected_at_ms = 85000 + t,
      uh_sample_counter = 1\<rparr>"

definition demo_running :: "(string \<times> string) list" where
  "demo_running = [(''ActiveState'', ''active''), (''InvocationID'', replicate 32 CHR ''c''), (''MainPID'', ''9'')]"

text \<open>The update to release 2, up to its trial.\<close>

definition demo_trial :: "update_event list" where
  "demo_trial =
     [ApplyEvent True NoFault (demo_host 1000 ''boot'' [] [] [] None) (Inr demo_target),
      ReconcileEvent False NoFault (demo_host 2000 ''boot'' []
        [(exit_stamp, ''5''), (''Result'', ''success''), (''ActiveState'', ''active'')] [] None),
      ConsumeMarkerEvent ''stop'',
      ReconcileEvent False NoFault (demo_host 3000 ''boot'' [(''ActiveState'', ''inactive''), (''MainPID'', ''0'')] []
        [(exit_stamp, ''6''), (''Result'', ''success''), (''ActiveState'', ''inactive'')] None)]"

definition demo_sample :: "u64 \<Rightarrow> update_event" where
  "demo_sample t = ReconcileEvent False NoFault (demo_host t ''boot'' demo_running [] [] (Some (demo_evidence t)))"

definition demo_reboot :: update_event where
  "demo_reboot = ReconcileEvent True NoFault (demo_host 50 ''boot2'' [] [] [] None)"

definition demo_tx :: update_transaction where
  "demo_tx = \<lparr>tx_from = \<lparr>af_digest = demo_digest CHR ''a'', af_sequence = 1\<rparr>,
     tx_to = \<lparr>af_digest = demo_digest CHR ''b'', af_sequence = 2\<rparr>,
     tx_boot = ''boot'', tx_deadline_ms = 31000, tx_old_invocation = [], tx_bridge_exit = [],
     tx_rollback_consumed = False, tx_recovery_requested = False, tx_stable_since_ms = None,
     tx_stable_sample_ms = None, tx_stable_invocation = None\<rparr>"

definition demo_store :: "update_transaction \<Rightarrow> phase \<Rightarrow> string \<Rightarrow> string list \<Rightarrow> update_store" where
  "demo_store t ph active markers =
     \<lparr>us_journal = (initial_journal demo_policy ''anchor'' 100)\<lparr>j_seen_sequence := 2,
        j_seen_digest := demo_digest CHR ''b'', j_transaction := Some t, j_phase := ph\<rparr>,
      us_active = active, us_candidate = demo_digest CHR ''b'', us_markers = markers, us_pending = True,
      us_recovery_required = False\<rparr>"

lemma list_all_replicate [simp]: "list_all P (replicate n x) \<longleftrightarrow> n = 0 \<or> P x"
  by (cases n) (auto simp: list_all_iff)

lemma demo_digest_facts [simp]:
  "length (demo_digest c) = 64" "list_all is_lower_hex (demo_digest c) = is_lower_hex c"
  "demo_digest c = demo_digest d \<longleftrightarrow> c = d"
  by (simp_all add: demo_digest_def list_all_iff replicate_eq_replicate)

lemmas demo_defs = demo_policy_def demo_target_def demo_host_def demo_tx_def demo_store_def initial_journal_def
  demo_evidence_def demo_running_def

lemma hex_facts [simp]: "is_lower_hex CHR ''a''" "is_lower_hex CHR ''b''" "is_lower_hex CHR ''c''"
  by (simp_all add: is_lower_hex_def is_ascii_digit_def byte_def)

lemma demo_load:
  assumes "trust_ok demo_policy ''anchor'' (us_journal s)" and "j_remote_update (us_journal s) = None"
    and "j_cache (us_journal s) = None" and "j_inventory (us_journal s) = []"
    and "h_object_ok h = (\<lambda>_. True)" and "h_cache_ok h"
  shows "store_load h demo_policy ''anchor'' s = Inr (us_journal s)"
proof -
  have "scope_validate demo_policy ''anchor'' (us_journal s) = Inr ()"
    using assms(1) by (simp add: scope_validate_iff)
  then show ?thesis
    using assms(2-6) by (simp add: store_load_def Let_def journal_validate_def remote_validate_def refuse_def
        split: option.split)
qed

lemma demo_journal_ok:
  assumes "tx_from t = tx_from demo_tx" and "tx_to t = tx_to demo_tx" and "ph \<noteq> Ph_Committed"
  shows "trust_ok demo_policy ''anchor'' (us_journal (demo_store t ph a ms))"
  using assms
  by (simp add: trust_ok_def demo_defs transaction_rejected_def art_ok_def dig_ok_def seq_ok_def
      sanitize_digest_def sanitize_sequence_def terminal_def word_le_nat_alt)

lemma demo_policy_ok: "validate_policy ''x86_64'' ''linux'' demo_policy = Inr ()"
  by (simp add: validate_policy_def validate_paused_def demo_policy_def expected_target_def url_rejected_def
      demo_url_def ends_with_slash_def sanitize_digest_def sanitize_sequence_def refuse_def Let_def word_le_nat_alt word_less_nat_alt)

lemma demo_step1:
  "update_step demo_policy ''anchor''
     (ApplyEvent True NoFault (demo_host 1000 ''boot'' [] [] [] None) (Inr demo_target))
     (enrolled demo_policy ''anchor'' 100) =
   demo_store demo_tx Ph_Prepared (demo_digest CHR ''a'') [''preflight'']"
proof -
  let ?h = "demo_host 1000 ''boot'' [] [] [] None"
  let ?s = "enrolled demo_policy ''anchor'' 100"
  have inv: "update_inv demo_policy ''anchor'' ?s"
    by (rule enrolled_inv [OF demo_policy_ok]) simp
  have load: "store_load ?h demo_policy ''anchor'' ?s = Inr (us_journal ?s)"
    by (rule demo_load) (use inv in \<open>auto simp: update_inv_def safe_def enrolled_def initial_journal_def demo_host_def\<close>)
  have acc: "release_accept demo_policy demo_target 100 (us_journal ?s) =
      Inr ((us_journal ?s)\<lparr>j_seen_sequence := 2, j_seen_digest := demo_digest CHR ''b''\<rparr>, tx_to demo_tx)"
    by (simp add: release_accept_def demo_defs enrolled_def release_validate_def sanitize_digest_def
      sanitize_sequence_def refuse_def Let_def PAYLOAD_LIMIT_def is_ascii_alphanumeric_def is_ascii_digit_def byte_def word_le_nat_alt word_less_nat_alt)
  show ?thesis
    using load acc
    by (simp add: update_step_def dispatch_apply_def demo_defs enrolled_def direct_def with_latch_def
      act_prepare_def store_active_def terminal_def remote_bind_def Let_def snapshot_def SKEW_SECS_def sat_add_def demo_props_def word_le_nat_alt word_less_nat_alt)
qed

lemma demo_reconcile:
  assumes "trust_ok demo_policy ''anchor'' (us_journal s)" and "j_remote_update (us_journal s) = None"
    and "j_cache (us_journal s) = None" and "j_inventory (us_journal s) = []" and "\<not> us_recovery_required s"
    and "h = demo_host t boot agent preflight stop e"
  shows "update_step demo_policy ''anchor'' (ReconcileEvent b NoFault h) s =
    fold perform (with_latch NoFault (us_journal s)
      (act_reconcile h demo_policy (fold perform (if b then [ClearMarkers] else []) s) (us_journal s)))
      (fold perform (if b then [ClearMarkers] else []) s)"
proof -
  have "store_load h demo_policy ''anchor'' s = Inr (us_journal s)"
    by (rule demo_load) (use assms in \<open>simp_all add: demo_host_def\<close>)
  then show ?thesis
    using assms(2,5) by (simp add: update_step_def dispatch_reconcile_def idle_gate_def direct_def recover_download_def
        demo_policy_def)
qed

lemma demo_store_facts [simp]:
  "j_remote_update (us_journal (demo_store t ph a ms)) = None" "j_cache (us_journal (demo_store t ph a ms)) = None"
  "j_inventory (us_journal (demo_store t ph a ms)) = []" "us_recovery_required (demo_store t ph a ms) = False"
  "us_active (demo_store t ph a ms) = a" "us_markers (demo_store t ph a ms) = ms"
  "j_phase (us_journal (demo_store t ph a ms)) = ph" "j_transaction (us_journal (demo_store t ph a ms)) = Some t"
  by (simp_all add: demo_store_def initial_journal_def)

lemma demo_host_facts:
  "h_boot (demo_host t boot a p st e) = boot" "h_clock (demo_host t boot a p st e) k = t"
  "h_object_ok (demo_host t boot a p st e) d" "uh_invocation (demo_evidence t) = replicate 32 CHR ''c''"
  "uh_collected_at_ms (demo_evidence t) = 85000 + t"
  by (simp_all add: demo_host_def demo_evidence_def)

lemmas demo_run_defs = with_latch_def act_reconcile_def store_active_def terminal_def snapshot_def Let_def
  demo_props_def exited_since_def exit_stamp_def demo_host_def

definition demo_stop_tx :: update_transaction where
  "demo_stop_tx = demo_tx\<lparr>tx_deadline_ms := 32000\<rparr>"

definition demo_trial_tx :: update_transaction where
  "demo_trial_tx = demo_tx\<lparr>tx_deadline_ms := 63000\<rparr>"

definition demo_sampled_tx :: update_transaction where
  "demo_sampled_tx = demo_trial_tx\<lparr>tx_stable_since_ms := Some 10000, tx_stable_sample_ms := Some 95000,
     tx_stable_invocation := Some (replicate 32 CHR ''c'')\<rparr>"

lemma demo_step2:
  "update_step demo_policy ''anchor''
     (ReconcileEvent False NoFault (demo_host 2000 ''boot'' []
        [(exit_stamp, ''5''), (''Result'', ''success''), (''ActiveState'', ''active'')] [] None))
     (demo_store demo_tx Ph_Prepared (demo_digest CHR ''a'') [''preflight'']) =
   demo_store demo_stop_tx Ph_Stopping (demo_digest CHR ''a'') [''stop'', ''preflight'']"
  by (subst demo_reconcile [OF demo_journal_ok])
    (simp_all add: act_prepared_def demo_run_defs demo_store_def demo_stop_tx_def demo_tx_def initial_journal_def)

lemma demo_step3:
  "update_step demo_policy ''anchor'' (ConsumeMarkerEvent ''stop'') (demo_store t ph a [''stop'', ''preflight'']) =
   demo_store t ph a [''preflight'']"
  by (simp add: update_step_def demo_store_def)

lemma demo_step4:
  "update_step demo_policy ''anchor''
     (ReconcileEvent False NoFault (demo_host 3000 ''boot'' [(''ActiveState'', ''inactive''), (''MainPID'', ''0'')] []
        [(exit_stamp, ''6''), (''Result'', ''success''), (''ActiveState'', ''inactive'')] None))
     (demo_store demo_stop_tx Ph_Stopping (demo_digest CHR ''a'') [''preflight'']) =
   demo_store demo_trial_tx Ph_Trial (demo_digest CHR ''b'') [''restart'', ''preflight'']"
  by (subst demo_reconcile [OF demo_journal_ok])
    (simp_all add: act_stopping_def stopped_def demo_run_defs demo_store_def demo_stop_tx_def demo_trial_tx_def
      demo_tx_def initial_journal_def demo_policy_def)

lemma demo_trial_run:
  "fold (update_step demo_policy ''anchor'') demo_trial (enrolled demo_policy ''anchor'' 100) =
   demo_store demo_trial_tx Ph_Trial (demo_digest CHR ''b'') [''restart'', ''preflight'']"
  by (simp add: demo_trial_def demo_step1 demo_step2 demo_step3 demo_step4)

lemma demo_health:
  assumes "t = 10000 \<or> t = 16000"
  shows "health (demo_host t boot demo_running [] [] (Some (demo_evidence t))) s (demo_digest CHR ''b'') =
    (if us_active s = demo_digest CHR ''b'' then Inr (Some (demo_evidence t)) else Inr None)"
  using assms
  by (auto simp: health_def demo_host_def demo_running_def demo_props_def store_active_def health_valid_def
      demo_evidence_def Let_def sat_sub_def word_le_nat_alt word_less_nat_alt)

lemma demo_step5:
  "update_step demo_policy ''anchor'' (demo_sample 10000)
     (demo_store demo_trial_tx Ph_Trial (demo_digest CHR ''b'') ms) =
   demo_store demo_sampled_tx Ph_Trial (demo_digest CHR ''b'') ms"
  unfolding demo_sample_def
  by (subst demo_reconcile [OF demo_journal_ok])
    (simp_all add: act_trial_def demo_health trial_evidence_def then_do_def demo_trial_tx_def demo_tx_def
      demo_sampled_tx_def with_latch_def act_reconcile_def store_active_def terminal_def snapshot_def Let_def demo_host_facts
      demo_store_def initial_journal_def word_less_nat_alt)

definition demo_committed :: "string \<Rightarrow> bool \<Rightarrow> string list \<Rightarrow> update_store" where
  "demo_committed a pending ms =
     (demo_store demo_sampled_tx Ph_Committed a ms)\<lparr>
       us_journal := (us_journal (demo_store demo_sampled_tx Ph_Committed a ms))\<lparr>j_installed := tx_to demo_tx\<rparr>,
       us_pending := pending\<rparr>"

lemma demo_step6:
  "update_step demo_policy ''anchor'' (demo_sample 16000)
     (demo_store demo_sampled_tx Ph_Trial (demo_digest CHR ''b'') ms) =
   demo_committed (demo_digest CHR ''b'') False ms"
  unfolding demo_sample_def
  by (subst demo_reconcile [OF demo_journal_ok])
    (simp_all add: act_trial_def demo_health trial_evidence_def then_do_def demo_sampled_tx_def demo_trial_tx_def demo_tx_def
      demo_committed_def with_latch_def act_reconcile_def store_active_def terminal_def snapshot_def Let_def demo_host_facts
      demo_store_def initial_journal_def stable_long_enough_def demo_policy_def sat_sub_def
      word_less_nat_alt word_le_nat_alt)

lemma demo_step7:
  "\<exists>t. j_phase (us_journal (update_step demo_policy ''anchor'' demo_reboot
       (demo_store demo_trial_tx Ph_Trial (demo_digest CHR ''b'') ms))) = Ph_RollbackIntent \<and>
     j_transaction (us_journal (update_step demo_policy ''anchor'' demo_reboot
       (demo_store demo_trial_tx Ph_Trial (demo_digest CHR ''b'') ms))) = Some t \<and> tx_to t = tx_to demo_tx"
  unfolding demo_reboot_def
  by (subst (1 2) demo_reconcile [OF demo_journal_ok])
    (simp_all add: act_trial_def act_rollback_def health_def then_do_def demo_trial_tx_def demo_tx_def demo_run_defs
      demo_store_def initial_journal_def demo_policy_def)

theorem updater_runs_an_authorised_release_witness:
  "let s = fold (update_step demo_policy ''anchor'') (demo_trial @ [demo_sample 10000, demo_sample 16000])
      (enrolled demo_policy ''anchor'' 100);
    j = us_journal s in
    (pl_minimum_sequence demo_policy \<le> j_hard_floor j \<and> j_hard_floor j \<le> af_sequence (j_installed j) \<and>
     (j_phase j = Ph_ManualRecovery \<or> journal_validate demo_policy ''anchor'' j = Inr ()) \<and>
     (us_active s = af_digest (j_installed j) \<or>
      (j_phase j = Ph_Trial \<or> j_phase j = Ph_RollbackIntent \<or> j_phase j = Ph_ManualRecovery) \<and>
      map_option (\<lambda>t. af_digest (tx_to t)) (j_transaction j) = Some (us_active s))) \<and>
    j_phase j = Ph_Committed \<and> us_active s = demo_digest CHR ''b'' \<and> af_sequence (j_installed j) = 2"
proof -
  have ok: "list_all update_event_ok (demo_trial @ [demo_sample 10000, demo_sample 16000])"
    by (simp add: demo_trial_def demo_sample_def)
  have clock: "list_all clock_in_range (demo_trial @ [demo_sample 10000, demo_sample 16000])"
    by (simp add: demo_trial_def demo_sample_def)
  have run: "fold (update_step demo_policy ''anchor'') (demo_trial @ [demo_sample 10000, demo_sample 16000])
      (enrolled demo_policy ''anchor'' 100) = demo_committed (demo_digest CHR ''b'') False [''restart'', ''preflight'']"
    by (simp add: demo_trial_run demo_step5 demo_step6)
  show ?thesis
    using updater_runs_an_authorised_release [OF demo_policy_ok _ ok clock, where now = 100 and anchor = "''anchor''"]
    unfolding run Let_def by (simp add: demo_committed_def demo_tx_def)
qed

theorem rolled_back_release_never_installed_witness:
  "\<exists>t. j_transaction (us_journal (fold (update_step demo_policy ''anchor'') (demo_trial @ [demo_reboot])
       (enrolled demo_policy ''anchor'' 100))) = Some t \<and>
     (let j' = us_journal (fold (update_step demo_policy ''anchor'')
            ((demo_trial @ [demo_reboot]) @ [demo_reboot, demo_sample 10000, demo_sample 16000])
            (enrolled demo_policy ''anchor'' 100))
      in af_digest (tx_to t) \<in> set (j_failed j') \<and> j_installed j' \<noteq> tx_to t)"
proof -
  let ?s = "fold (update_step demo_policy ''anchor'') (demo_trial @ [demo_reboot]) (enrolled demo_policy ''anchor'' 100)"
  obtain t where t: "j_phase (us_journal ?s) = Ph_RollbackIntent" "j_transaction (us_journal ?s) = Some t"
    using demo_step7 by (auto simp: demo_trial_run)
  have ok: "list_all update_event_ok ((demo_trial @ [demo_reboot]) @ [demo_reboot, demo_sample 10000, demo_sample 16000])"
    by (simp add: demo_trial_def demo_sample_def demo_reboot_def)
  show ?thesis
    using rolled_back_release_never_installed [OF demo_policy_ok _ ok refl refl t(1,2)] t(2) by (simp add: Let_def)
qed

theorem installed_only_on_proof_witness:
  "\<exists>t ev boot flt h. demo_sample 16000 = ReconcileEvent boot flt h \<and>
     proven h demo_policy (demo_store demo_sampled_tx Ph_Trial (demo_digest CHR ''b'') [''restart'', ''preflight'']) t ev \<and>
     tx_to t = tx_to demo_tx"
proof -
  let ?es = "demo_trial @ [demo_sample 10000]"
  have run: "demo_store demo_sampled_tx Ph_Trial (demo_digest CHR ''b'') [''restart'', ''preflight''] =
      fold (update_step demo_policy ''anchor'') ?es (enrolled demo_policy ''anchor'' 100)"
    by (simp add: demo_trial_run demo_step5)
  have ok: "list_all update_event_ok ?es"
    by (simp add: demo_trial_def demo_sample_def)
  have "j_installed (us_journal (demo_committed a b ms)) = tx_to demo_tx" for a b ms
    by (simp add: demo_committed_def)
  moreover have "j_installed (us_journal (demo_store t ph a ms)) \<noteq> tx_to demo_tx" for t ph a ms
    by (simp add: demo_store_def initial_journal_def demo_tx_def demo_policy_def)
  ultimately show ?thesis
    using installed_only_on_proof [OF demo_policy_ok _ ok run, where e = "demo_sample 16000"]
    by (simp add: demo_step6) metis
qed

theorem recovery_after_commit_locks_out_witness:
  "\<exists>m. store_load (demo_host 1 ''boot'' [] [] [] None) demo_policy ''anchor''
     (update_step demo_policy ''anchor'' (ReconcileEvent True NoFault (demo_host 1 ''boot'' [] [] [] None))
       (demo_committed (demo_digest CHR ''a'') False [])) = Inl m"
proof -
  let ?s = "demo_committed (demo_digest CHR ''a'') False []"
  have "trust_ok demo_policy ''anchor'' (us_journal ?s)"
    by (simp add: demo_committed_def trust_ok_def demo_defs demo_sampled_tx_def demo_trial_tx_def transaction_rejected_def
        art_ok_def dig_ok_def seq_ok_def sanitize_digest_def sanitize_sequence_def terminal_def word_le_nat_alt)
  then have load: "store_load (demo_host 1 ''boot'' [] [] [] None) demo_policy ''anchor'' ?s = Inr (us_journal ?s)"
    by (rule demo_load) (simp_all add: demo_committed_def demo_host_def)
  show ?thesis
    using recovery_after_commit_locks_out [OF demo_policy_ok load _ _ _ _ _ refl, where t = demo_sampled_tx and boot = True]
    by (simp add: demo_committed_def demo_sampled_tx_def demo_trial_tx_def demo_tx_def)
qed

theorem raised_minimum_locks_out_witness:
  "\<exists>j' c. release_accept (demo_policy\<lparr>pl_baseline_sequence := 2, pl_minimum_sequence := 2\<rparr>) demo_target 100
       (us_journal (enrolled demo_policy ''anchor'' 100)) = Inr (j', c) \<and>
     (\<exists>m. scope_validate (demo_policy\<lparr>pl_baseline_sequence := 2, pl_minimum_sequence := 2\<rparr>) ''anchor'' j' = Inl m)"
proof -
  let ?p = "demo_policy\<lparr>pl_baseline_sequence := 2, pl_minimum_sequence := 2\<rparr>"
  let ?s = "enrolled demo_policy ''anchor'' 100"
  have acc: "release_accept ?p demo_target 100 (us_journal ?s) =
      Inr ((us_journal ?s)\<lparr>j_seen_sequence := 2, j_seen_digest := demo_digest CHR ''b'', j_hard_floor := 2\<rparr>, tx_to demo_tx)"
    by (simp add: release_accept_def demo_defs enrolled_def release_validate_def sanitize_digest_def
      sanitize_sequence_def refuse_def Let_def PAYLOAD_LIMIT_def is_ascii_alphanumeric_def is_ascii_digit_def byte_def
      word_le_nat_alt word_less_nat_alt max_def)
  have "af_sequence (j_installed (us_journal ?s)) < pl_minimum_sequence ?p"
    by (simp add: enrolled_def initial_journal_def demo_policy_def)
  then show ?thesis
    using raised_minimum_locks_out [OF acc] acc by blast
qed

end
