(* ===== verification/WebSessions.thy ===== *)
theory WebSessions
  imports NetAddr
begin

text \<open>
  The browser sessions of the server (\<open>nodelite-server/src/auth.rs\<close> with \<open>auth/basic.rs\<close>,
  \<open>auth/browser.rs\<close> and \<open>auth/step_up.rs\<close>): pending logins, two-factor sessions, Basic sessions,
  consumed TOTP steps and step-up confirmations, with their expiry, capacity and revocation. Session
  tokens are the random strings the operating system yields (\<open>None\<close> when it fails); a
  \<open>CancellationToken\<close> is a number and the list of the cancelled ones. The store is read after the
  mutex is taken, so an operation is one step. The TOTP function and the Base32 and Base64 codecs of
  the libraries are parameters.
\<close>

section \<open>Constants and records\<close>

definition TWO_FACTOR_PENDING_SECS :: nat where
  "TWO_FACTOR_PENDING_SECS = 300"

definition TWO_FACTOR_AUTH_SECS :: nat where
  "TWO_FACTOR_AUTH_SECS = 24 * 60 * 60"

definition BASIC_AUTH_SESSION_SECS :: nat where
  "BASIC_AUTH_SESSION_SECS = 24 * 60 * 60"

definition MAX_AUTH_SESSIONS :: nat where
  "MAX_AUTH_SESSIONS = 1024"

definition MAX_PENDING_SESSIONS :: nat where
  "MAX_PENDING_SESSIONS = 256"

definition SENSITIVE_CONFIRMATION_SECS :: nat where
  "SENSITIVE_CONFIRMATION_SECS = 5 * 60"

definition TWO_FACTOR_MAX_FAILED_ATTEMPTS :: u32 where
  "TWO_FACTOR_MAX_FAILED_ATTEMPTS = 5"

definition TWO_FACTOR_TOTP_REPLAY_RETENTION_SECS :: nat where
  "TWO_FACTOR_TOTP_REPLAY_RETENTION_SECS = 150"

record browser_session =
  bs_expires_at :: instant
  bs_revoked :: nat

record pending_session =
  pe_expires_at :: instant
  pe_failed_attempts :: u32

record web_session =
  wb_lifetime :: browser_session
  wb_login_event_id :: "int option"
  wb_confirmed_until :: "instant option"

type_synonym basic_auth_session = web_session

record session_store =
  ss_pending :: "(string, pending_session) table"
  ss_authenticated :: "(string, web_session) table"
  ss_basic :: "(string, basic_auth_session) table"
  ss_used_steps :: "(u64, instant) table"
  ss_cancelled :: "nat list"
  ss_next_revoked :: nat

datatype auth_session_error = Entropy | SessionCapacity

definition sessions_new :: session_store where
  "sessions_new = \<lparr>ss_pending = [], ss_authenticated = [], ss_basic = [], ss_used_steps = [],
     ss_cancelled = [], ss_next_revoked = 0\<rparr>"

section \<open>The session store\<close>

definition prune_expired_sessions :: "instant \<Rightarrow> session_store \<Rightarrow> session_store" where
  "prune_expired_sessions now s =
     s\<lparr>ss_pending := filter (\<lambda>(_, p). now < pe_expires_at p) (ss_pending s),
       ss_authenticated := filter (\<lambda>(_, a). now < bs_expires_at (wb_lifetime a)) (ss_authenticated s),
       ss_basic := filter (\<lambda>(_, b). now < bs_expires_at (wb_lifetime b)) (ss_basic s),
       ss_used_steps := filter (\<lambda>(_, e). now < e) (ss_used_steps s)\<rparr>"

definition ensure_session_capacity :: "session_store \<Rightarrow> auth_session_error + unit" where
  "ensure_session_capacity s =
     (if MAX_AUTH_SESSIONS \<le> length (ss_authenticated s) + length (ss_basic s)
      then Inl SessionCapacity else Inr ())"

definition new_lifetime :: "instant \<Rightarrow> session_store \<Rightarrow> browser_session \<times> session_store" where
  "new_lifetime expires_at s =
     (\<lparr>bs_expires_at = expires_at, bs_revoked = ss_next_revoked s\<rparr>,
      s\<lparr>ss_next_revoked := Suc (ss_next_revoked s)\<rparr>)"

definition insert_authenticated_session :: "string \<Rightarrow> instant \<Rightarrow> session_store \<Rightarrow> session_store" where
  "insert_authenticated_session token now s =
     (let (life, s) = new_lifetime (now + from_secs TWO_FACTOR_AUTH_SECS) s in
      s\<lparr>ss_authenticated := tbl_put token
          \<lparr>wb_lifetime = life, wb_login_event_id = None,
           wb_confirmed_until = Some (now + from_secs SENSITIVE_CONFIRMATION_SECS)\<rparr> (ss_authenticated s)\<rparr>)"

definition mark_unused_totp_steps :: "u64 list \<Rightarrow> instant \<Rightarrow> session_store \<Rightarrow> bool \<times> session_store" where
  "mark_unused_totp_steps steps now s =
     (if list_all (\<lambda>t. tbl_get (ss_used_steps s) t \<noteq> None) steps then (False, s)
      else (True, s\<lparr>ss_used_steps :=
        fold (\<lambda>t. tbl_put t (now + from_secs TWO_FACTOR_TOTP_REPLAY_RETENTION_SECS)) steps (ss_used_steps s)\<rparr>))"

text \<open>The pending session that expires first: \<open>min_by_key\<close> yields the first minimum.\<close>

fun oldest_pending :: "(string, pending_session) table \<Rightarrow> (string \<times> instant) option" where
  "oldest_pending [] = None"
| "oldest_pending ((token, p) # t) =
     (case oldest_pending t of
        None \<Rightarrow> Some (token, pe_expires_at p)
      | Some (token', e) \<Rightarrow> if pe_expires_at p \<le> e then Some (token, pe_expires_at p) else Some (token', e))"

text \<open>The deadline of a pending login is computed before the mutex is taken, \<open>created\<close> before \<open>now\<close>.\<close>

definition create_pending ::
  "string option \<Rightarrow> instant \<Rightarrow> instant \<Rightarrow> session_store \<Rightarrow> session_store \<times> (auth_session_error + string)" where
  "create_pending random created now s =
     (case random of
        None \<Rightarrow> (s, Inl Entropy)
      | Some token \<Rightarrow>
          (let s = prune_expired_sessions now s;
               s = (if MAX_PENDING_SESSIONS \<le> length (ss_pending s)
                    then case oldest_pending (ss_pending s) of
                           None \<Rightarrow> s
                         | Some (oldest, _) \<Rightarrow> s\<lparr>ss_pending := tbl_del oldest (ss_pending s)\<rparr>
                    else s)
           in (s\<lparr>ss_pending := tbl_put token
                   \<lparr>pe_expires_at = created + from_secs TWO_FACTOR_PENDING_SECS, pe_failed_attempts = 0\<rparr>
                   (ss_pending s)\<rparr>, Inr token)))"

definition pending_exists :: "string \<Rightarrow> instant \<Rightarrow> session_store \<Rightarrow> session_store \<times> bool" where
  "pending_exists token now s =
     (let s = prune_expired_sessions now s in (s, tbl_get (ss_pending s) token \<noteq> None))"

definition record_failed_attempt :: "string \<Rightarrow> instant \<Rightarrow> session_store \<Rightarrow> session_store \<times> bool" where
  "record_failed_attempt token now s =
     (let s = prune_expired_sessions now s in
      case tbl_get (ss_pending s) token of
        None \<Rightarrow> (s, True)
      | Some p \<Rightarrow>
          (let p = p\<lparr>pe_failed_attempts := sat_add (pe_failed_attempts p) 1\<rparr> in
           if TWO_FACTOR_MAX_FAILED_ATTEMPTS \<le> pe_failed_attempts p
           then (s\<lparr>ss_pending := tbl_del token (ss_pending s)\<rparr>, True)
           else (s\<lparr>ss_pending := tbl_put token p (ss_pending s)\<rparr>, False)))"

definition try_mark_unused_totp_steps ::
  "u64 list \<Rightarrow> instant \<Rightarrow> session_store \<Rightarrow> session_store \<times> bool" where
  "try_mark_unused_totp_steps steps now s =
     (let (fresh, s) = mark_unused_totp_steps steps now (prune_expired_sessions now s) in (s, fresh))"

definition create_authenticated ::
  "string option \<Rightarrow> instant \<Rightarrow> session_store \<Rightarrow> session_store \<times> (auth_session_error + string)" where
  "create_authenticated random now s =
     (case random of
        None \<Rightarrow> (s, Inl Entropy)
      | Some token \<Rightarrow>
          (let s = prune_expired_sessions now s in
           case ensure_session_capacity s of
             Inl e \<Rightarrow> (s, Inl e)
           | Inr _ \<Rightarrow> (insert_authenticated_session token now s, Inr token)))"

definition exchange_pending ::
  "string \<Rightarrow> u64 list \<Rightarrow> string option \<Rightarrow> instant \<Rightarrow> session_store
    \<Rightarrow> session_store \<times> (auth_session_error + string option)" where
  "exchange_pending pending_token steps random now s =
     (let s = prune_expired_sessions now s in
      if tbl_get (ss_pending s) pending_token = None then (s, Inr None)
      else
        case ensure_session_capacity s of
          Inl e \<Rightarrow> (s, Inl e)
        | Inr _ \<Rightarrow>
            (case random of
               None \<Rightarrow> (s, Inl Entropy)
             | Some token \<Rightarrow>
                 (let (fresh, s) = mark_unused_totp_steps steps now s in
                  if \<not> fresh then (s, Inr None)
                  else
                    let s = s\<lparr>ss_pending := tbl_del pending_token (ss_pending s)\<rparr>
                    in (insert_authenticated_session token now s, Inr (Some token)))))"

definition exchange_pending_for_passkey ::
  "string \<Rightarrow> string option \<Rightarrow> instant \<Rightarrow> session_store
    \<Rightarrow> session_store \<times> (auth_session_error + string option)" where
  "exchange_pending_for_passkey pending_token random now s =
     (let s = prune_expired_sessions now s in
      if tbl_get (ss_pending s) pending_token = None then (s, Inr None)
      else
        case ensure_session_capacity s of
          Inl e \<Rightarrow> (s, Inl e)
        | Inr _ \<Rightarrow>
            (case random of
               None \<Rightarrow> (s, Inl Entropy)
             | Some token \<Rightarrow>
                 (let s = s\<lparr>ss_pending := tbl_del pending_token (ss_pending s)\<rparr>
                  in (insert_authenticated_session token now s, Inr (Some token)))))"

definition is_authenticated :: "string \<Rightarrow> instant \<Rightarrow> session_store \<Rightarrow> session_store \<times> bool" where
  "is_authenticated token now s =
     (let s = prune_expired_sessions now s in (s, tbl_get (ss_authenticated s) token \<noteq> None))"

text \<open>\<open>BrowserSession::revoke\<close>.\<close>

definition revoke :: "web_session \<Rightarrow> session_store \<Rightarrow> session_store" where
  "revoke a s = s\<lparr>ss_cancelled := List.insert (bs_revoked (wb_lifetime a)) (ss_cancelled s)\<rparr>"

definition remove_authenticated :: "string \<Rightarrow> session_store \<Rightarrow> session_store" where
  "remove_authenticated token s =
     (case tbl_get (ss_authenticated s) token of
        None \<Rightarrow> s
      | Some a \<Rightarrow> revoke a (s\<lparr>ss_authenticated := tbl_del token (ss_authenticated s)\<rparr>))"

definition authenticated_lifetime ::
  "string \<Rightarrow> instant \<Rightarrow> session_store \<Rightarrow> session_store \<times> browser_session option" where
  "authenticated_lifetime token now s =
     (let s = prune_expired_sessions now s in
      (s, map_option wb_lifetime (tbl_get (ss_authenticated s) token)))"

definition set_authenticated_login_event_id ::
  "string \<Rightarrow> int option \<Rightarrow> instant \<Rightarrow> session_store \<Rightarrow> session_store" where
  "set_authenticated_login_event_id token event_id now s =
     (case event_id of
        None \<Rightarrow> s
      | Some i \<Rightarrow>
          (let s = prune_expired_sessions now s in
           case tbl_get (ss_authenticated s) token of
             None \<Rightarrow> s
           | Some a \<Rightarrow> s\<lparr>ss_authenticated :=
               tbl_put token (a\<lparr>wb_login_event_id := Some i\<rparr>) (ss_authenticated s)\<rparr>))"

definition get_authenticated_login_event_id ::
  "string \<Rightarrow> instant \<Rightarrow> session_store \<Rightarrow> session_store \<times> int option" where
  "get_authenticated_login_event_id token now s =
     (let s = prune_expired_sessions now s in
      (s, Option.bind (tbl_get (ss_authenticated s) token) wb_login_event_id))"

definition clear_authenticated :: "session_store \<Rightarrow> session_store" where
  "clear_authenticated s =
     s\<lparr>ss_pending := [],
       ss_cancelled := fold (\<lambda>(_, a). List.insert (bs_revoked (wb_lifetime a)))
          (ss_authenticated s @ ss_basic s) (ss_cancelled s),
       ss_authenticated := [], ss_basic := []\<rparr>"

section \<open>Basic sessions\<close>

definition create_basic_auth_session ::
  "string option \<Rightarrow> int option \<Rightarrow> instant \<Rightarrow> session_store \<Rightarrow> session_store \<times> (auth_session_error + string)" where
  "create_basic_auth_session random login_event_id now s =
     (case random of
        None \<Rightarrow> (s, Inl Entropy)
      | Some token \<Rightarrow>
          (let s = prune_expired_sessions now s in
           case ensure_session_capacity s of
             Inl e \<Rightarrow> (s, Inl e)
           | Inr _ \<Rightarrow>
               (let (life, s) = new_lifetime (now + from_secs BASIC_AUTH_SESSION_SECS) s in
                (s\<lparr>ss_basic := tbl_put token
                     \<lparr>wb_lifetime = life, wb_login_event_id = login_event_id, wb_confirmed_until = None\<rparr>
                     (ss_basic s)\<rparr>, Inr token))))"

text \<open>A Basic session while it lives; these reads do not prune.\<close>

definition live_basic :: "string \<Rightarrow> instant \<Rightarrow> session_store \<Rightarrow> basic_auth_session option" where
  "live_basic token now s =
     (case tbl_get (ss_basic s) token of
        None \<Rightarrow> None
      | Some b \<Rightarrow> if now < bs_expires_at (wb_lifetime b) then Some b else None)"

definition is_basic_auth_session_valid :: "string \<Rightarrow> instant \<Rightarrow> session_store \<Rightarrow> bool" where
  "is_basic_auth_session_valid token now s = (live_basic token now s \<noteq> None)"

definition get_basic_auth_login_event_id :: "string \<Rightarrow> instant \<Rightarrow> session_store \<Rightarrow> int option" where
  "get_basic_auth_login_event_id token now s = Option.bind (live_basic token now s) wb_login_event_id"

definition basic_auth_lifetime :: "string \<Rightarrow> instant \<Rightarrow> session_store \<Rightarrow> browser_session option" where
  "basic_auth_lifetime token now s = map_option wb_lifetime (live_basic token now s)"

definition bind_basic_auth_login ::
  "string \<Rightarrow> int option \<Rightarrow> instant \<Rightarrow> session_store \<Rightarrow> session_store \<times> browser_session option" where
  "bind_basic_auth_login token event_id now s =
     (case live_basic token now s of
        None \<Rightarrow> (s, None)
      | Some b \<Rightarrow> (s\<lparr>ss_basic := tbl_put token (b\<lparr>wb_login_event_id := event_id\<rparr>) (ss_basic s)\<rparr>,
                   Some (wb_lifetime b)))"

definition remove_basic_auth_session :: "string \<Rightarrow> session_store \<Rightarrow> session_store" where
  "remove_basic_auth_session token s =
     (case tbl_get (ss_basic s) token of
        None \<Rightarrow> s
      | Some b \<Rightarrow> revoke b (s\<lparr>ss_basic := tbl_del token (ss_basic s)\<rparr>))"

section \<open>Step-up confirmation\<close>

definition confirm_sensitive_action ::
  "string \<Rightarrow> bool \<Rightarrow> instant \<Rightarrow> session_store \<Rightarrow> session_store \<times> bool" where
  "confirm_sensitive_action token two_factor now s =
     (let s = prune_expired_sessions now s;
          until = Some (now + from_secs SENSITIVE_CONFIRMATION_SECS)
      in if two_factor
         then case tbl_get (ss_authenticated s) token of
                None \<Rightarrow> (s, False)
              | Some a \<Rightarrow> (s\<lparr>ss_authenticated :=
                  tbl_put token (a\<lparr>wb_confirmed_until := until\<rparr>) (ss_authenticated s)\<rparr>, True)
         else case tbl_get (ss_basic s) token of
                None \<Rightarrow> (s, False)
              | Some b \<Rightarrow> (s\<lparr>ss_basic := tbl_put token (b\<lparr>wb_confirmed_until := until\<rparr>) (ss_basic s)\<rparr>, True))"

definition sensitive_action_confirmed ::
  "string \<Rightarrow> bool \<Rightarrow> instant \<Rightarrow> session_store \<Rightarrow> session_store \<times> bool" where
  "sensitive_action_confirmed token two_factor now s =
     (let s = prune_expired_sessions now s;
          confirmed = Option.bind
            (tbl_get (if two_factor then ss_authenticated s else ss_basic s) token) wb_confirmed_until
      in (s, case confirmed of None \<Rightarrow> False | Some until \<Rightarrow> now < until))"

section \<open>TOTP codes and cookies\<close>

text \<open>\<open>totp\<close> is \<open>totp_custom::<Sha1>(30, 6, secret, seconds)\<close> of the \<open>totp_lite\<close> crate.\<close>

type_synonym secret = "8 word list"

definition totp_code_for_step :: "(secret \<Rightarrow> u64 \<Rightarrow> string) \<Rightarrow> secret \<Rightarrow> u64 \<Rightarrow> string" where
  "totp_code_for_step totp secret t = totp secret (sat_mul t 30)"

definition candidate_steps :: "u64 \<Rightarrow> u64 list" where
  "candidate_steps now_step =
     (if now_step = 0 then [] else [now_step - 1]) @ [now_step] @ (if now_step = - 1 then [] else [now_step + 1])"

definition matching_totp_steps_at ::
  "(secret \<Rightarrow> u64 \<Rightarrow> string) \<Rightarrow> secret option \<Rightarrow> string \<Rightarrow> u64 \<Rightarrow> u64 list" where
  "matching_totp_steps_at totp totp_secret code now_step =
     (case totp_secret of
        None \<Rightarrow> []
      | Some secret \<Rightarrow>
          if length code \<noteq> 6 \<or> \<not> list_all is_ascii_digit code then []
          else filter (\<lambda>t. totp_code_for_step totp secret t = code) (candidate_steps now_step))"

text \<open>\<open>timestamp\<close> is the wall clock in seconds since 1970, negative before.\<close>

definition matching_totp_steps ::
  "(secret \<Rightarrow> u64 \<Rightarrow> string) \<Rightarrow> secret option \<Rightarrow> string \<Rightarrow> int \<Rightarrow> u64 list" where
  "matching_totp_steps totp totp_secret code timestamp =
     matching_totp_steps_at totp totp_secret code (of_int (max timestamp 0) div 30)"

definition strip_prefix :: "string \<Rightarrow> string \<Rightarrow> string option" where
  "strip_prefix prefix s =
     (if take (length prefix) s = prefix then Some (drop (length prefix) s) else None)"

fun find_map :: "('a \<Rightarrow> 'b option) \<Rightarrow> 'a list \<Rightarrow> 'b option" where
  "find_map f [] = None"
| "find_map f (x # xs) = (case f x of None \<Rightarrow> find_map f xs | Some y \<Rightarrow> Some y)"

definition cookie_value :: "header_map \<Rightarrow> string \<Rightarrow> string option" where
  "cookie_value headers name =
     Option.bind (headers ''cookie'') (\<lambda>cookie_header.
       find_map (\<lambda>cookie. strip_prefix (name @ ''='') (str_trim cookie)) (str_split CHR '';'' cookie_header))"

section \<open>The authentication of the routes\<close>

record readonly_auth_config =
  ac_username :: string
  ac_password :: string
  ac_enable_2fa :: bool
  ac_totp_secret :: "string option"

text \<open>\<open>encode\<close> is the Base64 encoder, \<open>decode\<close> is \<open>decode_totp_secret\<close>, Base32 after normalisation.\<close>

record codecs =
  cd_encode :: "string \<Rightarrow> string"
  cd_decode :: "string \<Rightarrow> secret option"

record route_auth =
  ra_revoked :: nat
  ra_expected_authorization :: "string option"
  ra_enable_2fa :: bool
  ra_totp_secret :: "secret option"
  ra_config :: "readonly_auth_config option"

definition route_auth_from_config :: "codecs \<Rightarrow> nat \<Rightarrow> readonly_auth_config option \<Rightarrow> route_auth" where
  "route_auth_from_config cd revoked config =
     (case config of
        Some c \<Rightarrow>
          \<lparr>ra_revoked = revoked,
           ra_expected_authorization = Some (''Basic '' @ cd_encode cd (ac_username c @ '':'' @ ac_password c)),
           ra_enable_2fa = ac_enable_2fa c,
           ra_totp_secret = (if ac_enable_2fa c then Option.bind (ac_totp_secret c) (cd_decode cd) else None),
           ra_config = Some c\<rparr>
      | None \<Rightarrow>
          \<lparr>ra_revoked = revoked, ra_expected_authorization = None, ra_enable_2fa = False,
           ra_totp_secret = None, ra_config = None\<rparr>)"

definition is_authorized :: "route_auth \<Rightarrow> header_map \<Rightarrow> bool" where
  "is_authorized auth headers =
     (case ra_expected_authorization auth of
        None \<Rightarrow> True
      | Some expected \<Rightarrow> (case headers ''authorization'' of None \<Rightarrow> False | Some v \<Rightarrow> v = expected))"

definition TWO_FACTOR_PENDING_COOKIE :: string where
  "TWO_FACTOR_PENDING_COOKIE = ''nodelite_2fa_pending''"

definition TWO_FACTOR_AUTH_COOKIE :: string where
  "TWO_FACTOR_AUTH_COOKIE = ''nodelite_auth''"

definition BASIC_AUTH_SESSION_COOKIE :: string where
  "BASIC_AUTH_SESSION_COOKIE = ''nodelite_basic_session''"

text \<open>What a browser connection holds: the token of the credentials and the lifetime of its session.\<close>

record browser_authorization =
  ba_credentials_revoked :: nat
  ba_session :: "browser_session option"

definition capture ::
  "route_auth \<Rightarrow> header_map \<Rightarrow> browser_session option \<Rightarrow> instant \<Rightarrow> session_store
    \<Rightarrow> session_store \<times> browser_authorization option" where
  "capture auth headers created_session now s =
     (let keep = (\<lambda>session. Some \<lparr>ba_credentials_revoked = ra_revoked auth, ba_session = session\<rparr>) in
      case ra_expected_authorization auth of
        None \<Rightarrow> (s, keep None)
      | Some expected \<Rightarrow>
          if ra_enable_2fa auth then
            (case cookie_value headers TWO_FACTOR_AUTH_COOKIE of
               None \<Rightarrow> (s, None)
             | Some token \<Rightarrow>
                 (let (s, life) = authenticated_lifetime token now s in
                  (s, case life of None \<Rightarrow> None | Some l \<Rightarrow> keep (Some l))))
          else
            (s, case headers ''authorization'' of
                  None \<Rightarrow> None
                | Some supplied \<Rightarrow>
                    if supplied \<noteq> expected then None
                    else case created_session of
                           Some l \<Rightarrow> keep (Some l)
                         | None \<Rightarrow>
                             (case Option.bind (cookie_value headers BASIC_AUTH_SESSION_COOKIE)
                                     (\<lambda>token. basic_auth_lifetime token now s) of
                                None \<Rightarrow> None
                              | Some l \<Rightarrow> keep (Some l))))"

definition session_ended :: "nat list \<Rightarrow> instant \<Rightarrow> browser_session \<Rightarrow> bool" where
  "session_ended cancelled now b \<longleftrightarrow> bs_revoked b \<in> set cancelled \<or> bs_expires_at b \<le> now"

definition authorization_ended :: "nat list \<Rightarrow> instant \<Rightarrow> browser_authorization \<Rightarrow> bool" where
  "authorization_ended cancelled now a \<longleftrightarrow>
     ba_credentials_revoked a \<in> set cancelled \<or>
     (case ba_session a of None \<Rightarrow> False | Some b \<Rightarrow> session_ended cancelled now b)"

section \<open>Runs\<close>

text \<open>
  The operations in any order, while time passes. \<open>base\<close> is the wall clock at instant zero, in
  nanoseconds since 1970; the codes of an operation were matched \<open>lag\<close> nanoseconds before it locked
  the store.
\<close>

record session_world =
  sw_store :: session_store
  sw_now :: instant

datatype session_event =
    Pass nat
  | NewPending "string option" nat
  | CheckPending string
  | FailPending string
  | MarkTotp "secret option" string nat
  | NewFull "string option"
  | ExchangeTotp string "secret option" string nat "string option"
  | ExchangePasskey string "string option"
  | CheckFull string
  | LogoutFull string
  | BindFull string "int option"
  | NewBasic "string option" "int option"
  | BindBasic string "int option"
  | LogoutBasic string
  | Confirm string bool
  | CheckConfirmed string bool
  | ClearAll

definition wall_secs :: "nat \<Rightarrow> instant \<Rightarrow> int" where
  "wall_secs base t = int ((base + t) div NANOS)"

definition matched_at :: "(secret \<Rightarrow> u64 \<Rightarrow> string) \<Rightarrow> nat \<Rightarrow> secret option \<Rightarrow> string \<Rightarrow> instant \<Rightarrow> u64 list" where
  "matched_at totp base secret code t = matching_totp_steps totp secret code (wall_secs base t)"

fun session_op ::
  "(secret \<Rightarrow> u64 \<Rightarrow> string) \<Rightarrow> nat \<Rightarrow> session_event \<Rightarrow> instant \<Rightarrow> session_store \<Rightarrow> session_store" where
  "session_op totp base (Pass n) now s = s"
| "session_op totp base (NewPending random delay) now s = fst (create_pending random (now - delay) now s)"
| "session_op totp base (CheckPending token) now s = fst (pending_exists token now s)"
| "session_op totp base (FailPending token) now s = fst (record_failed_attempt token now s)"
| "session_op totp base (MarkTotp secret code lag) now s =
     fst (try_mark_unused_totp_steps (matched_at totp base secret code (now - lag)) now s)"
| "session_op totp base (NewFull random) now s = fst (create_authenticated random now s)"
| "session_op totp base (ExchangeTotp pending secret code lag random) now s =
     fst (exchange_pending pending (matched_at totp base secret code (now - lag)) random now s)"
| "session_op totp base (ExchangePasskey pending random) now s =
     fst (exchange_pending_for_passkey pending random now s)"
| "session_op totp base (CheckFull token) now s = fst (is_authenticated token now s)"
| "session_op totp base (LogoutFull token) now s = remove_authenticated token s"
| "session_op totp base (BindFull token i) now s = set_authenticated_login_event_id token i now s"
| "session_op totp base (NewBasic random i) now s = fst (create_basic_auth_session random i now s)"
| "session_op totp base (BindBasic token i) now s = fst (bind_basic_auth_login token i now s)"
| "session_op totp base (LogoutBasic token) now s = remove_basic_auth_session token s"
| "session_op totp base (Confirm token two) now s = fst (confirm_sensitive_action token two now s)"
| "session_op totp base (CheckConfirmed token two) now s = fst (sensitive_action_confirmed token two now s)"
| "session_op totp base ClearAll now s = clear_authenticated s"

definition session_step ::
  "(secret \<Rightarrow> u64 \<Rightarrow> string) \<Rightarrow> nat \<Rightarrow> session_event \<Rightarrow> session_world \<Rightarrow> session_world" where
  "session_step totp base e w =
     \<lparr>sw_store = session_op totp base e (sw_now w) (sw_store w),
      sw_now = sw_now w + (case e of Pass n \<Rightarrow> n | _ \<Rightarrow> 0)\<rparr>"

definition session_start :: "instant \<Rightarrow> session_world" where
  "session_start now = \<lparr>sw_store = sessions_new, sw_now = now\<rparr>"

text \<open>The steps of an accepted code.\<close>

definition consumed :: "(secret \<Rightarrow> u64 \<Rightarrow> string) \<Rightarrow> nat \<Rightarrow> session_event \<Rightarrow> session_world \<Rightarrow> u64 list list" where
  "consumed totp base e w =
     (case e of
        MarkTotp secret code lag \<Rightarrow>
          (let steps = matched_at totp base secret code (sw_now w - lag) in
           if snd (try_mark_unused_totp_steps steps (sw_now w) (sw_store w)) then [steps] else [])
      | ExchangeTotp pending secret code lag random \<Rightarrow>
          (let steps = matched_at totp base secret code (sw_now w - lag) in
           case snd (exchange_pending pending steps random (sw_now w) (sw_store w)) of
             Inr (Some _) \<Rightarrow> [steps]
           | _ \<Rightarrow> [])
      | _ \<Rightarrow> [])"

text \<open>A code is checked within a minute of being matched.\<close>

fun prompt :: "session_event \<Rightarrow> bool" where
  "prompt (MarkTotp secret code lag) = (lag \<le> from_secs 60)"
| "prompt (ExchangeTotp pending secret code lag random) = (lag \<le> from_secs 60)"
| "prompt _ = True"

section \<open>The tables\<close>

definition tables_ok :: "session_store \<Rightarrow> bool" where
  "tables_ok s \<longleftrightarrow> tbl_ok (ss_pending s) \<and> tbl_ok (ss_authenticated s) \<and> tbl_ok (ss_basic s) \<and> tbl_ok (ss_used_steps s) \<and>
     length (ss_pending s) \<le> MAX_PENDING_SESSIONS \<and>
     length (ss_authenticated s) + length (ss_basic s) \<le> MAX_AUTH_SESSIONS"

lemma tables_prune [intro]:
  assumes "tables_ok s"
  shows "tables_ok (prune_expired_sessions now s)"
proof -
  have 1: "length (filter P (ss_pending s)) \<le> MAX_PENDING_SESSIONS" for P
    using assms by (intro order_trans [OF length_filter_le]) (simp add: tables_ok_def)
  have 2: "length (filter P (ss_authenticated s)) + length (filter Q (ss_basic s)) \<le> MAX_AUTH_SESSIONS" for P Q
    using assms by (intro order_trans [OF add_mono [OF length_filter_le length_filter_le]]) (simp add: tables_ok_def)
  show ?thesis
    using assms 1 2 by (simp add: tables_ok_def prune_expired_sessions_def tbl_ok_filter)
qed

lemma used_fold: "tbl_ok t \<Longrightarrow> tbl_ok (fold (\<lambda>k. tbl_put k v) ks t)"
  by (induction ks arbitrary: t) (simp_all add: tbl_ok_put)

lemma get_used_fold: "tbl_get (fold (\<lambda>k. tbl_put k v) ks t) k = (if k \<in> set ks then Some v else tbl_get t k)"
  by (induction ks arbitrary: t) (auto simp: table_simps)

lemma length_tbl_del: "tbl_get t k \<noteq> None \<Longrightarrow> length (tbl_del k t) < length t"
  unfolding AList.delete_eq by (rule length_filter_less [of "(k, the (tbl_get t k))"]) (auto dest: map_of_SomeD)

lemma length_tbl_put_le: "length (tbl_put k v t) \<le> Suc (length t)"
  by (simp add: length_tbl_put)

lemma length_tbl_replace: "tbl_get t k \<noteq> None \<Longrightarrow> length (tbl_put k v t) = length t"
  by (simp add: length_tbl_put)

lemma oldest_in: "oldest_pending t = Some (k, e) \<Longrightarrow> k \<in> fst ` set t"
  by (induction t arbitrary: k e rule: oldest_pending.induct) (auto split: option.splits if_splits)

lemma oldest_none: "oldest_pending t = None \<longleftrightarrow> t = []"
  by (cases t rule: oldest_pending.cases) (auto split: option.splits if_splits)

lemma tables_create_pending:
  assumes "tables_ok s"
  shows "tables_ok (fst (create_pending random created now s))"
proof (cases random)
  case (Some token)
  let ?p = "prune_expired_sessions now s"
  let ?q = "if MAX_PENDING_SESSIONS \<le> length (ss_pending ?p)
    then case oldest_pending (ss_pending ?p) of None \<Rightarrow> ?p
      | Some (oldest, _) \<Rightarrow> ?p\<lparr>ss_pending := tbl_del oldest (ss_pending ?p)\<rparr> else ?p"
  have p: "tables_ok ?p"
    using assms by (rule tables_prune)
  have room: "length (ss_pending ?q) < MAX_PENDING_SESSIONS"
  proof (cases "oldest_pending (ss_pending ?p)")
    case None
    then show ?thesis by (simp add: oldest_none MAX_PENDING_SESSIONS_def)
  next
    case (Some old)
    obtain k e where old: "old = (k, e)" by (cases old)
    then have "tbl_get (ss_pending ?p) k \<noteq> None"
      using oldest_in [of "ss_pending ?p" k e] Some old by (simp add: map_of_eq_None_iff)
    then show ?thesis
      using length_tbl_del [of "ss_pending ?p" k] p Some old by (auto simp: tables_ok_def)
  qed
  have "tables_ok ?q"
    using p by (auto simp: tables_ok_def tbl_ok_del intro: le_trans [OF length_tbl_del_le] split: option.split)
  then have "tables_ok (?q\<lparr>ss_pending := tbl_put token v (ss_pending ?q)\<rparr>)" for v
    using room length_tbl_put_le [of token v "ss_pending ?q"]
    by (simp add: tables_ok_def tbl_ok_put del: AList.update.simps)
  then show ?thesis
    unfolding create_pending_def Let_def Some by simp
qed (use assms in \<open>simp add: create_pending_def\<close>)

lemma tables_insert:
  assumes "tables_ok s" and "ensure_session_capacity s = Inr ()"
  shows "tables_ok (insert_authenticated_session token now s)"
  using assms length_tbl_put_le [of token _ "ss_authenticated s"]
  by (auto simp: insert_authenticated_session_def new_lifetime_def tables_ok_def ensure_session_capacity_def
      tbl_ok_put length_tbl_put split: if_splits)

lemma tables_drop_pending: "tables_ok s \<Longrightarrow> tables_ok (s\<lparr>ss_pending := tbl_del k (ss_pending s)\<rparr>)"
  by (auto simp: tables_ok_def tbl_ok_del intro: le_trans [OF length_tbl_del_le])

lemma capacity_same [simp]:
  "ensure_session_capacity (s\<lparr>ss_pending := x\<rparr>) = ensure_session_capacity s"
  "ensure_session_capacity (s\<lparr>ss_used_steps := u\<rparr>) = ensure_session_capacity s"
  by (simp_all add: ensure_session_capacity_def)

lemma tables_used: "tables_ok s \<Longrightarrow> tbl_ok u \<Longrightarrow> tables_ok (s\<lparr>ss_used_steps := u\<rparr>)"
  by (simp add: tables_ok_def)

text \<open>Marking succeeds when a step is new, and then all are used.\<close>

lemma mark_result:
  assumes "mark_unused_totp_steps steps now s = (b, s')" and "tbl_ok (ss_used_steps s)"
  shows "\<exists>u. s' = s\<lparr>ss_used_steps := u\<rparr> \<and> tbl_ok u \<and>
    (b \<longleftrightarrow> (\<exists>t\<in>set steps. tbl_get (ss_used_steps s) t = None)) \<and>
    (\<forall>t. tbl_get u t = (if b \<and> t \<in> set steps then Some (now + from_secs TWO_FACTOR_TOTP_REPLAY_RETENTION_SECS)
      else tbl_get (ss_used_steps s) t))"
proof (cases b)
  case True
  then show ?thesis
    using assms by (auto simp: mark_unused_totp_steps_def list_all_iff used_fold get_used_fold split: if_splits
        intro!: exI [of _ "fold (\<lambda>t. tbl_put t (now + from_secs TWO_FACTOR_TOTP_REPLAY_RETENTION_SECS)) steps (ss_used_steps s)"])
next
  case False
  then have "s' = s\<lparr>ss_used_steps := ss_used_steps s\<rparr>" "\<forall>t\<in>set steps. tbl_get (ss_used_steps s) t \<noteq> None"
    using assms(1) by (auto simp: mark_unused_totp_steps_def list_all_iff split: if_splits)
  then show ?thesis
    using assms(2) False by (intro exI [of _ "ss_used_steps s"]) auto
qed

lemma tables_mark:
  "mark_unused_totp_steps steps now s = (b, s') \<Longrightarrow> tables_ok s \<Longrightarrow>
    tables_ok s' \<and> ensure_session_capacity s' = ensure_session_capacity s"
  using mark_result [of steps now s b s'] tables_used by (auto simp: tables_ok_def)

lemma tables_replace:
  "tables_ok s \<Longrightarrow> tbl_get (ss_authenticated s) k \<noteq> None \<Longrightarrow>
     tables_ok (s\<lparr>ss_authenticated := tbl_put k v (ss_authenticated s)\<rparr>)"
  "tables_ok s \<Longrightarrow> tbl_get (ss_basic s) k \<noteq> None \<Longrightarrow>
     tables_ok (s\<lparr>ss_basic := tbl_put k v (ss_basic s)\<rparr>)"
  "tables_ok s \<Longrightarrow> tbl_get (ss_pending s) k \<noteq> None \<Longrightarrow>
     tables_ok (s\<lparr>ss_pending := tbl_put k p (ss_pending s)\<rparr>)"
  by (simp_all add: tables_ok_def tbl_ok_put length_tbl_replace)

lemma tables_revoke: "tables_ok (revoke a s) = tables_ok s"
  by (simp add: revoke_def tables_ok_def)

lemma tables_remove:
  assumes "tables_ok s"
  shows "tables_ok (remove_authenticated token s)" and "tables_ok (remove_basic_auth_session token s)"
  using assms length_tbl_del_le [of token "ss_authenticated s"] length_tbl_del_le [of token "ss_basic s"]
  by (auto simp: remove_authenticated_def remove_basic_auth_session_def revoke_def tables_ok_def tbl_ok_del
      split: option.split)

lemma live_basic_get: "live_basic token now s = Some b \<Longrightarrow> tbl_get (ss_basic s) token = Some b"
  by (auto simp: live_basic_def split: option.splits if_splits)

lemma tables_basic:
  assumes "tables_ok s"
  shows "tables_ok (fst (create_basic_auth_session random i now s))"
proof (cases random)
  case (Some token)
  let ?p = "prune_expired_sessions now s"
  show ?thesis
  proof (cases "ensure_session_capacity ?p")
    case (Inr u)
    have "tables_ok ?p"
      using assms by (rule tables_prune)
    then show ?thesis
      using Some Inr length_tbl_put_le [of token _ "ss_basic ?p"]
      by (auto simp: create_basic_auth_session_def Let_def new_lifetime_def tables_ok_def ensure_session_capacity_def
          tbl_ok_put length_tbl_put split: if_splits)
  qed (use Some assms in \<open>auto simp: create_basic_auth_session_def Let_def\<close>)
qed (use assms in \<open>simp add: create_basic_auth_session_def\<close>)

lemma session_op_tables:
  assumes "tables_ok s"
  shows "tables_ok (session_op totp base e now s)"
proof -
  note p = tables_prune [OF assms, of now]
  note rules = p tables_insert tables_drop_pending tables_replace
  show ?thesis
  proof (cases e)
    case (NewPending random delay)
    then show ?thesis using tables_create_pending [OF assms] by simp
  next
    case (FailPending token)
    then show ?thesis
      using p by (auto simp: record_failed_attempt_def Let_def split: option.split intro!: rules)
  next
    case (MarkTotp secret code lag)
    then show ?thesis
      using p by (auto simp: try_mark_unused_totp_steps_def dest: tables_mark split: prod.split)
  next
    case (NewFull random)
    then show ?thesis
      using p assms by (auto simp: create_authenticated_def Let_def split: option.split sum.split intro!: rules)
  next
    case (ExchangeTotp pending secret code lag random)
    then show ?thesis
      using p by (auto simp: exchange_pending_def Let_def split: option.split sum.split prod.split
          dest: tables_mark intro!: tables_insert tables_drop_pending)
  next
    case (ExchangePasskey pending random)
    then show ?thesis
      using p by (auto simp: exchange_pending_for_passkey_def Let_def split: option.split sum.split intro!: rules)
  next
    case (LogoutFull token)
    then show ?thesis using tables_remove [OF assms] by simp
  next
    case (BindFull token i)
    then show ?thesis
      using p assms by (auto simp: set_authenticated_login_event_id_def Let_def split: option.split intro!: rules)
  next
    case (NewBasic random i)
    then show ?thesis using tables_basic [OF assms] by simp
  next
    case (BindBasic token i)
    then show ?thesis
      using assms by (auto simp: bind_basic_auth_login_def split: option.split intro!: tables_replace dest: live_basic_get)
  next
    case (LogoutBasic token)
    then show ?thesis using tables_remove [OF assms] by simp
  next
    case (Confirm token two)
    then show ?thesis
      using p by (auto simp: confirm_sensitive_action_def Let_def split: option.split intro!: rules)
  next
    case ClearAll
    then show ?thesis by (simp add: clear_authenticated_def tables_ok_def assms [unfolded tables_ok_def])
  qed (use assms p in \<open>auto simp: pending_exists_def is_authenticated_def sensitive_action_confirmed_def Let_def\<close>)
qed

lemma tables_start: "tables_ok sessions_new"
  by (simp add: tables_ok_def sessions_new_def)

interpretation tables: machine "session_step totp base" "\<lambda>w. tables_ok (sw_store w)" "\<lambda>_. True" for totp base
  by unfold_locales (simp add: session_step_def session_op_tables)

section \<open>One-time codes\<close>

text \<open>\<open>tick\<close> is the TOTP step of an instant.\<close>

definition tick :: "nat \<Rightarrow> instant \<Rightarrow> nat" where
  "tick base t = (base + t) div NANOS div 30"

lemma tick_mono: "s \<le> t \<Longrightarrow> tick base s \<le> tick base t"
  by (simp add: tick_def div_le_mono)

lemma NANOS_pos: "0 < NANOS"
  by (simp add: NANOS_def)

lemma tick_later:
  assumes "s + from_secs (30 * n) \<le> t"
  shows "tick base s + n \<le> tick base t"
proof -
  have "(base + s) div (NANOS * 30) + n = (base + s + n * (NANOS * 30)) div (NANOS * 30)"
    using NANOS_pos by simp
  also have "\<dots> \<le> (base + t) div (NANOS * 30)"
    using assms by (intro div_le_mono) (simp add: from_secs_def algebra_simps)
  finally show ?thesis
    by (simp add: tick_def div_mult2_eq)
qed

lemma unat_steps:
  assumes "t \<in> set (candidate_steps now_step)"
  shows "unat t \<le> unat now_step + 1 \<and> unat now_step \<le> unat t + 1"
proof -
  have 1: "unat (now_step - 1) = unat now_step - 1" if "now_step \<noteq> 0"
    using that by (simp add: unat_minus_one)
  have 2: "unat (now_step + 1) = unat now_step + 1" if "now_step \<noteq> - 1"
    using that by (metis Suc_eq_plus1 unatSuc add.commute add_eq_0_iff)
  show ?thesis
    using assms 1 2 by (auto simp: candidate_steps_def split: if_splits)
qed

lemma matched_window:
  assumes "t \<in> set (matched_at totp base secret code r)" and "(base + r) div NANOS < 2 ^ 63"
  shows "unat t \<le> tick base r + 1 \<and> tick base r \<le> unat t + 1"
proof -
  have "t \<in> set (candidate_steps (of_int (int ((base + r) div NANOS)) div 30))"
    using assms(1) by (auto simp: matched_at_def matching_totp_steps_def wall_secs_def matching_totp_steps_at_def
        split: option.splits if_splits)
  moreover have "unat (of_int (int ((base + r) div NANOS)) div 30 :: u64) = tick base r"
  proof -
    have "unat (of_nat ((base + r) div NANOS) :: u64) = (base + r) div NANOS"
      using assms(2) by (simp add: unat_of_nat)
    then show ?thesis
      by (simp add: unat_div tick_def)
  qed
  ultimately show ?thesis
    using unat_steps [of t] by metis
qed

text \<open>
  The accepted codes so far with their instants: none of their steps is in the future, and a step stays
  marked until its code can no longer be matched.
\<close>

definition codes_ok :: "nat \<Rightarrow> session_world \<Rightarrow> (u64 list \<times> instant) list \<Rightarrow> bool" where
  "codes_ok base w log \<longleftrightarrow> tables_ok (sw_store w) \<and>
     (\<forall>(steps, n) \<in> set log. n \<le> sw_now w \<and> (\<forall>t\<in>set steps. unat t \<le> tick base n + 1 \<and>
        (sw_now w < n + from_secs TWO_FACTOR_TOTP_REPLAY_RETENTION_SECS \<longrightarrow>
         (\<exists>e. tbl_get (ss_used_steps (sw_store w)) t = Some e \<and>
            n + from_secs TWO_FACTOR_TOTP_REPLAY_RETENTION_SECS \<le> e))))"

text \<open>What an operation does to the marks: it prunes, or it marks the steps it accepted.\<close>

definition marks_after :: "session_store \<Rightarrow> session_store \<Rightarrow> instant \<Rightarrow> u64 list list \<Rightarrow> bool" where
  "marks_after s s' now accepted \<longleftrightarrow>
     (\<forall>t e. tbl_get (ss_used_steps s) t = Some e \<longrightarrow> now < e \<longrightarrow>
        (\<exists>e'. tbl_get (ss_used_steps s') t = Some e' \<and> min e (now + from_secs TWO_FACTOR_TOTP_REPLAY_RETENTION_SECS) \<le> e')) \<and>
     (\<forall>steps\<in>set accepted. (\<exists>t\<in>set steps. \<forall>e. tbl_get (ss_used_steps s) t = Some e \<longrightarrow> e \<le> now) \<and>
        (\<forall>t\<in>set steps. tbl_get (ss_used_steps s') t = Some (now + from_secs TWO_FACTOR_TOTP_REPLAY_RETENTION_SECS)))"

lemma used_prune:
  assumes "tables_ok s"
  shows "tbl_get (ss_used_steps (prune_expired_sessions now s)) t =
    (case tbl_get (ss_used_steps s) t of None \<Rightarrow> None | Some e \<Rightarrow> if now < e then Some e else None)"
  using assms by (simp add: prune_expired_sessions_def tables_ok_def tbl_get_filter)

lemma marks_same: "ss_used_steps s' = ss_used_steps s \<Longrightarrow> marks_after s s' now []"
  by (auto simp: marks_after_def)

lemma marks_prune:
  assumes "tables_ok s" and "ss_used_steps s' = ss_used_steps (prune_expired_sessions now s)"
  shows "marks_after s s' now []"
  using assms by (auto simp: marks_after_def used_prune)

lemma marks_mark:
  assumes "tables_ok s" and "mark_unused_totp_steps steps now (prune_expired_sessions now s) = (b, s1)"
    and "ss_used_steps s' = ss_used_steps s1"
  shows "marks_after s s' now (if b then [steps] else [])"
proof -
  obtain u where u: "s1 = (prune_expired_sessions now s)\<lparr>ss_used_steps := u\<rparr>"
      "b \<longleftrightarrow> (\<exists>t\<in>set steps. tbl_get (ss_used_steps (prune_expired_sessions now s)) t = None)"
      "\<And>t. tbl_get u t = (if b \<and> t \<in> set steps then Some (now + from_secs TWO_FACTOR_TOTP_REPLAY_RETENTION_SECS)
        else tbl_get (ss_used_steps (prune_expired_sessions now s)) t)"
    using mark_result [OF assms(2)] tables_prune [OF assms(1), of now] unfolding tables_ok_def by blast
  have fresh: "\<exists>t\<in>set steps. \<forall>e. tbl_get (ss_used_steps s) t = Some e \<longrightarrow> e \<le> now" if b
    using u(2) that by (auto simp: used_prune [OF assms(1)] split: option.splits if_splits) (meson not_less)
  show ?thesis
    unfolding marks_after_def assms(3) u(1) using fresh
    by (auto simp: u(3) used_prune [OF assms(1)])
qed

lemma marks_op:
  assumes "tables_ok (sw_store w)"
  shows "marks_after (sw_store w) (session_op totp base e (sw_now w) (sw_store w)) (sw_now w) (consumed totp base e w)"
proof -
  let ?s = "sw_store w" and ?now = "sw_now w"
  note same = marks_same [of _ ?s ?now] and prune = marks_prune [OF assms, of _ ?now]
  show ?thesis
  proof (cases e)
    case (NewPending random delay)
    then show ?thesis
      by (cases random) (auto simp: consumed_def create_pending_def Let_def marks_same intro!: prune split: option.split)
  next
    case (FailPending token)
    then show ?thesis
      by (auto simp: consumed_def record_failed_attempt_def Let_def intro!: prune split: option.split)
  next
    case (MarkTotp secret code lag)
    let ?steps = "matched_at totp base secret code (?now - lag)"
    obtain b s1 where m: "mark_unused_totp_steps ?steps ?now (prune_expired_sessions ?now ?s) = (b, s1)"
      by (cases "mark_unused_totp_steps ?steps ?now (prune_expired_sessions ?now ?s)")
    show ?thesis
      using marks_mark [OF assms m refl] MarkTotp m
      by (simp add: consumed_def try_mark_unused_totp_steps_def Let_def)
  next
    case (NewFull random)
    then show ?thesis
      by (cases random) (auto simp: consumed_def create_authenticated_def insert_authenticated_session_def
          new_lifetime_def Let_def marks_same intro!: prune split: sum.split)
  next
    case (ExchangeTotp pending secret code lag random)
    let ?steps = "matched_at totp base secret code (?now - lag)"
    obtain b s1 where m: "mark_unused_totp_steps ?steps ?now (prune_expired_sessions ?now ?s) = (b, s1)"
      by (cases "mark_unused_totp_steps ?steps ?now (prune_expired_sessions ?now ?s)")
    note mark = marks_mark [OF assms m]
    have none: "\<not> b \<Longrightarrow> s1 = prune_expired_sessions ?now ?s"
      using m by (auto simp: mark_unused_totp_steps_def split: if_splits)
    show ?thesis
      using ExchangeTotp m mark none
      by (auto simp: consumed_def exchange_pending_def insert_authenticated_session_def new_lifetime_def Let_def
          intro!: prune split: option.split sum.split)
  next
    case (ExchangePasskey pending random)
    then show ?thesis
      by (auto simp: consumed_def exchange_pending_for_passkey_def insert_authenticated_session_def new_lifetime_def Let_def
          intro!: prune split: option.split sum.split)
  next
    case (BindFull token i)
    then show ?thesis
      by (cases i) (auto simp: consumed_def set_authenticated_login_event_id_def Let_def marks_same
          intro!: prune split: option.split)
  next
    case (NewBasic random i)
    then show ?thesis
      by (cases random) (auto simp: consumed_def create_basic_auth_session_def new_lifetime_def Let_def marks_same
          intro!: prune split: sum.split)
  next
    case (Confirm token two)
    then show ?thesis
      by (auto simp: consumed_def confirm_sensitive_action_def Let_def intro!: prune split: option.split)
  qed (auto simp: consumed_def pending_exists_def is_authenticated_def sensitive_action_confirmed_def
      remove_authenticated_def remove_basic_auth_session_def revoke_def bind_basic_auth_login_def clear_authenticated_def
      Let_def marks_same intro!: prune split: option.split)
qed

lemma consumed_window:
  assumes "steps \<in> set (consumed totp base e w)" and "prompt e" and "(base + sw_now w) div NANOS < 2 ^ 63"
    and "t \<in> set steps"
  shows "unat t \<le> tick base (sw_now w) + 1" and "tick base (sw_now w - from_secs 60) \<le> unat t + 1"
proof -
  obtain secret code lag where m: "steps = matched_at totp base secret code (sw_now w - lag)" "lag \<le> from_secs 60"
    using assms(1,2) by (cases e) (auto simp: consumed_def Let_def split: if_splits sum.splits option.splits)
  have "(base + (sw_now w - lag)) div NANOS < 2 ^ 63"
    using assms(3) by (rule le_less_trans [OF div_le_mono, rotated]) simp
  note window = matched_window [OF assms(4) [unfolded m] this]
  show "unat t \<le> tick base (sw_now w) + 1"
    using window tick_mono [of "sw_now w - lag" "sw_now w" base] by simp
  show "tick base (sw_now w - from_secs 60) \<le> unat t + 1"
    using window m(2) tick_mono [OF diff_le_mono2 [OF m(2)], of base "sw_now w"] by simp
qed

lemma codes_step:
  assumes "codes_ok base w log" and "prompt e" and "(base + sw_now w) div NANOS < 2 ^ 63"
  shows "codes_ok base (session_step totp base e w)
      (log @ map (\<lambda>steps. (steps, sw_now w)) (consumed totp base e w))"
    and "\<forall>steps\<in>set (consumed totp base e w). \<exists>t\<in>set steps. \<forall>(old, n)\<in>set log. t \<notin> set old"
proof -
  let ?keep = "from_secs TWO_FACTOR_TOTP_REPLAY_RETENTION_SECS" and ?w = "session_step totp base e w"
  have tables: "tables_ok (sw_store w)"
    using assms(1) by (simp add: codes_ok_def)
  have marks: "marks_after (sw_store w) (sw_store ?w) (sw_now w) (consumed totp base e w)"
    using marks_op [OF tables] by (simp add: session_step_def)
  have later: "sw_now w \<le> sw_now ?w"
    by (simp add: session_step_def)
  have old: "n \<le> sw_now ?w \<and> (\<forall>t\<in>set steps. unat t \<le> tick base n + 1 \<and>
      (sw_now ?w < n + ?keep \<longrightarrow> (\<exists>e. tbl_get (ss_used_steps (sw_store ?w)) t = Some e \<and> n + ?keep \<le> e)))"
    if "(steps, n) \<in> set log" for steps n
  proof -
    have n: "n \<le> sw_now w" and t: "\<And>t. t \<in> set steps \<Longrightarrow> unat t \<le> tick base n + 1 \<and>
        (sw_now w < n + ?keep \<longrightarrow> (\<exists>e. tbl_get (ss_used_steps (sw_store w)) t = Some e \<and> n + ?keep \<le> e))"
      using assms(1) that by (auto simp: codes_ok_def)
    have "\<exists>e. tbl_get (ss_used_steps (sw_store ?w)) t = Some e \<and> n + ?keep \<le> e"
      if "t \<in> set steps" "sw_now ?w < n + ?keep" for t
    proof -
      note mem = that(1) and live = that(2)
      obtain e where e: "tbl_get (ss_used_steps (sw_store w)) t = Some e" "n + ?keep \<le> e"
        using t [OF mem] live later by auto
      then obtain e' where "tbl_get (ss_used_steps (sw_store ?w)) t = Some e'" "min e (sw_now w + ?keep) \<le> e'"
        using marks live later unfolding marks_after_def by (meson le_less_trans less_le_trans)
      then show ?thesis
        using e(2) n by (auto simp: min_def split: if_splits intro: order_trans)
    qed
    then show ?thesis
      using n later t by auto
  qed
  have new: "\<forall>t\<in>set steps. unat t \<le> tick base (sw_now w) + 1 \<and>
      tbl_get (ss_used_steps (sw_store ?w)) t = Some (sw_now w + ?keep)"
    if "steps \<in> set (consumed totp base e w)" for steps
    using consumed_window(1) [OF that assms(2,3)] marks that by (auto simp: marks_after_def)
  show "codes_ok base ?w (log @ map (\<lambda>steps. (steps, sw_now w)) (consumed totp base e w))"
    unfolding codes_ok_def using tables later old new
    by (fastforce simp: session_step_def session_op_tables)
  show "\<forall>steps\<in>set (consumed totp base e w). \<exists>t\<in>set steps. \<forall>(old, n)\<in>set log. t \<notin> set old"
  proof
    fix steps assume steps: "steps \<in> set (consumed totp base e w)"
    then obtain t where t: "t \<in> set steps" "\<And>e. tbl_get (ss_used_steps (sw_store w)) t = Some e \<Longrightarrow> e \<le> sw_now w"
      using marks unfolding marks_after_def by blast
    have "t \<notin> set used" if log: "(used, n) \<in> set log" for used n
    proof
      assume "t \<in> set used"
      then have seen: "n \<le> sw_now w" "unat t \<le> tick base n + 1"
          "sw_now w < n + ?keep \<Longrightarrow> \<exists>e. tbl_get (ss_used_steps (sw_store w)) t = Some e \<and> n + ?keep \<le> e"
        using assms(1) log by (auto simp: codes_ok_def)
      have late: "n + ?keep \<le> sw_now w"
        using seen(3) t(2) by (meson le_less_trans not_le order_trans)
      then have "tick base n + 3 \<le> tick base (sw_now w - from_secs 60)"
        by (intro tick_later) (simp add: from_secs_def TWO_FACTOR_TOTP_REPLAY_RETENTION_SECS_def)
      then show False
        using consumed_window(2) [OF steps assms(2,3) t(1)] seen(2) by simp
    qed
    then show "\<exists>t\<in>set steps. \<forall>(old, n)\<in>set log. t \<notin> set old"
      using t(1) by blast
  qed
qed

text \<open>C8: A one-time code is accepted once: of every code that logs somebody in or confirms a sensitive action, at
  least one time step was never part of an accepted code before, whatever the store forgets in between,
  while the wall clock runs with the monotonic one and a code is checked within a minute of being
  matched.\<close>

theorem totp_codes_single_use:
  assumes "list_all prompt es"
    and "(base + sw_now (fold (session_step totp base) es (session_start t0))) div NANOS < 2 ^ 63"
    and "log = run_effects (session_step totp base) (consumed totp base) es (session_start t0)"
  shows "\<forall>i<length log. \<exists>t\<in>set (log ! i). \<forall>k<i. t \<notin> set (log ! k)"
proof -
  let ?ok = "\<lambda>ls. \<forall>i<length ls. \<exists>t\<in>set (ls ! i). \<forall>k<i. t \<notin> set (ls ! k)"
  have mono: "sw_now w \<le> sw_now (fold (session_step totp base) es w)" for es w
  proof (induction es arbitrary: w)
    case (Cons e es)
    have "sw_now w \<le> sw_now (session_step totp base e w)"
      by (simp add: session_step_def)
    then show ?case
      using Cons [of "session_step totp base e w"] by simp
  qed simp
  have grow: "?ok (ls @ ms)" if "?ok ls" "\<forall>m\<in>set ms. \<exists>t\<in>set m. \<forall>l\<in>set ls. t \<notin> set l" "length ms \<le> 1" for ls ms
    using that by (cases ms) (auto simp: nth_append less_Suc_eq dest!: nth_mem)
  have "?ok (map fst old @ run_effects (session_step totp base) (consumed totp base) es w)"
    if "codes_ok base w old" "?ok (map fst old)" "list_all prompt es"
      "(base + sw_now (fold (session_step totp base) es w)) div NANOS < 2 ^ 63" for old w
    using that
  proof (induction es arbitrary: w old)
    case (Cons e es)
    let ?w = "session_step totp base e w" and ?new = "map (\<lambda>steps. (steps, sw_now w)) (consumed totp base e w)"
    have time: "(base + sw_now w) div NANOS < 2 ^ 63"
      using Cons.prems(4) le_less_trans [OF div_le_mono [OF add_left_mono [OF mono [of w "e # es"]]]] by blast
    have e: "prompt e"
      using Cons.prems(3) by simp
    note step = codes_step [OF Cons.prems(1) e time, of totp]
    have "length (consumed totp base e w) \<le> 1"
      by (cases e) (auto simp: consumed_def Let_def split: sum.split option.split)
    then have "?ok (map fst (old @ ?new))"
      using grow [OF Cons.prems(2), of "consumed totp base e w"] step(2) by (fastforce simp: comp_def)
    then show ?case
      using Cons.IH [OF step(1)] Cons.prems(3,4) by (simp add: comp_def)
  qed simp
  from this [of "session_start t0" "[]"] show ?thesis
    using assms by (simp add: codes_ok_def session_start_def tables_start)
qed

definition demo_totp :: "secret \<Rightarrow> u64 \<Rightarrow> string" where
  "demo_totp secret secs = (if secs = 30 then ''123456'' else ''000000'')"

definition demo_logins :: "session_event list" where
  "demo_logins =
     [NewPending (Some ''p'') 0, ExchangeTotp ''p'' (Some []) ''123456'' 0 (Some ''s''), Pass (from_secs 20),
      NewPending (Some ''q'') 0, ExchangeTotp ''q'' (Some []) ''123456'' 0 (Some ''t'')]"

lemma demo_step: "(30 :: u64) div 30 = 1" "(50 :: u64) div 30 = 1"
  by (simp_all add: word_div_def)

lemma demo_matched:
  "matched_at demo_totp 30000000000 (Some []) ''123456'' 0 = [1]"
  "matched_at demo_totp 30000000000 (Some []) ''123456'' 20000000000 = [1]"
proof -
  have steps: "candidate_steps 1 = [0, 1, 2]"
    by (simp add: candidate_steps_def)
  have code: "filter (\<lambda>t. totp_code_for_step demo_totp [] t = ''123456'') [0, 1, 2] = [1]"
    by (simp add: totp_code_for_step_def demo_totp_def sat_mul_def)
  have digits: "list_all is_ascii_digit ''123456''"
    by (simp add: is_ascii_digit_def byte_def)
  show "matched_at demo_totp 30000000000 (Some []) ''123456'' 0 = [1]"
    "matched_at demo_totp 30000000000 (Some []) ''123456'' 20000000000 = [1]"
    using code digits by (simp_all add: matched_at_def matching_totp_steps_def wall_secs_def NANOS_def
        matching_totp_steps_at_def demo_step steps)
qed

theorem totp_codes_single_use_witness:
  "\<exists>log. log = run_effects (session_step demo_totp (30 * NANOS)) (consumed demo_totp (30 * NANOS)) demo_logins
       (session_start 0) \<and> log = [[1]] \<and> (\<exists>t. t \<in> set (log ! 0))"
proof -
  let ?log = "run_effects (session_step demo_totp (30 * NANOS)) (consumed demo_totp (30 * NANOS)) demo_logins
    (session_start 0)"
  have log: "?log = [[1]]"
    by (simp add: demo_logins_def session_start_def session_step_def consumed_def Let_def create_pending_def
        sessions_new_def prune_expired_sessions_def MAX_PENDING_SESSIONS_def exchange_pending_def demo_matched
        ensure_session_capacity_def MAX_AUTH_SESSIONS_def mark_unused_totp_steps_def insert_authenticated_session_def
        new_lifetime_def from_secs_def NANOS_def TWO_FACTOR_PENDING_SECS_def TWO_FACTOR_TOTP_REPLAY_RETENTION_SECS_def
        TWO_FACTOR_AUTH_SECS_def SENSITIVE_CONFIRMATION_SECS_def)
  have prompt: "list_all prompt demo_logins"
    by (simp add: demo_logins_def)
  have clock: "(30 * NANOS + sw_now (fold (session_step demo_totp (30 * NANOS)) demo_logins (session_start 0))) div NANOS < 2 ^ 63"
    by (simp add: demo_logins_def session_step_def session_start_def from_secs_def NANOS_def)
  have "\<exists>t. t \<in> set (?log ! 0)"
    using totp_codes_single_use [OF prompt clock refl] log by fastforce
  then show ?thesis
    using log by blast
qed

section \<open>The sessions of the store\<close>

text \<open>
  What the store is meant to hold: for each token of either kind the end of its session and of its last
  confirmation, until time, a logout or a change of the credentials ends it.
\<close>

type_synonym session_view = "bool \<times> string \<Rightarrow> (instant \<times> instant option) option"

datatype session_action =
    Issue bool string instant "instant option"
  | Confirmed bool string instant
  | End bool string
  | EndAll
  | Until instant

fun perform_action :: "session_action \<Rightarrow> session_view \<Rightarrow> session_view" where
  "perform_action (Issue two token e c) v = v((two, token) \<mapsto> (e, c))"
| "perform_action (Confirmed two token c) v =
     v((two, token) := map_option (\<lambda>(e, _). (e, Some c)) (v (two, token)))"
| "perform_action (End two token) v = v((two, token) := None)"
| "perform_action EndAll v = (\<lambda>_. None)"
| "perform_action (Until now) v =
     (\<lambda>k. case v k of None \<Rightarrow> None | Some (e, c) \<Rightarrow> if now < e then Some (e, c) else None)"

definition live_at :: "instant \<Rightarrow> web_session option \<Rightarrow> (instant \<times> instant option) option" where
  "live_at now a =
     (case a of None \<Rightarrow> None
      | Some a \<Rightarrow> if now < bs_expires_at (wb_lifetime a)
          then Some (bs_expires_at (wb_lifetime a), wb_confirmed_until a) else None)"

definition view_of :: "instant \<Rightarrow> session_store \<Rightarrow> session_view" where
  "view_of now s =
     (\<lambda>(two, token). live_at now (tbl_get (if two then ss_authenticated s else ss_basic s) token))"

definition sessions_view :: "session_world \<Rightarrow> session_view" where
  "sessions_view w = view_of (sw_now w) (sw_store w)"

definition session_actions ::
  "(secret \<Rightarrow> u64 \<Rightarrow> string) \<Rightarrow> nat \<Rightarrow> session_event \<Rightarrow> session_world \<Rightarrow> session_action list" where
  "session_actions totp base e w =
     (let now = sw_now w; s = sw_store w;
          full = (\<lambda>token. [Issue True token (now + from_secs TWO_FACTOR_AUTH_SECS)
                     (Some (now + from_secs SENSITIVE_CONFIRMATION_SECS))])
      in case e of
        Pass n \<Rightarrow> [Until (now + n)]
      | NewFull random \<Rightarrow>
          (case snd (create_authenticated random now s) of Inr token \<Rightarrow> full token | Inl _ \<Rightarrow> [])
      | ExchangeTotp pending secret code lag random \<Rightarrow>
          (case snd (exchange_pending pending (matched_at totp base secret code (now - lag)) random now s) of
             Inr (Some token) \<Rightarrow> full token | _ \<Rightarrow> [])
      | ExchangePasskey pending random \<Rightarrow>
          (case snd (exchange_pending_for_passkey pending random now s) of Inr (Some token) \<Rightarrow> full token | _ \<Rightarrow> [])
      | NewBasic random i \<Rightarrow>
          (case snd (create_basic_auth_session random i now s) of
             Inr token \<Rightarrow> [Issue False token (now + from_secs BASIC_AUTH_SESSION_SECS) None] | Inl _ \<Rightarrow> [])
      | LogoutFull token \<Rightarrow> [End True token]
      | LogoutBasic token \<Rightarrow> [End False token]
      | Confirm token two \<Rightarrow> [Confirmed two token (now + from_secs SENSITIVE_CONFIRMATION_SECS)]
      | ClearAll \<Rightarrow> [EndAll]
      | _ \<Rightarrow> [])"

lemma view_other [simp]:
  "view_of now (s\<lparr>ss_pending := p\<rparr>) = view_of now s" "view_of now (s\<lparr>ss_used_steps := u\<rparr>) = view_of now s"
  "view_of now (s\<lparr>ss_cancelled := c\<rparr>) = view_of now s" "view_of now (s\<lparr>ss_next_revoked := n\<rparr>) = view_of now s"
  by (simp_all add: view_of_def fun_eq_iff)

lemma view_prune [simp]: "tables_ok s \<Longrightarrow> view_of now (prune_expired_sessions now s) = view_of now s"
  by (auto simp: view_of_def fun_eq_iff prune_expired_sessions_def tables_ok_def tbl_get_filter live_at_def
      split: option.split)

lemma view_put:
  "view_of now (s\<lparr>ss_authenticated := tbl_put k a t\<rparr>) =
    (view_of now (s\<lparr>ss_authenticated := t\<rparr>))((True, k) := live_at now (Some a))"
  "view_of now (s\<lparr>ss_basic := tbl_put k a t\<rparr>) = (view_of now (s\<lparr>ss_basic := t\<rparr>))((False, k) := live_at now (Some a))"
  by (auto simp: view_of_def fun_eq_iff table_simps)

lemma view_del:
  "view_of now (s\<lparr>ss_authenticated := tbl_del k (ss_authenticated s)\<rparr>) = (view_of now s)((True, k) := None)"
  "view_of now (s\<lparr>ss_basic := tbl_del k (ss_basic s)\<rparr>) = (view_of now s)((False, k) := None)"
  by (auto simp: view_of_def fun_eq_iff table_simps live_at_def)

lemma view_same_tables [simp]:
  "s\<lparr>ss_authenticated := ss_authenticated s\<rparr> = s" "s\<lparr>ss_basic := ss_basic s\<rparr> = s"
  by simp_all

lemma view_at [simp]:
  "view_of now s (True, k) = live_at now (tbl_get (ss_authenticated s) k)"
  "view_of now s (False, k) = live_at now (tbl_get (ss_basic s) k)"
  by (simp_all add: view_of_def)

lemma from_secs_pos: "0 < n \<Longrightarrow> 0 < from_secs n"
  by (simp add: from_secs_def NANOS_pos)

lemma live_new [simp]: "0 < n \<Longrightarrow> live_at now (Some \<lparr>wb_lifetime = \<lparr>bs_expires_at = now + from_secs n, bs_revoked = r\<rparr>,
    wb_login_event_id = i, wb_confirmed_until = c\<rparr>) = Some (now + from_secs n, c)"
  by (simp add: live_at_def from_secs_pos)

lemma view_insert:
  "view_of now (insert_authenticated_session token now s) =
    (view_of now s)((True, token) \<mapsto> (now + from_secs TWO_FACTOR_AUTH_SECS, Some (now + from_secs SENSITIVE_CONFIRMATION_SECS)))"
proof -
  have "view_of now (s\<lparr>ss_next_revoked := n, ss_authenticated := ss_authenticated s\<rparr>) = view_of now s" for n
    by (simp add: view_of_def fun_eq_iff)
  then show ?thesis
    by (simp add: insert_authenticated_session_def new_lifetime_def view_put TWO_FACTOR_AUTH_SECS_def)
qed

lemma view_mark:
  "mark_unused_totp_steps steps now s = (b, s') \<Longrightarrow> tables_ok s \<Longrightarrow> view_of now' s' = view_of now' s"
  using mark_result [of steps now s b s'] by (auto simp: tables_ok_def)

lemma live_login [simp]: "live_at now (Some (a\<lparr>wb_login_event_id := i\<rparr>)) = live_at now (Some a)"
  by (simp add: live_at_def)

lemma live_none: "live_at now None = None"
  by (simp add: live_at_def)

lemma view_absent:
  "tbl_get (ss_authenticated s) k = None \<Longrightarrow> (view_of now s)((True, k) := None) = view_of now s"
  "tbl_get (ss_basic s) k = None \<Longrightarrow> (view_of now s)((False, k) := None) = view_of now s"
  by (simp_all add: fun_upd_idem live_none)

lemma live_confirm:
  "live_at now (Some (a\<lparr>wb_confirmed_until := Some c\<rparr>)) = map_option (\<lambda>(e, _). (e, Some c)) (live_at now (Some a))"
  by (simp add: live_at_def)

lemma pruned_live:
  assumes "tables_ok s"
  shows "tbl_get (ss_authenticated (prune_expired_sessions now s)) k = Some a \<Longrightarrow>
      tbl_get (ss_authenticated s) k = Some a \<and> now < bs_expires_at (wb_lifetime a)"
    and "tbl_get (ss_basic (prune_expired_sessions now s)) k = Some a \<Longrightarrow>
      tbl_get (ss_basic s) k = Some a \<and> now < bs_expires_at (wb_lifetime a)"
    and "tbl_get (ss_authenticated (prune_expired_sessions now s)) k = None \<longleftrightarrow>
      live_at now (tbl_get (ss_authenticated s) k) = None"
    and "tbl_get (ss_basic (prune_expired_sessions now s)) k = None \<longleftrightarrow> live_at now (tbl_get (ss_basic s) k) = None"
  using assms by (auto simp: prune_expired_sessions_def tables_ok_def tbl_get_filter live_at_def split: option.splits if_splits)

lemma actions_op:
  assumes "tables_ok (sw_store w)" and "\<nexists>n. e = Pass n"
  shows "view_of (sw_now w) (session_op totp base e (sw_now w) (sw_store w)) =
    fold perform_action (session_actions totp base e w) (sessions_view w)"
proof -
  let ?s = "sw_store w" and ?now = "sw_now w"
  note p = tables_prune [OF assms(1), of ?now]
  note prune = view_prune [OF assms(1), of ?now]
  show ?thesis
  proof (cases e)
    case (NewPending random delay)
    then show ?thesis
      using prune by (cases random) (auto simp: session_actions_def sessions_view_def create_pending_def Let_def split: option.split)
  next
    case (FailPending token)
    then show ?thesis
      using prune by (auto simp: session_actions_def sessions_view_def record_failed_attempt_def Let_def split: option.split)
  next
    case (MarkTotp secret code lag)
    obtain b s1 where m: "mark_unused_totp_steps (matched_at totp base secret code (?now - lag)) ?now
        (prune_expired_sessions ?now ?s) = (b, s1)"
      by (cases "mark_unused_totp_steps (matched_at totp base secret code (?now - lag)) ?now (prune_expired_sessions ?now ?s)")
    show ?thesis
      using MarkTotp prune view_mark [OF m p]
      by (simp add: session_actions_def sessions_view_def try_mark_unused_totp_steps_def m)
  next
    case (NewFull random)
    then show ?thesis
      using prune by (cases random) (auto simp: session_actions_def sessions_view_def create_authenticated_def Let_def
          view_insert split: sum.split)
  next
    case (ExchangeTotp pending secret code lag random)
    obtain b s1 where m: "mark_unused_totp_steps (matched_at totp base secret code (?now - lag)) ?now
        (prune_expired_sessions ?now ?s) = (b, s1)"
      by (cases "mark_unused_totp_steps (matched_at totp base secret code (?now - lag)) ?now (prune_expired_sessions ?now ?s)")
    show ?thesis
      using ExchangeTotp prune view_mark [OF m p]
      by (auto simp: session_actions_def sessions_view_def exchange_pending_def Let_def view_insert m
          split: option.split sum.split)
  next
    case (ExchangePasskey pending random)
    then show ?thesis
      using prune by (auto simp: session_actions_def sessions_view_def exchange_pending_for_passkey_def Let_def view_insert
          split: option.split sum.split)
  next
    case (BindFull token i)
    then show ?thesis
      using prune pruned_live [OF assms(1), of ?now token] by (cases i) (auto simp: session_actions_def sessions_view_def set_authenticated_login_event_id_def Let_def
          view_put fun_eq_iff split: option.split)
  next
    case (NewBasic random i)
    have keep: "view_of ?now (s\<lparr>ss_next_revoked := n, ss_basic := ss_basic s\<rparr>) = view_of ?now s" for s n
      by (simp add: view_of_def fun_eq_iff)
    show ?thesis
      using NewBasic prune by (cases random) (auto simp: session_actions_def sessions_view_def create_basic_auth_session_def
          new_lifetime_def Let_def view_put keep BASIC_AUTH_SESSION_SECS_def split: sum.split)
  next
    case (BindBasic token i)
    then show ?thesis
      by (auto simp: session_actions_def sessions_view_def bind_basic_auth_login_def view_put fun_eq_iff
          split: option.split dest: live_basic_get)
  next
    case (Confirm token two)
    have v: "sessions_view w = view_of ?now (prune_expired_sessions ?now ?s)"
      by (simp add: sessions_view_def prune)
    show ?thesis
      unfolding v Confirm
      by (cases two; cases "tbl_get (ss_authenticated (prune_expired_sessions ?now ?s)) token";
          cases "tbl_get (ss_basic (prune_expired_sessions ?now ?s)) token")
        (simp_all add: session_actions_def confirm_sensitive_action_def Let_def view_put live_confirm view_absent live_none)
  next
    case (LogoutFull token)
    then show ?thesis
      by (auto simp: session_actions_def sessions_view_def remove_authenticated_def revoke_def view_del table_simps fun_eq_iff live_at_def
          split: option.split)
  next
    case (LogoutBasic token)
    then show ?thesis
      by (auto simp: session_actions_def sessions_view_def remove_basic_auth_session_def revoke_def view_del table_simps fun_eq_iff live_at_def
          split: option.split)
  next
    case ClearAll
    then show ?thesis
      by (simp add: session_actions_def clear_authenticated_def view_of_def fun_eq_iff live_at_def)
  qed (use assms prune in \<open>auto simp: session_actions_def sessions_view_def pending_exists_def is_authenticated_def
      sensitive_action_confirmed_def Let_def\<close>)
qed

lemma actions_step:
  assumes "tables_ok (sw_store w)"
  shows "sessions_view (session_step totp base e w) = fold perform_action (session_actions totp base e w) (sessions_view w)"
proof (cases "\<exists>n. e = Pass n")
  case True
  then show ?thesis
    by (auto simp: session_step_def sessions_view_def session_actions_def view_of_def live_at_def fun_eq_iff
        split: option.split)
next
  case False
  then show ?thesis
    using actions_op [OF assms, of e totp base]
    by (cases e) (simp_all add: session_step_def sessions_view_def)
qed

interpretation sessions: refinement "session_step totp base" "\<lambda>w. tables_ok (sw_store w)" "\<lambda>_. True"
  sessions_view "session_actions totp base" perform_action for totp base
  by unfold_locales (rule actions_step)

lemma view_card:
  assumes "tables_ok s"
  shows "card (dom (view_of now s)) \<le> length (ss_authenticated s) + length (ss_basic s)"
proof -
  let ?A = "Pair True ` fst ` set (ss_authenticated s)" and ?B = "Pair False ` fst ` set (ss_basic s)"
  have some: "k \<in> fst ` set t" if "live_at now (tbl_get t k) = Some v" for t k v
    using that by (force simp: live_at_def split: option.splits dest: map_of_SomeD)
  have "dom (view_of now s) \<subseteq> ?A \<union> ?B"
  proof
    fix x assume "x \<in> dom (view_of now s)"
    then obtain v where "view_of now s x = Some v" by blast
    then show "x \<in> ?A \<union> ?B"
      by (cases x; cases "fst x") (auto dest!: some)
  qed
  then have "card (dom (view_of now s)) \<le> card ?A + card ?B"
    by (intro order_trans [OF card_mono card_Un_le]) auto
  moreover have "card (Pair b ` fst ` set t) \<le> length t" for b and t :: "(string \<times> web_session) list"
    by (meson card_image_le card_length finite_imageI finite_set order_trans)
  ultimately show ?thesis by (meson add_mono order_trans)
qed

text \<open>C9: Over every run the store holds exactly the sessions its log promises: a token is accepted just while
  the session issued for it has neither expired nor been logged out nor lost its credentials, a sensitive
  action counts as confirmed just within five minutes of the last confirmation of a living session, no
  other operation ends a session or revives one, and there are never more than 1024 sessions and 256
  pending logins.\<close>

theorem sessions_refine_their_log:
  "let w = fold (session_step totp base) es (session_start t0);
       v = fold perform_action
         (run_effects (session_step totp base) (session_actions totp base) es (session_start t0)) (\<lambda>_. None)
   in (snd (is_authenticated token (sw_now w) (sw_store w)) \<longleftrightarrow> v (True, token) \<noteq> None) \<and>
      (is_basic_auth_session_valid token (sw_now w) (sw_store w) \<longleftrightarrow> v (False, token) \<noteq> None) \<and>
      (snd (sensitive_action_confirmed token two (sw_now w) (sw_store w)) \<longleftrightarrow>
        (\<exists>e c. v (two, token) = Some (e, Some c) \<and> sw_now w < c)) \<and>
      card (dom v) \<le> MAX_AUTH_SESSIONS \<and> length (ss_pending (sw_store w)) \<le> MAX_PENDING_SESSIONS"
proof -
  let ?w = "fold (session_step totp base) es (session_start t0)"
  let ?v = "fold perform_action
    (run_effects (session_step totp base) (session_actions totp base) es (session_start t0)) (\<lambda>_. None)"
  have start: "tables_ok (sw_store (session_start t0))"
    by (simp add: session_start_def tables_start)
  have "sessions_view (session_start t0) = (\<lambda>_. None)"
    by (simp add: session_start_def sessions_view_def view_of_def sessions_new_def live_at_def fun_eq_iff)
  note start = start this
  have v: "sessions_view ?w = ?v"
    using sessions.run_refines [of "session_start t0" es totp base] start by (simp add: list_all_iff)
  have ok: "tables_ok (sw_store ?w)"
    using tables.run_inv [of "session_start t0" es totp base] start by (simp add: list_all_iff)
  have view: "?v (True, k) = live_at (sw_now ?w) (tbl_get (ss_authenticated (sw_store ?w)) k)"
      "?v (False, k) = live_at (sw_now ?w) (tbl_get (ss_basic (sw_store ?w)) k)" for k
    by (simp_all add: v [symmetric] sessions_view_def)
  have full: "snd (is_authenticated token (sw_now ?w) (sw_store ?w)) \<longleftrightarrow> ?v (True, token) \<noteq> None"
    unfolding view is_authenticated_def Let_def snd_conv using pruned_live(3) [OF ok, of "sw_now ?w" token] by simp
  have basic: "is_basic_auth_session_valid token (sw_now ?w) (sw_store ?w) \<longleftrightarrow> ?v (False, token) \<noteq> None"
    unfolding view by (auto simp: is_basic_auth_session_valid_def live_basic_def live_at_def split: option.split)
  have confirmed: "snd (sensitive_action_confirmed token two (sw_now ?w) (sw_store ?w)) \<longleftrightarrow>
      (\<exists>e c. ?v (two, token) = Some (e, Some c) \<and> sw_now ?w < c)"
    using ok by (cases two)
      (auto simp: view sensitive_action_confirmed_def Let_def prune_expired_sessions_def tables_ok_def tbl_get_filter
        live_at_def split: option.splits if_splits)
  have "card (dom ?v) \<le> MAX_AUTH_SESSIONS"
    using view_card [OF ok, of "sw_now ?w"] ok unfolding v [symmetric] sessions_view_def tables_ok_def by linarith
  then show ?thesis
    using full basic confirmed ok unfolding Let_def tables_ok_def by blast
qed

end

