(* ===== verification/Passwords.thy ===== *)
theory Passwords
  imports Text
begin

text \<open>
  The strength rules for panel passwords of \<open>nodelite-server/src/auth.rs\<close> with the dictionary of
  \<open>auth/common_passwords.rs\<close>. A string is the list of its UTF-8 bytes and \<open>chars\<close> splits it into
  characters; the Unicode tables of the standard library (\<open>char::is_uppercase\<close>, \<open>is_lowercase\<close>,
  \<open>is_alphanumeric\<close> and \<open>str::to_lowercase\<close>) are a parameter.
\<close>

record unicode =
  uc_is_uppercase :: "string \<Rightarrow> bool"
  uc_is_lowercase :: "string \<Rightarrow> bool"
  uc_is_alphanumeric :: "string \<Rightarrow> bool"
  uc_to_lowercase :: "string \<Rightarrow> string"

definition COMMON_PASSWORDS :: "string list" where
  "COMMON_PASSWORDS =
    [''password'', ''password1'', ''password123'', ''password12'', ''password1234'', ''123456'', ''12345678'',
     ''123456789'', ''1234567890'', ''qwerty'', ''abc123'', ''monkey'', ''1234567'', ''letmein'',
     ''trustno1'', ''dragon'', ''baseball'', ''iloveyou'', ''master'', ''sunshine'', ''ashley'', ''bailey'',
     ''passw0rd'', ''shadow'', ''123123'', ''654321'', ''superman'', ''qazwsx'', ''michael'', ''football'',
     ''welcome'', ''jesus'', ''ninja'', ''mustang'', ''password!'', ''admin'', ''admin123'', ''root'',
     ''toor'', ''pass'', ''test'', ''guest'', ''info'', ''adm'', ''mysql'', ''user'', ''administrator'',
     ''oracle'', ''ftp'', ''pi'', ''puppet'', ''ansible'', ''ec2-user'', ''vagrant'', ''azureuser'',
     ''changeme'', ''changeme123'', ''default'', ''password@123'', ''p@ssw0rd'', ''p@ssword'', ''passw0rd!'',
     ''admin@123'', ''root123'', ''test123'', ''demo'', ''demo123'', ''sample'', ''temp'', ''temp123'',
     ''nodelite'', ''monitor'', ''monitoring'', ''server'', ''agent'', ''qwerty123'', ''abc123456'',
     ''letmein123'', ''welcome123'', ''123qwe'', ''qwe123'', ''1q2w3e4r'', ''1qaz2wsx'', ''zxcvbnm'',
     ''asdfgh'', ''qwertyuiop'', ''1234qwer'', ''qwer1234'', ''abcd1234'', ''password1!'', ''password123!'',
     ''admin1234'', ''root1234'', ''pass1234'', ''test1234'', ''demo1234'', ''temp1234'', ''user1234'',
     ''welcome1'', ''admin123!@#'', ''admin123!@#$'', ''welcome123!@'']"

definition alphanumerics :: "unicode \<Rightarrow> string \<Rightarrow> string" where
  "alphanumerics uc s = concat (filter (uc_is_alphanumeric uc) (chars s))"

definition is_common_password :: "unicode \<Rightarrow> string \<Rightarrow> bool" where
  "is_common_password uc password \<longleftrightarrow>
     (let lower = uc_to_lowercase uc password in
      lower \<in> set COMMON_PASSWORDS \<or>
      list_ex (\<lambda>common. alphanumerics uc common \<noteq> [] \<and> alphanumerics uc lower = alphanumerics uc common)
        COMMON_PASSWORDS)"

datatype password_error =
  TooShort | TooLong | NoUppercase | NoLowercase | NoDigit | NoSpecial | TooCommon

definition validate_password_strength :: "unicode \<Rightarrow> string \<Rightarrow> password_error + unit" where
  "validate_password_strength uc password =
     (let cs = chars password in
      if length cs < 12 then Inl TooShort
      else if 128 < length cs then Inl TooLong
      else if \<not> list_ex (uc_is_uppercase uc) cs then Inl NoUppercase
      else if \<not> list_ex (uc_is_lowercase uc) cs then Inl NoLowercase
      else if \<not> list_ex (\<lambda>c. length c = 1 \<and> is_ascii_digit (hd c)) cs then Inl NoDigit
      else if \<not> list_ex (\<lambda>c. \<not> uc_is_alphanumeric uc c) cs then Inl NoSpecial
      else if is_common_password uc password then Inl TooCommon
      else Inr ())"

text \<open>The tables restricted to ASCII, for evaluation.\<close>

definition unicode_ascii :: unicode where
  "unicode_ascii =
     \<lparr>uc_is_uppercase = list_all (\<lambda>c. 65 \<le> byte c \<and> byte c \<le> 90),
      uc_is_lowercase = list_all (\<lambda>c. 97 \<le> byte c \<and> byte c \<le> 122),
      uc_is_alphanumeric = list_all is_ascii_alphanumeric,
      uc_to_lowercase = map ascii_lower\<rparr>"

text \<open>An accepted password meets every rule, and stays out of the dictionary when punctuation is added.\<close>

lemma accepted_password:
  assumes "validate_password_strength uc password = Inr ()"
  shows "12 \<le> length (chars password)" "length (chars password) \<le> 128"
    "\<exists>c\<in>set (chars password). uc_is_uppercase uc c" "\<exists>c\<in>set (chars password). uc_is_lowercase uc c"
    "\<exists>c\<in>set (chars password). \<not> uc_is_alphanumeric uc c" "\<not> is_common_password uc password"
  using assms by (auto simp: validate_password_strength_def Let_def list_ex_iff split: if_splits)

lemma common_modulo_punctuation:
  assumes "alphanumerics uc (uc_to_lowercase uc p) = alphanumerics uc (uc_to_lowercase uc q)"
    and "alphanumerics uc (uc_to_lowercase uc q) \<noteq> []"
    and "uc_to_lowercase uc q \<in> set COMMON_PASSWORDS"
  shows "is_common_password uc p"
  using assms unfolding is_common_password_def Let_def list_ex_iff by metis

end
