(* ===== verification/WebAuth.thy ===== *)
theory WebAuth
  imports WebSessions Admission Passwords
begin

text \<open>
  The routes that decide about authentication (\<open>nodelite-server/src\<close>): the middleware of the
  protected routes (\<open>handlers/auth_routes/middleware.rs\<close>) with the origin check of \<open>ws/origin.rs\<close>, the
  second factor (\<open>handlers/auth_routes/two_factor.rs\<close>, \<open>passkeys.rs\<close>), the confirmation of sensitive
  actions (\<open>handlers/settings/step_up.rs\<close>) and the changes of the credentials
  (\<open>handlers/settings/security.rs\<close>). Every request is a task that runs in stages, one for each lock it
  takes, so that the stages of different requests interleave freely while time passes. What the
  requests see of other code is an input of the stage: random bytes, the id of an audit event, the
  verdict of the WebAuthn library, the success of a write to the configuration file.
\<close>

section \<open>Requests and the origin of a WebSocket handshake\<close>

text \<open>
  The \<open>url\<close> crate is a parameter: \<open>parse_url\<close> is \<open>Url::parse\<close>, and a parsed URL shows its scheme,
  host, explicit port and origin.
\<close>

datatype url_origin = OpaqueOrigin nat | TupleOrigin string string nat

record url =
  ur_scheme :: string
  ur_host_str :: "string option"
  ur_port :: "nat option"
  ur_origin :: url_origin

text \<open>\<open>rq_unreadable\<close> names the headers that are present with a value \<open>to_str\<close> rejects; \<open>rq_headers\<close>
  does not show them.\<close>

record request =
  rq_method :: string
  rq_path :: string
  rq_headers :: header_map
  rq_unreadable :: "string list"
  rq_peer :: "ip_addr option"

definition starts_with :: "string \<Rightarrow> string \<Rightarrow> bool" where
  "starts_with s prefix \<longleftrightarrow> strip_prefix prefix s \<noteq> None"

definition parse_web_origin :: "(string \<Rightarrow> url option) \<Rightarrow> string \<Rightarrow> url option" where
  "parse_web_origin parse_url v =
     (case parse_url v of
        None \<Rightarrow> None
      | Some u \<Rightarrow> if ur_scheme u \<in> {''http'', ''https''} then Some u else None)"

definition same_https_authority :: "url \<Rightarrow> url \<Rightarrow> bool" where
  "same_https_authority base origin \<longleftrightarrow>
     ur_scheme base = ''https'' \<and> ur_host_str base = ur_host_str origin \<and> ur_port base = ur_port origin"

definition forwarded_over_https :: "header_map \<Rightarrow> bool" where
  "forwarded_over_https headers \<longleftrightarrow>
     (case headers ''x-forwarded-proto'' of
        None \<Rightarrow> False
      | Some v \<Rightarrow> eq_ignore_ascii_case (str_trim (hd (str_split CHR '','' v))) ''https'')"

definition host_header_url :: "(string \<Rightarrow> url option) \<Rightarrow> header_map \<Rightarrow> string \<Rightarrow> url option" where
  "host_header_url parse_url headers scheme =
     (case headers ''host'' of
        None \<Rightarrow> None
      | Some host \<Rightarrow>
          if host = [] \<or> list_ex (\<lambda>c. c \<in> {''@'', ''/'', [CHR 0x5C], ''?'', ''#''} \<or> is_whitespace c) (chars host)
          then None
          else parse_url (scheme @ ''://'' @ host))"

definition browser_origin_allowed :: "(string \<Rightarrow> url option) \<Rightarrow> request \<Rightarrow> string \<Rightarrow> bool" where
  "browser_origin_allowed parse_url rq public_base_url =
     (let headers = rq_headers rq; base = parse_url public_base_url in
      if ''origin'' \<in> set (rq_unreadable rq) then False
      else case headers ''origin'' of
        None \<Rightarrow> True
      | Some v \<Rightarrow>
          (case parse_web_origin parse_url v of
             None \<Rightarrow> False
           | Some origin \<Rightarrow>
               if (case base of None \<Rightarrow> False | Some b \<Rightarrow> ur_origin b = ur_origin origin) then True
               else if ur_scheme origin = ''http'' \<and>
                  (forwarded_over_https headers \<or>
                   (case base of None \<Rightarrow> False | Some b \<Rightarrow> same_https_authority b origin)) then False
               else (case host_header_url parse_url headers (ur_scheme origin) of
                       None \<Rightarrow> False
                     | Some host \<Rightarrow> ur_origin host = ur_origin origin)))"

definition is_websocket_upgrade :: "header_map \<Rightarrow> bool" where
  "is_websocket_upgrade headers \<longleftrightarrow>
     (case headers ''upgrade'' of
        None \<Rightarrow> False
      | Some v \<Rightarrow> list_ex (\<lambda>t. eq_ignore_ascii_case (str_trim t) ''websocket'') (str_split CHR '','' v))"

definition is_sensitive_readonly_path :: "request \<Rightarrow> bool" where
  "is_sensitive_readonly_path rq \<longleftrightarrow>
     rq_method rq \<noteq> ''GET'' \<and>
     (starts_with (rq_path rq) ''/api/settings/'' \<or> starts_with (rq_path rq) ''/api/nodes/'')"

definition starts_browser_session :: "request \<Rightarrow> bool" where
  "starts_browser_session rq \<longleftrightarrow>
     rq_method rq = ''GET'' \<and>
     (rq_path rq \<in> {''/'', ''/settings'', ''/account'', ''/alerts'', ''/logs''} \<or>
      starts_with (rq_path rq) ''/nodes/'' \<or>
      rq_path rq = ''/ws/browser'' \<and> is_websocket_upgrade (rq_headers rq))"

section \<open>The state of the server and its environment\<close>

record 'net web_env =
  we_contains :: "'net \<Rightarrow> ip_addr \<Rightarrow> bool"
  we_trusted_proxies :: "'net list"
  we_parse_url :: "string \<Rightarrow> url option"
  we_public_base_url :: string
  we_allow_basic_scrape_with_2fa :: bool
  we_limits :: ws_config
  we_totp :: "secret \<Rightarrow> u64 \<Rightarrow> string"
  we_wall :: nat
  we_codecs :: codecs
  we_unicode :: unicode

text \<open>
  \<open>st_editor\<close> is the task that holds the lock of the settings writes.
\<close>

record web_state =
  st_auth :: route_auth
  st_sessions :: session_store
  st_readonly :: failure_tracker
  st_sensitive :: failure_tracker
  st_verify :: failure_tracker
  st_editor :: "nat option"
  st_now :: instant

definition readonly_limits :: "'net web_env \<Rightarrow> install_config" where
  "readonly_limits env = auth_failure_admission_config (we_limits env)"

definition sensitive_limits :: "'net web_env \<Rightarrow> install_config" where
  "sensitive_limits env = sensitive_auth_failure_admission_config (we_limits env)"

definition request_client_ip :: "'net web_env \<Rightarrow> request \<Rightarrow> ip_addr" where
  "request_client_ip env rq =
     (case rq_peer rq of
        None \<Rightarrow> V4 0
      | Some peer \<Rightarrow> resolve_client_ip (we_contains env) (we_trusted_proxies env) peer (rq_headers rq))"

text \<open>
  What a stage takes from outside: a fresh random token, the id of an audit event, the time since a
  clock was read, the verdict of the WebAuthn library and the success of a file write.
\<close>

datatype passkey_verdict = AssertionAccepted | AssertionRejected | AssertionError

record inputs =
  ip_random :: "string option"
  ip_event_id :: "int option"
  ip_lag :: nat
  ip_verdict :: passkey_verdict
  ip_written :: bool

definition check_readonly :: "'net web_env \<Rightarrow> ip_addr \<Rightarrow> web_state \<Rightarrow> web_state \<times> (nat + unit)" where
  "check_readonly env ip st =
     (let (t, r) = install_check (readonly_limits env) ip (st_now st) (st_readonly st)
      in (st\<lparr>st_readonly := t\<rparr>, r))"

definition check_sensitive :: "'net web_env \<Rightarrow> ip_addr \<Rightarrow> web_state \<Rightarrow> web_state \<times> (nat + unit)" where
  "check_sensitive env ip st =
     (let (t, r) = install_check (sensitive_limits env) ip (st_now st) (st_sensitive st)
      in (st\<lparr>st_sensitive := t\<rparr>, r))"

definition check_verify :: "'net web_env \<Rightarrow> ip_addr \<Rightarrow> web_state \<Rightarrow> web_state \<times> (nat + unit)" where
  "check_verify env ip st =
     (let (t, r) = install_check (readonly_limits env) ip (st_now st) (st_verify st)
      in (st\<lparr>st_verify := t\<rparr>, r))"

definition charge_readonly :: "'net web_env \<Rightarrow> ip_addr \<Rightarrow> web_state \<Rightarrow> web_state" where
  "charge_readonly env ip st =
     st\<lparr>st_readonly := install_record_auth_failure (readonly_limits env) ip (st_now st) (st_readonly st)\<rparr>"

definition charge_sensitive :: "'net web_env \<Rightarrow> ip_addr \<Rightarrow> web_state \<Rightarrow> web_state" where
  "charge_sensitive env ip st =
     st\<lparr>st_sensitive := install_record_auth_failure (sensitive_limits env) ip (st_now st) (st_sensitive st)\<rparr>"

definition charge_verify :: "'net web_env \<Rightarrow> ip_addr \<Rightarrow> web_state \<Rightarrow> web_state" where
  "charge_verify env ip st =
     st\<lparr>st_verify := install_record_auth_failure (readonly_limits env) ip (st_now st) (st_verify st)\<rparr>"

definition steps_now :: "'net web_env \<Rightarrow> secret option \<Rightarrow> string \<Rightarrow> nat \<Rightarrow> web_state \<Rightarrow> u64 list" where
  "steps_now env secret code lag st = matched_at (we_totp env) (we_wall env) secret code (st_now st - lag)"

section \<open>The middleware\<close>

text \<open>
  \<open>Passed\<close> hands the request to its handler, with the browser session and the login event that the
  middleware adds to it; the other outcomes are responses.
\<close>

datatype gate_outcome =
    Passed "browser_session option" "int option"
  | Unauthorized
  | TwoFactorRequired
  | RedirectToVerify "string option"
  | TooManyRequests nat
  | ForeignOrigin
  | SessionError auth_session_error

text \<open>\<open>Judged\<close>, \<open>Weighed\<close> and \<open>Admitted\<close> carry whether the Basic credentials were right and whether 2FA
  was on.\<close>

datatype gate_stage =
    Arrived
  | Exempt
  | Judged bool bool
  | Weighed bool bool
  | Admitted bool bool
  | Failing
  | Visiting
  | Redirecting
  | Opening
  | Recording string
  | Answered gate_outcome

definition has_authenticated_two_factor_cookie :: "header_map \<Rightarrow> instant \<Rightarrow> session_store \<Rightarrow> session_store \<times> bool" where
  "has_authenticated_two_factor_cookie headers now s =
     (case cookie_value headers TWO_FACTOR_AUTH_COOKIE of
        None \<Rightarrow> (s, False)
      | Some token \<Rightarrow> is_authenticated token now s)"

definition evaluate_readonly_auth :: "request \<Rightarrow> web_state \<Rightarrow> web_state \<times> (bool \<times> bool) option" where
  "evaluate_readonly_auth rq st =
     (let auth = st_auth st; judged = Some (is_authorized auth (rq_headers rq), ra_enable_2fa auth) in
      if ra_expected_authorization auth = None then (st, None)
      else if ra_enable_2fa auth then
        (let (s, live) = has_authenticated_two_factor_cookie (rq_headers rq) (st_now st) (st_sessions st) in
         (st\<lparr>st_sessions := s\<rparr>, if live then None else judged))
      else (st, judged))"

definition issue_two_factor_redirect :: "request \<Rightarrow> inputs \<Rightarrow> web_state \<Rightarrow> web_state \<times> gate_outcome" where
  "issue_two_factor_redirect rq inp st =
     (if \<not> ra_enable_2fa (st_auth st) \<or> \<not> is_authorized (st_auth st) (rq_headers rq) then (st, Unauthorized)
      else
        let (s, waiting) = (case cookie_value (rq_headers rq) TWO_FACTOR_PENDING_COOKIE of
                None \<Rightarrow> (st_sessions st, False)
              | Some token \<Rightarrow> pending_exists token (st_now st) (st_sessions st))
        in if waiting then (st\<lparr>st_sessions := s\<rparr>, RedirectToVerify None)
           else
             let (s, r) = create_pending (ip_random inp) (st_now st - ip_lag inp) (st_now st) s in
             (st\<lparr>st_sessions := s\<rparr>,
              case r of Inl e \<Rightarrow> SessionError e | Inr token \<Rightarrow> RedirectToVerify (Some token)))"

definition open_basic_session :: "request \<Rightarrow> inputs \<Rightarrow> web_state \<Rightarrow> web_state \<times> gate_stage" where
  "open_basic_session rq inp st =
     (if ra_enable_2fa (st_auth st) \<or> \<not> is_authorized (st_auth st) (rq_headers rq) then (st, Answered Unauthorized)
      else
        let (s, r) = create_basic_auth_session (ip_random inp) None (st_now st) (st_sessions st) in
        (st\<lparr>st_sessions := s\<rparr>,
         case r of Inl e \<Rightarrow> Answered (SessionError e) | Inr token \<Rightarrow> Recording token))"

fun route_step ::
  "'net web_env \<Rightarrow> request \<Rightarrow> inputs \<Rightarrow> gate_stage \<Rightarrow> web_state \<Rightarrow> web_state \<times> gate_stage" where
  "route_step env rq inp Arrived st =
     (if rq_path rq = ''/ws/browser'' \<and> is_websocket_upgrade (rq_headers rq) \<and>
         \<not> browser_origin_allowed (we_parse_url env) rq (we_public_base_url env)
      then (st, Answered ForeignOrigin)
      else
        let (st, evaluated) = evaluate_readonly_auth rq st in
        (st, case evaluated of None \<Rightarrow> Exempt | Some (basic, two_factor) \<Rightarrow> Judged basic two_factor))"
| "route_step env rq inp Exempt st =
     (if is_sensitive_readonly_path rq
      then
        let (st, r) = check_sensitive env (request_client_ip env rq) st in
        (st, case r of Inl secs \<Rightarrow> Answered (TooManyRequests secs) | Inr _ \<Rightarrow> Answered (Passed None None))
      else (st, Answered (Passed None None)))"
| "route_step env rq inp (Judged basic two_factor) st =
     (let (st, r) = check_readonly env (request_client_ip env rq) st in
      (st, case r of Inl secs \<Rightarrow> Answered (TooManyRequests secs) | Inr _ \<Rightarrow> Weighed basic two_factor))"
| "route_step env rq inp (Weighed basic two_factor) st =
     (if is_sensitive_readonly_path rq
      then
        let (st, r) = check_sensitive env (request_client_ip env rq) st in
        (st, case r of Inl secs \<Rightarrow> Answered (TooManyRequests secs) | Inr _ \<Rightarrow> Admitted basic two_factor)
      else (st, Admitted basic two_factor))"
| "route_step env rq inp (Admitted basic two_factor) st =
     (let ip = request_client_ip env rq in
      if basic then
        (st\<lparr>st_readonly := install_clear_auth_failures ip (st_readonly st)\<rparr>,
         if two_factor then
           if is_websocket_upgrade (rq_headers rq) then Answered TwoFactorRequired
           else if starts_with (rq_path rq) ''/assets/'' then Answered (Passed None None)
           else if rq_path rq = ''/metrics'' then
             if we_allow_basic_scrape_with_2fa env then Answered (Passed None None) else Answered TwoFactorRequired
           else Redirecting
         else if \<not> starts_browser_session rq then Answered (Passed None None)
         else Visiting)
      else
        (charge_readonly env ip st, if is_sensitive_readonly_path rq then Failing else Answered Unauthorized))"
| "route_step env rq inp Failing st = (charge_sensitive env (request_client_ip env rq) st, Answered Unauthorized)"
| "route_step env rq inp Visiting st =
     (st, case cookie_value (rq_headers rq) BASIC_AUTH_SESSION_COOKIE of
            None \<Rightarrow> Opening
          | Some token \<Rightarrow>
              if is_basic_auth_session_valid token (st_now st) (st_sessions st) then Answered (Passed None None) else Opening)"
| "route_step env rq inp Redirecting st = (let (st, r) = issue_two_factor_redirect rq inp st in (st, Answered r))"
| "route_step env rq inp Opening st = open_basic_session rq inp st"
| "route_step env rq inp (Recording token) st =
     (let (s, life) = bind_basic_auth_login token (ip_event_id inp) (st_now st) (st_sessions st) in
      (st\<lparr>st_sessions := s\<rparr>,
       case life of
         None \<Rightarrow> Answered Unauthorized
       | Some l \<Rightarrow> Answered (Passed (Some l) (ip_event_id inp))))"
| "route_step env rq inp (Answered r) st = (st, Answered r)"

section \<open>The second factor\<close>

datatype factor = Totp string | Passkey

datatype factor_reply =
    LoggedIn string
  | FactorBlocked nat
  | FactorUnauthorized
  | FactorRejected bool
  | FactorSessionError auth_session_error
  | FactorInternalError

text \<open>\<open>Pended\<close> carries the pending token, \<open>Charging\<close> the reply after the failure is counted, \<open>Opened\<close>
  and \<open>Binding\<close> the token of the new session.\<close>

datatype factor_stage =
    FArrived
  | FChecked
  | Pended string
  | Asserting string
  | Missed string
  | Charging factor_reply
  | Opened string
  | Binding string
  | FReplied factor_reply

definition require_pending_token :: "request \<Rightarrow> web_state \<Rightarrow> web_state \<times> string option" where
  "require_pending_token rq st =
     (case cookie_value (rq_headers rq) TWO_FACTOR_PENDING_COOKIE of
        None \<Rightarrow> (st, None)
      | Some token \<Rightarrow>
          (let (s, live) = pending_exists token (st_now st) (st_sessions st) in
           (st\<lparr>st_sessions := s\<rparr>, if live then Some token else None)))"

text \<open>The code is matched and exchanged under the lock of the credentials.\<close>

definition exchange_totp ::
  "'net web_env \<Rightarrow> string \<Rightarrow> inputs \<Rightarrow> string \<Rightarrow> web_state \<Rightarrow> web_state \<times> factor_stage" where
  "exchange_totp env code inp pending st =
     (let steps = steps_now env (ra_totp_secret (st_auth st)) code (ip_lag inp) st;
          (s, r) = exchange_pending pending steps (ip_random inp) (st_now st) (st_sessions st)
      in (st\<lparr>st_sessions := s\<rparr>,
          case r of
            Inl e \<Rightarrow> FReplied (FactorSessionError e)
          | Inr None \<Rightarrow> Missed pending
          | Inr (Some token) \<Rightarrow> Opened token))"

definition handle_invalid_totp :: "string \<Rightarrow> web_state \<Rightarrow> web_state \<times> factor_reply" where
  "handle_invalid_totp pending st =
     (let (s, invalidated) = record_failed_attempt pending (st_now st) (st_sessions st) in
      (st\<lparr>st_sessions := s\<rparr>, FactorRejected invalidated))"

text \<open>\<open>passkey_login_user\<close> yields a user.\<close>

definition passkey_login_user :: "route_auth \<Rightarrow> bool" where
  "passkey_login_user auth \<longleftrightarrow> ra_enable_2fa auth \<and> ra_config auth \<noteq> None"

definition handle_passkey_failure :: "passkey_verdict \<Rightarrow> factor_stage" where
  "handle_passkey_failure v =
     (if v = AssertionError then FReplied FactorInternalError else Charging FactorUnauthorized)"

definition finish_passkey_authentication ::
  "inputs \<Rightarrow> string \<Rightarrow> web_state \<Rightarrow> web_state \<times> factor_stage" where
  "finish_passkey_authentication inp pending st =
     (if ip_verdict inp \<noteq> AssertionAccepted then (st, handle_passkey_failure (ip_verdict inp))
      else
        let (s, r) = exchange_pending_for_passkey pending (ip_random inp) (st_now st) (st_sessions st) in
        (st\<lparr>st_sessions := s\<rparr>,
         case r of
           Inl e \<Rightarrow> FReplied (FactorSessionError e)
         | Inr None \<Rightarrow> Charging FactorUnauthorized
         | Inr (Some token) \<Rightarrow> Opened token))"

fun factor_step ::
  "'net web_env \<Rightarrow> request \<Rightarrow> factor \<Rightarrow> inputs \<Rightarrow> factor_stage \<Rightarrow> web_state \<Rightarrow> web_state \<times> factor_stage" where
  "factor_step env rq f inp FArrived st =
     (let (st, r) = check_verify env (request_client_ip env rq) st in
      (st, case r of Inl secs \<Rightarrow> FReplied (FactorBlocked secs) | Inr _ \<Rightarrow> FChecked))"
| "factor_step env rq f inp FChecked st =
     (let (st, pending) = require_pending_token rq st in
      (st, case pending of None \<Rightarrow> Charging FactorUnauthorized | Some token \<Rightarrow> Pended token))"
| "factor_step env rq (Totp code) inp (Pended pending) st = exchange_totp env code inp pending st"
| "factor_step env rq Passkey inp (Pended pending) st =
     (st, if passkey_login_user (st_auth st) then Asserting pending else FReplied FactorUnauthorized)"
| "factor_step env rq f inp (Asserting pending) st = finish_passkey_authentication inp pending st"
| "factor_step env rq f inp (Missed pending) st = (let (st, r) = handle_invalid_totp pending st in (st, Charging r))"
| "factor_step env rq f inp (Charging r) st = (charge_verify env (request_client_ip env rq) st, FReplied r)"
| "factor_step env rq f inp (Opened token) st =
     (st\<lparr>st_verify := install_clear_auth_failures (request_client_ip env rq) (st_verify st)\<rparr>, Binding token)"
| "factor_step env rq f inp (Binding token) st =
     (st\<lparr>st_sessions := set_authenticated_login_event_id token (ip_event_id inp) (st_now st) (st_sessions st)\<rparr>,
      FReplied (LoggedIn token))"
| "factor_step env rq f inp (FReplied r) st = (st, FReplied r)"

definition logout_and_reauth :: "request \<Rightarrow> web_state \<Rightarrow> web_state" where
  "logout_and_reauth rq st =
     (let s = (case cookie_value (rq_headers rq) TWO_FACTOR_AUTH_COOKIE of
                 None \<Rightarrow> st_sessions st | Some token \<Rightarrow> remove_authenticated token (st_sessions st));
          s = (case cookie_value (rq_headers rq) BASIC_AUTH_SESSION_COOKIE of
                 None \<Rightarrow> s | Some token \<Rightarrow> remove_basic_auth_session token s)
      in st\<lparr>st_sessions := s\<rparr>)"

section \<open>Confirmation of sensitive actions\<close>

datatype settings_reply =
    Completed
  | SignedIn string
  | Conflict
  | NoSession
  | NotAccepted
  | InlineRejected
  | ReauthRequired
  | BadRequest
  | Throttled nat
  | WriteFailed
  | SessionFailed auth_session_error
  | PasskeyFailed

datatype totp_error = TotpInvalid | TotpAlreadyUsed

definition sensitive_session_token :: "header_map \<Rightarrow> bool \<Rightarrow> string option" where
  "sensitive_session_token headers two_factor =
     cookie_value headers (if two_factor then TWO_FACTOR_AUTH_COOKIE else BASIC_AUTH_SESSION_COOKIE)"

definition verify_and_consume_totp_steps ::
  "'net web_env \<Rightarrow> secret \<Rightarrow> string \<Rightarrow> nat \<Rightarrow> web_state \<Rightarrow> web_state \<times> (totp_error + unit)" where
  "verify_and_consume_totp_steps env secret code lag st =
     (let steps = steps_now env (Some secret) code lag st in
      if steps = [] then (st, Inl TotpInvalid)
      else
        let (s, fresh) = try_mark_unused_totp_steps steps (st_now st) (st_sessions st) in
        (st\<lparr>st_sessions := s\<rparr>, if fresh then Inr () else Inl TotpAlreadyUsed))"

definition config_secret :: "'net web_env \<Rightarrow> readonly_auth_config \<Rightarrow> secret option" where
  "config_secret env c = Option.bind (ac_totp_secret c) (cd_decode (we_codecs env))"

definition confirm_session :: "string option \<Rightarrow> bool \<Rightarrow> web_state \<Rightarrow> web_state" where
  "confirm_session token two_factor st =
     (case token of
        None \<Rightarrow> st
      | Some t \<Rightarrow> st\<lparr>st_sessions := fst (confirm_sensitive_action t two_factor (st_now st) (st_sessions st))\<rparr>)"

definition session_confirmed :: "string option \<Rightarrow> bool \<Rightarrow> web_state \<Rightarrow> web_state \<times> bool" where
  "session_confirmed token two_factor st =
     (case token of
        None \<Rightarrow> (st, False)
      | Some t \<Rightarrow>
          (let (s, confirmed) = sensitive_action_confirmed t two_factor (st_now st) (st_sessions st)
           in (st\<lparr>st_sessions := s\<rparr>, confirmed)))"

text \<open>A password or a code in the request itself; \<open>None\<close> lets the action proceed.\<close>

definition inline_confirmation ::
  "'net web_env \<Rightarrow> readonly_auth_config \<Rightarrow> string option \<Rightarrow> string option \<Rightarrow> string option \<Rightarrow> nat \<Rightarrow> web_state
    \<Rightarrow> web_state \<times> settings_reply option" where
  "inline_confirmation env auth token current_password code lag st =
     (if \<not> ac_enable_2fa auth then
        (case current_password of
           None \<Rightarrow> (st, Some ReauthRequired)
         | Some p \<Rightarrow>
             if p = [] then (st, Some ReauthRequired)
             else if ac_password auth = p then (confirm_session token False st, None)
             else (st, Some InlineRejected))
      else
        (case config_secret env auth of
           None \<Rightarrow> (st, Some Conflict)
         | Some secret \<Rightarrow>
             (case map_option str_trim code of
                None \<Rightarrow> (st, Some ReauthRequired)
              | Some c \<Rightarrow>
                  if c = [] then (st, Some ReauthRequired)
                  else
                    let (st, r) = verify_and_consume_totp_steps env secret c lag st in
                    case r of
                      Inl _ \<Rightarrow> (st, Some InlineRejected)
                    | Inr _ \<Rightarrow> (confirm_session token True st, None))))"

definition settings_confirmation_error_for_sensitive_action ::
  "'net web_env \<Rightarrow> readonly_auth_config \<Rightarrow> header_map \<Rightarrow> string option \<Rightarrow> string option \<Rightarrow> nat \<Rightarrow> web_state
    \<Rightarrow> web_state \<times> settings_reply option" where
  "settings_confirmation_error_for_sensitive_action env auth headers current_password code lag st =
     (let token = sensitive_session_token headers (ac_enable_2fa auth);
          (st, confirmed) = session_confirmed token (ac_enable_2fa auth) st
      in if confirmed then (st, None) else inline_confirmation env auth token current_password code lag st)"

definition settings_write_guard ::
  "'net web_env \<Rightarrow> header_map \<Rightarrow> string option \<Rightarrow> string option \<Rightarrow> nat \<Rightarrow> web_state
    \<Rightarrow> web_state \<times> settings_reply option" where
  "settings_write_guard env headers current_password code lag st =
     (case ra_config (st_auth st) of
        None \<Rightarrow> (st, Some Conflict)
      | Some auth \<Rightarrow>
          settings_confirmation_error_for_sensitive_action env auth headers current_password code lag st)"

datatype confirmation = ByCredential "string option" "string option" | ByPasskey

datatype step_up_stage =
    SArrived
  | SChecked
  | SAsserting string
  | SRejected
  | SConfirming string bool
  | SClearing
  | SReplied settings_reply

text \<open>The password or the code of a confirmation, checked under the lock of the credentials.\<close>

definition confirmation_valid ::
  "'net web_env \<Rightarrow> readonly_auth_config \<Rightarrow> string option \<Rightarrow> string option \<Rightarrow> nat \<Rightarrow> web_state \<Rightarrow> web_state \<times> bool" where
  "confirmation_valid env config current_password code lag st =
     (if ac_enable_2fa config then
        (case (config_secret env config, code) of
           (Some secret, Some c) \<Rightarrow>
             (let (st, r) = verify_and_consume_totp_steps env secret (str_trim c) lag st
              in (st, r = Inr ()))
         | _ \<Rightarrow> (st, False))
      else (st, current_password = Some (ac_password config)))"

fun step_up_step ::
  "'net web_env \<Rightarrow> request \<Rightarrow> confirmation \<Rightarrow> inputs \<Rightarrow> step_up_stage \<Rightarrow> web_state \<Rightarrow> web_state \<times> step_up_stage" where
  "step_up_step env rq c inp SArrived st =
     (let (st, r) = check_sensitive env (request_client_ip env rq) st in
      (st, case r of Inl secs \<Rightarrow> SReplied (Throttled secs) | Inr _ \<Rightarrow> SChecked))"
| "step_up_step env rq (ByCredential current_password code) inp SChecked st =
     (case ra_config (st_auth st) of
        None \<Rightarrow> (st, SReplied Conflict)
      | Some config \<Rightarrow>
          (case sensitive_session_token (rq_headers rq) (ac_enable_2fa config) of
             None \<Rightarrow> (st, SReplied NoSession)
           | Some token \<Rightarrow>
               (let (st, valid) = confirmation_valid env config current_password code (ip_lag inp) st in
                (st, if valid then SConfirming token (ac_enable_2fa config) else SRejected))))"
| "step_up_step env rq ByPasskey inp SChecked st =
     (if \<not> ra_enable_2fa (st_auth st) then (st, SReplied Conflict)
      else
        case sensitive_session_token (rq_headers rq) True of
          None \<Rightarrow> (st, SReplied NoSession)
        | Some token \<Rightarrow>
            (let (s, live) = is_authenticated token (st_now st) (st_sessions st) in
             (st\<lparr>st_sessions := s\<rparr>, if live then SAsserting token else SReplied NoSession)))"
| "step_up_step env rq c inp (SAsserting token) st =
     (case ip_verdict inp of
        AssertionAccepted \<Rightarrow> (st, SConfirming token True)
      | _ \<Rightarrow> (charge_sensitive env (request_client_ip env rq) st, SReplied PasskeyFailed))"
| "step_up_step env rq c inp SRejected st =
     (charge_sensitive env (request_client_ip env rq) st, SReplied NotAccepted)"
| "step_up_step env rq c inp (SConfirming token two_factor) st =
     (let (s, done) = confirm_sensitive_action token two_factor (st_now st) (st_sessions st) in
      (st\<lparr>st_sessions := s\<rparr>, if done then SClearing else SReplied NoSession))"
| "step_up_step env rq c inp SClearing st =
     (st\<lparr>st_sensitive := install_clear_auth_failures (request_client_ip env rq) (st_sensitive st)\<rparr>, SReplied Completed)"
| "step_up_step env rq c inp (SReplied r) st = (st, SReplied r)"

section \<open>Changes of the credentials\<close>

text \<open>
  A change holds the lock of the settings writes (\<open>with_settings_write\<close>) until it replies. The steps
  of a rotated secret are marked when the credentials are swapped.
\<close>

datatype change =
    ChangePassword string string
  | EnableTwoFactor string "string option" string string
  | DisableTwoFactor string "string option"

fun supplied_password :: "change \<Rightarrow> string" where
  "supplied_password (ChangePassword current new) = current"
| "supplied_password (EnableTwoFactor current current_code secret code) = current"
| "supplied_password (DisableTwoFactor current code) = current"

fun is_enable :: "change \<Rightarrow> bool" where
  "is_enable (EnableTwoFactor current current_code secret code) = True"
| "is_enable _ = False"

datatype edit_stage =
    Waiting
  | Holding
  | Confirming readonly_auth_config
  | Checking readonly_auth_config
  | Persisting readonly_auth_config "u64 list option"
  | Swapping readonly_auth_config "u64 list option"
  | SigningIn
  | Releasing settings_reply
  | Settling settings_reply
  | EReplied settings_reply

text \<open>The confirmation a change asks for besides the password.\<close>

fun confirm_change ::
  "'net web_env \<Rightarrow> header_map \<Rightarrow> change \<Rightarrow> readonly_auth_config \<Rightarrow> nat \<Rightarrow> web_state
    \<Rightarrow> web_state \<times> settings_reply option" where
  "confirm_change env headers (ChangePassword current new) auth lag st =
     settings_confirmation_error_for_sensitive_action env auth headers (Some current) None lag st"
| "confirm_change env headers (EnableTwoFactor current current_code secret code) auth lag st =
     (if ac_enable_2fa auth
      then settings_confirmation_error_for_sensitive_action env auth headers None current_code lag st
      else (st, None))"
| "confirm_change env headers (DisableTwoFactor current code) auth lag st =
     settings_confirmation_error_for_sensitive_action env auth headers None code lag st"

fun next_credentials ::
  "'net web_env \<Rightarrow> change \<Rightarrow> readonly_auth_config \<Rightarrow> nat \<Rightarrow> web_state
    \<Rightarrow> web_state \<times> (settings_reply + readonly_auth_config \<times> u64 list option)" where
  "next_credentials env (ChangePassword current new) auth lag st =
     (st, case validate_password_strength (we_unicode env) new of
            Inl _ \<Rightarrow> Inl BadRequest
          | Inr _ \<Rightarrow> Inr (auth\<lparr>ac_password := new\<rparr>, None))"
| "next_credentials env (EnableTwoFactor current current_code secret0 code) auth lag st =
     (let secret = map ascii_upper (filter (\<lambda>c. c \<noteq> CHR '' '') secret0);
          enabled = auth\<lparr>ac_enable_2fa := True, ac_totp_secret := Some secret\<rparr>
      in case cd_decode (we_codecs env) secret of
           None \<Rightarrow> (st, Inl BadRequest)
         | Some bytes \<Rightarrow>
             if length bytes < 10 then (st, Inl BadRequest)
             else if ac_enable_2fa auth then
               (let steps = steps_now env (Some bytes) code lag st in
                (st, if steps = [] then Inl NotAccepted else Inr (enabled, Some steps)))
             else
               (let (st, r) = verify_and_consume_totp_steps env bytes code lag st in
                (st, case r of Inl _ \<Rightarrow> Inl NotAccepted | Inr _ \<Rightarrow> Inr (enabled, None))))"
| "next_credentials env (DisableTwoFactor current code) auth lag st =
     (st, Inr (auth\<lparr>ac_enable_2fa := False, ac_totp_secret := None\<rparr>, None))"

definition swap_credentials ::
  "'net web_env \<Rightarrow> readonly_auth_config \<Rightarrow> u64 list option \<Rightarrow> web_state \<Rightarrow> web_state" where
  "swap_credentials env next_auth steps st =
     (let s = (st_sessions st)\<lparr>ss_cancelled := List.insert (ra_revoked (st_auth st)) (ss_cancelled (st_sessions st))\<rparr>;
          s = (case steps of None \<Rightarrow> s | Some new \<Rightarrow> fst (try_mark_unused_totp_steps new (st_now st) s));
          auth = route_auth_from_config (we_codecs env) (ss_next_revoked s) (Some next_auth);
          s = clear_authenticated (s\<lparr>ss_next_revoked := Suc (ss_next_revoked s)\<rparr>)
      in st\<lparr>st_auth := auth, st_sessions := s\<rparr>)"

fun edit_step ::
  "'net web_env \<Rightarrow> nat \<Rightarrow> request \<Rightarrow> change \<Rightarrow> inputs \<Rightarrow> edit_stage \<Rightarrow> web_state \<Rightarrow> web_state \<times> edit_stage" where
  "edit_step env me rq c inp Waiting st =
     (if st_editor st = None then (st\<lparr>st_editor := Some me\<rparr>, Holding) else (st, Waiting))"
| "edit_step env me rq c inp Holding st =
     (st, case ra_config (st_auth st) of
            None \<Rightarrow> Releasing Conflict
          | Some auth \<Rightarrow>
              if (case c of DisableTwoFactor _ _ \<Rightarrow> \<not> ac_enable_2fa auth | _ \<Rightarrow> False) then Releasing Conflict
              else if ac_password auth \<noteq> supplied_password c then Releasing InlineRejected
              else Confirming auth)"
| "edit_step env me rq c inp (Confirming auth) st =
     (let (st, r) = confirm_change env (rq_headers rq) c auth (ip_lag inp) st in
      (st, case r of None \<Rightarrow> Checking auth | Some r \<Rightarrow> Releasing r))"
| "edit_step env me rq c inp (Checking auth) st =
     (let (st, r) = next_credentials env c auth (ip_lag inp) st in
      (st, case r of Inl r \<Rightarrow> Releasing r | Inr (auth', steps) \<Rightarrow> Persisting auth' steps))"
| "edit_step env me rq c inp (Persisting auth steps) st =
     (st, if ip_written inp then Swapping auth steps else Releasing WriteFailed)"
| "edit_step env me rq c inp (Swapping auth steps) st =
     (swap_credentials env auth steps st, if is_enable c then SigningIn else Releasing Completed)"
| "edit_step env me rq c inp SigningIn st =
     (let (s, r) = create_authenticated (ip_random inp) (st_now st) (st_sessions st) in
      (st\<lparr>st_sessions := s\<rparr>,
       case r of Inl e \<Rightarrow> Releasing (SessionFailed e) | Inr token \<Rightarrow> Releasing (SignedIn token)))"
| "edit_step env me rq c inp (Releasing r) st = (st\<lparr>st_editor := None\<rparr>, Settling r)"
| "edit_step env me rq c inp (Settling r) st =
     (if r = InlineRejected then charge_sensitive env (request_client_ip env rq) st else st, EReplied r)"
| "edit_step env me rq c inp (EReplied r) st = (st, EReplied r)"

section \<open>Interleaved requests\<close>

datatype task =
    Gate request gate_stage
  | Factor request factor factor_stage
  | StepUp request confirmation step_up_stage
  | Edit request change edit_stage
  | Logout request bool

record web_world =
  ww_state :: web_state
  ww_tasks :: "task list"

datatype web_event =
    Visit request
  | SecondFactor request factor
  | ConfirmAction request confirmation
  | ChangeCredentials request change
  | SignOut request
  | Advance nat inputs
  | Elapse nat

fun task_step :: "'net web_env \<Rightarrow> nat \<Rightarrow> inputs \<Rightarrow> task \<Rightarrow> web_state \<Rightarrow> web_state \<times> task" where
  "task_step env me inp (Gate rq s) st = (let (st, s) = route_step env rq inp s st in (st, Gate rq s))"
| "task_step env me inp (Factor rq f s) st = (let (st, s) = factor_step env rq f inp s st in (st, Factor rq f s))"
| "task_step env me inp (StepUp rq c s) st = (let (st, s) = step_up_step env rq c inp s st in (st, StepUp rq c s))"
| "task_step env me inp (Edit rq c s) st = (let (st, s) = edit_step env me rq c inp s st in (st, Edit rq c s))"
| "task_step env me inp (Logout rq done) st = (if done then st else logout_and_reauth rq st, Logout rq True)"

fun web_step :: "'net web_env \<Rightarrow> web_event \<Rightarrow> web_world \<Rightarrow> web_world" where
  "web_step env (Visit rq) w = w\<lparr>ww_tasks := ww_tasks w @ [Gate rq Arrived]\<rparr>"
| "web_step env (SecondFactor rq f) w = w\<lparr>ww_tasks := ww_tasks w @ [Factor rq f FArrived]\<rparr>"
| "web_step env (ConfirmAction rq c) w = w\<lparr>ww_tasks := ww_tasks w @ [StepUp rq c SArrived]\<rparr>"
| "web_step env (ChangeCredentials rq c) w = w\<lparr>ww_tasks := ww_tasks w @ [Edit rq c Waiting]\<rparr>"
| "web_step env (SignOut rq) w = w\<lparr>ww_tasks := ww_tasks w @ [Logout rq False]\<rparr>"
| "web_step env (Advance i inp) w =
     (if i < length (ww_tasks w)
      then let (st, t) = task_step env i inp (ww_tasks w ! i) (ww_state w)
           in w\<lparr>ww_state := st, ww_tasks := (ww_tasks w)[i := t]\<rparr>
      else w)"
| "web_step env (Elapse n) w = w\<lparr>ww_state := (ww_state w)\<lparr>st_now := st_now (ww_state w) + n\<rparr>\<rparr>"

definition web_start :: "'net web_env \<Rightarrow> readonly_auth_config option \<Rightarrow> instant \<Rightarrow> web_world" where
  "web_start env config now =
     \<lparr>ww_state =
        \<lparr>st_auth = route_auth_from_config (we_codecs env) 0 config,
         st_sessions = sessions_new\<lparr>ss_next_revoked := 1\<rparr>,
         st_readonly = install_admission_new, st_sensitive = install_admission_new,
         st_verify = install_admission_new, st_editor = None, st_now = now\<rparr>,
      ww_tasks = []\<rparr>"

end
