(* ===== verification/WebAuthSafety.thy ===== *)
theory WebAuthSafety
  imports WebAuth
begin

text \<open>
  What the authentication routes guarantee over every interleaving of requests: where the sessions
  come from, and what a request has shown when it reaches its handler.
\<close>

section \<open>Where the tokens come from\<close>

text \<open>A stage of a request that opens a pending login, exchanges one, or signs in the user that just
  enabled 2FA.\<close>

definition shows_password :: "'net web_env \<Rightarrow> inputs \<Rightarrow> task \<Rightarrow> web_state \<Rightarrow> string \<Rightarrow> bool" where
  "shows_password env inp t st pending \<longleftrightarrow>
     (case t of
        Gate rq stage \<Rightarrow>
          stage = Redirecting \<and> ra_enable_2fa (st_auth st) \<and> is_authorized (st_auth st) (rq_headers rq) \<and>
          snd (route_step env rq inp stage st) = Answered (RedirectToVerify (Some pending))
      | _ \<Rightarrow> False)"

definition shows_factor :: "'net web_env \<Rightarrow> inputs \<Rightarrow> task \<Rightarrow> web_state \<Rightarrow> string \<Rightarrow> string \<Rightarrow> bool" where
  "shows_factor env inp t st pending token \<longleftrightarrow>
     (case t of
        Factor rq f stage \<Rightarrow>
          snd (factor_step env rq f inp stage st) = Opened token \<and>
          (stage = Pended pending \<and>
             (case f of Totp code \<Rightarrow> steps_now env (ra_totp_secret (st_auth st)) code (ip_lag inp) st \<noteq> []
                      | Passkey \<Rightarrow> False) \<or>
           stage = Asserting pending \<and> ip_verdict inp = AssertionAccepted)
      | _ \<Rightarrow> False)"

definition enables_two_factor :: "'net web_env \<Rightarrow> inputs \<Rightarrow> task \<Rightarrow> web_state \<Rightarrow> string \<Rightarrow> bool" where
  "enables_two_factor env inp t st token \<longleftrightarrow>
     (case t of
        Edit rq c stage \<Rightarrow>
          stage = SigningIn \<and> snd (edit_step env 0 rq c inp stage st) = Releasing (SignedIn token)
      | _ \<Rightarrow> False)"

section \<open>The keys of the session tables\<close>

definition tbl_keys :: "('k, 'v) table \<Rightarrow> 'k set" where
  "tbl_keys t = fst ` set t"

lemma keys_put [simp]: "tbl_keys (tbl_put k v t) = insert k (tbl_keys t)"
  by (simp add: tbl_keys_def dom_update)

lemma keys_del [simp]: "tbl_keys (tbl_del k t) = tbl_keys t - {k}"
  unfolding tbl_keys_def by (metis dom_map_of_conv_image_fst delete_conv' dom_fun_upd)

lemma keys_filter: "k \<in> tbl_keys (filter P t) \<Longrightarrow> k \<in> tbl_keys t"
  by (auto simp: tbl_keys_def)

lemma keys_get: "tbl_get t k = Some v \<Longrightarrow> k \<in> tbl_keys t"
  by (force simp: tbl_keys_def dest: map_of_SomeD)

abbreviation p_keys :: "session_store \<Rightarrow> string set" where
  "p_keys s \<equiv> tbl_keys (ss_pending s)"

abbreviation a_keys :: "session_store \<Rightarrow> string set" where
  "a_keys s \<equiv> tbl_keys (ss_authenticated s)"

text \<open>No token appears but the given ones.\<close>

definition within :: "session_store \<Rightarrow> string set \<Rightarrow> string set \<Rightarrow> session_store \<Rightarrow> bool" where
  "within s P F s' \<longleftrightarrow> p_keys s' \<subseteq> p_keys s \<union> P \<and> a_keys s' \<subseteq> a_keys s \<union> F"

lemma within_refl [simp]: "within s P F s"
  by (simp add: within_def)

lemma within_trans: "within s P F s1 \<Longrightarrow> within s1 P F s2 \<Longrightarrow> within s P F s2"
  by (auto simp: within_def)

lemma within_prune: "within s P F (prune_expired_sessions now s)"
  by (auto simp: within_def prune_expired_sessions_def dest: keys_filter)

lemma within_mark: "mark_unused_totp_steps steps now s = (b, s') \<Longrightarrow>
    ss_pending s' = ss_pending s \<and> ss_authenticated s' = ss_authenticated s"
  by (auto simp: mark_unused_totp_steps_def split: if_splits)

lemma within_try_mark: "within s P F (fst (try_mark_unused_totp_steps steps now s))"
  using within_prune [of s P F now]
  by (auto simp: try_mark_unused_totp_steps_def within_def split: prod.split dest!: within_mark)

lemma within_pending:
  "create_pending random created now s = (s', r) \<Longrightarrow> within s (case r of Inr t \<Rightarrow> {t} | Inl _ \<Rightarrow> {}) F s'"
  using within_prune [of s "{}" F now]
  by (auto simp: create_pending_def Let_def within_def split: option.splits if_splits prod.splits)

lemma within_exists: "within s P F (fst (pending_exists token now s))"
  using within_prune by (simp add: pending_exists_def Let_def)

lemma within_is: "within s P F (fst (is_authenticated token now s))"
  using within_prune by (simp add: is_authenticated_def Let_def)

lemma within_failed: "within s P F (fst (record_failed_attempt token now s))"
  using within_prune [of s P F now]
  by (auto simp: record_failed_attempt_def Let_def within_def split: option.splits if_splits dest: keys_get)

lemma within_insert: "within s P {token} (insert_authenticated_session token now s)"
  by (auto simp: insert_authenticated_session_def new_lifetime_def within_def)

lemma within_new: "create_authenticated random now s = (s', r) \<Longrightarrow>
    within s P (case r of Inr t \<Rightarrow> {t} | Inl _ \<Rightarrow> {}) s'"
  using within_prune [of s P "{}" now]
  by (auto simp: create_authenticated_def Let_def within_def insert_authenticated_session_def new_lifetime_def
      split: option.splits sum.splits)

lemma within_basic: "within s P F (fst (create_basic_auth_session random i now s))"
  using within_prune [of s P F now]
  by (auto simp: create_basic_auth_session_def Let_def within_def new_lifetime_def split: option.splits sum.splits)

lemma within_bind: "within s P F (fst (bind_basic_auth_login token i now s))"
  by (auto simp: bind_basic_auth_login_def within_def split: option.splits)

lemma within_login: "within s P F (set_authenticated_login_event_id token i now s)"
  using within_prune [of s P F now]
  by (auto simp: set_authenticated_login_event_id_def Let_def within_def split: option.splits dest: keys_get)

lemma within_confirm: "within s P F (fst (confirm_sensitive_action token two now s))"
  using within_prune [of s P F now]
  by (auto simp: confirm_sensitive_action_def Let_def within_def split: option.splits dest: keys_get)

lemma within_confirmed: "within s P F (fst (sensitive_action_confirmed token two now s))"
  using within_prune by (simp add: sensitive_action_confirmed_def Let_def)

lemma within_remove: "within s P F (remove_authenticated token s)" "within s P F (remove_basic_auth_session token s)"
  by (auto simp: remove_authenticated_def remove_basic_auth_session_def revoke_def within_def split: option.splits)

lemma within_exchange:
  assumes "exchange_pending pending steps random now s = (s', r)"
  shows "within s P (case r of Inr (Some t) \<Rightarrow> {t} | _ \<Rightarrow> {}) s'"
    and "r = Inr (Some t) \<Longrightarrow> pending \<in> p_keys s \<and> steps \<noteq> []"
proof -
  show "within s P (case r of Inr (Some t) \<Rightarrow> {t} | _ \<Rightarrow> {}) s'"
    using assms within_prune [of s P "{}" now]
    by (auto simp: exchange_pending_def Let_def within_def insert_authenticated_session_def new_lifetime_def
        split: option.splits sum.splits prod.splits if_splits dest!: within_mark)
  show "r = Inr (Some t) \<Longrightarrow> pending \<in> p_keys s \<and> steps \<noteq> []"
    using assms within_prune [of s "{}" "{}" now]
    by (auto simp: exchange_pending_def Let_def within_def mark_unused_totp_steps_def
        split: option.splits sum.splits prod.splits if_splits dest!: keys_get)
qed

lemma within_passkey:
  assumes "exchange_pending_for_passkey pending random now s = (s', r)"
  shows "within s P (case r of Inr (Some t) \<Rightarrow> {t} | _ \<Rightarrow> {}) s'"
    and "r = Inr (Some t) \<Longrightarrow> pending \<in> p_keys s"
proof -
  show "within s P (case r of Inr (Some t) \<Rightarrow> {t} | _ \<Rightarrow> {}) s'"
    using assms within_prune [of s P "{}" now]
    by (auto simp: exchange_pending_for_passkey_def Let_def within_def insert_authenticated_session_def new_lifetime_def
        split: option.splits sum.splits prod.splits if_splits)
  show "r = Inr (Some t) \<Longrightarrow> pending \<in> p_keys s"
    using assms within_prune [of s "{}" "{}" now]
    by (auto simp: exchange_pending_for_passkey_def Let_def within_def
        split: option.splits sum.splits prod.splits if_splits dest!: keys_get)
qed

lemma within_pairs:
  "is_authenticated token now s = (s', b) \<Longrightarrow> within s P F s'"
  "pending_exists token now s = (s', b) \<Longrightarrow> within s P F s'"
  "record_failed_attempt token now s = (s', b) \<Longrightarrow> within s P F s'"
  "try_mark_unused_totp_steps steps now s = (s', b) \<Longrightarrow> within s P F s'"
  "create_basic_auth_session random i now s = (s', q) \<Longrightarrow> within s P F s'"
  "bind_basic_auth_login token i now s = (s', l) \<Longrightarrow> within s P F s'"
  "confirm_sensitive_action token two now s = (s', b) \<Longrightarrow> within s P F s'"
  "sensitive_action_confirmed token two now s = (s', b) \<Longrightarrow> within s P F s'"
  using within_is [of s P F token now] within_exists [of s P F token now] within_failed [of s P F token now]
    within_try_mark [of s P F steps now] within_basic [of s P F random i now] within_bind [of s P F token i now]
    within_confirm [of s P F token two now] within_confirmed [of s P F token two now]
  by auto

section \<open>One stage\<close>

abbreviation holds :: "web_state \<Rightarrow> string set \<Rightarrow> string set \<Rightarrow> web_state \<Rightarrow> bool" where
  "holds st P F st' \<equiv> st_auth st' = st_auth st \<and> within (st_sessions st) P F (st_sessions st')"

lemma check_holds:
  "check_readonly env ip st = (st', r) \<Longrightarrow> st_auth st' = st_auth st \<and> st_sessions st' = st_sessions st"
  "check_sensitive env ip st = (st', r) \<Longrightarrow> st_auth st' = st_auth st \<and> st_sessions st' = st_sessions st"
  "check_verify env ip st = (st', r) \<Longrightarrow> st_auth st' = st_auth st \<and> st_sessions st' = st_sessions st"
  by (auto simp: check_readonly_def check_sensitive_def check_verify_def split: prod.splits)

lemma charge_holds [simp]:
  "st_auth (charge_readonly env ip st) = st_auth st" "st_sessions (charge_readonly env ip st) = st_sessions st"
  "st_auth (charge_sensitive env ip st) = st_auth st" "st_sessions (charge_sensitive env ip st) = st_sessions st"
  "st_auth (charge_verify env ip st) = st_auth st" "st_sessions (charge_verify env ip st) = st_sessions st"
  by (simp_all add: charge_readonly_def charge_sensitive_def charge_verify_def)

lemma evaluate_holds:
  "evaluate_readonly_auth rq st = (st', r) \<Longrightarrow> holds st P F st'"
  by (auto simp: evaluate_readonly_auth_def Let_def has_authenticated_two_factor_cookie_def within_pairs
      split: if_splits option.splits prod.splits)

lemma redirect_holds:
  assumes "issue_two_factor_redirect rq inp st = (st', r)"
  shows "holds st (case r of RedirectToVerify (Some t) \<Rightarrow> {t} | _ \<Rightarrow> {}) F st'"
    and "r = RedirectToVerify (Some t) \<Longrightarrow> ra_enable_2fa (st_auth st) \<and> is_authorized (st_auth st) (rq_headers rq)"
proof -
  let ?s = "st_sessions st"
  obtain s1 waiting where w: "(case cookie_value (rq_headers rq) TWO_FACTOR_PENDING_COOKIE of
      None \<Rightarrow> (?s, False) | Some token \<Rightarrow> pending_exists token (st_now st) ?s) = (s1, waiting)"
    by fastforce
  have s1: "within ?s P F s1" for P F
    using w by (auto simp: within_pairs split: option.splits)
  obtain s2 q where q: "create_pending (ip_random inp) (st_now st - ip_lag inp) (st_now st) s1 = (s2, q)"
    by fastforce
  have s2: "within ?s (case q of Inr t \<Rightarrow> {t} | Inl _ \<Rightarrow> {}) F s2"
    using within_trans [OF s1 within_trans] s1 within_pending [OF q, of F] by (auto simp: within_def split: sum.splits)
  show "holds st (case r of RedirectToVerify (Some t) \<Rightarrow> {t} | _ \<Rightarrow> {}) F st'"
    using assms s1 s2 by (auto simp: issue_two_factor_redirect_def w q Let_def split: if_splits sum.splits)
  show "r = RedirectToVerify (Some t) \<Longrightarrow> ra_enable_2fa (st_auth st) \<and> is_authorized (st_auth st) (rq_headers rq)"
    using assms by (auto simp: issue_two_factor_redirect_def split: if_splits)
qed

lemma opening_holds: "open_basic_session rq inp st = (st', r) \<Longrightarrow> holds st P F st'"
  by (auto simp: open_basic_session_def Let_def within_pairs split: if_splits prod.splits)

lemma gate_holds:
  assumes "route_step env rq inp stage st = (st', stage')"
  shows "holds st {p. shows_password env inp (Gate rq stage) st p} F st'"
proof (cases stage)
  case Arrived
  then show ?thesis
    using assms by (auto simp: Let_def dest: evaluate_holds split: if_splits prod.splits)
next
  case Redirecting
  then obtain r where r: "issue_two_factor_redirect rq inp st = (st', r)" "stage' = Answered r"
    using assms by (auto split: prod.splits)
  have "(case r of RedirectToVerify (Some t) \<Rightarrow> {t} | _ \<Rightarrow> {}) \<subseteq> {p. shows_password env inp (Gate rq stage) st p}"
    using Redirecting r redirect_holds(2) [OF r(1)] by (auto simp: shows_password_def split: gate_outcome.splits option.splits)
  then show ?thesis
    using redirect_holds(1) [OF r(1), of F] by (auto simp: within_def)
next
  case Opening
  then show ?thesis
    using assms opening_holds by simp
next
  case (Recording token)
  then show ?thesis
    using assms by (auto simp: Let_def within_pairs split: prod.splits)
qed (use assms in \<open>auto simp: Let_def dest: check_holds split: if_splits prod.splits\<close>)

lemma factor_holds:
  assumes "factor_step env rq f inp stage st = (st', stage')"
  shows "holds st P {t. \<exists>p\<in>p_keys (st_sessions st). shows_factor env inp (Factor rq f stage) st p t} st'"
proof (cases stage)
  case FChecked
  then show ?thesis
    using assms by (auto simp: require_pending_token_def Let_def within_pairs split: option.splits prod.splits)
next
  case (Pended pending)
  show ?thesis
  proof (cases f)
    case (Totp code)
    let ?steps = "steps_now env (ra_totp_secret (st_auth st)) code (ip_lag inp) st"
    obtain s r where e: "exchange_pending pending ?steps (ip_random inp) (st_now st) (st_sessions st) = (s, r)"
      by fastforce
    have "(case r of Inr (Some t) \<Rightarrow> {t} | _ \<Rightarrow> {}) \<subseteq>
        {t. \<exists>p\<in>p_keys (st_sessions st). shows_factor env inp (Factor rq f stage) st p t}"
      using Pended Totp e within_exchange(2) [OF e] by (auto simp: shows_factor_def exchange_totp_def split: sum.splits option.splits)
    then show ?thesis
      using assms Pended Totp e within_exchange(1) [OF e, of P] by (auto simp: exchange_totp_def within_def Let_def)
  qed (use assms Pended in auto)
next
  case (Asserting pending)
  obtain s r where e: "exchange_pending_for_passkey pending (ip_random inp) (st_now st) (st_sessions st) = (s, r)"
    by fastforce
  have "(case r of Inr (Some t) \<Rightarrow> {t} | _ \<Rightarrow> {}) \<subseteq>
      {t. \<exists>p\<in>p_keys (st_sessions st). shows_factor env inp (Factor rq f stage) st p t}" if "ip_verdict inp = AssertionAccepted"
    using that Asserting e within_passkey(2) [OF e] by (auto simp: shows_factor_def finish_passkey_authentication_def split: sum.splits option.splits)
  then show ?thesis
    using assms Asserting e within_passkey(1) [OF e, of P] by (auto simp: finish_passkey_authentication_def within_def split: if_splits)
next
  case (Missed pending)
  then show ?thesis
    using assms by (auto simp: handle_invalid_totp_def within_pairs split: prod.splits)
next
  case (Binding token)
  then show ?thesis
    using assms by (auto simp: within_login)
qed (use assms in \<open>auto dest: check_holds split: prod.splits\<close>)

lemma consume_holds: "verify_and_consume_totp_steps env secret code lag st = (st', r) \<Longrightarrow> holds st P F st'"
  by (auto simp: verify_and_consume_totp_steps_def Let_def within_pairs split: if_splits prod.splits)

lemma confirm_session_holds: "holds st P F (confirm_session token two st)"
  by (auto simp: confirm_session_def within_confirm split: option.splits)

lemma holds_trans: "holds st P F st1 \<Longrightarrow> holds st1 P F st2 \<Longrightarrow> holds st P F st2"
  by (auto intro: within_trans)

lemma confirm_after:
  "verify_and_consume_totp_steps env secret code lag st = (st1, r) \<Longrightarrow> holds st P F (confirm_session token two st1)"
  using holds_trans [OF consume_holds confirm_session_holds] .

lemma inline_holds:
  assumes "inline_confirmation env auth token pw code lag st = (st', r)"
  shows "holds st P F st'"
  using assms confirm_session_holds [where st = st]
  by (auto simp: inline_confirmation_def split: if_splits option.splits prod.splits sum.splits
      dest: consume_holds confirm_after)

lemma confirmed_holds: "session_confirmed token two st = (st', b) \<Longrightarrow> holds st P F st'"
  by (auto simp: session_confirmed_def within_pairs split: option.splits prod.splits)

lemma confirmation_holds:
  assumes "settings_confirmation_error_for_sensitive_action env auth headers pw code lag st = (st', r)"
  shows "holds st P F st'"
proof -
  let ?token = "sensitive_session_token headers (ac_enable_2fa auth)"
  obtain st1 confirmed where c: "session_confirmed ?token (ac_enable_2fa auth) st = (st1, confirmed)"
    by fastforce
  have "holds st1 P F st'"
    using assms by (auto simp: settings_confirmation_error_for_sensitive_action_def Let_def c
        split: if_splits dest: inline_holds)
  then show ?thesis
    using holds_trans confirmed_holds [OF c] by blast
qed

lemma confirm_change_holds: "confirm_change env headers c auth lag st = (st', r) \<Longrightarrow> holds st P F st'"
  by (cases c) (auto split: if_splits dest: confirmation_holds)

lemma next_holds: "next_credentials env c auth lag st = (st', r) \<Longrightarrow> holds st P F st'"
  by (cases c) (auto simp: Let_def split: if_splits option.splits prod.splits sum.splits dest: consume_holds)

lemma step_up_holds:
  assumes "step_up_step env rq c inp stage st = (st', stage')"
  shows "holds st P F st'"
proof (cases stage)
  case SChecked
  show ?thesis
  proof (cases c)
    case (ByCredential pw code)
    then show ?thesis
      using assms SChecked by (auto simp: confirmation_valid_def Let_def split: if_splits option.splits prod.splits
          dest: consume_holds)
  next
    case ByPasskey
    then show ?thesis
      using assms SChecked by (auto simp: Let_def within_pairs split: if_splits option.splits prod.splits)
  qed
next
  case (SConfirming token two)
  then show ?thesis
    using assms by (auto simp: within_pairs split: prod.splits)
qed (use assms in \<open>auto dest: check_holds split: prod.splits passkey_verdict.splits\<close>)

lemma swap_clears:
  "p_keys (st_sessions (swap_credentials env auth steps st)) = {}"
  "a_keys (st_sessions (swap_credentials env auth steps st)) = {}"
  by (simp_all add: swap_credentials_def Let_def clear_authenticated_def tbl_keys_def)

lemma edit_holds:
  assumes "edit_step env me rq c inp stage st = (st', stage')"
  shows "holds st P {t. enables_two_factor env inp (Edit rq c stage) st t} st' \<or>
    p_keys (st_sessions st') = {} \<and> a_keys (st_sessions st') = {}"
proof (cases stage)
  case (Confirming auth)
  then show ?thesis
    using assms by (auto split: prod.splits dest: confirm_change_holds)
next
  case (Checking auth)
  then show ?thesis
    using assms by (auto split: prod.splits dest: next_holds)
next
  case (Swapping auth steps)
  then have "st' = swap_credentials env auth steps st"
    using assms by simp
  then show ?thesis
    by (simp add: swap_clears)
next
  case SigningIn
  obtain s r where n: "create_authenticated (ip_random inp) (st_now st) (st_sessions st) = (s, r)"
    by fastforce
  have "(case r of Inr t \<Rightarrow> {t} | Inl _ \<Rightarrow> {}) \<subseteq> {t. enables_two_factor env inp (Edit rq c stage) st t}"
    using SigningIn n by (auto simp: enables_two_factor_def split: sum.splits)
  then show ?thesis
    using assms SigningIn n within_new [OF n, of P] by (auto simp: within_def)
qed (use assms in \<open>auto split: if_splits\<close>)

definition offers :: "'net web_env \<Rightarrow> inputs \<Rightarrow> task \<Rightarrow> web_state \<Rightarrow> string set" where
  "offers env inp t st =
     {token. (\<exists>p\<in>p_keys (st_sessions st). shows_factor env inp t st p token) \<or> enables_two_factor env inp t st token}"

lemma task_holds:
  assumes "task_step env me inp t st = (st', t')"
  shows "holds st {p. shows_password env inp t st p} (offers env inp t st) st' \<or>
    p_keys (st_sessions st') = {} \<and> a_keys (st_sessions st') = {}"
proof (cases t)
  case (Gate rq s)
  then show ?thesis
    using assms by (auto split: prod.splits dest: gate_holds)
next
  case (Factor rq f s)
  then show ?thesis
    using assms by (auto split: prod.splits simp: offers_def enables_two_factor_def dest: factor_holds)
next
  case (StepUp rq c s)
  then show ?thesis
    using assms by (auto split: prod.splits dest: step_up_holds)
next
  case (Edit rq c s)
  then show ?thesis
    using assms by (auto split: prod.splits simp: offers_def shows_factor_def dest: edit_holds)
next
  case (Logout rq out)
  have "holds st P F (logout_and_reauth rq st)" for P F
    using within_trans [OF within_remove(1) within_remove(2)] within_remove [of "st_sessions st" P F]
    by (auto simp: logout_and_reauth_def Let_def split: option.splits)
  then show ?thesis
    using assms Logout by (auto split: if_splits)
qed

section \<open>Runs\<close>

abbreviation web_run :: "'net web_env \<Rightarrow> web_world \<Rightarrow> web_event list \<Rightarrow> web_world" where
  "web_run env w es \<equiv> fold (web_step env) es w"

definition occurs :: "(inputs \<Rightarrow> task \<Rightarrow> web_state \<Rightarrow> bool) \<Rightarrow> web_world \<Rightarrow> web_event \<Rightarrow> bool" where
  "occurs Q w e \<longleftrightarrow>
     (case e of
        Advance i inp \<Rightarrow> i < length (ww_tasks w) \<and> Q inp (ww_tasks w ! i) (ww_state w)
      | _ \<Rightarrow> False)"

text \<open>
  A pending login is earned by the right password, a two-factor session by the password and then a
  second factor for that pending login, or by the change that enabled 2FA; all under the credentials
  that are still in force.
\<close>

definition pending_earned :: "'net web_env \<Rightarrow> web_world \<Rightarrow> web_event list \<Rightarrow> string \<Rightarrow> bool" where
  "pending_earned env w es p \<longleftrightarrow>
     (\<exists>as e bs. es = as @ e # bs \<and>
        occurs (\<lambda>inp t st. shows_password env inp t st p) (web_run env w as) e \<and>
        st_auth (ww_state (web_run env w as)) = st_auth (ww_state (web_run env w es)))"

definition earned :: "'net web_env \<Rightarrow> web_world \<Rightarrow> web_event list \<Rightarrow> string \<Rightarrow> bool" where
  "earned env w es token \<longleftrightarrow>
     (\<exists>as e bs. es = as @ e # bs \<and>
        st_auth (ww_state (web_run env w as)) = st_auth (ww_state (web_run env w es)) \<and>
        ((\<exists>p. pending_earned env w as p \<and>
            occurs (\<lambda>inp t st. shows_factor env inp t st p token) (web_run env w as) e) \<or>
         occurs (\<lambda>inp t st. enables_two_factor env inp t st token) (web_run env w as) e))"

lemma pending_earned_later:
  assumes "pending_earned env w es p"
    and "st_auth (ww_state (web_run env w (es @ [e]))) = st_auth (ww_state (web_run env w es))"
  shows "pending_earned env w (es @ [e]) p"
proof -
  obtain as e0 bs where "es = as @ e0 # bs" "occurs (\<lambda>inp t st. shows_password env inp t st p) (web_run env w as) e0"
      "st_auth (ww_state (web_run env w as)) = st_auth (ww_state (web_run env w es))"
    using assms(1) unfolding pending_earned_def by blast
  then show ?thesis
    unfolding pending_earned_def assms(2) by (intro exI [of _ as] exI [of _ e0] exI [of _ "bs @ [e]"]) simp
qed

lemma earned_later:
  assumes "earned env w es token"
    and "st_auth (ww_state (web_run env w (es @ [e]))) = st_auth (ww_state (web_run env w es))"
  shows "earned env w (es @ [e]) token"
proof -
  obtain as e0 bs where "es = as @ e0 # bs"
      "st_auth (ww_state (web_run env w as)) = st_auth (ww_state (web_run env w es))"
      "(\<exists>p. pending_earned env w as p \<and>
            occurs (\<lambda>inp t st. shows_factor env inp t st p token) (web_run env w as) e0) \<or>
         occurs (\<lambda>inp t st. enables_two_factor env inp t st token) (web_run env w as) e0"
    using assms(1) unfolding earned_def by blast
  then show ?thesis
    unfolding earned_def assms(2) by (intro exI [of _ as] exI [of _ e0] exI [of _ "bs @ [e]"]) simp
qed

lemma event_holds:
  fixes env :: "'net web_env" and w :: web_world and e :: web_event
  defines "st \<equiv> ww_state w" and "st' \<equiv> ww_state (web_step env e w)"
  shows "holds st {p. occurs (\<lambda>inp t st. shows_password env inp t st p) w e}
      {token. (\<exists>p\<in>p_keys (st_sessions st). occurs (\<lambda>inp t st. shows_factor env inp t st p token) w e) \<or>
        occurs (\<lambda>inp t st. enables_two_factor env inp t st token) w e} st' \<or>
    p_keys (st_sessions st') = {} \<and> a_keys (st_sessions st') = {}"
proof (cases "\<exists>i inp. e = Advance i inp \<and> i < length (ww_tasks w)")
  case True
  then obtain i inp where e: "e = Advance i inp" "i < length (ww_tasks w)" by blast
  obtain st1 t1 where t: "task_step env i inp (ww_tasks w ! i) (ww_state w) = (st1, t1)" by fastforce
  then have "st' = st1"
    using e by (simp add: st'_def)
  then show ?thesis
    using task_holds [OF t] e by (simp add: occurs_def offers_def st_def)
next
  case False
  then show ?thesis
    by (cases e) (simp_all add: st_def st'_def)
qed

lemma tokens_earned:
  assumes "p_keys (st_sessions (ww_state w)) = {}" and "a_keys (st_sessions (ww_state w)) = {}"
  shows "(\<forall>p\<in>p_keys (st_sessions (ww_state (web_run env w es))). pending_earned env w es p) \<and>
    (\<forall>t\<in>a_keys (st_sessions (ww_state (web_run env w es))). earned env w es t)"
proof (induction es rule: rev_induct)
  case Nil
  then show ?case using assms by simp
next
  case (snoc e es)
  let ?w = "web_run env w es" and ?w' = "web_run env w (es @ [e])"
  consider (same) "st_auth (ww_state ?w') = st_auth (ww_state ?w)"
      "within (st_sessions (ww_state ?w)) {p. occurs (\<lambda>inp t st. shows_password env inp t st p) ?w e}
      {token. (\<exists>p\<in>p_keys (st_sessions (ww_state ?w)). occurs (\<lambda>inp t st. shows_factor env inp t st p token) ?w e) \<or>
        occurs (\<lambda>inp t st. enables_two_factor env inp t st token) ?w e} (st_sessions (ww_state ?w'))"
    | (cleared) "p_keys (st_sessions (ww_state ?w')) = {}" "a_keys (st_sessions (ww_state ?w')) = {}"
    using event_holds [where env = env and w = "web_run env w es" and e = e] by auto
  then show ?case
  proof cases
    case same
    have pnew: "pending_earned env w (es @ [e]) p" if "occurs (\<lambda>inp t st. shows_password env inp t st p) ?w e" for p
      unfolding pending_earned_def using that same(1) by (intro exI [of _ es] exI [of _ e] exI [of _ "[]"]) simp
    have tnew: "earned env w (es @ [e]) t"
      if "(\<exists>p\<in>p_keys (st_sessions (ww_state ?w)). occurs (\<lambda>inp t st. shows_factor env inp t st p token) ?w e) \<or>
        occurs (\<lambda>inp t st. enables_two_factor env inp t st token) ?w e" "t = token" for t token
      unfolding earned_def using that same(1) snoc
      by (intro exI [of _ es] exI [of _ e] exI [of _ "[]"]) auto
    show ?thesis
      using same(2) snoc pnew tnew pending_earned_later [OF _ same(1)] earned_later [OF _ same(1)]
      unfolding within_def by blast
  qed simp
qed

section \<open>The way to a handler\<close>

datatype ground = OpenPanel | TwoFactorSession | Credentials

text \<open>What lets a request through: no authentication is configured, or a live and earned two-factor
  session, or the Basic credentials, alone only when 2FA is off or the path is exempt.\<close>

fun entitled :: "'net web_env \<Rightarrow> web_world \<Rightarrow> web_event list \<Rightarrow> request \<Rightarrow> ground \<Rightarrow> bool" where
  "entitled env w es rq OpenPanel \<longleftrightarrow>
     ra_expected_authorization (st_auth (ww_state (web_run env w es))) = None"
| "entitled env w es rq TwoFactorSession \<longleftrightarrow>
     (let st = ww_state (web_run env w es) in
      ra_enable_2fa (st_auth st) \<and>
      (\<exists>token. cookie_value (rq_headers rq) TWO_FACTOR_AUTH_COOKIE = Some token \<and>
         snd (is_authenticated token (st_now st) (st_sessions st)) \<and> earned env w es token))"
| "entitled env w es rq Credentials \<longleftrightarrow>
     (let auth = st_auth (ww_state (web_run env w es)) in
      ra_expected_authorization auth \<noteq> None \<and>
      rq_headers rq ''authorization'' = ra_expected_authorization auth \<and>
      (ra_enable_2fa auth \<longrightarrow>
         starts_with (rq_path rq) ''/assets/'' \<or>
         rq_path rq = ''/metrics'' \<and> we_allow_basic_scrape_with_2fa env))"

definition open_to :: "'net web_env \<Rightarrow> request \<Rightarrow> web_state \<Rightarrow> bool" where
  "open_to env rq st \<longleftrightarrow> snd (check_readonly env (request_client_ip env rq) st) = Inr ()"

definition open_to_write :: "'net web_env \<Rightarrow> request \<Rightarrow> web_state \<Rightarrow> bool" where
  "open_to_write env rq st \<longleftrightarrow>
     (is_sensitive_readonly_path rq \<longrightarrow> snd (check_sensitive env (request_client_ip env rq) st) = Inr ())"

text \<open>Basic credentials judged right, with the state of 2FA at that moment.\<close>

definition basic_at :: "'net web_env \<Rightarrow> web_world \<Rightarrow> web_event list \<Rightarrow> request \<Rightarrow> bool \<Rightarrow> bool" where
  "basic_at env w es rq two_factor \<longleftrightarrow>
     (let auth = st_auth (ww_state (web_run env w es)) in
      ra_expected_authorization auth \<noteq> None \<and> is_authorized auth (rq_headers rq) \<and> ra_enable_2fa auth = two_factor)"

text \<open>The request is task \<open>i\<close>. One of its own steps, from the given stage, was taken after the events \<open>as\<close>.\<close>

definition turn ::
  "'net web_env \<Rightarrow> web_world \<Rightarrow> web_event list \<Rightarrow> nat \<Rightarrow> request \<Rightarrow> gate_stage \<Rightarrow> web_event list \<Rightarrow> bool" where
  "turn env w es i rq stage as \<longleftrightarrow>
     (\<exists>inp bs. es = as @ Advance i inp # bs) \<and> i < length (ww_tasks (web_run env w as)) \<and>
     ww_tasks (web_run env w as) ! i = Gate rq stage"

text \<open>
  The request was entitled at the very step that judged it, and free of blocks at the later steps that
  checked it: with Basic credentials in the general budget and, for a sensitive write, in its own; on
  another ground for a sensitive write.
\<close>

definition let_through :: "'net web_env \<Rightarrow> web_world \<Rightarrow> web_event list \<Rightarrow> nat \<Rightarrow> request \<Rightarrow> bool" where
  "let_through env w es i rq \<longleftrightarrow>
     (\<exists>g as. turn env w es i rq Arrived as \<and> entitled env w as rq g \<and>
        (if g = Credentials
         then \<exists>f bs cs. turn env w es i rq (Judged True f) bs \<and> turn env w es i rq (Weighed True f) cs \<and>
           length as < length bs \<and> length bs < length cs \<and>
           open_to env rq (ww_state (web_run env w bs)) \<and> open_to_write env rq (ww_state (web_run env w cs))
         else \<exists>cs. turn env w es i rq Exempt cs \<and> length as < length cs \<and>
           open_to_write env rq (ww_state (web_run env w cs))))"

definition same_origin :: "'net web_env \<Rightarrow> request \<Rightarrow> bool" where
  "same_origin env rq \<longleftrightarrow>
     (rq_path rq = ''/ws/browser'' \<and> is_websocket_upgrade (rq_headers rq) \<longrightarrow>
        browser_origin_allowed (we_parse_url env) rq (we_public_base_url env))"

definition judged_at :: "'net web_env \<Rightarrow> web_world \<Rightarrow> web_event list \<Rightarrow> nat \<Rightarrow> request \<Rightarrow> bool \<Rightarrow> web_event list \<Rightarrow> bool" where
  "judged_at env w es i rq f as \<longleftrightarrow> turn env w es i rq Arrived as \<and> basic_at env w as rq f"

definition weighed_at ::
  "'net web_env \<Rightarrow> web_world \<Rightarrow> web_event list \<Rightarrow> nat \<Rightarrow> request \<Rightarrow> bool \<Rightarrow> web_event list \<Rightarrow> web_event list \<Rightarrow> bool" where
  "weighed_at env w es i rq f as bs \<longleftrightarrow> judged_at env w es i rq f as \<and> turn env w es i rq (Judged True f) bs \<and>
     length as < length bs \<and> open_to env rq (ww_state (web_run env w bs))"

definition admitted_at :: "'net web_env \<Rightarrow> web_world \<Rightarrow> web_event list \<Rightarrow> nat \<Rightarrow> request \<Rightarrow> bool \<Rightarrow> bool" where
  "admitted_at env w es i rq f \<longleftrightarrow>
     (\<exists>as bs cs. weighed_at env w es i rq f as bs \<and> turn env w es i rq (Weighed True f) cs \<and>
        length bs < length cs \<and> open_to_write env rq (ww_state (web_run env w cs)))"

text \<open>What each stage of the middleware has established.\<close>

fun established :: "'net web_env \<Rightarrow> web_world \<Rightarrow> web_event list \<Rightarrow> nat \<Rightarrow> request \<Rightarrow> gate_stage \<Rightarrow> bool" where
  "established env w es i rq Arrived = True"
| "established env w es i rq Exempt =
     (\<exists>as g. turn env w es i rq Arrived as \<and> entitled env w as rq g \<and> g \<noteq> Credentials)"
| "established env w es i rq (Judged b f) = (b \<longrightarrow> (\<exists>as. judged_at env w es i rq f as))"
| "established env w es i rq (Weighed b f) = (b \<longrightarrow> (\<exists>as bs. weighed_at env w es i rq f as bs))"
| "established env w es i rq (Admitted b f) = (b \<longrightarrow> admitted_at env w es i rq f)"
| "established env w es i rq (Answered (Passed life event)) = let_through env w es i rq"
| "established env w es i rq Visiting = let_through env w es i rq"
| "established env w es i rq Opening = let_through env w es i rq"
| "established env w es i rq (Recording token) = let_through env w es i rq"
| "established env w es i rq _ = True"

lemma turn_later: "turn env w es i rq stage as \<Longrightarrow> turn env w (es @ [e]) i rq stage as"
  unfolding turn_def by auto

lemma turn_now:
  "i < length (ww_tasks (web_run env w es)) \<Longrightarrow> ww_tasks (web_run env w es) ! i = Gate rq stage \<Longrightarrow>
    turn env w (es @ [Advance i inp]) i rq stage es"
  unfolding turn_def by auto

lemma turn_earlier: "turn env w es i rq stage as \<Longrightarrow> length as < length es"
  unfolding turn_def by auto

lemma let_through_later:
  assumes "let_through env w es i rq"
  shows "let_through env w (es @ [e]) i rq"
proof -
  obtain g as where g: "turn env w es i rq Arrived as" "entitled env w as rq g"
      "if g = Credentials
         then \<exists>f bs cs. turn env w es i rq (Judged True f) bs \<and> turn env w es i rq (Weighed True f) cs \<and>
           length as < length bs \<and> length bs < length cs \<and>
           open_to env rq (ww_state (web_run env w bs)) \<and> open_to_write env rq (ww_state (web_run env w cs))
         else \<exists>cs. turn env w es i rq Exempt cs \<and> length as < length cs \<and>
           open_to_write env rq (ww_state (web_run env w cs))"
    using assms unfolding let_through_def by blast
  show ?thesis
    unfolding let_through_def
  proof (intro exI [of _ g] exI [of _ as] conjI)
    show "turn env w (es @ [e]) i rq Arrived as" "entitled env w as rq g"
      using g(1,2) by (auto intro: turn_later)
  qed (use g(3) turn_later in \<open>cases "g = Credentials"; simp; blast\<close>)
qed

lemma judged_later: "judged_at env w es i rq f as \<Longrightarrow> judged_at env w (es @ [e]) i rq f as"
  unfolding judged_at_def by (auto intro: turn_later)

lemma weighed_later: "weighed_at env w es i rq f as bs \<Longrightarrow> weighed_at env w (es @ [e]) i rq f as bs"
  unfolding weighed_at_def judged_at_def by (auto intro: turn_later)

lemma admitted_later: "admitted_at env w es i rq f \<Longrightarrow> admitted_at env w (es @ [e]) i rq f"
  unfolding admitted_at_def by (blast intro: turn_later weighed_later)

lemma established_later:
  assumes "established env w es i rq stage"
  shows "established env w (es @ [e]) i rq stage"
proof (cases stage)
  case Exempt
  then show ?thesis
    using assms turn_later by simp blast
next
  case (Judged b f)
  then show ?thesis
    using assms judged_later by simp blast
next
  case (Weighed b f)
  then show ?thesis
    using assms weighed_later by simp blast
next
  case (Admitted b f)
  then show ?thesis
    using assms admitted_later by auto
next
  case (Answered r)
  then show ?thesis
    using assms let_through_later by (cases r) auto
qed (use assms let_through_later in auto)

lemma admitted_credentials:
  assumes "admitted_at env w es i rq f"
    and "f \<longrightarrow> starts_with (rq_path rq) ''/assets/'' \<or> rq_path rq = ''/metrics'' \<and> we_allow_basic_scrape_with_2fa env"
  shows "let_through env w es i rq"
proof -
  obtain as bs cs where *: "turn env w es i rq Arrived as" "basic_at env w as rq f"
      "turn env w es i rq (Judged True f) bs" "turn env w es i rq (Weighed True f) cs"
      "length as < length bs" "length bs < length cs"
      "open_to env rq (ww_state (web_run env w bs))" "open_to_write env rq (ww_state (web_run env w cs))"
    using assms(1) unfolding admitted_at_def weighed_at_def judged_at_def by blast
  have "entitled env w as rq Credentials"
    using *(2) assms(2) by (auto simp: basic_at_def is_authorized_def Let_def split: option.splits)
  then show ?thesis
    unfolding let_through_def using * by (intro exI [of _ Credentials] exI [of _ as]) auto
qed

lemma evaluated:
  assumes "evaluate_readonly_auth rq (ww_state (web_run env w es)) = (st', r)"
    and "p_keys (st_sessions (ww_state w)) = {}" "a_keys (st_sessions (ww_state w)) = {}"
  shows "r = None \<Longrightarrow> \<exists>g. entitled env w es rq g \<and> g \<noteq> Credentials"
    and "r = Some (b, f) \<Longrightarrow> b \<Longrightarrow> basic_at env w es rq f"
proof -
  let ?st = "ww_state (web_run env w es)"
  have live: "snd (is_authenticated token (st_now ?st) (st_sessions ?st)) \<Longrightarrow> earned env w es token" for token
    using tokens_earned [OF assms(2,3), of env es] keys_filter
    by (auto simp: is_authenticated_def Let_def prune_expired_sessions_def dest!: keys_get keys_filter)
  show "r = None \<Longrightarrow> \<exists>g. entitled env w es rq g \<and> g \<noteq> Credentials"
  proof (cases "ra_expected_authorization (st_auth ?st)")
    case None
    then show "\<exists>g. entitled env w es rq g \<and> g \<noteq> Credentials"
      by (intro exI [of _ OpenPanel]) simp
  next
    case (Some v)
    assume "r = None"
    then have "ra_enable_2fa (st_auth ?st)"
        "snd (has_authenticated_two_factor_cookie (rq_headers rq) (st_now ?st) (st_sessions ?st))"
      using assms(1) Some by (auto simp: evaluate_readonly_auth_def Let_def split: if_splits prod.splits)
    then show "\<exists>g. entitled env w es rq g \<and> g \<noteq> Credentials"
      using live by (intro exI [of _ TwoFactorSession])
        (auto simp: has_authenticated_two_factor_cookie_def Let_def split: option.splits)
  qed
  show "r = Some (b, f) \<Longrightarrow> b \<Longrightarrow> basic_at env w es rq f"
    using assms(1) by (auto simp: evaluate_readonly_auth_def basic_at_def Let_def split: if_splits prod.splits)
qed

text \<open>A step of the request itself, after the events \<open>es\<close>.\<close>

lemma stage_established:
  assumes "established env w es i rq stage" and "route_step env rq inp stage (ww_state (web_run env w es)) = (st', stage')"
    and here: "i < length (ww_tasks (web_run env w es))" "ww_tasks (web_run env w es) ! i = Gate rq stage"
    and "p_keys (st_sessions (ww_state w)) = {}" "a_keys (st_sessions (ww_state w)) = {}"
  shows "established env w (es @ [Advance i inp]) i rq stage'"
proof -
  let ?st = "ww_state (web_run env w es)" and ?ip = "request_client_ip env rq" and ?es = "es @ [Advance i inp]"
  note later = established_later [where e = "Advance i inp"] let_through_later [where e = "Advance i inp"]
  note now = turn_now [OF here]
  have wr: "open_to_write env rq ?st" if "\<not> is_sensitive_readonly_path rq \<or> snd (check_sensitive env ?ip ?st) = Inr ()"
    using that by (auto simp: open_to_write_def)
  show ?thesis
  proof (cases stage)
    case Arrived
    show ?thesis
    proof (cases "stage' = Answered ForeignOrigin")
      case False
      then obtain st1 r where ev: "evaluate_readonly_auth rq ?st = (st1, r)"
          "stage' = (case r of None \<Rightarrow> Exempt | Some (b, f) \<Rightarrow> Judged b f)"
        using assms(2) Arrived by (auto simp: Let_def split: if_splits prod.splits)
      have "\<exists>as g. turn env w ?es i rq Arrived as \<and> entitled env w as rq g \<and> g \<noteq> Credentials" if "r = None"
        using evaluated(1) [OF ev(1) assms(5,6) that] now [unfolded Arrived] by blast
      moreover have "judged_at env w ?es i rq f es" if "r = Some (b, f)" b for b f
        using evaluated(2) [OF ev(1) assms(5,6) that] now [unfolded Arrived] by (simp add: judged_at_def)
      ultimately show ?thesis
        using ev(2) by (auto split: option.splits)
    qed simp
  next
    case Exempt
    then obtain as g where g: "turn env w es i rq Arrived as" "entitled env w as rq g" "g \<noteq> Credentials"
      using assms(1) by auto
    have "let_through env w ?es i rq" if "open_to_write env rq ?st"
      unfolding let_through_def using g that turn_later [OF g(1)] turn_earlier [OF g(1)] now [unfolded Exempt]
      by (intro exI [of _ g] exI [of _ as]) auto
    then show ?thesis
      using assms(2) Exempt wr by (auto simp: Let_def split: if_splits prod.splits sum.splits)
  next
    case (Judged b f)
    show ?thesis
    proof (cases b)
      case True
      then obtain as where d: "judged_at env w es i rq f as"
        using assms(1) Judged by auto
      then have "weighed_at env w ?es i rq f as es" if "snd (check_readonly env ?ip ?st) = Inr ()"
        using that now [unfolded Judged] True turn_later turn_earlier
        by (auto simp: weighed_at_def judged_at_def open_to_def)
      then show ?thesis
        using assms(2) Judged True by (fastforce split: prod.splits sum.splits)
    qed (use assms(2) Judged in \<open>auto split: prod.splits sum.splits\<close>)
  next
    case (Weighed b f)
    show ?thesis
    proof (cases b)
      case True
      then obtain as bs where d: "weighed_at env w es i rq f as bs"
        using assms(1) Weighed by auto
      then have "admitted_at env w ?es i rq f" if "open_to_write env rq ?st"
        unfolding admitted_at_def using that now [unfolded Weighed] True weighed_later [OF d] turn_earlier
        by (intro exI [of _ as] exI [of _ bs] exI [of _ es]) (auto simp: weighed_at_def)
      then show ?thesis
        using assms(2) Weighed True wr by (auto simp: Let_def split: if_splits prod.splits sum.splits)
    qed (use assms(2) Weighed in \<open>auto simp: Let_def split: if_splits prod.splits sum.splits\<close>)
  next
    case (Admitted b f)
    then have "established env w es i rq stage'"
      using assms(1,2) admitted_credentials [of env w es i rq f] by (auto simp: Let_def split: if_splits)
    then show ?thesis by (rule later)
  next
    case (Answered r)
    then show ?thesis
      using assms later by auto
  next
    case Visiting
    then have "established env w es i rq stage'"
      using assms(1,2) by (auto split: option.splits if_splits)
    then show ?thesis by (rule later)
  next
    case Opening
    then have "established env w es i rq stage'"
      using assms(1,2) by (auto simp: open_basic_session_def Let_def split: if_splits prod.splits sum.splits)
    then show ?thesis by (rule later)
  next
    case (Recording token)
    then have "established env w es i rq stage'"
      using assms(1,2) by (auto split: option.splits prod.splits)
    then show ?thesis by (rule later)
  next
    case Redirecting
    then have "established env w es i rq stage'"
      using assms(2) by (auto simp: issue_two_factor_redirect_def Let_def split: if_splits prod.splits sum.splits)
    then show ?thesis by (rule later)
  qed (use assms(2) in auto)
qed

text \<open>The task at an index is the same request throughout: only its own steps change its stage.\<close>

lemma task_cases:
  assumes "i < length (ww_tasks (web_step env e w))" and "ww_tasks (web_step env e w) ! i = Gate rq stage'"
  shows "(i < length (ww_tasks w) \<and> ww_tasks w ! i = Gate rq stage') \<or> stage' = Arrived \<or>
    (\<exists>inp stage st'. e = Advance i inp \<and> i < length (ww_tasks w) \<and> ww_tasks w ! i = Gate rq stage \<and>
       route_step env rq inp stage (ww_state w) = (st', stage'))"
proof (cases "\<exists>k inp. e = Advance k inp \<and> k < length (ww_tasks w)")
  case True
  then obtain k inp where e: "e = Advance k inp" "k < length (ww_tasks w)" by blast
  obtain st' t' where t: "task_step env k inp (ww_tasks w ! k) (ww_state w) = (st', t')" by fastforce
  show ?thesis
  proof (cases "k = i")
    case True
    then obtain stage where "ww_tasks w ! i = Gate rq stage" "route_step env rq inp stage (ww_state w) = (st', stage')"
      using assms e t by (cases "ww_tasks w ! i") (auto split: prod.splits)
    then show ?thesis
      using e True by blast
  qed (use assms e t in auto)
next
  case False
  then show ?thesis
    using assms by (cases e) (auto simp: nth_append split: if_splits)
qed

text \<open>An assertion about the stages of a request holds over every run when each stage keeps it.\<close>

lemma gates:
  assumes "ww_tasks w = []" and "\<And>es. I es Arrived"
    and later: "\<And>es e stage. I es stage \<Longrightarrow> I (es @ [e]) stage"
    and step: "\<And>es inp stage st' stage'. I es stage \<Longrightarrow> i < length (ww_tasks (web_run env w es)) \<Longrightarrow>
      ww_tasks (web_run env w es) ! i = Gate rq stage \<Longrightarrow>
      route_step env rq inp stage (ww_state (web_run env w es)) = (st', stage') \<Longrightarrow> I (es @ [Advance i inp]) stage'"
  shows "i < length (ww_tasks (web_run env w es)) \<Longrightarrow> ww_tasks (web_run env w es) ! i = Gate rq stage \<Longrightarrow> I es stage"
proof (induction es arbitrary: stage rule: rev_induct)
  case (snoc e es)
  then have "i < length (ww_tasks (web_step env e (web_run env w es)))"
      "ww_tasks (web_step env e (web_run env w es)) ! i = Gate rq stage" by simp_all
  from task_cases [OF this] show ?case
    using snoc.IH later step assms(2) by blast
qed (use assms(1) in simp)

lemma gate_invariant:
  assumes "ww_tasks w = []" and "p_keys (st_sessions (ww_state w)) = {}" "a_keys (st_sessions (ww_state w)) = {}"
  shows "i < length (ww_tasks (web_run env w es)) \<Longrightarrow> ww_tasks (web_run env w es) ! i = Gate rq stage \<Longrightarrow>
    established env w es i rq stage"
  using assms(1) _ established_later stage_established [OF _ _ _ _ assms(2,3)] by (rule gates) simp

lemma gate_origin:
  assumes "ww_tasks w = []"
  shows "i < length (ww_tasks (web_run env w es)) \<Longrightarrow> ww_tasks (web_run env w es) ! i = Gate rq stage \<Longrightarrow>
    stage \<in> {Arrived, Answered ForeignOrigin} \<or> same_origin env rq"
proof (rule gates [where I = "\<lambda>es stage. stage \<in> {Arrived, Answered ForeignOrigin} \<or> same_origin env rq", OF assms])
  fix es :: "web_event list" and inp st' stage stage'
  assume "stage \<in> {Arrived, Answered ForeignOrigin} \<or> same_origin env rq"
    "route_step env rq inp stage (ww_state (web_run env w es)) = (st', stage')"
  then show "stage' \<in> {Arrived, Answered ForeignOrigin} \<or> same_origin env rq"
    by (cases "stage = Arrived") (auto simp: same_origin_def)
qed auto

lemma web_start_empty [simp]:
  "ww_tasks (web_start env config t0) = []"
  "p_keys (st_sessions (ww_state (web_start env config t0))) = {}"
  "a_keys (st_sessions (ww_state (web_start env config t0))) = {}"
  by (simp_all add: web_start_def sessions_new_def tbl_keys_def)

section \<open>The property\<close>

text \<open>C1: A request reaches its handler only when it is entitled to. In every interleaving of requests,
  logins, logouts, changes of the credentials and time, a request that the middleware passes on was, at
  the very step at which it was judged, without any authentication configured, or had a live two-factor
  session, or showed the Basic credentials then in force - those alone only while 2FA was off, for the
  public assets, or for a metrics scrape the operator allowed. A two-factor session that counts was
  opened under the credentials then in force by someone who first gave the password and then a second
  factor for that same login, or who enabled 2FA. At its later steps the request's address was free of
  blocks: for Basic credentials in the general budget, and for sensitive writes in their own. A browser
  WebSocket came from an allowed origin. What changes after these steps no longer stops the request.\<close>

theorem requests_are_entitled:
  assumes "i < length (ww_tasks (web_run env (web_start env config now) es))"
    and "ww_tasks (web_run env (web_start env config now) es) ! i = Gate rq (Answered (Passed life event))"
  shows "let_through env (web_start env config now) es i rq \<and> same_origin env rq"
  using gate_invariant [OF _ _ _ assms] gate_origin [OF _ assms] by simp

definition demo_env :: "unit web_env" where
  "demo_env =
     \<lparr>we_contains = (\<lambda>_ _. False), we_trusted_proxies = [], we_parse_url = (\<lambda>_. None),
      we_public_base_url = ''https://panel'', we_allow_basic_scrape_with_2fa = False,
      we_limits = \<lparr>wc_max_total_connections = 10, wc_max_connections_per_ip = 2, wc_auth_fail_window_secs = 60,
        wc_auth_fail_max_attempts = 5, wc_auth_block_secs = 300\<rparr>,
      we_totp = (\<lambda>_ _. ''123456''), we_wall = 0, we_codecs = \<lparr>cd_encode = id, cd_decode = (\<lambda>_. Some [])\<rparr>,
      we_unicode = unicode_ascii\<rparr>"

definition demo_request :: request where
  "demo_request =
     \<lparr>rq_method = ''POST'', rq_path = ''/api/settings/password'',
      rq_headers = (\<lambda>_. None)(''authorization'' := Some ''Basic admin:secret''), rq_unreadable = [], rq_peer = None\<rparr>"

definition demo_config :: readonly_auth_config where
  "demo_config = \<lparr>ac_username = ''admin'', ac_password = ''secret'', ac_enable_2fa = False, ac_totp_secret = None\<rparr>"

definition demo_inputs :: inputs where
  "demo_inputs = \<lparr>ip_random = None, ip_event_id = None, ip_lag = 0, ip_verdict = AssertionRejected, ip_written = False\<rparr>"

definition demo_visit :: "web_event list" where
  "demo_visit = Visit demo_request # replicate 4 (Advance 0 demo_inputs)"

theorem requests_are_entitled_witness:
  "ww_tasks (web_run demo_env (web_start demo_env (Some demo_config) 0) demo_visit) =
     [Gate demo_request (Answered (Passed None None))] \<and>
   let_through demo_env (web_start demo_env (Some demo_config) 0) demo_visit 0 demo_request"
proof -
  have "ww_tasks (web_run demo_env (web_start demo_env (Some demo_config) 0) demo_visit) =
      [Gate demo_request (Answered (Passed None None))]"
    by (simp add: demo_visit_def web_start_def demo_env_def demo_request_def demo_config_def demo_inputs_def
        numeral_eq_Suc evaluate_readonly_auth_def route_auth_from_config_def is_authorized_def check_readonly_def
        check_sensitive_def install_check_def failure_check_def install_admission_new_def failure_tracker_new_def
        entry_or_default_def fs_default_def prune_auth_failure_state_def is_sensitive_readonly_path_def starts_with_def
        strip_prefix_def starts_browser_session_def request_client_ip_def Let_def)
  then show ?thesis
    using requests_are_entitled [where i = 0 and rq = demo_request and life = None and event = None and
        env = demo_env and config = "Some demo_config" and now = 0 and es = demo_visit] by simp
qed

end
