(* ===== verification/LiveRegistry.thy ===== *)
theory LiveRegistry
  imports Registry "HOL-Library.Product_Lexorder"
begin

text \<open>
  The live registry of the server (\<open>nodelite-server/src/state/registry.rs\<close> with
  \<open>state/registry/entry.rs\<close>, \<open>state/overview.rs\<close> and \<open>state/session_control.rs\<close>): the entries of the
  nodes in 32 shards, each behind its own lock, so that an operation on one node or on one shard is one
  step. The string pool interns a string as itself. The hash function of the standard library that
  chooses a shard is a parameter.
\<close>

section \<open>What is shown of a node\<close>

record node_status =
  nt_identity :: node_identity
  nt_remote_ip :: "string option"
  nt_geoip_country :: "string option"
  nt_geoip_city :: "string option"
  nt_geoip_latitude :: "f64 option"
  nt_geoip_longitude :: "f64 option"
  nt_override_country :: "string option"
  nt_override_city :: "string option"
  nt_override_latitude :: "f64 option"
  nt_override_longitude :: "f64 option"
  nt_snapshot :: "node_snapshot option"
  nt_last_seen :: "datetime option"
  nt_latency_ms :: "u64 option"
  nt_online :: bool

record node_list_identity =
  li_node_id :: string
  li_node_label :: string
  li_hostname :: string
  li_tags :: "string list"

record node_list_snapshot =
  lv_cpu_usage_percent :: "f64 option"
  lv_load_one :: f64
  lv_memory_total_bytes :: u64
  lv_memory_used_bytes :: u64

record node_list_item =
  ls_identity :: node_list_identity
  ls_geoip_country :: "string option"
  ls_geoip_city :: "string option"
  ls_geoip_latitude :: "f64 option"
  ls_geoip_longitude :: "f64 option"
  ls_override_country :: "string option"
  ls_override_city :: "string option"
  ls_override_latitude :: "f64 option"
  ls_override_longitude :: "f64 option"
  ls_snapshot :: "node_list_snapshot option"
  ls_latency_ms :: "u64 option"
  ls_online :: bool

definition list_identity :: "node_identity \<Rightarrow> node_list_identity" where
  "list_identity i =
     \<lparr>li_node_id = id_node_id i, li_node_label = id_node_label i, li_hostname = id_hostname i,
      li_tags = id_tags i\<rparr>"

definition list_snapshot :: "node_snapshot \<Rightarrow> node_list_snapshot" where
  "list_snapshot s =
     \<lparr>lv_cpu_usage_percent = ns_cpu_usage_percent s, lv_load_one = la_one (ns_load s),
      lv_memory_total_bytes = mu_total_bytes (ns_memory s), lv_memory_used_bytes = mu_used_bytes (ns_memory s)\<rparr>"

definition list_item_of_status :: "node_status \<Rightarrow> node_list_item" where
  "list_item_of_status st =
     \<lparr>ls_identity = list_identity (nt_identity st), ls_geoip_country = nt_geoip_country st,
      ls_geoip_city = nt_geoip_city st, ls_geoip_latitude = nt_geoip_latitude st,
      ls_geoip_longitude = nt_geoip_longitude st, ls_override_country = nt_override_country st,
      ls_override_city = nt_override_city st, ls_override_latitude = nt_override_latitude st,
      ls_override_longitude = nt_override_longitude st, ls_snapshot = map_option list_snapshot (nt_snapshot st),
      ls_latency_ms = nt_latency_ms st, ls_online = nt_online st\<rparr>"

section \<open>The entry of a node\<close>

text \<open>A control handle is the number of its channel.\<close>

record node_entry =
  ne_identity :: node_identity
  ne_remote_ip :: "string option"
  ne_geoip_country :: "string option"
  ne_geoip_city :: "string option"
  ne_geoip_latitude :: "f64 option"
  ne_geoip_longitude :: "f64 option"
  ne_override_country :: "string option"
  ne_override_city :: "string option"
  ne_override_latitude :: "f64 option"
  ne_override_longitude :: "f64 option"
  ne_snapshot :: "node_snapshot option"
  ne_last_seen :: "datetime option"
  ne_latency_ms :: "u64 option"
  ne_online :: bool
  ne_active_session_id :: "u64 option"
  ne_control :: "nat option"

fun geoip_fields_from_location ::
  "geoip_location option \<Rightarrow> string option \<times> string option \<times> f64 option \<times> f64 option" where
  "geoip_fields_from_location (Some l) = (Some (gl_country l), gl_city l, gl_latitude l, gl_longitude l)"
| "geoip_fields_from_location None = (None, None, None, None)"

definition node_entry_new ::
  "u64 \<Rightarrow> node_identity \<Rightarrow> string option \<Rightarrow> geoip_location option \<Rightarrow> geoip_location option \<Rightarrow> datetime \<Rightarrow> node_entry" where
  "node_entry_new session_id identity remote_ip geoip override now =
     (let (gc, gt, glat, glon) = geoip_fields_from_location geoip;
          (oc, ot, olat, olon) = geoip_fields_from_location override
      in \<lparr>ne_identity = identity, ne_remote_ip = remote_ip, ne_geoip_country = gc, ne_geoip_city = gt,
          ne_geoip_latitude = glat, ne_geoip_longitude = glon, ne_override_country = oc, ne_override_city = ot,
          ne_override_latitude = olat, ne_override_longitude = olon, ne_snapshot = None,
          ne_last_seen = Some now, ne_latency_ms = None, ne_online = True,
          ne_active_session_id = Some session_id, ne_control = None\<rparr>)"

definition register_session ::
  "u64 \<Rightarrow> node_identity \<Rightarrow> string option \<Rightarrow> geoip_location option \<Rightarrow> geoip_location option \<Rightarrow> datetime
    \<Rightarrow> node_entry \<Rightarrow> node_entry" where
  "register_session session_id identity remote_ip geoip override now e =
     (let (gc, gt, glat, glon) = geoip_fields_from_location geoip;
          (oc, ot, olat, olon) = geoip_fields_from_location override
      in e\<lparr>ne_identity := identity, ne_remote_ip := remote_ip, ne_geoip_country := gc, ne_geoip_city := gt,
           ne_geoip_latitude := glat, ne_geoip_longitude := glon, ne_override_country := oc, ne_override_city := ot,
           ne_override_latitude := olat, ne_override_longitude := olon, ne_online := True,
           ne_last_seen := Some now, ne_latency_ms := None, ne_active_session_id := Some session_id,
           ne_control := None\<rparr>)"

definition from_restored_status :: "node_status \<Rightarrow> node_entry" where
  "from_restored_status st =
     \<lparr>ne_identity = nt_identity st, ne_remote_ip = nt_remote_ip st, ne_geoip_country = nt_geoip_country st,
      ne_geoip_city = nt_geoip_city st, ne_geoip_latitude = nt_geoip_latitude st,
      ne_geoip_longitude = nt_geoip_longitude st, ne_override_country = nt_override_country st,
      ne_override_city = nt_override_city st, ne_override_latitude = nt_override_latitude st,
      ne_override_longitude = nt_override_longitude st, ne_snapshot = nt_snapshot st,
      ne_last_seen = nt_last_seen st, ne_latency_ms = nt_latency_ms st, ne_online = False,
      ne_active_session_id = None, ne_control = None\<rparr>"

definition to_status :: "node_entry \<Rightarrow> node_status" where
  "to_status e =
     \<lparr>nt_identity = ne_identity e, nt_remote_ip = ne_remote_ip e, nt_geoip_country = ne_geoip_country e,
      nt_geoip_city = ne_geoip_city e, nt_geoip_latitude = ne_geoip_latitude e,
      nt_geoip_longitude = ne_geoip_longitude e, nt_override_country = ne_override_country e,
      nt_override_city = ne_override_city e, nt_override_latitude = ne_override_latitude e,
      nt_override_longitude = ne_override_longitude e, nt_snapshot = ne_snapshot e,
      nt_last_seen = ne_last_seen e, nt_latency_ms = ne_latency_ms e, nt_online = ne_online e\<rparr>"

definition to_summary :: "node_entry \<Rightarrow> node_list_item" where
  "to_summary e =
     \<lparr>ls_identity = list_identity (ne_identity e), ls_geoip_country = ne_geoip_country e,
      ls_geoip_city = ne_geoip_city e, ls_geoip_latitude = ne_geoip_latitude e,
      ls_geoip_longitude = ne_geoip_longitude e, ls_override_country = ne_override_country e,
      ls_override_city = ne_override_city e, ls_override_latitude = ne_override_latitude e,
      ls_override_longitude = ne_override_longitude e, ls_snapshot = map_option list_snapshot (ne_snapshot e),
      ls_latency_ms = ne_latency_ms e, ls_online = ne_online e\<rparr>"

text \<open>The list of the nodes and the status of a node show the same.\<close>

lemma summary_of_status: "to_summary e = list_item_of_status (to_status e)"
  by (simp add: to_summary_def list_item_of_status_def to_status_def)

section \<open>The shards\<close>

definition REGISTRY_SHARD_COUNT :: nat where
  "REGISTRY_SHARD_COUNT = 32"

type_synonym registry_shard = "(string, node_entry) table"
type_synonym live_registry = "registry_shard list"

definition registry_default :: live_registry where
  "registry_default = replicate REGISTRY_SHARD_COUNT []"

definition shard_index :: "(string \<Rightarrow> u64) \<Rightarrow> string \<Rightarrow> nat" where
  "shard_index hash node_id = unat (hash node_id) mod REGISTRY_SHARD_COUNT"

definition node_get :: "(string \<Rightarrow> u64) \<Rightarrow> live_registry \<Rightarrow> string \<Rightarrow> node_entry option" where
  "node_get hash r node_id = tbl_get (r ! shard_index hash node_id) node_id"

definition node_put :: "(string \<Rightarrow> u64) \<Rightarrow> string \<Rightarrow> node_entry \<Rightarrow> live_registry \<Rightarrow> live_registry" where
  "node_put hash node_id e r =
     (let i = shard_index hash node_id in r[i := tbl_put node_id e (r ! i)])"

definition register_live ::
  "(string \<Rightarrow> u64) \<Rightarrow> u64 \<Rightarrow> node_identity \<Rightarrow> string option \<Rightarrow> geoip_location option \<Rightarrow> geoip_location option
    \<Rightarrow> datetime \<Rightarrow> live_registry \<Rightarrow> live_registry" where
  "register_live hash session_id identity remote_ip geoip override now r =
     (let node_id = id_node_id identity in
      case node_get hash r node_id of
        Some e \<Rightarrow>
          node_put hash node_id (register_session session_id identity remote_ip geoip override now e) r
      | None \<Rightarrow>
          node_put hash node_id (node_entry_new session_id identity remote_ip geoip override now) r)"

definition update_snapshot ::
  "(string \<Rightarrow> u64) \<Rightarrow> string \<Rightarrow> u64 \<Rightarrow> node_snapshot \<Rightarrow> datetime \<Rightarrow> live_registry
    \<Rightarrow> live_registry \<times> node_status option" where
  "update_snapshot hash node_id session_id snap now r =
     (case node_get hash r node_id of
        None \<Rightarrow> (r, None)
      | Some e \<Rightarrow>
          if ne_active_session_id e \<noteq> Some session_id then (r, None)
          else
            let e = e\<lparr>ne_snapshot := Some snap, ne_last_seen := Some now, ne_online := True\<rparr>
            in (node_put hash node_id e r, Some (to_status e)))"

definition update_latency ::
  "(string \<Rightarrow> u64) \<Rightarrow> string \<Rightarrow> u64 \<Rightarrow> u64 \<Rightarrow> datetime \<Rightarrow> live_registry \<Rightarrow> live_registry \<times> bool" where
  "update_latency hash node_id session_id latency_ms now r =
     (case node_get hash r node_id of
        None \<Rightarrow> (r, False)
      | Some e \<Rightarrow>
          if ne_active_session_id e \<noteq> Some session_id then (r, False)
          else (node_put hash node_id
                  (e\<lparr>ne_latency_ms := Some latency_ms, ne_last_seen := Some now, ne_online := True\<rparr>) r, True))"

definition mark_disconnected ::
  "(string \<Rightarrow> u64) \<Rightarrow> string \<Rightarrow> u64 \<Rightarrow> live_registry \<Rightarrow> live_registry \<times> bool" where
  "mark_disconnected hash node_id session_id r =
     (case node_get hash r node_id of
        None \<Rightarrow> (r, False)
      | Some e \<Rightarrow>
          if ne_active_session_id e = Some session_id
          then (node_put hash node_id
                  (e\<lparr>ne_active_session_id := None, ne_online := False, ne_control := None\<rparr>) r, True)
          else (r, False))"

definition remove_live :: "(string \<Rightarrow> u64) \<Rightarrow> string \<Rightarrow> live_registry \<Rightarrow> live_registry \<times> bool" where
  "remove_live hash node_id r =
     (let i = shard_index hash node_id in
      (r[i := tbl_del node_id (r ! i)], tbl_get (r ! i) node_id \<noteq> None))"

definition attach_session_control ::
  "(string \<Rightarrow> u64) \<Rightarrow> string \<Rightarrow> u64 \<Rightarrow> nat \<Rightarrow> live_registry \<Rightarrow> live_registry \<times> bool" where
  "attach_session_control hash node_id session_id control r =
     (case node_get hash r node_id of
        None \<Rightarrow> (r, False)
      | Some e \<Rightarrow>
          if ne_active_session_id e \<noteq> Some session_id then (r, False)
          else (node_put hash node_id (e\<lparr>ne_control := Some control\<rparr>) r, True))"

text \<open>\<open>to_std\<close> fails on a negative difference: a node seen in the future is not stale.\<close>

definition is_stale :: "duration \<Rightarrow> datetime \<Rightarrow> node_entry \<Rightarrow> bool" where
  "is_stale threshold now e \<longleftrightarrow>
     (case ne_last_seen e of
        None \<Rightarrow> False
      | Some last_seen \<Rightarrow> last_seen \<le> now \<and> int threshold \<le> now - last_seen \<and> ne_online e)"

definition stale_entry :: "duration \<Rightarrow> datetime \<Rightarrow> node_entry \<Rightarrow> node_entry" where
  "stale_entry threshold now e =
     (if is_stale threshold now e
      then e\<lparr>ne_online := False, ne_active_session_id := None, ne_control := None\<rparr> else e)"

definition mark_stale_shard :: "duration \<Rightarrow> datetime \<Rightarrow> registry_shard \<Rightarrow> registry_shard" where
  "mark_stale_shard threshold now shard = map (\<lambda>(k, e). (k, stale_entry threshold now e)) shard"

definition mark_stale :: "duration \<Rightarrow> datetime \<Rightarrow> live_registry \<Rightarrow> live_registry \<times> nat" where
  "mark_stale threshold now r =
     (map (mark_stale_shard threshold now) r,
      length (filter (\<lambda>(k, e). is_stale threshold now e) (concat r)))"

definition is_current_session :: "(string \<Rightarrow> u64) \<Rightarrow> string \<Rightarrow> u64 \<Rightarrow> live_registry \<Rightarrow> bool" where
  "is_current_session hash node_id session_id r \<longleftrightarrow>
     Option.bind (node_get hash r node_id) ne_active_session_id = Some session_id"

definition get_status :: "(string \<Rightarrow> u64) \<Rightarrow> string \<Rightarrow> live_registry \<Rightarrow> node_status option" where
  "get_status hash node_id r = map_option to_status (node_get hash r node_id)"

definition session_control :: "(string \<Rightarrow> u64) \<Rightarrow> string \<Rightarrow> live_registry \<Rightarrow> nat option" where
  "session_control hash node_id r =
     (case node_get hash r node_id of
        None \<Rightarrow> None
      | Some e \<Rightarrow> if ne_active_session_id e = None \<or> \<not> ne_online e then None else ne_control e)"

definition option_f64_eq :: "f64 option \<Rightarrow> f64 option \<Rightarrow> bool" where
  "option_f64_eq a b \<longleftrightarrow>
     (case (a, b) of (None, None) \<Rightarrow> True | (Some x, Some y) \<Rightarrow> f64_eq x y | _ \<Rightarrow> False)"

definition update_geoip ::
  "(string \<Rightarrow> u64) \<Rightarrow> string \<Rightarrow> string \<Rightarrow> geoip_location \<Rightarrow> live_registry \<Rightarrow> live_registry \<times> bool" where
  "update_geoip hash node_id expected_remote_ip geoip r =
     (case node_get hash r node_id of
        None \<Rightarrow> (r, False)
      | Some e \<Rightarrow>
          if ne_remote_ip e \<noteq> Some expected_remote_ip then (r, False)
          else if ne_geoip_country e = Some (gl_country geoip) \<and> ne_geoip_city e = gl_city geoip \<and>
              option_f64_eq (ne_geoip_latitude e) (gl_latitude geoip) \<and>
              option_f64_eq (ne_geoip_longitude e) (gl_longitude geoip)
          then (r, False)
          else (node_put hash node_id
                  (e\<lparr>ne_geoip_country := Some (gl_country geoip), ne_geoip_city := gl_city geoip,
                     ne_geoip_latitude := gl_latitude geoip, ne_geoip_longitude := gl_longitude geoip\<rparr>) r, True))"

definition update_location_override ::
  "(string \<Rightarrow> u64) \<Rightarrow> string \<Rightarrow> geoip_location option \<Rightarrow> live_registry \<Rightarrow> live_registry \<times> bool" where
  "update_location_override hash node_id override r =
     (case node_get hash r node_id of
        None \<Rightarrow> (r, False)
      | Some e \<Rightarrow>
          (let (country, city, latitude, longitude) = geoip_fields_from_location override in
           if ne_override_country e = country \<and> ne_override_city e = city \<and>
              option_f64_eq (ne_override_latitude e) latitude \<and> option_f64_eq (ne_override_longitude e) longitude
           then (r, False)
           else (node_put hash node_id
                   (e\<lparr>ne_override_country := country, ne_override_city := city,
                      ne_override_latitude := latitude, ne_override_longitude := longitude\<rparr>) r, True)))"

definition restore_statuses :: "(string \<Rightarrow> u64) \<Rightarrow> node_status list \<Rightarrow> live_registry \<Rightarrow> live_registry" where
  "restore_statuses hash statuses r =
     fold (\<lambda>st. node_put hash (id_node_id (nt_identity st)) (from_restored_status st)) statuses (map (\<lambda>_. []) r)"

section \<open>Views\<close>

definition live_entries :: "live_registry \<Rightarrow> node_entry list" where
  "live_entries r = map snd (concat r)"

text \<open>The order of \<open>compare_node_entries\<close>: by label, then by id, bytewise.\<close>

definition sorted_entries :: "live_registry \<Rightarrow> node_entry list" where
  "sorted_entries r = sort_key (\<lambda>e. (id_node_label (ne_identity e), id_node_id (ne_identity e))) (live_entries r)"

definition list_statuses :: "live_registry \<Rightarrow> node_status list" where
  "list_statuses r = map to_status (sorted_entries r)"

definition list_node_summaries :: "live_registry \<Rightarrow> node_list_item list" where
  "list_node_summaries r = map to_summary (sorted_entries r)"

definition geoip_refresh_candidates :: "live_registry \<Rightarrow> (string \<times> string) list" where
  "geoip_refresh_candidates r =
     List.map_filter
       (\<lambda>e. if \<not> ne_online e \<or> ne_active_session_id e = None then None
            else map_option (\<lambda>ip. (id_node_id (ne_identity e), ip)) (ne_remote_ip e))
       (sorted_entries r)"

definition disk_entries_total :: "live_registry \<Rightarrow> nat" where
  "disk_entries_total r =
     sum_list (map (\<lambda>e. case ne_snapshot e of None \<Rightarrow> 0 | Some s \<Rightarrow> length (ns_disks s)) (live_entries r))"

text \<open>The addition of finite doubles: the exact sum rounded to 53 bits, infinite above the largest.\<close>

definition F64_MAX :: rat where
  "F64_MAX = of_int ((2 ^ 53 - 1) * 2 ^ 971)"

definition f64_plus :: "f64 \<Rightarrow> f64 \<Rightarrow> f64" where
  "f64_plus x y =
     (case (x, y) of
        (F64_Fin a, F64_Fin b) \<Rightarrow>
          (let c = f64_of_rat (a + b) in
           if F64_MAX < c then F64_Inf False else if c < - F64_MAX then F64_Inf True else F64_Fin c)
      | (F64_NaN, _) \<Rightarrow> F64_NaN
      | (_, F64_NaN) \<Rightarrow> F64_NaN
      | (F64_Inf s, F64_Inf t) \<Rightarrow> if s = t then F64_Inf s else F64_NaN
      | (F64_Inf s, _) \<Rightarrow> F64_Inf s
      | (_, F64_Inf t) \<Rightarrow> F64_Inf t)"

definition f64_is_finite :: "f64 \<Rightarrow> bool" where
  "f64_is_finite x \<longleftrightarrow> (case x of F64_Fin _ \<Rightarrow> True | _ \<Rightarrow> False)"

definition sum_finite_f64 :: "f64 \<Rightarrow> f64 \<Rightarrow> f64" where
  "sum_finite_f64 acc v =
     (case v of
        F64_Fin x \<Rightarrow>
          if x < 0 then acc
          else let next = f64_plus acc v in if f64_is_finite next then next else F64_Fin F64_MAX
      | _ \<Rightarrow> acc)"

record overview_data =
  ov_generated_at :: datetime
  ov_total_nodes :: nat
  ov_online_nodes :: nat
  ov_offline_nodes :: nat
  ov_total_rx_bytes :: u64
  ov_total_tx_bytes :: u64
  ov_current_rx_bytes_per_sec :: f64
  ov_current_tx_bytes_per_sec :: f64
  ov_average_latency_ms :: "f64 option"

text \<open>The running totals of the loop; the latencies are summed in 128 bits.\<close>

record overview_totals =
  ot_total :: nat
  ot_online :: nat
  ot_rx :: u64
  ot_tx :: u64
  ot_rx_rate :: f64
  ot_tx_rate :: f64
  ot_latency :: "128 word"
  ot_samples :: nat

definition overview_traffic :: "bool \<Rightarrow> node_snapshot option \<Rightarrow> overview_totals \<Rightarrow> overview_totals" where
  "overview_traffic online snapshot t =
     (case snapshot of
        None \<Rightarrow> t
      | Some s \<Rightarrow>
          (let n = ns_network s;
               t = t\<lparr>ot_rx := sat_add (ot_rx t) (nc_total_rx_bytes n), ot_tx := sat_add (ot_tx t) (nc_total_tx_bytes n)\<rparr>
           in if \<not> online then t
              else
                t\<lparr>ot_rx_rate := (case nc_rx_bytes_per_sec n of None \<Rightarrow> ot_rx_rate t | Some v \<Rightarrow> sum_finite_f64 (ot_rx_rate t) v),
                  ot_tx_rate := (case nc_tx_bytes_per_sec n of None \<Rightarrow> ot_tx_rate t | Some v \<Rightarrow> sum_finite_f64 (ot_tx_rate t) v)\<rparr>))"

definition overview_step :: "node_entry \<Rightarrow> overview_totals \<Rightarrow> overview_totals" where
  "overview_step e t =
     (let t = t\<lparr>ot_total := ot_total t + 1\<rparr>;
          t = (if ne_online e
               then let t = t\<lparr>ot_online := ot_online t + 1\<rparr> in
                    case ne_latency_ms e of
                      None \<Rightarrow> t
                    | Some l \<Rightarrow> t\<lparr>ot_latency := sat_add (ot_latency t) (ucast l), ot_samples := ot_samples t + 1\<rparr>
               else t)
      in overview_traffic (ne_online e) (ne_snapshot e) t)"

definition build_overview_from_iter :: "datetime \<Rightarrow> node_entry list \<Rightarrow> overview_data" where
  "build_overview_from_iter now es =
     (let t = fold overview_step es
            \<lparr>ot_total = 0, ot_online = 0, ot_rx = 0, ot_tx = 0, ot_rx_rate = F64_Fin 0, ot_tx_rate = F64_Fin 0,
             ot_latency = 0, ot_samples = 0\<rparr>
      in \<lparr>ov_generated_at = now, ov_total_nodes = ot_total t, ov_online_nodes = ot_online t,
          ov_offline_nodes = ot_total t - ot_online t, ov_total_rx_bytes = ot_rx t, ov_total_tx_bytes = ot_tx t,
          ov_current_rx_bytes_per_sec = ot_rx_rate t, ov_current_tx_bytes_per_sec = ot_tx_rate t,
          ov_average_latency_ms =
            (if 0 < ot_samples t
             then Some (F64_Fin (f64_of_rat (f64_of_rat (of_nat (unat (ot_latency t))) / of_nat (ot_samples t))))
             else None)\<rparr>)"

definition registry_overview :: "datetime \<Rightarrow> live_registry \<Rightarrow> overview_data" where
  "registry_overview now r = build_overview_from_iter now (live_entries r)"

section \<open>The control channel of a session\<close>

definition SESSION_CONTROL_CHANNEL_CAPACITY :: nat where
  "SESSION_CONTROL_CHANNEL_CAPACITY = 8"

datatype session_command = AgentUpdate "string" | RefreshToken nat

datatype session_command_error = NodeOffline | SessionClosed | QueueFull | CommandInFlight

text \<open>\<open>cc_pending\<close> is the flag that a refresh permit holds; a command carries the number of its caller.\<close>

record control_channel =
  cc_queue :: "session_command list"
  cc_closed :: bool
  cc_pending :: bool

definition channel_new :: control_channel where
  "channel_new = \<lparr>cc_queue = [], cc_closed = False, cc_pending = False\<rparr>"

definition try_send :: "session_command \<Rightarrow> control_channel \<Rightarrow> control_channel \<times> (session_command_error + unit)" where
  "try_send c ch =
     (if cc_closed ch then (ch, Inl SessionClosed)
      else if SESSION_CONTROL_CHANNEL_CAPACITY \<le> length (cc_queue ch) then (ch, Inl QueueFull)
      else (ch\<lparr>cc_queue := cc_queue ch @ [c]\<rparr>, Inr ()))"

text \<open>The permit is taken first; a refused command drops it again.\<close>

definition permit_acquire :: "control_channel \<Rightarrow> control_channel \<times> (session_command_error + unit)" where
  "permit_acquire ch = (if cc_pending ch then (ch, Inl CommandInFlight) else (ch\<lparr>cc_pending := True\<rparr>, Inr ()))"

definition permit_drop :: "control_channel \<Rightarrow> control_channel" where
  "permit_drop ch = ch\<lparr>cc_pending := False\<rparr>"

definition try_enqueue_refresh :: "nat \<Rightarrow> control_channel \<Rightarrow> control_channel \<times> (session_command_error + unit)" where
  "try_enqueue_refresh caller ch =
     (let (ch, r) = permit_acquire ch in
      case r of
        Inl e \<Rightarrow> (ch, Inl e)
      | Inr _ \<Rightarrow>
          (let (ch, r) = try_send (RefreshToken caller) ch in
           case r of Inl e \<Rightarrow> (permit_drop ch, Inl e) | Inr _ \<Rightarrow> (ch, Inr ())))"

definition try_enqueue_update :: "string \<Rightarrow> control_channel \<Rightarrow> control_channel \<times> (session_command_error + unit)" where
  "try_enqueue_update request ch = try_send (AgentUpdate request) ch"

end
