(* ===== verification/SharedState.thy ===== *)
theory SharedState
  imports LiveRegistry
begin

text \<open>
  The shared state of the server (\<open>nodelite-server/src/state.rs\<close> with \<open>state/view_cache.rs\<close>): updates
  of the live registry, the revisions they bump, and the cached bodies of \<open>/api/nodes\<close> and
  \<open>/api/overview\<close>. Updates and readers are tasks that run in stages, one for each lock or atomic they
  touch, and interleave freely. A body is the value that is serialised. The broadcast to browsers, the
  counters of hits and misses and the Prometheus text are left out.
\<close>

section \<open>Cache slots\<close>

datatype api_kind = NodesView | OverviewView

datatype api_body = NodesBody "node_list_item list" | OverviewBody overview_data

record json_slot =
  js_revision :: u64
  js_cached_at :: "instant option"
  js_body :: "api_body option"

definition slot_default :: json_slot where
  "slot_default = \<lparr>js_revision = 0, js_cached_at = None, js_body = None\<rparr>"

definition slot_get :: "u64 \<Rightarrow> duration option \<Rightarrow> instant \<Rightarrow> json_slot \<Rightarrow> api_body option" where
  "slot_get revision max_age now s =
     (if js_revision s \<noteq> revision then None
      else case max_age of
             None \<Rightarrow> js_body s
           | Some age \<Rightarrow>
               (case js_cached_at s of
                  None \<Rightarrow> None
                | Some cached_at \<Rightarrow> if age < duration_since now cached_at then None else js_body s))"

definition slot_store :: "u64 \<Rightarrow> api_body \<Rightarrow> instant \<Rightarrow> json_slot" where
  "slot_store revision body now = \<lparr>js_revision = revision, js_cached_at = Some now, js_body = Some body\<rparr>"

definition OVERVIEW_CACHE_MAX_STALE :: duration where
  "OVERVIEW_CACHE_MAX_STALE = from_secs 1"

definition max_age_for :: "api_kind \<Rightarrow> duration option" where
  "max_age_for kind = (case kind of NodesView \<Rightarrow> None | OverviewView \<Rightarrow> Some OVERVIEW_CACHE_MAX_STALE)"

section \<open>The state\<close>

record shared_state =
  sh_registry :: live_registry
  sh_next_session_id :: u64
  sh_overview_revision :: u64
  sh_nodes_revision :: u64
  sh_metrics_revision :: u64
  sh_overview_cache :: json_slot
  sh_nodes_cache :: json_slot
  sh_overview_build_lock :: "nat option"
  sh_nodes_build_lock :: "nat option"
  sh_now :: instant

definition shared_new :: "instant \<Rightarrow> shared_state" where
  "shared_new now =
     \<lparr>sh_registry = registry_default, sh_next_session_id = 1, sh_overview_revision = 1, sh_nodes_revision = 1,
      sh_metrics_revision = 1, sh_overview_cache = slot_default, sh_nodes_cache = slot_default,
      sh_overview_build_lock = None, sh_nodes_build_lock = None, sh_now = now\<rparr>"

definition json_slot_for :: "api_kind \<Rightarrow> shared_state \<Rightarrow> json_slot" where
  "json_slot_for kind s = (case kind of NodesView \<Rightarrow> sh_nodes_cache s | OverviewView \<Rightarrow> sh_overview_cache s)"

definition set_slot :: "api_kind \<Rightarrow> json_slot \<Rightarrow> shared_state \<Rightarrow> shared_state" where
  "set_slot kind slot s =
     (case kind of NodesView \<Rightarrow> s\<lparr>sh_nodes_cache := slot\<rparr> | OverviewView \<Rightarrow> s\<lparr>sh_overview_cache := slot\<rparr>)"

definition revision_for :: "api_kind \<Rightarrow> shared_state \<Rightarrow> u64" where
  "revision_for kind s =
     (case kind of NodesView \<Rightarrow> sh_nodes_revision s | OverviewView \<Rightarrow> sh_overview_revision s)"

definition build_lock :: "api_kind \<Rightarrow> shared_state \<Rightarrow> nat option" where
  "build_lock kind s =
     (case kind of NodesView \<Rightarrow> sh_nodes_build_lock s | OverviewView \<Rightarrow> sh_overview_build_lock s)"

definition set_build_lock :: "api_kind \<Rightarrow> nat option \<Rightarrow> shared_state \<Rightarrow> shared_state" where
  "set_build_lock kind l s =
     (case kind of NodesView \<Rightarrow> s\<lparr>sh_nodes_build_lock := l\<rparr> | OverviewView \<Rightarrow> s\<lparr>sh_overview_build_lock := l\<rparr>)"

definition api_view :: "api_kind \<Rightarrow> datetime \<Rightarrow> live_registry \<Rightarrow> api_body" where
  "api_view kind now r =
     (case kind of
        NodesView \<Rightarrow> NodesBody (list_node_summaries r)
      | OverviewView \<Rightarrow> OverviewBody (registry_overview now r))"

section \<open>Updates\<close>

text \<open>The mutations of the registry, each under the lock of one shard.\<close>

datatype mutation =
    Register u64 node_identity "string option" "geoip_location option" "geoip_location option"
  | Snapshot string u64 node_snapshot
  | Latency string u64 u64
  | Disconnect string u64
  | RemoveNode string
  | Attach string u64 nat
  | StaleShard nat duration
  | Geoip string string geoip_location
  | Override string "geoip_location option"
  | ClearShard nat
  | Restore node_status

text \<open>The new registry, and how many entries the mutation changed.\<close>

fun mutate :: "(string \<Rightarrow> u64) \<Rightarrow> datetime \<Rightarrow> mutation \<Rightarrow> live_registry \<Rightarrow> live_registry \<times> nat" where
  "mutate hash now (Register session_id identity remote_ip geoip loc) r =
     (register_live hash session_id identity remote_ip geoip loc now r, 1)"
| "mutate hash now (Snapshot node_id session_id snap) r =
     (let (r, status) = update_snapshot hash node_id session_id snap now r in (r, if status = None then 0 else 1))"
| "mutate hash now (Latency node_id session_id ms) r =
     (let (r, updated) = update_latency hash node_id session_id ms now r in (r, of_bool updated))"
| "mutate hash now (Disconnect node_id session_id) r =
     (let (r, updated) = mark_disconnected hash node_id session_id r in (r, of_bool updated))"
| "mutate hash now (RemoveNode node_id) r =
     (let (r, removed) = remove_live hash node_id r in (r, of_bool removed))"
| "mutate hash now (Attach node_id session_id control) r =
     (let (r, attached) = attach_session_control hash node_id session_id control r in (r, of_bool attached))"
| "mutate hash now (StaleShard k threshold) r =
     (r[k := mark_stale_shard threshold now (r ! k)],
      length (filter (\<lambda>(_, e). is_stale threshold now e) (r ! k)))"
| "mutate hash now (Geoip node_id remote_ip geoip) r =
     (let (r, updated) = update_geoip hash node_id remote_ip geoip r in (r, of_bool updated))"
| "mutate hash now (Override node_id loc) r =
     (let (r, updated) = update_location_override hash node_id loc r in (r, of_bool updated))"
| "mutate hash now (ClearShard k) r = (r[k := []], 0)"
| "mutate hash now (Restore st) r =
     (node_put hash (id_node_id (nt_identity st)) (from_restored_status st) r, 1)"

datatype update =
    RegisterNode node_identity "string option" "geoip_location option" "geoip_location option"
  | UpdateSnapshot string u64 node_snapshot
  | UpdateLatency string u64 u64
  | MarkDisconnected string u64
  | RemoveFromView string
  | AttachControl string u64 nat
  | MarkStale duration
  | RefreshGeoip "(string \<times> string \<times> geoip_location) list"
  | UpdateOverride string "geoip_location option"
  | ApplyOverrides "(string \<times> geoip_location option) list"
  | RestoreStatuses "node_status list"

text \<open>Which revisions an update bumps: all three, the nodes' only, or none.\<close>

datatype bump_scope = AllViews | NodesOnly | NoView

fun mutations_of :: "update \<Rightarrow> u64 \<Rightarrow> mutation list" where
  "mutations_of (RegisterNode identity remote_ip geoip loc) session_id =
     [Register session_id identity remote_ip geoip loc]"
| "mutations_of (UpdateSnapshot node_id s snap) _ = [Snapshot node_id s snap]"
| "mutations_of (UpdateLatency node_id s ms) _ = [Latency node_id s ms]"
| "mutations_of (MarkDisconnected node_id s) _ = [Disconnect node_id s]"
| "mutations_of (RemoveFromView node_id) _ = [RemoveNode node_id]"
| "mutations_of (AttachControl node_id s control) _ = [Attach node_id s control]"
| "mutations_of (MarkStale threshold) _ = map (\<lambda>k. StaleShard k threshold) [0..<REGISTRY_SHARD_COUNT]"
| "mutations_of (RefreshGeoip updates) _ = map (\<lambda>(node_id, ip, geoip). Geoip node_id ip geoip) updates"
| "mutations_of (UpdateOverride node_id loc) _ = [Override node_id loc]"
| "mutations_of (ApplyOverrides overrides) _ = map (\<lambda>(node_id, loc). Override node_id loc) overrides"
| "mutations_of (RestoreStatuses statuses) _ =
     map ClearShard [0..<REGISTRY_SHARD_COUNT] @ map Restore statuses"

fun scope_of :: "update \<Rightarrow> bump_scope" where
  "scope_of (UpdateSnapshot node_id s snap) = NodesOnly"
| "scope_of (UpdateLatency node_id s ms) = NodesOnly"
| "scope_of (RefreshGeoip updates) = NodesOnly"
| "scope_of (AttachControl node_id s control) = NoView"
| "scope_of _ = AllViews"

fun bumps_always :: "update \<Rightarrow> bool" where
  "bumps_always (RegisterNode identity remote_ip geoip loc) = True"
| "bumps_always (RestoreStatuses statuses) = True"
| "bumps_always _ = False"

datatype view_name = OverviewRevision | NodesRevision | MetricsRevision

definition revisions_of :: "bump_scope \<Rightarrow> view_name list" where
  "revisions_of scope =
     (case scope of
        AllViews \<Rightarrow> [OverviewRevision, NodesRevision, MetricsRevision]
      | NodesOnly \<Rightarrow> [NodesRevision]
      | NoView \<Rightarrow> [])"

definition bump :: "view_name \<Rightarrow> shared_state \<Rightarrow> shared_state" where
  "bump v s =
     (case v of
        OverviewRevision \<Rightarrow> s\<lparr>sh_overview_revision := sh_overview_revision s + 1\<rparr>
      | NodesRevision \<Rightarrow> s\<lparr>sh_nodes_revision := sh_nodes_revision s + 1\<rparr>
      | MetricsRevision \<Rightarrow> s\<lparr>sh_metrics_revision := sh_metrics_revision s + 1\<rparr>)"

text \<open>\<open>Mutating\<close> carries the mutations left and the entries changed, \<open>Bumping\<close> the revisions left.\<close>

datatype update_stage =
    Requested
  | Mutating "mutation list" nat
  | Bumping "view_name list"
  | Updated

fun view_update_step ::
  "(string \<Rightarrow> u64) \<Rightarrow> datetime \<Rightarrow> update \<Rightarrow> update_stage \<Rightarrow> shared_state \<Rightarrow> shared_state \<times> update_stage" where
  "view_update_step hash now u Requested s =
     (case u of
        RegisterNode _ _ _ _ \<Rightarrow>
          (s\<lparr>sh_next_session_id := sh_next_session_id s + 1\<rparr>, Mutating (mutations_of u (sh_next_session_id s)) 0)
      | _ \<Rightarrow> (s, Mutating (mutations_of u 0) 0))"
| "view_update_step hash now u (Mutating (m # ms) changed) s =
     (let (r, n) = mutate hash now m (sh_registry s) in (s\<lparr>sh_registry := r\<rparr>, Mutating ms (changed + n)))"
| "view_update_step hash now u (Mutating [] changed) s =
     (s, Bumping (if bumps_always u \<or> 0 < changed then revisions_of (scope_of u) else []))"
| "view_update_step hash now u (Bumping (v # vs)) s = (bump v s, Bumping vs)"
| "view_update_step hash now u (Bumping []) s = (s, Updated)"
| "view_update_step hash now u Updated s = (s, Updated)"

section \<open>Readers of the cached views\<close>

text \<open>\<open>cached_api_json_bytes\<close>: the revision is loaded, the slot looked up, the build lock taken, and
  both are done again; then the view is built and stored if the revision is still the same.\<close>

datatype read_stage =
    Asked
  | Looking u64
  | Queued
  | Locked
  | LookingAgain u64
  | Building u64
  | Built u64 api_body
  | Storing u64 api_body
  | Replied api_body
  | Failed

fun read_step ::
  "nat \<Rightarrow> datetime \<Rightarrow> bool \<Rightarrow> api_kind \<Rightarrow> read_stage \<Rightarrow> shared_state \<Rightarrow> shared_state \<times> read_stage" where
  "read_step me now serialized kind Asked s = (s, Looking (revision_for kind s))"
| "read_step me now serialized kind (Looking rv) s =
     (s, case slot_get rv (max_age_for kind) (sh_now s) (json_slot_for kind s) of
           None \<Rightarrow> Queued | Some body \<Rightarrow> Replied body)"
| "read_step me now serialized kind Queued s =
     (if build_lock kind s = None then (set_build_lock kind (Some me) s, Locked) else (s, Queued))"
| "read_step me now serialized kind Locked s = (s, LookingAgain (revision_for kind s))"
| "read_step me now serialized kind (LookingAgain rv) s =
     (case slot_get rv (max_age_for kind) (sh_now s) (json_slot_for kind s) of
        None \<Rightarrow> (s, Building rv)
      | Some body \<Rightarrow> (set_build_lock kind None s, Replied body))"
| "read_step me now serialized kind (Building rv) s =
     (if serialized then (s, Built rv (api_view kind now (sh_registry s)))
      else (set_build_lock kind None s, Failed))"
| "read_step me now serialized kind (Built rv body) s =
     (if revision_for kind s = rv then (s, Storing rv body) else (set_build_lock kind None s, Replied body))"
| "read_step me now serialized kind (Storing rv body) s =
     (set_build_lock kind None (set_slot kind (slot_store rv body (sh_now s)) s), Replied body)"
| "read_step me now serialized kind (Replied body) s = (s, Replied body)"
| "read_step me now serialized kind Failed s = (s, Failed)"

section \<open>Interleaving\<close>

datatype shared_task = Updating update update_stage | Reading api_kind read_stage

record shared_world =
  sx_state :: shared_state
  sx_tasks :: "shared_task list"

datatype shared_event =
    StartUpdate update
  | StartRead api_kind
  | Continue nat datetime bool
  | Pause nat

fun shared_task_step ::
  "(string \<Rightarrow> u64) \<Rightarrow> nat \<Rightarrow> datetime \<Rightarrow> bool \<Rightarrow> shared_task \<Rightarrow> shared_state \<Rightarrow> shared_state \<times> shared_task" where
  "shared_task_step hash me now ok (Updating u stage) s =
     (let (s, stage) = view_update_step hash now u stage s in (s, Updating u stage))"
| "shared_task_step hash me now ok (Reading kind stage) s =
     (let (s, stage) = read_step me now ok kind stage s in (s, Reading kind stage))"

fun shared_step :: "(string \<Rightarrow> u64) \<Rightarrow> shared_event \<Rightarrow> shared_world \<Rightarrow> shared_world" where
  "shared_step hash (StartUpdate u) w = w\<lparr>sx_tasks := sx_tasks w @ [Updating u Requested]\<rparr>"
| "shared_step hash (StartRead kind) w = w\<lparr>sx_tasks := sx_tasks w @ [Reading kind Asked]\<rparr>"
| "shared_step hash (Continue i now ok) w =
     (if i < length (sx_tasks w)
      then let (s, t) = shared_task_step hash i now ok (sx_tasks w ! i) (sx_state w)
           in w\<lparr>sx_state := s, sx_tasks := (sx_tasks w)[i := t]\<rparr>
      else w)"
| "shared_step hash (Pause n) w = w\<lparr>sx_state := (sx_state w)\<lparr>sh_now := sh_now (sx_state w) + n\<rparr>\<rparr>"

definition shared_start :: "instant \<Rightarrow> shared_world" where
  "shared_start now = \<lparr>sx_state = shared_new now, sx_tasks = []\<rparr>"

end
