(* ===== verification/SharedViews.thy ===== *)
theory SharedViews
  imports SharedState
begin

text \<open>
  What the readers of the shared state see, over every interleaving: the sessions of the nodes refine
  their log, and a cached view is never older than the updates that were complete when it was asked for.
\<close>

section \<open>Revisions\<close>

abbreviation shared_run :: "(string \<Rightarrow> u64) \<Rightarrow> shared_world \<Rightarrow> shared_event list \<Rightarrow> shared_world" where
  "shared_run hash w es \<equiv> fold (shared_step hash) es w"

definition revision_at :: "api_kind \<Rightarrow> shared_world \<Rightarrow> nat" where
  "revision_at kind w = unat (revision_for kind (sx_state w))"

definition name_of :: "api_kind \<Rightarrow> view_name" where
  "name_of kind = (case kind of NodesView \<Rightarrow> NodesRevision | OverviewView \<Rightarrow> OverviewRevision)"

lemma revision_simps [simp]:
  "revision_for kind (set_slot k slot s) = revision_for kind s"
  "revision_for kind (set_build_lock k l s) = revision_for kind s"
  "revision_for kind (s\<lparr>sh_registry := r\<rparr>) = revision_for kind s"
  "revision_for kind (s\<lparr>sh_next_session_id := i\<rparr>) = revision_for kind s"
  "revision_for kind (s\<lparr>sh_now := t\<rparr>) = revision_for kind s"
  by (simp_all add: revision_for_def set_slot_def set_build_lock_def split: api_kind.splits)

lemma revision_bump [simp]:
  "revision_for kind (bump v s) = (if v = name_of kind then revision_for kind s + 1 else revision_for kind s)"
  by (simp add: revision_for_def bump_def name_of_def split: api_kind.splits view_name.splits)

lemma read_revision: "read_step me now ok k stage s = (s', stage') \<Longrightarrow> revision_for kind s' = revision_for kind s"
  by (cases stage) (auto split: option.splits if_splits)

lemma update_revision:
  "view_update_step hash now u stage s = (s', stage') \<Longrightarrow>
    revision_for kind s' =
      (case stage of Bumping (v # vs) \<Rightarrow> if v = name_of kind then revision_for kind s + 1 else revision_for kind s
       | _ \<Rightarrow> revision_for kind s)"
proof (induction hash now u stage s rule: view_update_step.induct)
  case (1 hash now u s)
  then show ?case by (cases u) auto
qed (auto split: prod.splits)

lemma step_revision:
  "revision_for kind (sx_state (shared_step hash e w)) \<in>
    {revision_for kind (sx_state w), revision_for kind (sx_state w) + 1}"
proof (cases e)
  case (Continue i now ok)
  then show ?thesis
    by (cases "sx_tasks w ! i") (auto split: prod.splits update_stage.splits list.splits dest!: read_revision [where kind = kind]
        update_revision [where kind = kind])
qed auto

lemma step_revision_at:
  assumes "revision_at kind w < 2 ^ 64 - 1"
  shows "revision_at kind w \<le> revision_at kind (shared_step hash e w)"
    and "revision_at kind (shared_step hash e w) \<le> revision_at kind w + 1"
proof -
  have "unat (revision_for kind (sx_state w) + 1) = unat (revision_for kind (sx_state w)) + 1"
    using assms by (simp add: revision_at_def unat_word_ariths)
  then show "revision_at kind w \<le> revision_at kind (shared_step hash e w)"
      "revision_at kind (shared_step hash e w) \<le> revision_at kind w + 1"
    using step_revision [of kind hash e w] unfolding revision_at_def by fastforce+
qed

lemma run_revision:
  "revision_at kind w + length es < 2 ^ 64 \<Longrightarrow>
    revision_at kind w \<le> revision_at kind (shared_run hash w es) \<and>
    revision_at kind (shared_run hash w es) \<le> revision_at kind w + length es"
proof (induction es arbitrary: w)
  case (Cons e es)
  have "revision_at kind w < 2 ^ 64 - 1"
    using Cons.prems by simp
  note step = step_revision_at [OF this, of hash e]
  have "revision_at kind (shared_step hash e w) + length es < 2 ^ 64"
    using step(2) Cons.prems by simp
  then show ?case
    using Cons.IH [of "shared_step hash e w"] step by simp
qed simp

lemma run_revision_mono:
  assumes "revision_at kind w + length (as @ bs) < 2 ^ 64"
  shows "revision_at kind (shared_run hash w as) \<le> revision_at kind (shared_run hash w (as @ bs))"
proof -
  have "revision_at kind (shared_run hash w as) \<le> revision_at kind w + length as"
    using run_revision [of kind w as hash] assms by simp
  then have "revision_at kind (shared_run hash w as) + length bs < 2 ^ 64"
    using assms by simp
  then show ?thesis
    using run_revision [of kind "shared_run hash w as" bs hash] by simp
qed

section \<open>Readers\<close>

text \<open>\<open>b\<close> is the view of a prefix of the run that had at least the revision \<open>m\<close>.\<close>

definition built_from ::
  "(string \<Rightarrow> u64) \<Rightarrow> shared_world \<Rightarrow> api_kind \<Rightarrow> shared_event list \<Rightarrow> api_body \<Rightarrow> shared_event list \<Rightarrow> bool" where
  "built_from hash w kind es b as \<longleftrightarrow>
     (\<exists>cs now. es = as @ cs \<and> b = api_view kind now (sh_registry (sx_state (shared_run hash w as))))"

definition revision_of :: "(string \<Rightarrow> u64) \<Rightarrow> shared_world \<Rightarrow> api_kind \<Rightarrow> shared_event list \<Rightarrow> u64" where
  "revision_of hash w kind as = revision_for kind (sx_state (shared_run hash w as))"

definition loaded :: "(string \<Rightarrow> u64) \<Rightarrow> shared_world \<Rightarrow> api_kind \<Rightarrow> shared_event list \<Rightarrow> u64 \<Rightarrow> bool" where
  "loaded hash w kind es rv \<longleftrightarrow> (\<exists>as cs. es = as @ cs \<and> rv = revision_of hash w kind as)"

fun reader_ok ::
  "(string \<Rightarrow> u64) \<Rightarrow> shared_world \<Rightarrow> api_kind \<Rightarrow> nat \<Rightarrow> shared_event list \<Rightarrow> read_stage \<Rightarrow> bool" where
  "reader_ok hash w kind m es (Looking rv) \<longleftrightarrow>
     m \<le> unat rv \<and> loaded hash w kind es rv"
| "reader_ok hash w kind m es (LookingAgain rv) \<longleftrightarrow>
     m \<le> unat rv \<and> loaded hash w kind es rv"
| "reader_ok hash w kind m es (Building rv) \<longleftrightarrow>
     m \<le> unat rv \<and> loaded hash w kind es rv"
| "reader_ok hash w kind m es (Built rv b) \<longleftrightarrow>
     m \<le> unat rv \<and> (\<exists>as bs. built_from hash w kind es b (as @ bs) \<and> rv = revision_of hash w kind as)"
| "reader_ok hash w kind m es (Storing rv b) \<longleftrightarrow>
     m \<le> unat rv \<and> (\<exists>as. built_from hash w kind es b as \<and> rv = revision_of hash w kind as)"
| "reader_ok hash w kind m es (Replied b) \<longleftrightarrow>
     (\<exists>as. built_from hash w kind es b as \<and> m \<le> unat (revision_of hash w kind as))"
| "reader_ok hash w kind m es Failed \<longleftrightarrow> True"
| "reader_ok hash w kind m es _ \<longleftrightarrow> m \<le> unat (revision_of hash w kind es)"

definition slot_ok :: "(string \<Rightarrow> u64) \<Rightarrow> shared_world \<Rightarrow> api_kind \<Rightarrow> shared_event list \<Rightarrow> bool" where
  "slot_ok hash w kind es \<longleftrightarrow>
     (let s = json_slot_for kind (sx_state (shared_run hash w es)) in
      case js_body s of
        None \<Rightarrow> True
      | Some b \<Rightarrow> (\<exists>as. built_from hash w kind es b as \<and> js_revision s = revision_of hash w kind as))"

lemma built_from_later: "built_from hash w kind es b as \<Longrightarrow> built_from hash w kind (es @ ds) b as"
  by (auto simp: built_from_def)

lemma loaded_later: "loaded hash w kind es rv \<Longrightarrow> loaded hash w kind (es @ ds) rv"
  unfolding loaded_def by (metis append_assoc)

lemma loaded_now: "loaded hash w kind es (revision_of hash w kind es)"
  unfolding loaded_def by (intro exI [of _ es] exI [of _ "[]"]) simp

lemma built_from_now: "built_from hash w kind es (api_view kind now (sh_registry (sx_state (shared_run hash w es)))) es"
  by (auto simp: built_from_def)

lemma reader_later:
  assumes "reader_ok hash w kind m es stage" and "revision_at kind w + length (es @ [e]) < 2 ^ 64"
  shows "reader_ok hash w kind m (es @ [e]) stage"
proof -
  have mono: "unat (revision_of hash w kind es) \<le> unat (revision_of hash w kind (es @ [e]))"
    using run_revision_mono [OF assms(2), of hash] by (simp add: revision_of_def revision_at_def)
  show ?thesis
    using assms(1) mono
    by (cases stage) (auto dest: built_from_later [where ds = "[e]"] loaded_later [where ds = "[e]"] intro: order_trans)
qed

lemma slot_get_some:
  "slot_get rv age now s = Some b \<Longrightarrow> js_revision s = rv \<and> js_body s = Some b"
  by (auto simp: slot_get_def split: if_splits option.splits)

lemma prefix_revision:
  assumes "revision_at kind w + length es < 2 ^ 64" and "es = as @ bs"
  shows "unat (revision_of hash w kind as) \<le> unat (revision_of hash w kind es)"
  using run_revision_mono [of kind w as bs hash] assms by (simp add: revision_of_def revision_at_def)

lemma built_from_prefix: "built_from hash w kind es b as \<Longrightarrow> \<exists>cs. es = as @ cs"
  by (auto simp: built_from_def)

lemma reader_step:
  assumes "reader_ok hash w kind m es stage" and "slot_ok hash w kind es" and "revision_at kind w + length es < 2 ^ 64"
    and "read_step me now ok kind stage (sx_state (shared_run hash w es)) = (s', stage')"
  shows "reader_ok hash w kind m es stage'"
proof -
  let ?s = "sx_state (shared_run hash w es)"
  have here: "revision_for kind ?s = revision_of hash w kind es"
    by (simp add: revision_of_def)
  have pre: "m \<le> unat (revision_of hash w kind es)" if "m \<le> unat rv" "loaded hash w kind es rv" for rv
    using prefix_revision [OF assms(3), of _ _ hash] that unfolding loaded_def by fastforce
  have hit: "reader_ok hash w kind m es (Replied b)"
    if "slot_get rv age t (json_slot_for kind ?s) = Some b" "m \<le> unat rv" for rv age t b
    using slot_get_some [OF that(1)] assms(2) that(2) by (auto simp: slot_ok_def)
  show ?thesis
  proof (cases stage)
    case Asked
    then have "stage' = Looking (revision_of hash w kind es)"
      using assms(4) here by simp
    then show ?thesis
      using assms(1) Asked loaded_now by simp
  next
    case (Looking rv)
    then show ?thesis
      using assms(1,4) pre hit [of rv] by (auto split: option.splits)
  next
    case Queued
    then show ?thesis
      using assms(1,4) by (auto split: if_splits)
  next
    case Locked
    then have "stage' = LookingAgain (revision_of hash w kind es)"
      using assms(4) here by simp
    then show ?thesis
      using assms(1) Locked loaded_now by simp
  next
    case (LookingAgain rv)
    then show ?thesis
      using assms(1,4) hit [of rv] by (auto split: option.splits)
  next
    case (Building rv)
    then obtain as cs where p: "m \<le> unat rv" "es = as @ cs" "rv = revision_of hash w kind as"
      using assms(1) by (auto simp: loaded_def)
    have "built_from hash w kind es (api_view kind now (sh_registry ?s)) (as @ cs)"
      using built_from_now [of hash w kind es now] p(2) by simp
    then have "reader_ok hash w kind m es (Built rv (api_view kind now (sh_registry ?s)))"
      unfolding reader_ok.simps using p by blast
    then show ?thesis
      using assms(4) Building by (cases ok) (auto simp del: reader_ok.simps(4))
  next
    case (Built rv b)
    then obtain as bs where p: "m \<le> unat rv" "built_from hash w kind es b (as @ bs)" "rv = revision_of hash w kind as"
      using assms(1) by auto
    obtain cs where es: "es = (as @ bs) @ cs"
      using built_from_prefix [OF p(2)] by blast
    have le: "unat (revision_of hash w kind as) \<le> unat (revision_of hash w kind (as @ bs))"
      using run_revision_mono [of kind w as bs hash] assms(3) es by (simp add: revision_of_def revision_at_def)
    show ?thesis
    proof (cases "revision_for kind ?s = rv")
      case True
      then have "revision_of hash w kind (as @ bs) = rv"
        using prefix_revision [OF assms(3) es, of hash] le p(3) here by (metis le_antisym word_unat_eq_iff)
      then have "reader_ok hash w kind m es (Storing rv b)"
        using p(1,2) by auto
      moreover have "stage' = Storing rv b"
        using assms(4) Built True by simp
      ultimately show ?thesis by (simp only:)
    next
      case False
      have "m \<le> unat (revision_of hash w kind (as @ bs))"
        using p(1,3) le by simp
      then have "reader_ok hash w kind m es (Replied b)"
        using p(2) by auto
      moreover have "stage' = Replied b"
        using assms(4) Built False by simp
      ultimately show ?thesis by (simp only:)
    qed
  next
    case (Storing rv b)
    then show ?thesis
      using assms(1,4) by auto
  qed (use assms(1,4) in auto)
qed

lemma read_slot:
  assumes "read_step me now ok k stage s = (s', stage')"
  shows "json_slot_for kind s' =
    (case stage of Storing rv b \<Rightarrow> if k = kind then slot_store rv b (sh_now s) else json_slot_for kind s
     | _ \<Rightarrow> json_slot_for kind s)"
  using assms by (cases stage; cases k; cases kind)
    (auto simp: json_slot_for_def set_build_lock_def set_slot_def split: option.splits if_splits)

lemma update_slot: "view_update_step hash now u stage s = (s', stage') \<Longrightarrow> json_slot_for kind s' = json_slot_for kind s"
proof (induction hash now u stage s rule: view_update_step.induct)
  case (1 hash now u s)
  then show ?case by (cases u) (auto simp: json_slot_for_def split: api_kind.splits)
next
  case (4 hash now u v vs s)
  then show ?case by (auto simp: json_slot_for_def bump_def split: api_kind.splits view_name.splits)
qed (auto simp: json_slot_for_def split: prod.splits api_kind.splits)

lemma slot_later:
  assumes "slot_ok hash w kind es"
    and "json_slot_for kind (sx_state (shared_run hash w (es @ [e]))) = json_slot_for kind (sx_state (shared_run hash w es))"
  shows "slot_ok hash w kind (es @ [e])"
  using assms(1) built_from_later unfolding slot_ok_def Let_def assms(2) by (fastforce split: option.splits)

text \<open>Every reader and every slot, over a run from empty slots.\<close>

definition readers_ok :: "(string \<Rightarrow> u64) \<Rightarrow> shared_world \<Rightarrow> api_kind \<Rightarrow> shared_event list \<Rightarrow> bool" where
  "readers_ok hash w kind es \<longleftrightarrow>
     slot_ok hash w kind es \<and>
     (\<forall>stage. Reading kind stage \<in> set (sx_tasks (shared_run hash w es)) \<longrightarrow> reader_ok hash w kind 0 es stage)"

lemma reader_zero: "reader_ok hash w kind 0 es Asked"
  by simp

text \<open>A stage of a task, whatever the event is.\<close>

lemma event_cases:
  fixes w :: shared_world
  obtains (advance) i now ok s' t' where "e = Continue i now ok" "i < length (sx_tasks w)"
      "shared_task_step hash i now ok (sx_tasks w ! i) (sx_state w) = (s', t')"
      "sx_state (shared_step hash e w) = s'" "sx_tasks (shared_step hash e w) = (sx_tasks w)[i := t']"
  | (still) "sx_tasks (shared_step hash e w) = sx_tasks w \<or>
        (\<exists>u. sx_tasks (shared_step hash e w) = sx_tasks w @ [Updating u Requested]) \<or>
        (\<exists>k. sx_tasks (shared_step hash e w) = sx_tasks w @ [Reading k Asked])"
      "\<exists>t. sx_state (shared_step hash e w) = (sx_state w)\<lparr>sh_now := t\<rparr>"
proof (cases "\<exists>i now ok. e = Continue i now ok \<and> i < length (sx_tasks w)")
  case True
  then obtain i now ok where e: "e = Continue i now ok" "i < length (sx_tasks w)" by blast
  obtain s' t' where t: "shared_task_step hash i now ok (sx_tasks w ! i) (sx_state w) = (s', t')" by fastforce
  show thesis
    by (rule advance [OF e t]) (use e t in auto)
next
  case False
  have keep: "\<exists>t. sx_state w = (sx_state w)\<lparr>sh_now := t\<rparr>"
    by (rule exI [of _ "sh_now (sx_state w)"]) simp
  show thesis
  proof (rule still)
    show "sx_tasks (shared_step hash e w) = sx_tasks w \<or>
        (\<exists>u. sx_tasks (shared_step hash e w) = sx_tasks w @ [Updating u Requested]) \<or>
        (\<exists>k. sx_tasks (shared_step hash e w) = sx_tasks w @ [Reading k Asked])"
      using False by (cases e) simp_all
    show "\<exists>t. sx_state (shared_step hash e w) = (sx_state w)\<lparr>sh_now := t\<rparr>"
      using False keep by (cases e) (simp_all, blast)
  qed
qed

lemma readers_step:
  assumes "readers_ok hash w kind es" and "revision_at kind w + length (es @ [e]) < 2 ^ 64"
  shows "readers_ok hash w kind (es @ [e])"
proof -
  let ?w = "shared_run hash w es" and ?w' = "shared_run hash w (es @ [e])"
  have bound: "revision_at kind w + length es < 2 ^ 64"
    using assms(2) by simp
  have old: "reader_ok hash w kind 0 (es @ [e]) stage" if "Reading kind stage \<in> set (sx_tasks ?w)" for stage
    using assms(1) that reader_later [OF _ assms(2)] by (simp add: readers_ok_def)
  show ?thesis
  proof (cases rule: event_cases [of e ?w hash])
    case (advance i now ok s' t')
    have old_task: "reader_ok hash w kind 0 es stage" if "sx_tasks ?w ! i = Reading kind stage" for stage
      using assms(1) that advance(2) nth_mem by (fastforce simp: readers_ok_def)
    have new: "reader_ok hash w kind 0 (es @ [e]) stage'" if "t' = Reading kind stage'" for stage'
    proof -
      note t' = that
      obtain stage where r: "sx_tasks ?w ! i = Reading kind stage" "read_step i now ok kind stage (sx_state ?w) = (s', stage')"
        using advance(3) t' by (cases "sx_tasks ?w ! i") (auto split: prod.splits)
      have "reader_ok hash w kind 0 es stage'"
        using reader_step [OF old_task [OF r(1)] _ bound r(2)] assms(1) by (simp add: readers_ok_def)
      then show ?thesis
        by (rule reader_later) (rule assms(2))
    qed
    have tasks: "reader_ok hash w kind 0 (es @ [e]) stage" if "Reading kind stage \<in> set (sx_tasks ?w')" for stage
      using that advance(5) old new set_update_subset_insert [of "sx_tasks ?w" i t'] by auto
    have slot: "slot_ok hash w kind (es @ [e])"
    proof (cases "\<exists>rv b. sx_tasks ?w ! i = Reading kind (Storing rv b)")
      case True
      then obtain rv b where r: "sx_tasks ?w ! i = Reading kind (Storing rv b)" by blast
      have s: "json_slot_for kind (sx_state ?w') = slot_store rv b (sh_now (sx_state ?w))"
        using advance(3,4) r read_slot [of i now ok kind "Storing rv b" "sx_state ?w" s' _ kind] by auto
      obtain as where "built_from hash w kind es b as" "rv = revision_of hash w kind as"
        using old_task [OF r] by auto
      then show ?thesis
        unfolding slot_ok_def Let_def s by (auto simp: slot_store_def dest: built_from_later [where ds = "[e]"])
    next
      case False
      have "json_slot_for kind s' = json_slot_for kind (sx_state ?w)"
      proof (cases "sx_tasks ?w ! i")
        case (Updating u stage)
        then show ?thesis
          using advance(3) update_slot by (auto split: prod.splits)
      next
        case (Reading k stage)
        then obtain stage' where r: "read_step i now ok k stage (sx_state ?w) = (s', stage')"
          using advance(3) by (auto split: prod.splits)
        show ?thesis
          using read_slot [OF r, of kind] False Reading by (auto split: read_stage.splits)
      qed
      then show ?thesis
        using slot_later assms(1) advance(4) by (simp add: readers_ok_def)
    qed
    show ?thesis
      using slot tasks by (simp add: readers_ok_def)
  next
    case still
    have slot: "slot_ok hash w kind (es @ [e])"
      using assms(1) still(2) by (intro slot_later) (auto simp: readers_ok_def json_slot_for_def split: api_kind.splits)
    show ?thesis
      using slot old still(1) reader_zero by (auto simp: readers_ok_def)
  qed
qed

lemma readers_run:
  assumes "js_body (json_slot_for kind (sx_state w)) = None" and "sx_tasks w = []"
  shows "revision_at kind w + length es < 2 ^ 64 \<Longrightarrow> readers_ok hash w kind es"
proof (induction es rule: rev_induct)
  case Nil
  then show ?case using assms by (simp add: readers_ok_def slot_ok_def)
next
  case (snoc e es)
  then show ?case using readers_step by simp
qed

section \<open>One reader\<close>

text \<open>The task of an index stays what it is.\<close>

lemma task_stays:
  "i < length (sx_tasks w) \<Longrightarrow> i < length (sx_tasks (shared_step hash e w)) \<and>
    (case sx_tasks w ! i of
       Updating u _ \<Rightarrow> \<exists>stage. sx_tasks (shared_step hash e w) ! i = Updating u stage
     | Reading k _ \<Rightarrow> \<exists>stage. sx_tasks (shared_step hash e w) ! i = Reading k stage)"
  by (cases e) (auto simp: nth_append nth_list_update split: prod.splits shared_task.splits)

lemma one_reader:
  assumes "js_body (json_slot_for kind (sx_state w)) = None" and "sx_tasks w = []"
    and "i = length (sx_tasks (shared_run hash w ss))"
  shows "revision_at kind w + length (ss @ StartRead kind # rest) < 2 ^ 64 \<Longrightarrow>
    i < length (sx_tasks (shared_run hash w (ss @ StartRead kind # rest))) \<and>
    (\<exists>stage. sx_tasks (shared_run hash w (ss @ StartRead kind # rest)) ! i = Reading kind stage \<and>
       reader_ok hash w kind (revision_at kind (shared_run hash w ss)) (ss @ StartRead kind # rest) stage)"
proof (induction rest rule: rev_induct)
  case Nil
  then show ?case
    using assms(3) run_revision_mono [of kind w ss "[StartRead kind]" hash]
    by (simp add: revision_of_def revision_at_def nth_append)
next
  case (snoc e rest)
  let ?es = "ss @ StartRead kind # rest" and ?m = "revision_at kind (shared_run hash w ss)"
  let ?w = "shared_run hash w ?es"
  have b: "revision_at kind w + length (?es @ [e]) < 2 ^ 64" "revision_at kind w + length ?es < 2 ^ 64"
    using snoc.prems by simp_all
  obtain stage where r: "i < length (sx_tasks ?w)" "sx_tasks ?w ! i = Reading kind stage" "reader_ok hash w kind ?m ?es stage"
    using snoc.IH b(2) by blast
  have stay: "reader_ok hash w kind ?m (?es @ [e]) stage"
    using reader_later [OF r(3) b(1)] .
  have "i < length (sx_tasks (shared_run hash w (?es @ [e]))) \<and>
      (\<exists>stage. sx_tasks (shared_run hash w (?es @ [e])) ! i = Reading kind stage \<and>
        reader_ok hash w kind ?m (?es @ [e]) stage)"
  proof (cases rule: event_cases [of e ?w hash])
    case (advance j now ok s' t')
    show ?thesis
    proof (cases "j = i")
      case True
      then obtain stage' where s: "t' = Reading kind stage'" "read_step i now ok kind stage (sx_state ?w) = (s', stage')"
        using advance(3) r(2) by (auto split: prod.splits)
      have "slot_ok hash w kind ?es"
        using readers_run [OF assms(1,2) b(2)] by (simp add: readers_ok_def)
      then have "reader_ok hash w kind ?m (?es @ [e]) stage'"
        using reader_later [OF reader_step [OF r(3) _ b(2) s(2)] b(1)] by blast
      then show ?thesis
        using advance(5) True s(1) r(1) by simp
    qed (use advance(5) r stay in simp)
  next
    case still
    then show ?thesis
      using r stay by (auto simp: nth_append)
  qed
  then show ?case by simp
qed

section \<open>Updates\<close>

lemma announced:
  assumes "revision_at kind w + length qs < 2 ^ 64" and "j < length (sx_tasks w)"
    and "sx_tasks w ! j = Updating u (Bumping vs)" and "name_of kind \<in> set vs"
    and "sx_tasks (shared_run hash w qs) ! j = Updating u Updated"
  shows "revision_at kind w < revision_at kind (shared_run hash w qs)"
  using assms
proof (induction qs arbitrary: w vs)
  case (Cons e qs)
  let ?w = "shared_step hash e w"
  have step: "revision_at kind w \<le> revision_at kind ?w" "revision_at kind ?w \<le> revision_at kind w + 1"
    using step_revision_at [of kind w hash e] Cons.prems(1) by simp_all
  then have b: "revision_at kind ?w + length qs < 2 ^ 64"
    using Cons.prems(1) by simp
  have len: "j < length (sx_tasks ?w)"
    using task_stays Cons.prems(2) by blast
  have rest: "revision_at kind ?w \<le> revision_at kind (shared_run hash ?w qs)"
    using run_revision [OF b, of hash] by simp
  show ?case
  proof (cases "\<exists>now ok. e = Continue j now ok")
    case True
    then obtain now ok where e: "e = Continue j now ok" by blast
    obtain v vs' where vs: "vs = v # vs'"
      using Cons.prems(4) by (cases vs) auto
    have t: "sx_tasks ?w ! j = Updating u (Bumping vs')" "sx_state ?w = bump v (sx_state w)"
      using e vs Cons.prems(2,3) by simp_all
    show ?thesis
    proof (cases "v = name_of kind")
      case True
      then have "revision_at kind ?w = revision_at kind w + 1"
        using t(2) Cons.prems(1) by (simp add: revision_at_def unat_word_ariths)
      then show ?thesis
        using rest by simp
    next
      case False
      then have "name_of kind \<in> set vs'"
        using vs Cons.prems(4) by simp
      then show ?thesis
        using Cons.IH [OF b len t(1)] Cons.prems(5) step(1) by simp
    qed
  next
    case False
    then have "sx_tasks ?w ! j = Updating u (Bumping vs)"
      using Cons.prems(2,3) by (cases e) (auto simp: nth_append nth_list_update split: prod.splits)
    then show ?thesis
      using Cons.IH [OF b len _ Cons.prems(4)] Cons.prems(5) step(1) by simp
  qed
qed simp

text \<open>The updates a view has to show once they are complete: an update that bumps every view, and for
  \<open>/api/nodes\<close> also one that bumps the nodes only. Attaching a control channel changes no view.\<close>

definition shown_in :: "api_kind \<Rightarrow> update \<Rightarrow> bool" where
  "shown_in kind u \<longleftrightarrow> scope_of u = AllViews \<or> scope_of u = NodesOnly \<and> kind = NodesView"

lemma announced_later:
  assumes "revision_at kind w + length qs < 2 ^ 64" and "j < length (sx_tasks w)"
    and "sx_tasks w ! j = Updating u (Mutating [] changed)" and "bumps_always u \<or> 0 < changed" and "shown_in kind u"
    and "sx_tasks (shared_run hash w qs) ! j = Updating u Updated"
  shows "revision_at kind w < revision_at kind (shared_run hash w qs)"
  using assms
proof (induction qs arbitrary: w)
  case (Cons e qs)
  let ?w = "shared_step hash e w"
  have step: "revision_at kind w \<le> revision_at kind ?w" "revision_at kind ?w \<le> revision_at kind w + 1"
    using step_revision_at [of kind w hash e] Cons.prems(1) by simp_all
  then have b: "revision_at kind ?w + length qs < 2 ^ 64"
    using Cons.prems(1) by simp
  have len: "j < length (sx_tasks ?w)"
    using task_stays Cons.prems(2) by blast
  have less: "revision_at kind ?w < revision_at kind (shared_run hash ?w qs)"
  proof (cases "\<exists>now ok. e = Continue j now ok")
    case True
    then have t: "sx_tasks ?w ! j = Updating u (Bumping (revisions_of (scope_of u)))"
      using Cons.prems(2-4) by auto
    have "name_of kind \<in> set (revisions_of (scope_of u))"
      using Cons.prems(5) by (cases kind) (auto simp: shown_in_def revisions_of_def name_of_def)
    then show ?thesis
      using announced [OF b len t] Cons.prems(6) by simp
  next
    case False
    then have "sx_tasks ?w ! j = Updating u (Mutating [] changed)"
      using Cons.prems(2,3) by (cases e) (auto simp: nth_append nth_list_update split: prod.splits)
    then show ?thesis
      using Cons.IH [OF b len _ Cons.prems(4,5)] Cons.prems(6) by simp
  qed
  then show ?case
    using step(1) by simp
qed simp

text \<open>C10: A completed update is in every later answer of the views that show it. Take an update that has
  changed some entry (or a registration or restore), and that \<open>/api/nodes\<close> or \<open>/api/overview\<close> has to
  show: every such update for the nodes, and for the overview those that bump all views - snapshots,
  latencies and GeoIP refreshes may be missing from a cached overview until it expires. Whoever asks
  after the update is complete gets the view of the registry at some moment after its mutations -
  whatever the caches hold, whoever else reads, builds or stores, and however all of them interleave.\<close>

theorem cached_views_never_stale:
  assumes "es = ps @ qs @ StartRead kind # rest" and "length es < 2 ^ 64 - 1"
    and "j < length (sx_tasks (shared_run hash (shared_start now) ps))"
    and "sx_tasks (shared_run hash (shared_start now) ps) ! j = Updating u (Mutating [] changed)"
    and "bumps_always u \<or> 0 < changed" and "shown_in kind u"
    and "sx_tasks (shared_run hash (shared_start now) (ps @ qs)) ! j = Updating u Updated"
    and "sx_tasks (shared_run hash (shared_start now) es) ! length (sx_tasks (shared_run hash (shared_start now) (ps @ qs))) =
      Reading kind (Replied body)"
  shows "\<exists>as cs t. es = as @ cs \<and> length ps < length as \<and>
    body = api_view kind t (sh_registry (sx_state (shared_run hash (shared_start now) as)))"
proof -
  let ?w = "shared_start now"
  have w: "js_body (json_slot_for kind (sx_state ?w)) = None" "sx_tasks ?w = []" "revision_at kind ?w = 1"
    by (simp_all add: shared_start_def shared_new_def json_slot_for_def slot_default_def revision_at_def
        revision_for_def split: api_kind.split)
  have b: "revision_at kind ?w + length es < 2 ^ 64"
    using assms(2) w(3) by simp
  have ep: "es = (ps @ qs) @ StartRead kind # rest"
    using assms(1) by simp
  have "reader_ok hash ?w kind (revision_at kind (shared_run hash ?w (ps @ qs))) es (Replied body)"
    using one_reader [OF w(1,2) refl, where hash = hash and ss = "ps @ qs" and rest = rest] b assms(8) unfolding ep by simp
  then obtain as cs t where a: "es = as @ cs" "body = api_view kind t (sh_registry (sx_state (shared_run hash ?w as)))"
      "revision_at kind (shared_run hash ?w (ps @ qs)) \<le> revision_at kind (shared_run hash ?w as)"
    by (auto simp: built_from_def revision_of_def revision_at_def)
  have bound: "revision_at kind (shared_run hash ?w ps) + length qs < 2 ^ 64"
    using run_revision [where kind = kind and w = ?w and es = ps and hash = hash] b assms(1) by simp
  have "revision_at kind (shared_run hash ?w ps) < revision_at kind (shared_run hash ?w (ps @ qs))"
    using announced_later [OF bound assms(3-6)] assms(7) by simp
  then have less: "revision_at kind (shared_run hash ?w ps) < revision_at kind (shared_run hash ?w as)"
    using a(3) by simp
  have "length ps < length as"
  proof (rule ccontr)
    assume "\<not> length ps < length as"
    then obtain ds where ds: "ps = as @ ds"
      using a(1) assms(1) by (metis append_eq_append_conv_if append_take_drop_id not_less)
    have "revision_at kind (shared_run hash ?w as) \<le> revision_at kind (shared_run hash ?w ps)"
      using run_revision_mono [where kind = kind and w = ?w and as = as and bs = ds and hash = hash] b assms(1) ds by simp
    then show False using less by simp
  qed
  then show ?thesis using a by blast
qed

section \<open>An instance\<close>

definition demo_identity :: node_identity where
  "demo_identity =
     \<lparr>id_node_id = ''hk'', id_node_label = ''HK'', id_hostname = ''hk-1'', id_os = ''linux'', id_kernel_version = None,
      id_cpu_model = None, id_cpu_cores = 2, id_agent_version = ''1'', id_boot_time = None, id_tags = []\<rparr>"

abbreviation demo_update :: update where
  "demo_update \<equiv> RegisterNode demo_identity None None None"

text \<open>A node registers up to its mutation, announces it and finishes, and a reader asks and is answered.\<close>

definition demo_register :: "shared_event list" where
  "demo_register = StartUpdate demo_update # replicate 2 (Continue 0 0 True)"

definition demo_announce :: "shared_event list" where
  "demo_announce = replicate 5 (Continue 0 0 True)"

definition demo_answer :: "shared_event list" where
  "demo_answer = replicate 8 (Continue 1 0 True)"

abbreviation demo_live :: live_registry where
  "demo_live \<equiv> register_live (\<lambda>_. 0) 1 demo_identity None None None 0 registry_default"

lemma demo_world:
  "sx_tasks (shared_run (\<lambda>_. 0) (shared_start 0) demo_register) =
    [Updating demo_update (Mutating [] 1)]"
  "sx_tasks (shared_run (\<lambda>_. 0) (shared_start 0) (demo_register @ demo_announce)) = [Updating demo_update Updated]"
  "sx_tasks (shared_run (\<lambda>_. 0) (shared_start 0) (demo_register @ demo_announce @ StartRead NodesView # demo_answer)) =
    [Updating demo_update Updated, Reading NodesView (Replied (api_view NodesView 0 demo_live))]"
  by (simp_all add: demo_register_def demo_announce_def demo_answer_def numeral_nat shared_start_def shared_new_def
      revisions_of_def bump_def slot_get_def slot_default_def revision_for_def json_slot_for_def build_lock_def set_build_lock_def)

theorem cached_views_never_stale_witness:
  "\<exists>as cs t. demo_register @ demo_announce @ StartRead NodesView # demo_answer = as @ cs \<and> length demo_register < length as \<and>
    api_view NodesView 0 demo_live =
      api_view NodesView t (sh_registry (sx_state (shared_run (\<lambda>_. 0) (shared_start 0) as)))"
  by (rule cached_views_never_stale [where hash = "\<lambda>_. 0" and now = 0 and ps = demo_register and qs = demo_announce
        and rest = demo_answer and kind = NodesView and j = 0 and u = demo_update
        and changed = 1, OF refl])
    (simp_all only: demo_world, simp_all add: demo_register_def demo_announce_def demo_answer_def shown_in_def)

end
