(* ===== verification/NodeSessions.thy ===== *)
theory NodeSessions
  imports SharedState
begin

text \<open>
  Who holds a node: over every interleaving of updates the sharded live registry refines a map from a
  node to its current session and the time of its last message.
\<close>

section \<open>The shards as one map\<close>

definition node_entry_ok :: "node_entry \<Rightarrow> bool" where
  "node_entry_ok e \<longleftrightarrow>
     (ne_online e \<longleftrightarrow> ne_active_session_id e \<noteq> None) \<and>
     (ne_active_session_id e \<noteq> None \<longrightarrow> ne_last_seen e \<noteq> None) \<and>
     (ne_control e \<noteq> None \<longrightarrow> ne_active_session_id e \<noteq> None)"

definition shard_ok :: "(string \<Rightarrow> u64) \<Rightarrow> nat \<Rightarrow> registry_shard \<Rightarrow> bool" where
  "shard_ok hash k t \<longleftrightarrow>
     tbl_ok t \<and> (\<forall>(node_id, e)\<in>set t. shard_index hash node_id = k \<and> node_entry_ok e)"

definition live_ok :: "(string \<Rightarrow> u64) \<Rightarrow> live_registry \<Rightarrow> bool" where
  "live_ok hash r \<longleftrightarrow>
     length r = REGISTRY_SHARD_COUNT \<and> (\<forall>k<REGISTRY_SHARD_COUNT. shard_ok hash k (r ! k))"

lemma shard_index_less: "shard_index hash node_id < REGISTRY_SHARD_COUNT"
  by (simp add: shard_index_def REGISTRY_SHARD_COUNT_def)

lemma live_default: "live_ok hash registry_default"
  by (simp add: live_ok_def registry_default_def shard_ok_def)

lemma node_get_put:
  "live_ok hash r \<Longrightarrow> node_get hash (node_put hash node_id e r) = (node_get hash r)(node_id \<mapsto> e)"
  using shard_index_less
  by (auto simp: node_get_def node_put_def Let_def live_ok_def nth_list_update table_simps fun_eq_iff)

lemma shard_get:
  "shard_ok hash k t \<longleftrightarrow>
    tbl_ok t \<and> (\<forall>node_id e. tbl_get t node_id = Some e \<longrightarrow> shard_index hash node_id = k \<and> node_entry_ok e)"
  by (cases "tbl_ok t") (simp_all add: shard_ok_def tbl_get_in Ball_def)

lemma shard_put: "shard_ok hash k t \<Longrightarrow> shard_index hash node_id = k \<Longrightarrow> node_entry_ok e \<Longrightarrow> shard_ok hash k (tbl_put node_id e t)"
  unfolding shard_get by (auto simp: table_simps intro: table_intros split: if_splits)

lemma shard_del: "shard_ok hash k t \<Longrightarrow> shard_ok hash k (tbl_del node_id t)"
  unfolding shard_get by (auto simp: table_simps intro: table_intros split: if_splits)

lemma live_shard: "live_ok hash r \<Longrightarrow> k < REGISTRY_SHARD_COUNT \<Longrightarrow> shard_ok hash k (r ! k)"
  by (simp add: live_ok_def)

lemma live_set: "live_ok hash r \<Longrightarrow> (k < REGISTRY_SHARD_COUNT \<Longrightarrow> shard_ok hash k t) \<Longrightarrow> live_ok hash (r[k := t])"
  by (cases "k < length r") (auto simp: live_ok_def nth_list_update list_update_beyond)

lemma live_put: "live_ok hash r \<Longrightarrow> node_entry_ok e \<Longrightarrow> live_ok hash (node_put hash node_id e r)"
  unfolding node_put_def Let_def by (intro live_set shard_put) (auto intro: live_shard)

lemma live_get: "live_ok hash r \<Longrightarrow> node_get hash r node_id = Some e \<Longrightarrow> node_entry_ok e"
  using shard_index_less [of hash node_id]
  by (force simp: node_get_def live_ok_def shard_ok_def dest: map_of_SomeD)

lemma node_get_set:
  "live_ok hash r \<Longrightarrow> node_get hash (r[k := t]) node_id =
    (if shard_index hash node_id = k then tbl_get t node_id else node_get hash r node_id)"
  using shard_index_less [of hash node_id] by (auto simp: node_get_def live_ok_def nth_list_update)

section \<open>The holder of a node\<close>

type_synonym node_holders = "string \<Rightarrow> (u64 \<times> datetime) option"

definition holder_of :: "node_entry \<Rightarrow> (u64 \<times> datetime) option" where
  "holder_of e =
     (case (ne_active_session_id e, ne_last_seen e) of (Some s, Some t) \<Rightarrow> Some (s, t) | _ \<Rightarrow> None)"

definition holders :: "(string \<Rightarrow> u64) \<Rightarrow> live_registry \<Rightarrow> node_holders" where
  "holders hash r = (\<lambda>node_id. Option.bind (node_get hash r node_id) holder_of)"

text \<open>The actions of the abstract map: a session takes a node, is heard of, leaves; a node is removed; the
  holders that one sweep of a shard found silent for too long are dropped.\<close>

datatype holder_action =
    Took string u64 datetime
  | Heard string u64 datetime
  | Left string u64
  | Gone string
  | Swept nat duration datetime
  | Wiped nat

fun perform_holder :: "(string \<Rightarrow> u64) \<Rightarrow> holder_action \<Rightarrow> node_holders \<Rightarrow> node_holders" where
  "perform_holder hash (Took node_id s t) v = v(node_id \<mapsto> (s, t))"
| "perform_holder hash (Heard node_id s t) v =
     (if map_option fst (v node_id) = Some s then v(node_id \<mapsto> (s, t)) else v)"
| "perform_holder hash (Left node_id s) v =
     (if map_option fst (v node_id) = Some s then v(node_id := None) else v)"
| "perform_holder hash (Gone node_id) v = v(node_id := None)"
| "perform_holder hash (Swept k threshold now) v =
     (\<lambda>node_id. case v node_id of
        None \<Rightarrow> None
      | Some (s, t) \<Rightarrow>
          if shard_index hash node_id = k \<and> t \<le> now \<and> int threshold \<le> now - t then None else Some (s, t))"
| "perform_holder hash (Wiped k) v = (\<lambda>node_id. if shard_index hash node_id = k then None else v node_id)"

fun mutation_actions :: "datetime \<Rightarrow> mutation \<Rightarrow> holder_action list" where
  "mutation_actions now (Register s identity remote_ip geoip loc) = [Took (id_node_id identity) s now]"
| "mutation_actions now (Snapshot node_id s snap) = [Heard node_id s now]"
| "mutation_actions now (Latency node_id s ms) = [Heard node_id s now]"
| "mutation_actions now (Disconnect node_id s) = [Left node_id s]"
| "mutation_actions now (RemoveNode node_id) = [Gone node_id]"
| "mutation_actions now (StaleShard k threshold) = [Swept k threshold now]"
| "mutation_actions now (ClearShard k) = [Wiped k]"
| "mutation_actions now (Restore st) = [Gone (id_node_id (nt_identity st))]"
| "mutation_actions now _ = []"

lemma holder_simps [simp]:
  "holder_of (e\<lparr>ne_control := c\<rparr>) = holder_of e"
  "holder_of (e\<lparr>ne_geoip_country := a, ne_geoip_city := b, ne_geoip_latitude := x, ne_geoip_longitude := y\<rparr>) = holder_of e"
  "holder_of (e\<lparr>ne_override_country := a, ne_override_city := b, ne_override_latitude := x, ne_override_longitude := y\<rparr>) =
    holder_of e"
  "holder_of (from_restored_status st) = None"
  by (simp_all add: holder_of_def from_restored_status_def)

lemma node_entry_ok_simps [simp]:
  "node_entry_ok (e\<lparr>ne_geoip_country := a, ne_geoip_city := b, ne_geoip_latitude := x, ne_geoip_longitude := y\<rparr>) = node_entry_ok e"
  "node_entry_ok (e\<lparr>ne_override_country := a, ne_override_city := b, ne_override_latitude := x, ne_override_longitude := y\<rparr>) =
    node_entry_ok e"
  "node_entry_ok (from_restored_status st)"
  "node_entry_ok (node_entry_new s i ip g l t)" "node_entry_ok (register_session s i ip g l t e)"
  "holder_of (node_entry_new s i ip g l t) = Some (s, t)" "holder_of (register_session s i ip g l t e) = Some (s, t)"
  by (simp_all add: node_entry_ok_def holder_of_def from_restored_status_def node_entry_new_def register_session_def
      split: prod.splits)

lemma holder_session: "node_entry_ok e \<Longrightarrow> map_option fst (holder_of e) = ne_active_session_id e"
  by (auto simp: holder_of_def node_entry_ok_def split: option.splits)

lemma holders_put: "live_ok hash r \<Longrightarrow> holders hash (node_put hash node_id e r) = (holders hash r)(node_id := holder_of e)"
  by (simp add: holders_def node_get_put fun_eq_iff)

lemma holders_get: "node_get hash r node_id = Some e \<Longrightarrow> holders hash r node_id = holder_of e"
  "node_get hash r node_id = None \<Longrightarrow> holders hash r node_id = None"
  by (simp_all add: holders_def)

lemma holds_session:
  assumes "live_ok hash r"
  shows "map_option fst (holders hash r node_id) = Option.bind (node_get hash r node_id) ne_active_session_id"
  using live_get [OF assms] holder_session by (cases "node_get hash r node_id") (simp_all add: holders_def)

section \<open>Mutations\<close>

lemma stale_entry_ok: "node_entry_ok e \<Longrightarrow> node_entry_ok (stale_entry threshold now e)"
  by (auto simp: stale_entry_def node_entry_ok_def)

lemma stale_holder:
  assumes "node_entry_ok e"
  shows "holder_of (stale_entry threshold now e) =
    (case holder_of e of
       None \<Rightarrow> None
     | Some (s, t) \<Rightarrow> if t \<le> now \<and> int threshold \<le> now - t then None else Some (s, t))"
proof (cases "ne_active_session_id e")
  case None
  then show ?thesis
    by (simp add: holder_of_def stale_entry_def)
next
  case (Some s)
  then obtain t where "ne_last_seen e = Some t" "ne_online e"
    using assms by (auto simp: node_entry_ok_def)
  then show ?thesis
    using Some by (auto simp: holder_of_def stale_entry_def is_stale_def)
qed

lemma stale_shard_ok: "shard_ok hash k t \<Longrightarrow> shard_ok hash k (mark_stale_shard threshold now t)"
  by (auto simp: shard_get mark_stale_shard_def tbl_get_map_snd stale_entry_ok tbl_ok_def comp_def case_prod_beta)

lemma mutate_refines:
  assumes "live_ok hash r"
  shows "live_ok hash (fst (mutate hash now m r)) \<and>
    holders hash (fst (mutate hash now m r)) = fold (perform_holder hash) (mutation_actions now m) (holders hash r)"
proof (cases m)
  case (Register s identity ip geoip loc)
  then show ?thesis
    using assms by (auto simp: register_live_def Let_def live_put holders_put split: option.split)
next
  case (Snapshot node_id s snap)
  show ?thesis
  proof (cases "node_get hash r node_id")
    case (Some e)
    have "node_entry_ok e" using live_get [OF assms Some] .
    then have "node_entry_ok (e\<lparr>ne_snapshot := Some snap, ne_last_seen := Some now, ne_online := True\<rparr>)"
        if "ne_active_session_id e = Some s"
      using that by (simp add: node_entry_ok_def)
    then show ?thesis
      using Snapshot Some assms holds_session [OF assms, of node_id]
      by (auto simp: update_snapshot_def Let_def live_put holders_put holder_of_def)
  qed (use Snapshot assms holds_session [OF assms, of node_id] in \<open>simp add: update_snapshot_def\<close>)
next
  case (Latency node_id s ms)
  show ?thesis
  proof (cases "node_get hash r node_id")
    case (Some e)
    have "node_entry_ok e" using live_get [OF assms Some] .
    then have "node_entry_ok (e\<lparr>ne_latency_ms := Some ms, ne_last_seen := Some now, ne_online := True\<rparr>)"
        if "ne_active_session_id e = Some s"
      using that by (simp add: node_entry_ok_def)
    then show ?thesis
      using Latency Some assms holds_session [OF assms, of node_id]
      by (auto simp: update_latency_def Let_def live_put holders_put holder_of_def)
  qed (use Latency assms holds_session [OF assms, of node_id] in \<open>simp add: update_latency_def\<close>)
next
  case (Disconnect node_id s)
  show ?thesis
  proof (cases "node_get hash r node_id")
    case (Some e)
    have "node_entry_ok (e\<lparr>ne_active_session_id := None, ne_online := False, ne_control := None\<rparr>)"
      by (simp add: node_entry_ok_def)
    then show ?thesis
      using Disconnect Some assms holds_session [OF assms, of node_id]
      by (auto simp: mark_disconnected_def Let_def live_put holders_put holder_of_def)
  qed (use Disconnect assms holds_session [OF assms, of node_id] in \<open>simp add: mark_disconnected_def\<close>)
next
  case (RemoveNode node_id)
  let ?k = "shard_index hash node_id"
  let ?r = "r[?k := tbl_del node_id (r ! ?k)]"
  have ok: "live_ok hash ?r"
    using assms by (auto intro!: live_set shard_del live_shard)
  have t: "tbl_ok (r ! ?k)"
    using live_shard [OF assms shard_index_less] by (simp add: shard_ok_def)
  have get: "node_get hash ?r x = (if x = node_id then None else node_get hash r x)" for x
  proof (cases "shard_index hash x = ?k")
    case True
    then show ?thesis
      using assms t by (simp add: node_get_set table_simps) (simp add: node_get_def)
  next
    case False
    then show ?thesis
      using assms by (auto simp: node_get_set)
  qed
  have "fst (mutate hash now m r) = ?r"
    using RemoveNode by (simp add: remove_live_def Let_def)
  then show ?thesis
    using RemoveNode ok get by (auto simp: holders_def fun_eq_iff)
next
  case (Attach node_id s control)
  show ?thesis
  proof (cases "node_get hash r node_id")
    case (Some e)
    have "node_entry_ok e" using live_get [OF assms Some] .
    then have "node_entry_ok (e\<lparr>ne_control := Some control\<rparr>)" if "ne_active_session_id e = Some s"
      using that by (simp add: node_entry_ok_def)
    then show ?thesis
      using Attach Some assms holders_get(1) [OF Some]
      by (auto simp: attach_session_control_def live_put holders_put fun_upd_idem)
  qed (use Attach assms in \<open>simp add: attach_session_control_def\<close>)
next
  case (StaleShard k threshold)
  let ?r = "r[k := mark_stale_shard threshold now (r ! k)]"
  have "holders hash ?r node_id = perform_holder hash (Swept k threshold now) (holders hash r) node_id" for node_id
  proof (cases "shard_index hash node_id = k")
    case True
    then have get: "node_get hash ?r node_id = map_option (stale_entry threshold now) (node_get hash r node_id)"
      using assms by (simp add: node_get_set mark_stale_shard_def tbl_get_map_snd) (simp add: node_get_def)
    show ?thesis
    proof (cases "node_get hash r node_id")
      case (Some e)
      then show ?thesis
        using True get stale_holder [OF live_get [OF assms Some], of threshold now]
        by (simp add: holders_def split: option.split)
    qed (use get in \<open>simp add: holders_def\<close>)
  next
    case False
    then show ?thesis
      using assms by (auto simp: holders_def node_get_set split: option.split)
  qed
  then show ?thesis
    using StaleShard assms by (auto simp: fun_eq_iff intro!: live_set stale_shard_ok live_shard)
next
  case (Geoip node_id ip geoip)
  show ?thesis
  proof (cases "node_get hash r node_id")
    case (Some e)
    then show ?thesis
      using Geoip assms live_get [OF assms Some] holders_get(1) [OF Some]
      by (auto simp: update_geoip_def live_put holders_put fun_upd_idem)
  qed (use Geoip assms in \<open>simp add: update_geoip_def\<close>)
next
  case (Override node_id loc)
  show ?thesis
  proof (cases "node_get hash r node_id")
    case (Some e)
    then show ?thesis
      using Override assms live_get [OF assms Some] holders_get(1) [OF Some]
      by (auto simp: update_location_override_def live_put holders_put fun_upd_idem split: prod.split)
  qed (use Override assms in \<open>simp add: update_location_override_def\<close>)
next
  case (ClearShard k)
  then show ?thesis
    using assms by (auto simp: holders_def fun_eq_iff node_get_set shard_get intro!: live_set)
next
  case (Restore st)
  then show ?thesis
    using assms by (simp add: live_put holders_put)
qed

section \<open>Every interleaving refines the map\<close>

fun holder_effects :: "shared_event \<Rightarrow> shared_world \<Rightarrow> holder_action list" where
  "holder_effects (Continue i now ok) w =
     (if i < length (sx_tasks w)
      then case sx_tasks w ! i of
             Updating u (Mutating (m # ms) changed) \<Rightarrow> mutation_actions now m
           | _ \<Rightarrow> []
      else [])"
| "holder_effects _ w = []"

lemma read_registry: "read_step me now ok kind stage s = (s', stage') \<Longrightarrow> sh_registry s' = sh_registry s"
  by (cases stage) (auto simp: set_build_lock_def set_slot_def split: option.splits if_splits api_kind.splits)

lemma update_registry:
  "sh_registry (fst (view_update_step hash now u stage s)) =
    (case stage of Mutating (m # ms) changed \<Rightarrow> fst (mutate hash now m (sh_registry s)) | _ \<Rightarrow> sh_registry s)"
proof (induction hash now u stage s rule: view_update_step.induct)
  case (1 hash now u s)
  then show ?case by (cases u) auto
next
  case (4 hash now u v vs s)
  then show ?case by (cases v) (auto simp: bump_def)
qed (auto split: prod.splits)

lemma shared_refines:
  assumes "live_ok hash (sh_registry (sx_state w))"
  shows "live_ok hash (sh_registry (sx_state (shared_step hash e w))) \<and>
    holders hash (sh_registry (sx_state (shared_step hash e w))) =
      fold (perform_holder hash) (holder_effects e w) (holders hash (sh_registry (sx_state w)))"
proof (cases "\<exists>i now ok. e = Continue i now ok \<and> i < length (sx_tasks w)")
  case True
  then obtain i now ok where e: "e = Continue i now ok" "i < length (sx_tasks w)" by blast
  show ?thesis
  proof (cases "sx_tasks w ! i")
    case (Updating u stage)
    have r: "sh_registry (sx_state (shared_step hash e w)) = sh_registry (fst (view_update_step hash now u stage (sx_state w)))"
      using e Updating by (simp split: prod.splits)
    show ?thesis
      unfolding r update_registry
      using mutate_refines [OF assms] assms e Updating by (auto split: update_stage.splits list.splits)
  next
    case (Reading kind stage)
    have "sh_registry (sx_state (shared_step hash e w)) = sh_registry (sx_state w)"
      using e Reading read_registry by (auto split: prod.splits)
    then show ?thesis
      using assms e Reading by simp
  qed
next
  case False
  then show ?thesis
    using assms by (cases e) auto
qed

interpretation node_sessions: refinement "shared_step hash" "\<lambda>w. live_ok hash (sh_registry (sx_state w))" "\<lambda>_. True"
  "\<lambda>w. holders hash (sh_registry (sx_state w))" holder_effects "perform_holder hash" for hash
  by unfold_locales (auto simp: shared_refines simp del: shared_step.simps)

lemma online_holder:
  assumes "live_ok hash r"
  shows "map_option nt_online (get_status hash node_id r) = Some True \<longleftrightarrow> holders hash r node_id \<noteq> None"
proof (cases "node_get hash r node_id")
  case (Some e)
  then show ?thesis
    using live_get [OF assms Some]
    by (auto simp: get_status_def to_status_def holders_def holder_of_def node_entry_ok_def split: option.splits)
qed (simp add: get_status_def holders_def)

lemma control_holder:
  assumes "live_ok hash r" and "holders hash r node_id = None"
  shows "session_control hash node_id r = None"
proof (cases "node_get hash r node_id")
  case (Some e)
  then show ?thesis
    using live_get [OF assms(1) Some] assms(2)
    by (auto simp: session_control_def holders_def holder_of_def node_entry_ok_def split: option.splits)
qed (simp add: session_control_def)

lemma accepts_holder:
  assumes "live_ok hash r"
  shows "snd (update_snapshot hash node_id s snap now r) \<noteq> None \<longleftrightarrow> map_option fst (holders hash r node_id) = Some s"
    and "snd (update_latency hash node_id s ms now r) \<longleftrightarrow> map_option fst (holders hash r node_id) = Some s"
    and "snd (mark_disconnected hash node_id s r) \<longleftrightarrow> map_option fst (holders hash r node_id) = Some s"
    and "snd (attach_session_control hash node_id s control r) \<longleftrightarrow> map_option fst (holders hash r node_id) = Some s"
    and "is_current_session hash node_id s r \<longleftrightarrow> map_option fst (holders hash r node_id) = Some s"
  unfolding holds_session [OF assms]
  by (auto simp: update_snapshot_def update_latency_def mark_disconnected_def attach_session_control_def
      is_current_session_def Let_def split: option.splits)

lemma refused_unchanged:
  assumes "live_ok hash r" and "map_option fst (holders hash r node_id) \<noteq> Some s"
  shows "fst (update_snapshot hash node_id s snap now r) = r" and "fst (update_latency hash node_id s ms now r) = r"
    and "fst (mark_disconnected hash node_id s r) = r" and "fst (attach_session_control hash node_id s control r) = r"
  using accepts_holder(1) [OF assms(1), of node_id s snap now] accepts_holder(2) [OF assms(1), of node_id s ms now]
    accepts_holder(3) [OF assms(1), of node_id s] accepts_holder(4) [OF assms(1), of node_id s control] assms(2)
  by (auto simp: update_snapshot_def update_latency_def mark_disconnected_def attach_session_control_def Let_def
      split: option.splits if_splits)

text \<open>C11: Over every interleaving of updates, readers and clock readings, who holds a node is what the log of
  the atomic mutations says: a session that registers takes the node from whoever had it, only the holder's
  snapshots, latencies, disconnects and control channels are accepted - those of a session that was replaced
  leave the whole registry as it is -, a sweep drops exactly the holders that were silent for the threshold, and a node is shown online and hands
  out a control handle just while it is held.\<close>

theorem node_sessions_refine:
  "let w = fold (shared_step hash) es (shared_start now);
       v = fold (perform_holder hash) (run_effects (shared_step hash) holder_effects es (shared_start now)) (\<lambda>_. None);
       r = sh_registry (sx_state w);
       holds = map_option fst (v node_id) = Some s
   in (snd (update_snapshot hash node_id s snap t r) \<noteq> None \<longleftrightarrow> holds) \<and>
      (snd (update_latency hash node_id s ms t r) \<longleftrightarrow> holds) \<and>
      (snd (mark_disconnected hash node_id s r) \<longleftrightarrow> holds) \<and>
      (snd (attach_session_control hash node_id s control r) \<longleftrightarrow> holds) \<and>
      fst (update_snapshot hash node_id s snap t r) = (if holds then fst (update_snapshot hash node_id s snap t r) else r) \<and>
      fst (update_latency hash node_id s ms t r) = (if holds then fst (update_latency hash node_id s ms t r) else r) \<and>
      fst (mark_disconnected hash node_id s r) = (if holds then fst (mark_disconnected hash node_id s r) else r) \<and>
      fst (attach_session_control hash node_id s control r) =
        (if holds then fst (attach_session_control hash node_id s control r) else r) \<and>
      (is_current_session hash node_id s r \<longleftrightarrow> holds) \<and>
      (map_option nt_online (get_status hash node_id r) = Some True \<longleftrightarrow> v node_id \<noteq> None) \<and>
      session_control hash node_id r = (if v node_id = None then None else session_control hash node_id r)"
proof -
  let ?w = "fold (shared_step hash) es (shared_start now)"
  let ?r = "sh_registry (sx_state ?w)"
  have start: "live_ok hash (sh_registry (sx_state (shared_start now)))"
    "holders hash (sh_registry (sx_state (shared_start now))) = (\<lambda>_. None)"
    using live_default by (simp_all add: shared_start_def shared_new_def holders_def node_get_def registry_default_def fun_eq_iff
        shard_index_def REGISTRY_SHARD_COUNT_def)
  have v: "fold (perform_holder hash) (run_effects (shared_step hash) holder_effects es (shared_start now)) (\<lambda>_. None) =
      holders hash ?r"
    using node_sessions.run_refines [of hash "shared_start now" es] start by (simp add: list_all_iff)
  have ok: "live_ok hash ?r"
    using node_sessions.run_inv [of hash "shared_start now" es] start by (simp add: list_all_iff)
  show ?thesis
    unfolding Let_def v using refused_unchanged [OF ok] control_holder [OF ok]
    by (intro conjI accepts_holder [OF ok] online_holder [OF ok]) simp_all
qed

end
