(* ===== verification/AgentSession.thy ===== *)
theory AgentSession
  imports Registry Updater
begin

text \<open>
  The server's side of an Agent session (\<open>nodelite-server/src/ws.rs\<close>, \<open>ws/handshake.rs\<close>,
  \<open>ws/session.rs\<close>, \<open>ws/refresh.rs\<close>, \<open>ws/protocol.rs\<close>, \<open>ws/disk_limit_notice.rs\<close>) and the messages of
  \<open>nodelite-proto/src/message.rs\<close>. A connection is a machine with one stage between two waits: a frame
  that has to verify the credential, prepare or commit a renewal goes through several. The credentials of
  the node are the versions of its registry entry that were committed, and the one in memory. Sending
  appends to a queue; logging, audit records, GeoIP, history and metrics counters are left out.
\<close>

section \<open>Messages\<close>

datatype notice_level = NoticeInfo | NoticeWarn | NoticeError

datatype notice_code =
    AgentUpdatesV1 | MetricsZlibV1 | TokenExpiredNotice | UnauthorizedNotice | UnsupportedProtocolVersion

record hello_message =
  hl_supports_agent_updates :: bool
  hl_supports_token_refresh_ack :: bool
  hl_supports_metrics_zlib :: bool
  hl_protocol_version :: u16
  hl_token :: string
  hl_identity :: node_identity

record agent_log_entry =
  le_occurred_at :: datetime
  le_level :: notice_level
  le_message :: string

datatype traffic_control_state = TcRetrying | TcReady | TcApplied | TcUnavailable | TcFailed

datatype traffic_control_reason = TcDisabled | TcUnsupportedPlatform | TcMissingTc | TcMissingCapability

record traffic_control_status =
  tc_state :: traffic_control_state
  tc_reason :: "traffic_control_reason option"
  tc_desired_rate_kbps :: "u64 option"
  tc_applied_rate_kbps :: "u64 option"

text \<open>\<open>RefreshTokenResponse\<close> carries the refresh id, the new token and its expiry.\<close>

datatype wire_message =
    Hello hello_message
  | Metrics node_snapshot
  | Ping u64
  | Pong u64
  | ServerNotice notice_level "notice_code option" string
  | RefreshTokenRequest string
  | RefreshTokenResponse "string option" string datetime
  | RefreshTokenAck string bool
  | AgentLogs "traffic_control_status option" "agent_log_entry list"
  | NetworkThrottle "u64 option"
  | AgentUpdateRequest update_request
  | AgentUpdateStatus update_status

definition WIRE_PROTOCOL_VERSION :: u16 where
  "WIRE_PROTOCOL_VERSION = 3"

definition MIN_SUPPORTED_WIRE_PROTOCOL_VERSION :: u16 where
  "MIN_SUPPORTED_WIRE_PROTOCOL_VERSION = 1"

section \<open>Refusals\<close>

definition protocol_version_rejection :: "u16 \<Rightarrow> string option" where
  "protocol_version_rejection v =
     (if MIN_SUPPORTED_WIRE_PROTOCOL_VERSION \<le> v \<and> v \<le> WIRE_PROTOCOL_VERSION then None
      else Some (''unsupported protocol version '' @ decimal (unat v) @ ''; server supports '' @
             decimal (unat MIN_SUPPORTED_WIRE_PROTOCOL_VERSION) @ ''..='' @ decimal (unat WIRE_PROTOCOL_VERSION)))"

definition TOKEN_EXPIRED_NOTICE :: string where
  "TOKEN_EXPIRED_NOTICE =
     ''token expired; run `nodelite-server install-agent --rotate-token` and reinstall this node''"

definition auth_failure_rejection :: "registry_error \<Rightarrow> notice_code \<times> string" where
  "auth_failure_rejection e =
     (case e of
        TokenExpired node_id \<Rightarrow> (TokenExpiredNotice, TOKEN_EXPIRED_NOTICE)
      | _ \<Rightarrow> (UnauthorizedNotice, ''unauthorized''))"

section \<open>What the Agent may say\<close>

datatype agent_wire_action =
    ActUpdateStatus update_status
  | ActMetrics node_snapshot
  | ActAgentLogs "traffic_control_status option" "agent_log_entry list"
  | ActPong u64
  | ActRefreshTokenRequest string
  | ActRefreshTokenAck string bool
  | ActReject string

fun classify_agent_wire_message :: "wire_message \<Rightarrow> agent_wire_action" where
  "classify_agent_wire_message (AgentUpdateStatus st) = ActUpdateStatus st"
| "classify_agent_wire_message (AgentUpdateRequest q) = ActReject ''agent must not send update requests''"
| "classify_agent_wire_message (Metrics snap) = ActMetrics snap"
| "classify_agent_wire_message (AgentLogs tc entries) = ActAgentLogs tc entries"
| "classify_agent_wire_message (Pong nonce) = ActPong nonce"
| "classify_agent_wire_message (RefreshTokenRequest node_id) = ActRefreshTokenRequest node_id"
| "classify_agent_wire_message (RefreshTokenAck refresh_id persisted) = ActRefreshTokenAck refresh_id persisted"
| "classify_agent_wire_message (Hello h) = ActReject ''duplicate hello message''"
| "classify_agent_wire_message (Ping nonce) = ActReject ''agent must not send ping messages''"
| "classify_agent_wire_message (ServerNotice l c m) = ActReject ''agent must not send server_notice messages''"
| "classify_agent_wire_message (RefreshTokenResponse i t e) =
     ActReject ''agent must not send refresh_token_response messages''"
| "classify_agent_wire_message (NetworkThrottle r) = ActReject ''agent must not send network_throttle messages''"

section \<open>The state of the loop\<close>

record session_config =
  sn_sanitize :: sanitize_config
  sn_metric_anomaly_session_limit :: nat
  sn_max_outstanding_pings :: nat
  sn_ping_interval_secs :: u64

record session_loop_state =
  lp_ping_expiry :: duration
  lp_outstanding_pings :: "(u64, instant) table"
  lp_next_ping_nonce :: u64
  lp_metric_anomaly_window :: "instant list"
  lp_last_sent_throttle_kbps :: "u64 option option"
  lp_disk_limit_notified :: bool

definition loop_state_new :: "u64 \<Rightarrow> session_loop_state" where
  "loop_state_new ping_interval_secs =
     \<lparr>lp_ping_expiry = from_secs (unat (sat_mul ping_interval_secs 3)), lp_outstanding_pings = [],
      lp_next_ping_nonce = 1, lp_metric_anomaly_window = [], lp_last_sent_throttle_kbps = None,
      lp_disk_limit_notified = False\<rparr>"

text \<open>\<open>min_by_key\<close>: the first entry with the least key.\<close>

fun min_by_key :: "(u64, instant) table \<Rightarrow> (u64 \<times> instant) option" where
  "min_by_key [] = None"
| "min_by_key (p # ps) =
     (case min_by_key ps of None \<Rightarrow> Some p | Some q \<Rightarrow> Some (if snd p \<le> snd q then p else q))"

definition prune_outstanding_pings ::
  "duration \<Rightarrow> nat \<Rightarrow> instant \<Rightarrow> (u64, instant) table \<Rightarrow> (u64, instant) table" where
  "prune_outstanding_pings max_age max_outstanding now pings =
     (let kept = filter (\<lambda>(_, sent_at). duration_since now sent_at < max_age) pings in
      if length kept < max_outstanding then kept
      else case min_by_key kept of None \<Rightarrow> kept | Some (oldest, _) \<Rightarrow> tbl_del oldest kept)"

text \<open>The end of \<open>handle_ping_tick\<close>: prune, take the next nonce, remember when it is sent.\<close>

definition send_ping :: "nat \<Rightarrow> instant \<Rightarrow> session_loop_state \<Rightarrow> session_loop_state \<times> wire_message" where
  "send_ping max_outstanding now lp =
     (let pings = prune_outstanding_pings (lp_ping_expiry lp) max_outstanding now (lp_outstanding_pings lp);
          nonce = lp_next_ping_nonce lp
      in (lp\<lparr>lp_outstanding_pings := tbl_put nonce now pings, lp_next_ping_nonce := sat_add nonce 1\<rparr>,
          Ping nonce))"

definition consume_pong_latency ::
  "session_loop_state \<Rightarrow> u64 \<Rightarrow> instant \<Rightarrow> session_loop_state \<times> u64 option" where
  "consume_pong_latency lp nonce now =
     (lp\<lparr>lp_outstanding_pings := tbl_del nonce (lp_outstanding_pings lp)\<rparr>,
      map_option (\<lambda>sent_at. word_of_nat (duration_since now sent_at div 1000000))
        (tbl_get (lp_outstanding_pings lp) nonce))"

definition should_send_network_throttle :: "u16 \<Rightarrow> u64 option option \<Rightarrow> u64 option \<Rightarrow> bool" where
  "should_send_network_throttle agent_protocol_version last_sent rate_kbps \<longleftrightarrow>
     WIRE_PROTOCOL_VERSION \<le> agent_protocol_version \<and> last_sent \<noteq> Some rate_kbps"

definition maybe_send_network_throttle ::
  "u16 \<Rightarrow> u64 option \<Rightarrow> session_loop_state \<Rightarrow> session_loop_state \<times> wire_message list" where
  "maybe_send_network_throttle agent_protocol_version rate_kbps lp =
     (if \<not> should_send_network_throttle agent_protocol_version (lp_last_sent_throttle_kbps lp) rate_kbps
      then (lp, [])
      else (lp\<lparr>lp_last_sent_throttle_kbps := Some rate_kbps\<rparr>, [NetworkThrottle rate_kbps]))"

definition notify_disks_over_limit_once ::
  "u32 \<Rightarrow> nat \<Rightarrow> session_loop_state \<Rightarrow> session_loop_state \<times> wire_message list" where
  "notify_disks_over_limit_once dropped limit lp =
     (if dropped = 0 \<or> lp_disk_limit_notified lp then (lp, [])
      else (lp\<lparr>lp_disk_limit_notified := True\<rparr>,
            [ServerNotice NoticeWarn None
              (decimal (unat dropped) @ '' disks over the limit of '' @ decimal limit @ '' were dropped'')]))"

text \<open>\<open>handle_metrics_message\<close> up to the update of the snapshot: \<open>None\<close> disconnects.\<close>

definition metrics_cleaned ::
  "session_config \<Rightarrow> instant \<Rightarrow> node_snapshot \<Rightarrow> session_loop_state
    \<Rightarrow> session_loop_state \<times> wire_message list \<times> node_snapshot option" where
  "metrics_cleaned cfg now snap lp =
     (let (snap, report) = sanitize_snapshot (sn_sanitize cfg) snap;
          (lp, msgs) = notify_disks_over_limit_once (sr_trimmed_disks report)
            (sc_max_sanitized_disks (sn_sanitize cfg)) lp
      in if report_modified report
         then
           let lp = lp\<lparr>lp_metric_anomaly_window :=
                 update_metric_anomaly_window report now (lp_metric_anomaly_window lp)\<rparr>
           in (lp, msgs,
               if should_disconnect_for_metric_anomalies (lp_metric_anomaly_window lp)
                    (sn_metric_anomaly_session_limit cfg) then None else Some snap)
         else (lp, msgs, Some snap))"

section \<open>Sessions\<close>

record pending_refresh =
  pf_candidate :: prepared_token
  pf_retry_at :: instant
  pf_reply :: "nat option"

text \<open>\<open>ActiveSession\<close> with the state of its loop.\<close>

record active_session =
  as_node_id :: string
  as_agent_protocol_version :: u16
  as_metrics_zlib :: bool
  as_supports_token_refresh_ack :: bool
  as_pending_refresh :: "pending_refresh option"
  as_refresh_retry_at :: instant
  as_session_id :: u64
  as_session_token :: string
  as_session_generation :: u64
  as_token_expires_at :: "datetime option"
  as_registry_revision :: u64
  as_loop :: session_loop_state

definition AGENT_TOKEN_REFRESH_BEFORE_EXPIRY_DAYS :: int where
  "AGENT_TOKEN_REFRESH_BEFORE_EXPIRY_DAYS = 7"

definition apply_current_token_status :: "active_session \<Rightarrow> token_status \<Rightarrow> active_session option" where
  "apply_current_token_status s st =
     (if ts_generation st \<noteq> as_session_generation s then None
      else Some (s\<lparr>as_token_expires_at := ts_token_expires_at st,
                   as_registry_revision := ts_registry_revision st\<rparr>))"

definition token_needs_refresh :: "datetime option \<Rightarrow> datetime \<Rightarrow> bool" where
  "token_needs_refresh expires refresh_after = (case expires of None \<Rightarrow> True | Some e \<Rightarrow> e \<le> refresh_after)"

definition refresh_after :: "datetime \<Rightarrow> datetime" where
  "refresh_after now = now + AGENT_TOKEN_REFRESH_BEFORE_EXPIRY_DAYS * DAY"

definition agent_refresh_request_due :: "datetime \<Rightarrow> instant \<Rightarrow> active_session \<Rightarrow> bool" where
  "agent_refresh_request_due now mt s \<longleftrightarrow>
     as_supports_token_refresh_ack s \<and> as_refresh_retry_at s \<le> mt \<and>
     (as_pending_refresh s \<noteq> None \<or> token_needs_refresh (as_token_expires_at s) (refresh_after now))"

definition apply_committed_refresh :: "string \<Rightarrow> u64 \<Rightarrow> datetime \<Rightarrow> active_session \<Rightarrow> active_session" where
  "apply_committed_refresh token generation expires_at s =
     s\<lparr>as_session_generation := generation, as_session_token := token, as_token_expires_at := Some expires_at,
       as_registry_revision := 0\<rparr>"

text \<open>The registry as one node's sessions see it: the committed versions of its entry, which of them is in
  memory, the revision; who holds the node in the live registry, and the next session id. \<open>sv_drawn\<close> is a
  history variable: every candidate that was stored, in order.\<close>

record node_server =
  sv_versions :: "registered_node list"
  sv_memory :: nat
  sv_revision :: u64
  sv_holder :: "u64 option"
  sv_next_session :: u64
  sv_drawn :: "prepared_token list"

definition in_memory_entry :: "node_server \<Rightarrow> registered_node" where
  "in_memory_entry sv = sv_versions sv ! sv_memory sv"

definition latest_entry :: "node_server \<Rightarrow> registered_node" where
  "latest_entry sv = last (sv_versions sv)"

text \<open>\<open>apply_loaded_state\<close>: an older version is ignored, a newer one bumps the revision.\<close>

definition apply_version :: "nat \<Rightarrow> node_server \<Rightarrow> node_server" where
  "apply_version i sv =
     (if i \<le> sv_memory sv then sv else sv\<lparr>sv_memory := i, sv_revision := sv_revision sv + 1\<rparr>)"

definition is_holder :: "active_session \<Rightarrow> node_server \<Rightarrow> bool" where
  "is_holder s sv \<longleftrightarrow> sv_holder sv = Some (as_session_id s)"

definition disconnect :: "active_session \<Rightarrow> node_server \<Rightarrow> node_server" where
  "disconnect s sv = (if is_holder s sv then sv\<lparr>sv_holder := None\<rparr> else sv)"

text \<open>\<open>should_refresh_agent_token\<close>.\<close>

definition should_refresh_agent_token ::
  "datetime \<Rightarrow> instant \<Rightarrow> node_server \<Rightarrow> active_session \<Rightarrow> active_session \<times> bool" where
  "should_refresh_agent_token now mt sv s =
     (if \<not> as_supports_token_refresh_ack s \<or> mt < as_refresh_retry_at s then (s, False)
      else case as_pending_refresh s of
        Some pf \<Rightarrow>
          if mt < pf_retry_at pf then (s, False)
          else (s\<lparr>as_pending_refresh := Some (pf\<lparr>pf_reply := None\<rparr>)\<rparr>, True)
      | None \<Rightarrow>
          if as_registry_revision s = sv_revision sv
          then (s, token_needs_refresh (as_token_expires_at s) (refresh_after now))
          else case token_status_for_node (in_memory_entry sv) (as_session_generation s) (sv_revision sv) now of
            None \<Rightarrow> (s, True)
          | Some st \<Rightarrow>
              (case apply_current_token_status s st of
                 None \<Rightarrow> (s, False)
               | Some s \<Rightarrow> (s, token_needs_refresh (as_token_expires_at s) (refresh_after now))))"

section \<open>Stages of a connection\<close>

datatype session_action =
    OnMetrics node_snapshot
  | OnLogs "traffic_control_status option"
  | OnPong u64
  | OnRefreshRequest string
  | OnRefreshAck string bool
  | OnUpdate update_request
  | OnTick

text \<open>Why a credential is verified: a hello, the same hello after its candidate was activated, or a frame of
  a session.\<close>

datatype credential_check = Admit hello_message | Readmit hello_message | Proceed active_session session_action

datatype refresh_trigger = PreExpiry | AgentRequested | Manual nat

text \<open>A verification reads the entry, verifies, and reads it again; the flag tells the second round.
  \<open>Preparing\<close> is before and after the check in memory.\<close>

datatype server_stage =
    AwaitHello
  | Checking credential_check bool
  | Verifying credential_check bool nat
  | Activating hello_message authorized_node
  | ActivationCommit hello_message string
  | ActivationApply hello_message nat
  | Registering hello_message authorized_node
  | Attaching hello_message active_session
  | Serving active_session
  | Billing active_session
  | Preparing active_session refresh_trigger bool
  | PreparedApply active_session refresh_trigger prepared_token nat
  | AckCommit active_session pending_refresh
  | AckApply active_session prepared_token nat u64 datetime
  | Closed

text \<open>How a write of the registry file ends: not at all, written and confirmed, or written and reported as
  failed because the directory could not be synchronised.\<close>

datatype commit_io = NotWritten | Committed | WrittenUnconfirmed

datatype session_request = UpdateAgent update_request | RefreshNow nat

datatype server_input =
    Frame wire_message
  | ConnectionLost
  | TickDue
  | Command session_request
  | Decided throttle_decision
  | Run commit_io

text \<open>The crate argon2 and the random strings drawn for the \<open>k\<close>-th candidate.\<close>

record session_env =
  ev_argon :: argon2
  ev_config :: session_config
  ev_token :: "nat \<Rightarrow> string"
  ev_refresh_id :: "nat \<Rightarrow> string"
  ev_salt :: "nat \<Rightarrow> string"

type_synonym served = "node_server \<times> server_stage \<times> wire_message list"

definition leave :: "active_session \<Rightarrow> node_server \<Rightarrow> served" where
  "leave s sv = (disconnect s sv, Closed, [])"

definition check_token :: "credential_check \<Rightarrow> string" where
  "check_token c =
     (case c of Admit h \<Rightarrow> hl_token h | Readmit h \<Rightarrow> hl_token h | Proceed s act \<Rightarrow> as_session_token s)"

text \<open>One round of \<open>match_registered_token\<close>; \<open>None\<close> asks for the second one.\<close>

definition match_round ::
  "argon2 \<Rightarrow> datetime \<Rightarrow> string \<Rightarrow> bool \<Rightarrow> nat \<Rightarrow> node_server
    \<Rightarrow> (registry_error + registered_node \<times> u64 \<times> matched_token) option" where
  "match_round cr now token second i sv =
     (let entry = sv_versions sv ! i; current = in_memory_entry sv in
      if \<not> token_material_matches entry current then if second then Some (Inl Unauthorized) else None
      else Some (case token_matches_entry cr (\<lambda>_. now) token entry of
                   None \<Rightarrow> Inl Unauthorized | Some m \<Rightarrow> Inr (current, sv_revision sv, m)))"

definition ping_session :: "session_env \<Rightarrow> instant \<Rightarrow> active_session \<Rightarrow> active_session \<times> wire_message" where
  "ping_session ev mt s =
     (let (lp, m) = send_ping (sn_max_outstanding_pings (ev_config ev)) mt (as_loop s) in (s\<lparr>as_loop := lp\<rparr>, m))"

text \<open>What follows \<open>refresh_session_token\<close>, by what it was called for.\<close>

definition after_refresh ::
  "session_env \<Rightarrow> instant \<Rightarrow> refresh_trigger \<Rightarrow> bool \<Rightarrow> active_session \<Rightarrow> node_server \<Rightarrow> served" where
  "after_refresh ev mt trigger ok s sv =
     (case trigger of
        PreExpiry \<Rightarrow> (let (s, m) = ping_session ev mt s in (sv, Serving s, [m]))
      | AgentRequested \<Rightarrow>
          (sv, Serving s, if ok then [] else [ServerNotice NoticeError None ''Failed to refresh token''])
      | Manual caller \<Rightarrow>
          (sv, Serving (if ok
             then s\<lparr>as_pending_refresh := map_option (pf_reply_update (\<lambda>_. Some caller)) (as_pending_refresh s)\<rparr>
             else s), []))"

definition offer_candidate ::
  "session_env \<Rightarrow> instant \<Rightarrow> refresh_trigger \<Rightarrow> pending_refresh \<Rightarrow> active_session \<Rightarrow> node_server \<Rightarrow> served" where
  "offer_candidate ev mt trigger pf s sv =
     (let p = pf_candidate pf;
          s = s\<lparr>as_pending_refresh := Some (pf\<lparr>pf_retry_at := mt + from_secs 60\<rparr>)\<rparr>;
          (sv, stage, msgs) = after_refresh ev mt trigger True s sv
      in (sv, stage, RefreshTokenResponse (Some (pp_refresh_id p)) (pp_token p) (pp_expires_at p) # msgs))"

definition refresh_session_token ::
  "session_env \<Rightarrow> instant \<Rightarrow> refresh_trigger \<Rightarrow> active_session \<Rightarrow> node_server \<Rightarrow> served" where
  "refresh_session_token ev mt trigger s sv =
     (if \<not> as_supports_token_refresh_ack s then after_refresh ev mt trigger False s sv
      else
        let s = s\<lparr>as_refresh_retry_at := mt + from_secs 60\<rparr> in
        case as_pending_refresh s of
          None \<Rightarrow> (sv, Preparing s trigger False, [])
        | Some pf \<Rightarrow> offer_candidate ev mt trigger pf s sv)"

text \<open>The handlers once the credential is known to be current.\<close>

fun proceed ::
  "session_env \<Rightarrow> datetime \<Rightarrow> instant \<Rightarrow> session_action \<Rightarrow> active_session \<Rightarrow> node_server \<Rightarrow> served" where
  "proceed ev now mt (OnMetrics snap) s sv =
     (let (lp, msgs, snap) = metrics_cleaned (ev_config ev) mt snap (as_loop s); s = s\<lparr>as_loop := lp\<rparr> in
      if snap = None \<or> \<not> is_holder s sv then (disconnect s sv, Closed, msgs) else (sv, Billing s, msgs))"
| "proceed ev now mt (OnLogs tc) s sv =
     (case tc of
        None \<Rightarrow> (sv, Serving s, [])
      | Some st \<Rightarrow>
          (case validate_traffic_control_rates (tc_desired_rate_kbps st) (tc_applied_rate_kbps st) of
             Inl e \<Rightarrow> leave s sv
           | Inr _ \<Rightarrow> (sv, Serving s, [])))"
| "proceed ev now mt (OnPong nonce) s sv =
     (let (lp, latency) = consume_pong_latency (as_loop s) nonce mt; s = s\<lparr>as_loop := lp\<rparr> in
      if latency = None \<or> is_holder s sv then (sv, Serving s, []) else leave s sv)"
| "proceed ev now mt (OnRefreshRequest node_id) s sv =
     (if agent_refresh_request_due now mt s then refresh_session_token ev mt AgentRequested s sv
      else (sv, Serving s, []))"
| "proceed ev now mt (OnRefreshAck refresh_id persisted) s sv =
     (case as_pending_refresh s of
        None \<Rightarrow> (sv, Serving s, [])
      | Some pf \<Rightarrow>
          if pp_refresh_id (pf_candidate pf) \<noteq> refresh_id then (sv, Serving s, [])
          else if \<not> persisted
          then (sv, Serving (s\<lparr>as_pending_refresh := Some (pf\<lparr>pf_reply := None\<rparr>)\<rparr>), [])
          else (sv, AckCommit (s\<lparr>as_pending_refresh := None\<rparr>) pf, []))"
| "proceed ev now mt (OnUpdate q) s sv = (sv, Serving s, [AgentUpdateRequest q])"
| "proceed ev now mt OnTick s sv =
     (let (s, due) = should_refresh_agent_token now mt sv s in
      if due then refresh_session_token ev mt PreExpiry s sv
      else let (s, m) = ping_session ev mt s in (sv, Serving s, [m]))"

text \<open>\<open>ensure_current_token\<close>: without a verification while the registry has not changed.\<close>

definition ensure_current_token ::
  "session_env \<Rightarrow> datetime \<Rightarrow> instant \<Rightarrow> session_action \<Rightarrow> active_session \<Rightarrow> node_server \<Rightarrow> served" where
  "ensure_current_token ev now mt act s sv =
     (if as_registry_revision s = sv_revision sv \<and>
         (case as_token_expires_at s of None \<Rightarrow> True | Some e \<Rightarrow> now < e)
      then proceed ev now mt act s sv else (sv, Checking (Proceed s act) False, []))"

definition handle_wire_message ::
  "session_env \<Rightarrow> datetime \<Rightarrow> instant \<Rightarrow> wire_message \<Rightarrow> active_session \<Rightarrow> node_server \<Rightarrow> served" where
  "handle_wire_message ev now mt msg s sv =
     (if \<not> is_holder s sv then leave s sv
      else case classify_agent_wire_message msg of
        ActMetrics snap \<Rightarrow> ensure_current_token ev now mt (OnMetrics snap) s sv
      | ActAgentLogs tc entries \<Rightarrow> ensure_current_token ev now mt (OnLogs tc) s sv
      | ActPong nonce \<Rightarrow> ensure_current_token ev now mt (OnPong nonce) s sv
      | ActRefreshTokenRequest node_id \<Rightarrow> ensure_current_token ev now mt (OnRefreshRequest node_id) s sv
      | ActRefreshTokenAck refresh_id persisted \<Rightarrow>
          if validate_refresh_id refresh_id \<noteq> Inr () then leave s sv
          else ensure_current_token ev now mt (OnRefreshAck refresh_id persisted) s sv
      | ActUpdateStatus st \<Rightarrow> if status_valid st then (sv, Serving s, []) else leave s sv
      | ActReject _ \<Rightarrow> leave s sv)"

definition utc_secs :: "datetime \<Rightarrow> u64" where
  "utc_secs now = word_of_int (max 0 (now div 1000000000))"

definition handle_session_command ::
  "session_env \<Rightarrow> datetime \<Rightarrow> instant \<Rightarrow> session_request \<Rightarrow> active_session \<Rightarrow> node_server \<Rightarrow> served" where
  "handle_session_command ev now mt c s sv =
     (case c of
        UpdateAgent q \<Rightarrow>
          if \<not> request_valid q (utc_secs now) \<or> \<not> is_holder s sv then leave s sv
          else ensure_current_token ev now mt (OnUpdate q) s sv
      | RefreshNow caller \<Rightarrow> refresh_session_token ev mt (Manual caller) s sv)"

definition handle_ping_tick ::
  "session_env \<Rightarrow> datetime \<Rightarrow> instant \<Rightarrow> active_session \<Rightarrow> node_server \<Rightarrow> served" where
  "handle_ping_tick ev now mt s sv =
     (if \<not> is_holder s sv then leave s sv else ensure_current_token ev now mt OnTick s sv)"

section \<open>The handshake\<close>

definition refuse_hello :: "registry_error \<Rightarrow> node_server \<Rightarrow> served" where
  "refuse_hello e sv =
     (let (code, m) = auth_failure_rejection e in (sv, Closed, [ServerNotice NoticeError (Some code) m]))"

definition receive_hello :: "wire_message \<Rightarrow> node_server \<Rightarrow> served" where
  "receive_hello msg sv =
     (case msg of
        Hello h \<Rightarrow>
          (case protocol_version_rejection (hl_protocol_version h) of
             Some m \<Rightarrow> (sv, Closed, [ServerNotice NoticeError (Some UnsupportedProtocolVersion) m])
           | None \<Rightarrow>
               (case first_error [validate_runtime_identity (hl_identity h),
                      text_check (validate_non_empty (Field ''hello.token'') (hl_token h))] of
                  Inl e \<Rightarrow> refuse_hello e sv
                | Inr _ \<Rightarrow> (sv, Checking (Admit h) False, [])))
      | _ \<Rightarrow> (sv, Closed, []))"

text \<open>What a finished verification leads to.\<close>

fun verified ::
  "session_env \<Rightarrow> datetime \<Rightarrow> instant \<Rightarrow> credential_check
    \<Rightarrow> registry_error + registered_node \<times> u64 \<times> matched_token \<Rightarrow> node_server \<Rightarrow> served" where
  "verified ev now mt (Admit h) (Inl e) sv = refuse_hello e sv"
| "verified ev now mt (Admit h) (Inr (entry, revision, m)) sv =
     (case authorized_node_from_entry (hl_identity h) entry revision (mt_generation m) (mt_expires_at m) now of
        Inl e \<Rightarrow> refuse_hello e sv
      | Inr a \<Rightarrow>
          if hl_supports_token_refresh_ack h then (sv, Activating h a, []) else (sv, Registering h a, []))"
| "verified ev now mt (Readmit h) (Inl e) sv = (sv, Closed, [])"
| "verified ev now mt (Readmit h) (Inr (entry, revision, m)) sv =
     (case authorized_node_from_entry (hl_identity h) entry revision (mt_generation m) (mt_expires_at m) now of
        Inl e \<Rightarrow> (sv, Closed, [])
      | Inr a \<Rightarrow> (sv, Registering h a, []))"
| "verified ev now mt (Proceed s act) (Inl e) sv = leave s sv"
| "verified ev now mt (Proceed s act) (Inr (entry, revision, m)) sv =
     (if mt_generation m \<noteq> as_session_generation s \<or>
         (case mt_expires_at m of None \<Rightarrow> False | Some e \<Rightarrow> e \<le> now) then leave s sv
      else case apply_current_token_status s
             \<lparr>ts_generation = as_session_generation s, ts_token_expires_at = mt_expires_at m,
              ts_registry_revision = revision\<rparr> of
        None \<Rightarrow> leave s sv
      | Some s \<Rightarrow> proceed ev now mt act s sv)"

text \<open>\<open>activate_saved_token\<close>: a candidate the Agent came back with is committed.\<close>

definition activate_saved_token :: "hello_message \<Rightarrow> authorized_node \<Rightarrow> node_server \<Rightarrow> served" where
  "activate_saved_token h a sv =
     (case List.find (\<lambda>q. pt_generation q = an_generation a) (rn_pending_tokens (in_memory_entry sv)) of
        None \<Rightarrow> (sv, Checking (Readmit h) False, [])
      | Some q \<Rightarrow>
          if validate_refresh_id (pt_refresh_id q) \<noteq> Inr () then (sv, Closed, [])
          else (sv, ActivationCommit h (pt_refresh_id q), []))"

definition new_session :: "session_env \<Rightarrow> instant \<Rightarrow> hello_message \<Rightarrow> authorized_node \<Rightarrow> u64 \<Rightarrow> active_session" where
  "new_session ev mt h a session_id =
     \<lparr>as_node_id = id_node_id (an_identity a), as_agent_protocol_version = hl_protocol_version h,
      as_metrics_zlib = hl_supports_metrics_zlib h,
      as_supports_token_refresh_ack = hl_supports_token_refresh_ack h, as_pending_refresh = None,
      as_refresh_retry_at = mt, as_session_id = session_id, as_session_token = hl_token h,
      as_session_generation = an_generation a, as_token_expires_at = an_token_expires_at a,
      as_registry_revision = an_registry_revision a,
      as_loop = loop_state_new (sn_ping_interval_secs (ev_config ev))\<rparr>"

section \<open>One stage\<close>

text \<open>A version of the entry is appended when the file was renamed.\<close>

definition store_entry :: "commit_io \<Rightarrow> registered_node \<Rightarrow> node_server \<Rightarrow> node_server" where
  "store_entry io n sv = (if io = NotWritten then sv else sv\<lparr>sv_versions := sv_versions sv @ [n]\<rparr>)"

definition memory_state :: "string \<Rightarrow> node_server \<Rightarrow> registry_state" where
  "memory_state node_id sv =
     \<lparr>rs_version = 0, rs_entries = [(node_id, in_memory_entry sv)], rs_install_sessions = []\<rparr>"

definition prepare_stage ::
  "session_env \<Rightarrow> datetime \<Rightarrow> instant \<Rightarrow> commit_io \<Rightarrow> refresh_trigger \<Rightarrow> active_session \<Rightarrow> node_server \<Rightarrow> served" where
  "prepare_stage ev now mt io trigger s sv =
     (let k = length (sv_drawn sv); hash = argon_hash (ev_argon ev) (ev_salt ev k) (ev_token ev k) in
      case prepare_node (as_session_generation s) (ev_token ev k) (ev_refresh_id ev k) hash now (latest_entry sv) of
        Inl e \<Rightarrow> after_refresh ev mt trigger False s sv
      | Inr (p, n) \<Rightarrow>
          if io = NotWritten then after_refresh ev mt trigger False s sv
          else
            let i = length (sv_versions sv); sv = store_entry io n (sv\<lparr>sv_drawn := sv_drawn sv @ [p]\<rparr>) in
            if io = Committed then (sv, PreparedApply s trigger p i, [])
            else after_refresh ev mt trigger False s sv)"

definition serve_run ::
  "session_env \<Rightarrow> datetime \<Rightarrow> instant \<Rightarrow> commit_io \<Rightarrow> server_stage \<Rightarrow> node_server \<Rightarrow> served" where
  "serve_run ev now mt io stage sv =
     (case stage of
        Checking c second \<Rightarrow> (sv, Verifying c second (sv_memory sv), [])
      | Verifying c second i \<Rightarrow>
          if io \<noteq> Committed then verified ev now mt c (Inl (Io ''argon2'')) sv
          else (case match_round (ev_argon ev) now (check_token c) second i sv of
                  None \<Rightarrow> (sv, Checking c True, [])
                | Some r \<Rightarrow> verified ev now mt c r sv)
      | Activating h a \<Rightarrow> activate_saved_token h a sv
      | ActivationCommit h refresh_id \<Rightarrow>
          (case commit_node refresh_id now (latest_entry sv) of
             Inl e \<Rightarrow> (sv, Closed, [])
           | Inr (r, n) \<Rightarrow>
               (store_entry io n sv,
                if io = Committed then ActivationApply h (length (sv_versions sv)) else Closed, []))
      | ActivationApply h i \<Rightarrow>
          if io = Committed then (apply_version i sv, Checking (Readmit h) False, []) else (sv, Closed, [])
      | Registering h a \<Rightarrow>
          (sv\<lparr>sv_next_session := sv_next_session sv + 1, sv_holder := Some (sv_next_session sv)\<rparr>,
           Attaching h (new_session ev mt h a (sv_next_session sv)), [])
      | Attaching h s \<Rightarrow>
          if is_holder s sv
          then (sv, Serving s,
                ServerNotice NoticeInfo (if as_metrics_zlib s then Some MetricsZlibV1 else None) ''authenticated'' #
                (if hl_supports_agent_updates h
                 then [ServerNotice NoticeInfo (Some AgentUpdatesV1) ''agent update status supported''] else []))
          else leave s sv
      | Preparing s trigger False \<Rightarrow>
          (case precheck_token_refresh (memory_state (as_node_id s) sv) (as_node_id s) (as_session_generation s) now of
             Inl e \<Rightarrow> after_refresh ev mt trigger False s sv
           | Inr _ \<Rightarrow> (sv, Preparing s trigger True, []))
      | Preparing s trigger True \<Rightarrow> prepare_stage ev now mt io trigger s sv
      | PreparedApply s trigger p i \<Rightarrow>
          if io = Committed
          then offer_candidate ev mt trigger \<lparr>pf_candidate = p, pf_retry_at = mt, pf_reply = None\<rparr> s
                 (apply_version i sv)
          else after_refresh ev mt trigger False s sv
      | AckCommit s pf \<Rightarrow>
          (case commit_node (pp_refresh_id (pf_candidate pf)) now (latest_entry sv) of
             Inl e \<Rightarrow> leave s sv
           | Inr ((generation, expires_at), n) \<Rightarrow>
               if io = Committed
               then (store_entry io n sv,
                     AckApply s (pf_candidate pf) (length (sv_versions sv)) generation expires_at, [])
               else leave s (store_entry io n sv))
      | AckApply s p i generation expires_at \<Rightarrow>
          if io = Committed
          then (apply_version i sv, Serving (apply_committed_refresh (pp_token p) generation expires_at s), [])
          else leave s sv
      | _ \<Rightarrow> (sv, stage, []))"

definition serve ::
  "session_env \<Rightarrow> datetime \<Rightarrow> instant \<Rightarrow> server_input \<Rightarrow> server_stage \<Rightarrow> node_server \<Rightarrow> served" where
  "serve ev now mt input stage sv =
     (case input of
        Run io \<Rightarrow> serve_run ev now mt io stage sv
      | Frame msg \<Rightarrow>
          (case stage of
             AwaitHello \<Rightarrow> receive_hello msg sv
           | Serving s \<Rightarrow> handle_wire_message ev now mt msg s sv
           | _ \<Rightarrow> (sv, stage, []))
      | ConnectionLost \<Rightarrow>
          (case stage of AwaitHello \<Rightarrow> (sv, Closed, []) | Serving s \<Rightarrow> leave s sv | _ \<Rightarrow> (sv, stage, []))
      | TickDue \<Rightarrow> (case stage of Serving s \<Rightarrow> handle_ping_tick ev now mt s sv | _ \<Rightarrow> (sv, stage, []))
      | Command c \<Rightarrow>
          (case stage of Serving s \<Rightarrow> handle_session_command ev now mt c s sv | _ \<Rightarrow> (sv, stage, []))
      | Decided d \<Rightarrow>
          (case stage of
             Billing s \<Rightarrow>
               if \<not> is_holder s sv then leave s sv
               else (case d of
                       Hold \<Rightarrow> (sv, Serving s, [])
                     | Apply rate \<Rightarrow>
                         (let (lp, msgs) = maybe_send_network_throttle (as_agent_protocol_version s) rate (as_loop s)
                          in (sv, Serving (s\<lparr>as_loop := lp\<rparr>), msgs)))
           | _ \<Rightarrow> (sv, stage, [])))"

end
