(* ===== verification/AgentClient.thy ===== *)
theory AgentClient
  imports AgentSession "HOL-Library.Sublist"
begin

text \<open>
  The Agent's side of the session (\<open>nodelite-agent/src/session.rs\<close>, \<open>session/connection.rs\<close>): the buffer of
  its runtime log, the reconnect policy, what it does with the server's messages, and the token in its
  configuration file (\<open>config_io.rs\<close>). \<open>toml_edit\<close> is not modelled: the file is the token it holds. A file
  that was renamed but whose directory is not yet synchronised may fall back to an older one when the
  power fails. Traffic control, updates and metrics are other components.
\<close>

section \<open>The log buffer\<close>

definition MAX_PENDING_AGENT_LOGS :: nat where
  "MAX_PENDING_AGENT_LOGS = 256"

definition MAX_AGENT_LOG_BATCH :: nat where
  "MAX_AGENT_LOG_BATCH = 32"

definition MAX_AGENT_LOG_MESSAGE_BYTES :: nat where
  "MAX_AGENT_LOG_MESSAGE_BYTES = 240"

type_synonym agent_log_buffer = "agent_log_entry list"

definition trim_overflow :: "agent_log_buffer \<Rightarrow> agent_log_buffer" where
  "trim_overflow entries = drop (length entries - MAX_PENDING_AGENT_LOGS) entries"

definition push_log :: "datetime \<Rightarrow> notice_level \<Rightarrow> string \<Rightarrow> agent_log_buffer \<Rightarrow> agent_log_buffer" where
  "push_log now level msg entries =
     (let msg = str_trim (truncate_to_byte_boundary msg MAX_AGENT_LOG_MESSAGE_BYTES) in
      if msg = [] then entries
      else trim_overflow (entries @ [\<lparr>le_occurred_at = now, le_level = level, le_message = msg\<rparr>]))"

definition peek_batch :: "agent_log_buffer \<Rightarrow> agent_log_entry list" where
  "peek_batch entries = take MAX_AGENT_LOG_BATCH entries"

definition discard_sent :: "nat \<Rightarrow> agent_log_buffer \<Rightarrow> agent_log_buffer" where
  "discard_sent count entries = drop count entries"

lemma peek_batch_nonempty: "entries \<noteq> [] \<Longrightarrow> 0 < length (peek_batch entries)"
  by (cases entries) (simp_all add: peek_batch_def MAX_AGENT_LOG_BATCH_def)

text \<open>\<open>sends\<close> tells for each message whether it is sent; the loop ends at the first that is not.\<close>

function flush_agent_logs ::
  "(nat \<Rightarrow> bool) \<Rightarrow> nat \<Rightarrow> agent_log_buffer \<Rightarrow> wire_message list \<times> agent_log_buffer \<times> bool" where
  "flush_agent_logs sends i entries =
     (if entries = [] then ([], entries, True)
      else if \<not> sends i then ([], entries, False)
      else
        let batch = peek_batch entries;
            (msgs, rest, ok) = flush_agent_logs sends (Suc i) (discard_sent (length batch) entries)
        in (AgentLogs None batch # msgs, rest, ok))"
  by pat_completeness auto

termination
  by (relation "measure (\<lambda>(sends, i, entries). length entries)")
    (auto simp: discard_sent_def peek_batch_def MAX_AGENT_LOG_BATCH_def)

declare flush_agent_logs.simps [simp del]

section \<open>Reconnecting\<close>

text \<open>In milliseconds; \<open>random\<close> is the sample, if the system gave one.\<close>

definition reconnect_delay :: "u32 \<Rightarrow> u64 option \<Rightarrow> u64" where
  "reconnect_delay attempt random =
     (let (floor_secs, ceiling_secs) =
            (if attempt = 0 then (1, 5) else if attempt = 1 then (2, 10) else if attempt = 2 then (5, 20)
             else if attempt = 3 then (10, 40) else if attempt = 4 then (15, 60) else (30, 120));
          floor_ms = sat_mul floor_secs 1000; ceiling_ms = sat_mul ceiling_secs 1000;
          span_ms = sat_sub ceiling_ms floor_ms;
          jitter_ms = (case random of None \<Rightarrow> span_ms | Some value \<Rightarrow> value mod (sat_add span_ms 1))
      in sat_add floor_ms jitter_ms)"

definition TOKEN_EXPIRED_SHORT_RETRY_DELAYS :: "u64 list" where
  "TOKEN_EXPIRED_SHORT_RETRY_DELAYS = [30000, 120000, 300000]"

definition TOKEN_EXPIRED_LONG_RECONNECT_DELAY :: u64 where
  "TOKEN_EXPIRED_LONG_RECONNECT_DELAY = 3600000"

definition token_expired_reconnect_delay :: "u32 \<Rightarrow> u64" where
  "token_expired_reconnect_delay attempt =
     (if unat attempt < length TOKEN_EXPIRED_SHORT_RETRY_DELAYS
      then TOKEN_EXPIRED_SHORT_RETRY_DELAYS ! unat attempt else TOKEN_EXPIRED_LONG_RECONNECT_DELAY)"

record session_error =
  se_established_session :: bool
  se_token_expired :: bool

record reconnect_state =
  rc_reconnect_attempt :: u32
  rc_token_expired_attempt :: u32

definition reconnect_start :: reconnect_state where
  "reconnect_start = \<lparr>rc_reconnect_attempt = 0, rc_token_expired_attempt = 0\<rparr>"

text \<open>One iteration of \<open>run_forever\<close> after its session ended: the wait and the counters after it.\<close>

definition after_session ::
  "session_error option \<Rightarrow> u64 option \<Rightarrow> reconnect_state \<Rightarrow> u64 \<times> reconnect_state" where
  "after_session result random rc =
     (case result of
        None \<Rightarrow> (0, reconnect_start)
      | Some e \<Rightarrow>
          (let rc = (if se_established_session e then reconnect_start else rc) in
           if se_token_expired e
           then (token_expired_reconnect_delay (rc_token_expired_attempt rc),
                 \<lparr>rc_reconnect_attempt = 0,
                  rc_token_expired_attempt = sat_add (rc_token_expired_attempt rc) 1\<rparr>)
           else (reconnect_delay (rc_reconnect_attempt rc) random,
                 \<lparr>rc_reconnect_attempt = sat_add (rc_reconnect_attempt rc) 1, rc_token_expired_attempt = 0\<rparr>)))"

definition server_notice_reports_token_expired :: "notice_level \<Rightarrow> notice_code option \<Rightarrow> string \<Rightarrow> bool" where
  "server_notice_reports_token_expired level code msg \<longleftrightarrow>
     level = NoticeError \<and>
     (case code of
        Some c \<Rightarrow> c = TokenExpiredNotice
      | None \<Rightarrow> str_contains ''token expired'' msg)"

section \<open>The Agent and its token\<close>

text \<open>A token on its way to the disk: the session and the refresh id to answer, unless the session was
  cancelled, and whether the file has been renamed.\<close>

record token_write =
  tw_token :: string
  tw_expires_at :: datetime
  tw_reply :: "(nat \<times> string option) option"
  tw_renamed :: bool

text \<open>\<open>ag_config\<close> is the token in memory, \<open>ag_file\<close> the one in the file, \<open>ag_fallback\<close> what the disk may
  fall back to; \<open>ag_link\<close> is the connection.\<close>

record agent =
  ag_config :: string
  ag_file :: string
  ag_fallback :: "string list"
  ag_link :: "nat option"
  ag_authenticated :: bool
  ag_update_protocol :: bool
  ag_write :: "token_write option"

definition agent_start :: "string \<Rightarrow> agent" where
  "agent_start token =
     \<lparr>ag_config = token, ag_file = token, ag_fallback = [], ag_link = None, ag_authenticated = False,
      ag_update_protocol = False, ag_write = None\<rparr>"

text \<open>A session ends: a write goes on without it.\<close>

definition drop_session :: "agent \<Rightarrow> agent" where
  "drop_session a =
     a\<lparr>ag_link := None, ag_authenticated := False,
       ag_write := map_option (tw_reply_update (\<lambda>_. None)) (ag_write a)\<rparr>"

text \<open>\<open>load_agent_config\<close> synchronises the file and its directory before the token is used.\<close>

definition load_agent_config :: "agent \<Rightarrow> agent" where
  "load_agent_config a = a\<lparr>ag_config := ag_file a, ag_fallback := []\<rparr>"

text \<open>\<open>run_session\<close>: the saved token if the configuration can be loaded, which waits for a write.\<close>

definition open_session :: "bool \<Rightarrow> nat \<Rightarrow> agent \<Rightarrow> agent" where
  "open_session loads link a =
     (let a = (if loads then load_agent_config a else a)
      in a\<lparr>ag_link := Some link, ag_authenticated := False, ag_update_protocol := False\<rparr>)"

definition agent_hello :: "node_identity \<Rightarrow> agent \<Rightarrow> wire_message" where
  "agent_hello identity a =
     Hello \<lparr>hl_supports_agent_updates = True, hl_supports_token_refresh_ack = True,
            hl_supports_metrics_zlib = True, hl_protocol_version = WIRE_PROTOCOL_VERSION,
            hl_token = ag_config a, hl_identity = identity\<rparr>"

definition receive_notice :: "notice_level \<Rightarrow> notice_code option \<Rightarrow> string \<Rightarrow> agent \<Rightarrow> agent" where
  "receive_notice level code msg a =
     (if ag_authenticated a \<and> code = Some AgentUpdatesV1 then a\<lparr>ag_update_protocol := True\<rparr>
      else
        let a = (if \<not> ag_authenticated a \<and> level = NoticeInfo \<and> msg = ''authenticated''
                 then a\<lparr>ag_authenticated := True\<rparr> else a)
        in if server_notice_reports_token_expired level code msg then drop_session a else a)"

definition receive_refresh :: "string option \<Rightarrow> string \<Rightarrow> datetime \<Rightarrow> agent \<Rightarrow> agent" where
  "receive_refresh refresh_id new_token expires_at a =
     (if \<not> ag_authenticated a then drop_session a
      else a\<lparr>ag_write := Some \<lparr>tw_token = new_token, tw_expires_at = expires_at,
               tw_reply = map_option (\<lambda>link. (link, refresh_id)) (ag_link a), tw_renamed = False\<rparr>\<rparr>)"

text \<open>\<open>handle_wire\<close>: the Agent afterwards and its answers; the reports of updates and of traffic control
  are sent by other components.\<close>

fun agent_receive :: "wire_message \<Rightarrow> agent \<Rightarrow> agent \<times> wire_message list" where
  "agent_receive (Ping nonce) a = (a, [Pong nonce])"
| "agent_receive (ServerNotice level code msg) a = (receive_notice level code msg a, [])"
| "agent_receive (RefreshTokenResponse refresh_id new_token expires_at) a =
     (receive_refresh refresh_id new_token expires_at a, [])"
| "agent_receive (NetworkThrottle rate) a = (a, [])"
| "agent_receive (AgentUpdateRequest q) a =
     (if ag_authenticated a \<and> ag_update_protocol a then (a, []) else (drop_session a, []))"
| "agent_receive _ a = (drop_session a, [])"

text \<open>\<open>persist_token_with_sync\<close> in two steps: up to the renaming, and the synchronisation of the directory.
  Then the session, if it still lives, takes the token over and acknowledges.\<close>

definition finish_write :: "bool \<Rightarrow> token_write \<Rightarrow> agent \<Rightarrow> agent \<times> wire_message list" where
  "finish_write persisted w a =
     (let a = a\<lparr>ag_write := None\<rparr> in
      case tw_reply w of
        None \<Rightarrow> (a, [])
      | Some (link, refresh_id) \<Rightarrow>
          (if persisted then a\<lparr>ag_config := tw_token w\<rparr> else a,
           case refresh_id of None \<Rightarrow> [] | Some i \<Rightarrow> [RefreshTokenAck i persisted]))"

definition advance_write :: "bool \<Rightarrow> agent \<Rightarrow> agent \<times> wire_message list" where
  "advance_write ok a =
     (case ag_write a of
        None \<Rightarrow> (a, [])
      | Some w \<Rightarrow>
          if \<not> ok then finish_write False w a
          else if \<not> tw_renamed w
          then (a\<lparr>ag_file := tw_token w, ag_fallback := ag_file a # ag_fallback a,
                  ag_write := Some (w\<lparr>tw_renamed := True\<rparr>)\<rparr>, [])
          else finish_write True w (a\<lparr>ag_fallback := []\<rparr>))"

text \<open>The process or the host restarts; after a power failure the file may be an older one.\<close>

definition agent_restart :: "nat \<Rightarrow> agent \<Rightarrow> agent" where
  "agent_restart k a =
     (let file = (if k < length (ag_fallback a) then ag_fallback a ! k else ag_file a)
      in load_agent_config (drop_session (a\<lparr>ag_file := file, ag_write := None\<rparr>)))"

text \<open>The tokens the Agent may present from now on, whatever fails.\<close>

definition agent_tokens :: "agent \<Rightarrow> string list" where
  "agent_tokens a = ag_config a # ag_file a # ag_fallback a"

section \<open>What the buffer keeps\<close>

datatype log_event = Pushed datetime notice_level string | Flushed "nat \<Rightarrow> bool"

text \<open>The entries that passed the filter, those in sent messages, and the buffer.\<close>

type_synonym log_run = "agent_log_entry list \<times> agent_log_entry list \<times> agent_log_buffer"

definition accepted_entry :: "datetime \<Rightarrow> notice_level \<Rightarrow> string \<Rightarrow> agent_log_entry list" where
  "accepted_entry now level msg =
     (let msg = str_trim (truncate_to_byte_boundary msg MAX_AGENT_LOG_MESSAGE_BYTES) in
      if msg = [] then [] else [\<lparr>le_occurred_at = now, le_level = level, le_message = msg\<rparr>])"

fun log_entries :: "wire_message \<Rightarrow> agent_log_entry list" where
  "log_entries (AgentLogs tc entries) = entries"
| "log_entries _ = []"

fun log_step :: "log_event \<Rightarrow> log_run \<Rightarrow> log_run" where
  "log_step (Pushed now level msg) (accepted, sent, buffer) =
     (accepted @ accepted_entry now level msg, sent, push_log now level msg buffer)"
| "log_step (Flushed sends) (accepted, sent, buffer) =
     (let (msgs, buffer, ok) = flush_agent_logs sends 0 buffer
      in (accepted, sent @ concat (map log_entries msgs), buffer))"

lemma flush_splits:
  "flush_agent_logs sends i entries = (msgs, rest, ok) \<Longrightarrow>
    entries = concat (map log_entries msgs) @ rest \<and> (\<forall>m\<in>set msgs. length (log_entries m) \<le> MAX_AGENT_LOG_BATCH)"
proof (induction sends i entries arbitrary: msgs rest ok rule: flush_agent_logs.induct)
  case (1 sends i entries)
  show ?case
  proof (cases "entries = [] \<or> \<not> sends i")
    case True
    then show ?thesis
      using "1.prems" by (auto simp: flush_agent_logs.simps [of sends i entries] split: if_splits)
  next
    case False
    obtain ms r b where rec: "flush_agent_logs sends (Suc i) (discard_sent (length (peek_batch entries)) entries) = (ms, r, b)"
      using prod_cases3 by blast
    have f: "msgs = AgentLogs None (peek_batch entries) # ms" "rest = r"
      using "1.prems" False rec by (auto simp: flush_agent_logs.simps [of sends i entries] Let_def)
    have "discard_sent (length (peek_batch entries)) entries = concat (map log_entries ms) @ r \<and>
        (\<forall>m\<in>set ms. length (log_entries m) \<le> MAX_AGENT_LOG_BATCH)"
      using "1.IH" [OF _ _ refl rec] False by auto
    moreover have "peek_batch entries @ discard_sent (length (peek_batch entries)) entries = entries"
      by (simp add: peek_batch_def discard_sent_def min_def)
    ultimately show ?thesis
      using f by (auto simp: peek_batch_def)
  qed
qed

text \<open>What the calls of a run had to evict, oldest first, because 256 entries were already pending.\<close>

fun overflowed :: "log_event list \<Rightarrow> log_run \<Rightarrow> agent_log_entry list" where
  "overflowed [] run = []"
| "overflowed (e # es) run =
     (case (e, run) of
        (Pushed now level msg, accepted, sent, buffer) \<Rightarrow>
          (let pending = buffer @ accepted_entry now level msg
           in take (length pending - MAX_PENDING_AGENT_LOGS) pending)
      | (Flushed sends, _) \<Rightarrow> []) @ overflowed es (log_step e run)"

lemma append_in_shuffles: "xs @ ys \<in> shuffles xs ys" "ys @ xs \<in> shuffles xs ys"
proof -
  show "xs @ ys \<in> shuffles xs ys" for xs ys :: "'a list"
    by (induction xs) (cases ys; auto)+
  then show "ys @ xs \<in> shuffles xs ys"
    by (metis shuffles_commutes)
qed

lemma shuffles_snoc: "front \<in> shuffles xs ys \<Longrightarrow> front @ zs \<in> shuffles (xs @ zs) ys \<and> front @ zs \<in> shuffles xs (ys @ zs)"
proof (induction xs ys arbitrary: front rule: shuffles.induct)
  case (3 x xs y ys)
  then show ?case
    by (auto simp: image_iff)
qed (auto intro: append_in_shuffles)

definition log_inv :: "agent_log_entry list \<Rightarrow> log_run \<Rightarrow> bool" where
  "log_inv lost run \<longleftrightarrow>
     (case run of (accepted, sent, buffer) \<Rightarrow>
        length buffer \<le> MAX_PENDING_AGENT_LOGS \<and> (\<exists>front. front \<in> shuffles sent lost \<and> accepted = front @ buffer))"

lemma log_step_inv:
  assumes "log_inv lost run"
  shows "log_inv (lost @ overflowed [e] run) (log_step e run)"
proof -
  obtain accepted sent buffer front where run: "run = (accepted, sent, buffer)" "front \<in> shuffles sent lost"
      "accepted = front @ buffer" "length buffer \<le> MAX_PENDING_AGENT_LOGS"
    using assms by (auto simp: log_inv_def)
  show ?thesis
  proof (cases e)
    case (Pushed now level msg)
    define p where "p = buffer @ accepted_entry now level msg"
    define d where "d = take (length p - MAX_PENDING_AGENT_LOGS) p"
    have push: "push_log now level msg buffer = trim_overflow p"
      using run(4) by (simp add: p_def push_log_def accepted_entry_def trim_overflow_def Let_def)
    have "accepted @ accepted_entry now level msg = (front @ d) @ trim_overflow p"
      using run(3) by (simp add: d_def p_def trim_overflow_def del: take_append drop_append)
    moreover have "length (trim_overflow p) \<le> MAX_PENDING_AGENT_LOGS"
      by (simp add: trim_overflow_def)
    moreover have "overflowed [e] run = d"
      using Pushed run(1) by (simp add: d_def p_def Let_def)
    ultimately show ?thesis
      using Pushed run(1) push shuffles_snoc [OF run(2), of d] by (auto simp: log_inv_def simp del: overflowed.simps)
  next
    case (Flushed sends)
    obtain msgs rest ok where f: "flush_agent_logs sends 0 buffer = (msgs, rest, ok)"
      using prod_cases3 by blast
    have "buffer = concat (map log_entries msgs) @ rest"
      using flush_splits [OF f] by simp
    then show ?thesis
      using Flushed run f shuffles_snoc [OF run(2), of "concat (map log_entries msgs)"] by (auto simp: log_inv_def)
  qed
qed

lemma overflowed_Cons: "overflowed (e # es) run = overflowed [e] run @ overflowed es (log_step e run)"
  by simp

lemma log_run_inv: "log_inv lost run \<Longrightarrow> log_inv (lost @ overflowed es run) (fold log_step es run)"
proof (induction es arbitrary: lost run)
  case (Cons e es)
  then show ?case
    using Cons.IH [OF log_step_inv [OF Cons.prems]] by (subst overflowed_Cons) (simp del: overflowed.simps)
qed simp

lemma flush_all: "flush_agent_logs sends i entries = (msgs, rest, ok) \<Longrightarrow> sends = (\<lambda>_. True) \<Longrightarrow> rest = [] \<and> ok"
proof (induction sends i entries arbitrary: msgs rest ok rule: flush_agent_logs.induct)
  case (1 sends i entries)
  show ?case
  proof (cases "entries = []")
    case True
    then show ?thesis
      using "1.prems"(1) by (simp add: flush_agent_logs.simps [of sends i "[]"])
  next
    case False
    obtain ms r b where rec: "flush_agent_logs sends (Suc i) (discard_sent (length (peek_batch entries)) entries) = (ms, r, b)"
      using prod_cases3 by blast
    have "r = [] \<and> b"
      using "1.IH" [OF False _ refl rec] "1.prems"(2) by simp
    then show ?thesis
      using "1.prems"(1) "1.prems"(2) [THEN fun_cong, of i] False rec
      by (simp add: flush_agent_logs.simps [of sends i entries] Let_def)
  qed
qed

text \<open>C38: No log entry is lost but the oldest of an overflow. Over every run of log calls and flushes, whenever
  sending fails, the accepted entries are the buffer, preceded by the sent and the evicted entries, each of the
  two in the order of the calls, nothing missing and nothing twice; an entry is evicted only by a call that
  finds 256 pending; and a flush whose messages are all sent delivers the whole buffer.\<close>

theorem agent_logs_in_order:
  "let (accepted, sent, buffer) = fold log_step es ([], [], []);
       (msgs, rest, ok) = flush_agent_logs (\<lambda>_. True) 0 buffer
   in length buffer \<le> MAX_PENDING_AGENT_LOGS \<and>
      (\<exists>front. front \<in> shuffles sent (overflowed es ([], [], [])) \<and> accepted = front @ buffer) \<and>
      rest = [] \<and> ok \<and> concat (map log_entries msgs) = buffer"
proof -
  obtain accepted sent buffer where run: "fold log_step es ([], [], []) = (accepted, sent, buffer)"
    using prod_cases3 by blast
  obtain msgs rest ok where f: "flush_agent_logs (\<lambda>_. True) 0 buffer = (msgs, rest, ok)"
    using prod_cases3 by blast
  have "log_inv (overflowed es ([], [], [])) (accepted, sent, buffer)"
    using log_run_inv [of "[]" "([], [], [])" es] run by (simp add: log_inv_def)
  then show ?thesis
    using flush_splits [OF f] flush_all [OF f] unfolding run prod.case Let_def f by (simp add: log_inv_def)
qed

end
