(* ===== verification/Renewal.thy ===== *)
theory Renewal
  imports AgentClient
begin

text \<open>
  The renewal of a credential from end to end: one Agent with its disk, any number of connections, the
  registry entry of its node on disk and in memory, and everything that may happen between two steps -
  lost connections, late frames of old ones, failing writes on either side, restarts of either side, power
  failures of the Agent's host, edits of the entry, sweeps of silent sessions. Whatever happens, the token
  the Agent will present next is accepted until it expires.
\<close>

section \<open>The world\<close>

record connection =
  cn_stage :: server_stage
  cn_up :: "wire_message list"
  cn_down :: "wire_message list"

text \<open>\<open>rw_prompt\<close> is a history variable: no handshake has looked its candidate up after the token it verified
  had expired.\<close>

record renewal_world =
  rw_server :: node_server
  rw_conns :: "connection list"
  rw_agent :: agent
  rw_now :: datetime
  rw_mt :: instant
  rw_prompt :: bool

datatype renewal_event =
    AgentConnects bool node_identity
  | AgentReceives
  | AgentWrites bool
  | AgentSays wire_message
  | AgentDrops
  | AgentRestarts nat
  | Deliver nat
  | Serve nat server_input
  | EditMetadata metadata_patch
  | EditLocation "geoip_location option"
  | ReloadRegistry
  | OtherNodeChanged
  | SweepStale
  | ServerRestarts
  | TimePasses nat

definition receives :: "server_stage \<Rightarrow> bool" where
  "receives stage \<longleftrightarrow> (case stage of AwaitHello \<Rightarrow> True | Serving s \<Rightarrow> True | _ \<Rightarrow> False)"

definition post :: "wire_message list \<Rightarrow> agent \<Rightarrow> connection list \<Rightarrow> connection list" where
  "post msgs a conns =
     (case ag_link a of
        None \<Rightarrow> conns
      | Some c \<Rightarrow> if c < length conns then conns[c := (conns ! c)\<lparr>cn_up := cn_up (conns ! c) @ msgs\<rparr>] else conns)"

definition serve_connection ::
  "session_env \<Rightarrow> nat \<Rightarrow> server_input \<Rightarrow> renewal_world \<Rightarrow> renewal_world" where
  "serve_connection ev c input w =
     (let cn = rw_conns w ! c;
          (sv, stage, msgs) = serve ev (rw_now w) (rw_mt w) input (cn_stage cn) (rw_server w);
          late = (case (input, cn_stage cn) of
            (Run _, Activating h a) \<Rightarrow>
              (case an_token_expires_at a of None \<Rightarrow> False | Some e \<Rightarrow> e \<le> rw_now w)
          | _ \<Rightarrow> False)
      in w\<lparr>rw_server := sv, rw_conns := (rw_conns w)[c := cn\<lparr>cn_stage := stage, cn_down := cn_down cn @ msgs\<rparr>],
           rw_prompt := rw_prompt w \<and> \<not> late\<rparr>)"

definition append_version :: "registered_node \<Rightarrow> node_server \<Rightarrow> node_server" where
  "append_version n sv = sv\<lparr>sv_versions := sv_versions sv @ [n]\<rparr>"

definition reload_memory :: "node_server \<Rightarrow> node_server" where
  "reload_memory sv = apply_version (length (sv_versions sv) - 1) sv"

fun renewal_step :: "session_env \<Rightarrow> renewal_event \<Rightarrow> renewal_world \<Rightarrow> renewal_world" where
  "renewal_step ev (AgentConnects loads identity) w =
     (if ag_link (rw_agent w) \<noteq> None \<or> ag_write (rw_agent w) \<noteq> None then w
      else
        let a = open_session loads (length (rw_conns w)) (rw_agent w)
        in w\<lparr>rw_agent := a,
             rw_conns := rw_conns w @ [\<lparr>cn_stage = AwaitHello, cn_up = [agent_hello identity a], cn_down = []\<rparr>]\<rparr>)"
| "renewal_step ev AgentReceives w =
     (case ag_link (rw_agent w) of
        None \<Rightarrow> w
      | Some c \<Rightarrow>
          if ag_write (rw_agent w) \<noteq> None \<or> length (rw_conns w) \<le> c then w
          else case cn_down (rw_conns w ! c) of
            [] \<Rightarrow> w
          | m # ms \<Rightarrow>
              (let (a, msgs) = agent_receive m (rw_agent w);
                   conns = (rw_conns w)[c := (rw_conns w ! c)\<lparr>cn_down := ms\<rparr>]
               in w\<lparr>rw_agent := a, rw_conns := post msgs (rw_agent w) conns\<rparr>))"
| "renewal_step ev (AgentWrites ok) w =
     (let (a, msgs) = advance_write ok (rw_agent w)
      in w\<lparr>rw_agent := a, rw_conns := post msgs (rw_agent w) (rw_conns w)\<rparr>)"
| "renewal_step ev (AgentSays m) w = w\<lparr>rw_conns := post [m] (rw_agent w) (rw_conns w)\<rparr>"
| "renewal_step ev AgentDrops w = w\<lparr>rw_agent := drop_session (rw_agent w)\<rparr>"
| "renewal_step ev (AgentRestarts k) w = w\<lparr>rw_agent := agent_restart k (rw_agent w)\<rparr>"
| "renewal_step ev (Deliver c) w =
     (if c < length (rw_conns w) \<and> receives (cn_stage (rw_conns w ! c))
      then case cn_up (rw_conns w ! c) of
             [] \<Rightarrow> w
           | m # ms \<Rightarrow>
               serve_connection ev c (Frame m)
                 (w\<lparr>rw_conns := (rw_conns w)[c := (rw_conns w ! c)\<lparr>cn_up := ms\<rparr>]\<rparr>)
      else w)"
| "renewal_step ev (Serve c input) w = (if c < length (rw_conns w) then serve_connection ev c input w else w)"
| "renewal_step ev (EditMetadata patch) w =
     w\<lparr>rw_server := append_version (patch_node patch (latest_entry (rw_server w))) (rw_server w)\<rparr>"
| "renewal_step ev (EditLocation loc) w =
     w\<lparr>rw_server := append_version (set_location loc (latest_entry (rw_server w))) (rw_server w)\<rparr>"
| "renewal_step ev ReloadRegistry w = w\<lparr>rw_server := reload_memory (rw_server w)\<rparr>"
| "renewal_step ev OtherNodeChanged w = w\<lparr>rw_server := (rw_server w)\<lparr>sv_revision := sv_revision (rw_server w) + 1\<rparr>\<rparr>"
| "renewal_step ev SweepStale w = w\<lparr>rw_server := (rw_server w)\<lparr>sv_holder := None\<rparr>\<rparr>"
| "renewal_step ev ServerRestarts w =
     w\<lparr>rw_server := (rw_server w)\<lparr>sv_memory := length (sv_versions (rw_server w)) - 1, sv_revision := 1,
         sv_holder := None, sv_next_session := 1\<rparr>,
       rw_conns := map (\<lambda>cn. cn\<lparr>cn_stage := Closed, cn_up := []\<rparr>) (rw_conns w)\<rparr>"
| "renewal_step ev (TimePasses n) w = w\<lparr>rw_now := rw_now w + int n, rw_mt := rw_mt w + n\<rparr>"

text \<open>Frames reach the server through a queue only; besides its hello and its acknowledgements the Agent sends
  reports and requests.\<close>

fun renewal_event_ok :: "renewal_event \<Rightarrow> bool" where
  "renewal_event_ok (Serve c input) = (case input of Frame m \<Rightarrow> False | _ \<Rightarrow> True)"
| "renewal_event_ok (AgentSays m) = (case m of Hello h \<Rightarrow> False | RefreshTokenAck i p \<Rightarrow> False | _ \<Rightarrow> True)"
| "renewal_event_ok _ = True"

definition server_start :: "registered_node \<Rightarrow> node_server" where
  "server_start n =
     \<lparr>sv_versions = [n], sv_memory = 0, sv_revision = 1, sv_holder = None, sv_next_session = 1, sv_drawn = []\<rparr>"

definition renewal_start :: "registered_node \<Rightarrow> string \<Rightarrow> datetime \<Rightarrow> renewal_world" where
  "renewal_start n token now =
     \<lparr>rw_server = server_start n, rw_conns = [], rw_agent = agent_start token, rw_now = now, rw_mt = 0,
      rw_prompt = True\<rparr>"

text \<open>The tokens handed out, with their expiry.\<close>

definition credentials :: "string \<Rightarrow> datetime \<Rightarrow> node_server \<Rightarrow> (string \<times> datetime) list" where
  "credentials token expires_at sv = (token, expires_at) # map (\<lambda>p. (pp_token p, pp_expires_at p)) (sv_drawn sv)"

end
