(* ===== verification/RenewalInvariant.thy ===== *)
theory RenewalInvariant
  imports Renewal
begin

text \<open>
  The token the Agent presents next is accepted until it expires. What makes a commit safe is that nobody
  asks for it unless the Agent holds that token and no other can reach it any more; the invariant says who
  may ask (the \<^emph>\<open>claims\<close>), which tokens the Agent holds or may still be given (the \<^emph>\<open>tracked\<close> ones), and
  that they are known in every version of the entry from the one in memory on.
\<close>

section \<open>Entries\<close>

text \<open>No token and no refresh id was drawn twice.\<close>

definition drawn_ok :: "string \<Rightarrow> prepared_token list \<Rightarrow> bool" where
  "drawn_ok token d \<longleftrightarrow> distinct (token # map pp_token d) \<and> distinct (map pp_refresh_id d)"

lemma drawn_unique:
  assumes "drawn_ok token d" and "p \<in> set d" and "q \<in> set d"
  shows "pp_token p = pp_token q \<Longrightarrow> p = q" and "pp_refresh_id p = pp_refresh_id q \<Longrightarrow> p = q"
    and "pp_token p \<noteq> token"
  using assms by (auto simp: drawn_ok_def distinct_map inj_on_def)

definition describes :: "argon2 \<Rightarrow> pending_token \<Rightarrow> prepared_token \<Rightarrow> bool" where
  "describes cr q p \<longleftrightarrow>
     pt_refresh_id q = pp_refresh_id p \<and> pt_generation q = pp_generation p \<and> pt_expires_at q = pp_expires_at p \<and>
     pt_token_hash q \<noteq> [] \<and> (\<forall>t. argon_verify cr t (pt_token_hash q) \<longleftrightarrow> t = pp_token p)"

definition pends :: "argon2 \<Rightarrow> registered_node \<Rightarrow> prepared_token \<Rightarrow> bool" where
  "pends cr n p \<longleftrightarrow> (\<exists>q\<in>set (rn_pending_tokens n). describes cr q p)"

text \<open>The current token is the first one or a candidate that was committed.\<close>

definition current_ok :: "argon2 \<Rightarrow> string \<Rightarrow> datetime \<Rightarrow> prepared_token list \<Rightarrow> registered_node \<Rightarrow> bool" where
  "current_ok cr token expires d n \<longleftrightarrow> rn_token_hash n \<noteq> [] \<and>
     ((\<forall>t. argon_verify cr t (rn_token_hash n) \<longleftrightarrow> t = token) \<and> rn_token_expires_at n = Some expires \<or>
      (\<exists>p\<in>set d. (\<forall>t. argon_verify cr t (rn_token_hash n) \<longleftrightarrow> t = pp_token p) \<and>
         rn_token_expires_at n = Some (pp_expires_at p) \<and> rn_token_generation n = pp_generation p))"

text \<open>The previous token was current before.\<close>

definition previous_ok :: "argon2 \<Rightarrow> string \<Rightarrow> prepared_token list \<Rightarrow> registered_node \<Rightarrow> bool" where
  "previous_ok cr token d n \<longleftrightarrow> rn_previous_token_hash n = [] \<or>
     (\<forall>t. argon_verify cr t (rn_previous_token_hash n) \<longleftrightarrow> t = token) \<or>
     (\<exists>p\<in>set d. (\<forall>t. argon_verify cr t (rn_previous_token_hash n) \<longleftrightarrow> t = pp_token p) \<and>
        pp_generation p \<le> rn_token_generation n)"

definition entry_well :: "argon2 \<Rightarrow> string \<Rightarrow> datetime \<Rightarrow> prepared_token list \<Rightarrow> registered_node \<Rightarrow> bool" where
  "entry_well cr token expires d n \<longleftrightarrow>
     current_ok cr token expires d n \<and> previous_ok cr token d n \<and>
     (\<forall>q\<in>set (rn_pending_tokens n). (\<exists>p\<in>set d. describes cr q p) \<and> rn_token_generation n < pt_generation q) \<and>
     distinct (map pt_generation (rn_pending_tokens n)) \<and>
     (case rn_previous_token_generation n of None \<Rightarrow> True | Some g \<Rightarrow> g \<le> rn_token_generation n)"

text \<open>Token \<open>t\<close> with expiry \<open>e\<close> is accepted by the entry, as the current or a pending one.\<close>

definition accepts :: "argon2 \<Rightarrow> string \<Rightarrow> datetime \<Rightarrow> registered_node \<Rightarrow> bool" where
  "accepts cr t e n \<longleftrightarrow>
     argon_verify cr t (rn_token_hash n) \<and> rn_token_expires_at n = Some e \<or>
     (\<exists>q\<in>set (rn_pending_tokens n). argon_verify cr t (pt_token_hash q) \<and> pt_expires_at q = e)"

text \<open>A candidate still waits in the entry, or a commit has passed it, or it has expired.\<close>

definition placed :: "argon2 \<Rightarrow> datetime \<Rightarrow> prepared_token \<Rightarrow> registered_node \<Rightarrow> bool" where
  "placed cr now p n \<longleftrightarrow> pends cr n p \<or> pp_generation p \<le> rn_token_generation n \<or> pp_expires_at p \<le> now"

lemma entry_well_mono: "entry_well cr token e d n \<Longrightarrow> entry_well cr token e (d @ ds) n"
  unfolding entry_well_def current_ok_def previous_ok_def set_append by blast

lemma pends_settled: "entry_well cr token e d n \<Longrightarrow> pends cr n p \<Longrightarrow> rn_token_generation n < pp_generation p"
  by (auto simp: entry_well_def pends_def describes_def)

lemma entry_describes: "entry_well cr token e d n \<Longrightarrow> q \<in> set (rn_pending_tokens n) \<Longrightarrow> \<exists>p\<in>set d. describes cr q p"
  by (simp add: entry_well_def)

lemma describes_unique:
  assumes "entry_well cr token e d n" and "q \<in> set (rn_pending_tokens n)" and "describes cr q p"
    and "q' \<in> set (rn_pending_tokens n)" and "pt_generation q' = pp_generation p"
  shows "q' = q"
  using assms unfolding entry_well_def describes_def by (metis eq_key_imp_eq_value map_of_eq_Some_iff distinct_map inj_on_def)

text \<open>What the registry answers for an accepted token.\<close>

lemma match_pending_accepts:
  assumes "\<exists>q\<in>set qs. argon_verify cr t (pt_token_hash q) \<and> pt_expires_at q = e \<and> now < e"
    and "\<forall>q\<in>set qs. argon_verify cr t (pt_token_hash q) \<longrightarrow> pt_expires_at q = e"
  shows "\<exists>m. match_pending cr (\<lambda>_. now) i t qs = Some m \<and> mt_expires_at m = Some e"
  using assms by (induction qs arbitrary: i) auto

lemma accepts_matches:
  assumes "argon2_ok (ev_argon ev)" and "cr = ev_argon ev" and "drawn_ok token d" and "entry_well cr token e0 d n"
    and "accepts cr t e n" and "now < e" and "(t, e) \<in> set ((token, e0) # map (\<lambda>p. (pp_token p, pp_expires_at p)) d)"
  shows "\<exists>m. token_matches_entry cr (\<lambda>_. now) t n = Some m \<and> mt_expires_at m = Some e"
proof (cases "argon_verify cr t (rn_token_hash n)")
  case True
  have h: "rn_token_hash n \<noteq> []"
    using assms(4) by (simp add: entry_well_def current_ok_def)
  have "rn_token_expires_at n = Some e"
    using assms(4,7) True drawn_unique [OF assms(3)] unfolding entry_well_def current_ok_def
    by (auto; metis)
  then show ?thesis
    using True h by (simp add: token_matches_entry_def current_matches_def)
next
  case False
  then obtain q where q: "q \<in> set (rn_pending_tokens n)" "argon_verify cr t (pt_token_hash q)" "pt_expires_at q = e"
    using assms(5) by (auto simp: accepts_def)
  have "pt_expires_at q' = e" if "q' \<in> set (rn_pending_tokens n)" "argon_verify cr t (pt_token_hash q')" for q'
  proof -
    note mem = that
    obtain p where p: "p \<in> set d" "describes cr q p"
      using entry_describes [OF assms(4) q(1)] by blast
    obtain p' where p': "p' \<in> set d" "describes cr q' p'"
      using entry_describes [OF assms(4) mem(1)] by blast
    have "pp_token p = t" "pp_token p' = t"
      using p(2) p'(2) q(2) mem(2) by (auto simp: describes_def)
    then have "p = p'"
      using drawn_unique(1) [OF assms(3) p(1) p'(1)] by simp
    then show ?thesis
      using p(2) p'(2) q(3) by (simp add: describes_def)
  qed
  then obtain m where "match_pending cr (\<lambda>_. now) 0 t (rn_pending_tokens n) = Some m" "mt_expires_at m = Some e"
    using match_pending_accepts [of "rn_pending_tokens n" cr t e now 0] q assms(6) by blast
  moreover have "rn_token_hash n \<noteq> []"
    using assms(4) by (simp add: entry_well_def current_ok_def)
  ultimately show ?thesis
    using False by (simp add: token_matches_entry_def current_matches_def)
qed

text \<open>What a match tells.\<close>

lemma match_pending_some:
  "match_pending cr clock i t qs = Some m \<Longrightarrow>
    \<exists>q\<in>set qs. argon_verify cr t (pt_token_hash q) \<and> mt_generation m = pt_generation q \<and>
      mt_expires_at m = Some (pt_expires_at q)"
  by (induction cr clock i t qs rule: match_pending.induct) (auto split: if_splits)

lemma matched_token:
  assumes argon: "argon2_ok (ev_argon ev)" and draws: "drawn_ok token d" and cr: "cr = ev_argon ev"
    and well: "entry_well cr token e0 d n" and m: "token_matches_entry cr clock t n = Some m"
  shows "\<exists>e. mt_expires_at m = Some e \<and>
    ((\<exists>p\<in>set d. pp_token p = t \<and> mt_generation m = pp_generation p \<and> e = pp_expires_at p) \<or>
     mt_generation m \<le> rn_token_generation n \<and>
       (\<forall>p\<in>set d. pp_token p = t \<longrightarrow> pp_generation p \<le> rn_token_generation n))"
proof (cases "current_matches cr t n")
  case True
  have f: "mt_generation m = rn_token_generation n" "mt_expires_at m = rn_token_expires_at n"
    using m True by (auto simp: token_matches_entry_def)
  have h: "rn_token_hash n \<noteq> []" and c: "current_ok cr token e0 d n"
    using well by (auto simp: entry_well_def current_ok_def)
  then have v: "argon_verify cr t (rn_token_hash n)"
    using True by (simp add: current_matches_def)
  show ?thesis
  proof (cases "t = token")
    case True
    then have "\<forall>p\<in>set d. pp_token p \<noteq> t"
      using drawn_unique(3) [OF draws] by blast
    then show ?thesis
      using c f unfolding current_ok_def by auto
  next
    case False
    then show ?thesis
      using c v f unfolding current_ok_def by auto
  qed
next
  case False
  show ?thesis
  proof (cases "match_pending cr clock 0 t (rn_pending_tokens n)")
    case None
    then obtain g e where p: "rn_previous_token_hash n \<noteq> []" "argon_verify cr t (rn_previous_token_hash n)"
        "rn_previous_token_generation n = Some g" "m = \<lparr>mt_generation = g, mt_expires_at = Some e\<rparr>"
      using m False by (auto simp: token_matches_entry_def match_previous_def split: option.splits if_splits)
    have g: "g \<le> rn_token_generation n"
      using well p(3) by (simp add: entry_well_def)
    have "pp_generation q \<le> rn_token_generation n" if "q \<in> set d" "pp_token q = t" for q
    proof -
      note mem = that
      obtain p' where p': "p' \<in> set d" "pp_token p' = t" "pp_generation p' \<le> rn_token_generation n"
      proof -
        have "previous_ok cr token d n"
          using well by (simp add: entry_well_def)
        moreover have "t \<noteq> token"
          using drawn_unique(3) [OF draws mem(1) mem(1)] mem(2) by simp
        ultimately show ?thesis
          using p(1,2) that unfolding previous_ok_def by auto
      qed
      then have "p' = q"
        using drawn_unique(1) [OF draws p'(1) mem(1)] mem(2) by simp
      then show ?thesis
        using p'(3) by simp
    qed
    then show ?thesis
      using g p(4) by simp
  next
    case (Some m')
    then have "m' = m"
      using m False by (simp add: token_matches_entry_def)
    then obtain q where q: "q \<in> set (rn_pending_tokens n)" "argon_verify cr t (pt_token_hash q)"
        "mt_generation m = pt_generation q" "mt_expires_at m = Some (pt_expires_at q)"
      using match_pending_some [OF Some] by blast
    then obtain p where "p \<in> set d" "describes cr q p"
      using entry_describes [OF well] by blast
    then show ?thesis
      using q by (auto simp: describes_def)
  qed
qed

lemma material_matches:
  assumes "token_material_matches l r"
  shows "token_matches_entry cr clock t l = token_matches_entry cr clock t r"
proof -
  have "current_matches cr t l = current_matches cr t r" "match_previous cr now t l = match_previous cr now t r"
    "rn_pending_tokens l = rn_pending_tokens r" "rn_token_generation l = rn_token_generation r"
    "rn_token_expires_at l = rn_token_expires_at r" for now
    using assms by (simp_all add: token_material_matches_def current_matches_def match_previous_def cong: option.case_cong if_cong)
  then show ?thesis
    by (simp add: token_matches_entry_def cong: option.case_cong)
qed

section \<open>New versions\<close>

text \<open>Preparing: nothing but expired candidates is lost.\<close>

lemma prepared_version:
  assumes "argon2_ok (ev_argon ev)" and "cr = ev_argon ev" and "entry_well cr token e0 d n"
    and "prepare_node g (ev_token ev k) i (argon_hash cr salt (ev_token ev k)) now n = Inr (p, n')"
  shows "pp_token p = ev_token ev k \<and> pp_refresh_id p = i \<and> entry_well cr token e0 (d @ [p]) n' \<and> pends cr n' p \<and>
    rn_token_generation n' = rn_token_generation n \<and>
    (\<forall>t e. accepts cr t e n \<longrightarrow> accepts cr t e n' \<or> e \<le> now) \<and>
    (\<forall>q. pends cr n q \<longrightarrow> pends cr n' q \<or> pp_expires_at q \<le> now) \<and>
    accepts cr (pp_token p) (pp_expires_at p) n' \<and>
    (\<forall>q. pends cr n' q \<longrightarrow> pends cr n q \<or> pp_token q = pp_token p)"
proof -
  let ?q = "\<lparr>pt_refresh_id = i, pt_token_hash = argon_hash cr salt (ev_token ev k), pt_generation = pp_generation p,
    pt_expires_at = pp_expires_at p\<rparr>"
  note prep = prepare_node_result [OF assms(4)]
  have p: "pp_token p = ev_token ev k" "pp_refresh_id p = i"
    using assms(4) by (auto simp: prepare_node_def Let_def split: if_splits option.splits)
  have n': "n' = n\<lparr>rn_pending_tokens := live_pending now n @ [?q]\<rparr>"
    using prep p by (simp add: prepared_node_def)
  have v: "describes cr ?q p"
    using assms(1,2) p by (auto simp: describes_def argon2_ok_def)
  have g: "rn_token_generation n < pp_generation p" "\<forall>q\<in>set (live_pending now n). pt_generation q < pp_generation p"
    using next_generation_greater [of "n\<lparr>rn_pending_tokens := live_pending now n\<rparr>"] prep by auto
  have "distinct (map pt_generation (live_pending now n))"
    using assms(3) by (simp add: entry_well_def live_pending_def distinct_map_filter)
  moreover have "current_ok cr token e0 (d @ [p]) n'"
    using assms(3) unfolding n' by (auto simp: entry_well_def current_ok_def)
  moreover have "previous_ok cr token (d @ [p]) n'"
    using assms(3) unfolding n' by (auto simp: entry_well_def previous_ok_def)
  moreover have "\<exists>p\<in>set (d @ [p]). describes cr q p" "rn_token_generation n' < pt_generation q"
      if "q \<in> set (rn_pending_tokens n')" for q
    using that assms(3) v g(1) unfolding n' by (auto simp: entry_well_def live_pending_def)
  moreover have "pp_generation p \<notin> pt_generation ` set (live_pending now n)"
    using g(2) by auto
  ultimately have w: "entry_well cr token e0 (d @ [p]) n'"
    using assms(3) unfolding entry_well_def by (simp add: n' cong: option.case_cong)
  have vp: "describes cr ?q q \<Longrightarrow> pp_token q = pp_token p" for q
    using v by (auto simp: describes_def)
  have new: "pends cr n' p" "accepts cr (pp_token p) (pp_expires_at p) n'"
    using v unfolding n' by (auto simp: pends_def accepts_def describes_def)
  have keeps: "accepts cr t e n \<Longrightarrow> accepts cr t e n' \<or> e \<le> now" "pends cr n q \<Longrightarrow> pends cr n' q \<or> pp_expires_at q \<le> now"
    "pends cr n' q \<Longrightarrow> pends cr n q \<or> pp_token q = pp_token p" for t e q
    unfolding n' using vp by (auto simp: accepts_def pends_def live_pending_def describes_def not_less)
  show ?thesis
    using p w new keeps by (simp add: n')
qed

text \<open>Committing a candidate leaves its token and no other candidate.\<close>

lemma committed_version:
  assumes "argon2_ok (ev_argon ev)" and "drawn_ok token d" and "entry_well cr token e0 d n" and "p \<in> set d"
    and "commit_node (pp_refresh_id p) now n = Inr (r, n')"
  shows "pends cr n p \<and> r = (pp_generation p, pp_expires_at p) \<and> entry_well cr token e0 d n' \<and> rn_pending_tokens n' = [] \<and>
    rn_token_generation n < pp_generation p \<and> rn_token_generation n' = pp_generation p \<and>
    accepts cr (pp_token p) (pp_expires_at p) n'"
proof -
  obtain q where q: "List.find (\<lambda>q. pt_refresh_id q = pp_refresh_id p \<and> now < pt_expires_at q) (rn_pending_tokens n) = Some q"
    using assms(5) by (auto simp: commit_node_def split: option.splits)
  then have q': "q \<in> set (rn_pending_tokens n)" "pt_refresh_id q = pp_refresh_id p"
    by (auto simp: find_Some_iff)
  then obtain p' where p': "p' \<in> set d" "describes cr q p'"
    using entry_describes [OF assms(3)] by blast
  then have "pp_refresh_id p' = pp_refresh_id p"
    using q'(2) by (simp add: describes_def)
  then have d: "describes cr q p"
    using drawn_unique(2) [OF assms(2) p'(1) assms(4)] p'(2) by simp
  have n: "r = (pt_generation q, pt_expires_at q)" "rn_token_hash n' = pt_token_hash q"
    "rn_token_generation n' = pt_generation q" "rn_token_expires_at n' = Some (pt_expires_at q)"
    "rn_pending_tokens n' = []" "rn_previous_token_generation n' = Some (rn_token_generation n)"
    "rn_previous_token_hash n' = rn_token_hash n"
    using assms(5) q by (auto simp: commit_node_def Let_def)
  have g: "rn_token_generation n < pt_generation q"
    using assms(3) q'(1) by (simp add: entry_well_def)
  moreover have "pends cr n p"
    using d q'(1) by (auto simp: pends_def)
  moreover have "entry_well cr token e0 d n'"
  proof -
    have "current_ok cr token e0 d n'"
      using d assms(4) unfolding current_ok_def n by (intro conjI disjI2 bexI [of _ p]) (simp_all add: describes_def)
    moreover have "previous_ok cr token d n'"
    proof -
      have "rn_token_generation n \<le> rn_token_generation n'"
        using g n(3) by simp
      moreover have "current_ok cr token e0 d n"
        using assms(3) by (simp add: entry_well_def)
      ultimately show ?thesis
        unfolding previous_ok_def current_ok_def n(7) by fastforce
    qed
    ultimately show ?thesis
      using n g by (simp add: entry_well_def)
  qed
  moreover have "accepts cr (pp_token p) (pp_expires_at p) n'"
    using d n by (simp add: accepts_def describes_def)
  ultimately show ?thesis
    using d n by (simp add: describes_def)
qed

section \<open>Who may ask for a commit, and what the Agent may hold\<close>

definition tokens_of :: "prepared_token list \<Rightarrow> string \<Rightarrow> string set" where
  "tokens_of d i = {pp_token p | p. p \<in> set d \<and> pp_refresh_id p = i}"

definition session_candidate :: "active_session \<Rightarrow> prepared_token option" where
  "session_candidate s = map_option pf_candidate (as_pending_refresh s)"

fun check_candidate :: "credential_check \<Rightarrow> prepared_token option" where
  "check_candidate (Proceed s act) = session_candidate s"
| "check_candidate _ = None"

fun stage_candidate :: "server_stage \<Rightarrow> prepared_token option" where
  "stage_candidate (Checking c second) = check_candidate c"
| "stage_candidate (Verifying c second i) = check_candidate c"
| "stage_candidate (Serving s) = session_candidate s"
| "stage_candidate (Billing s) = session_candidate s"
| "stage_candidate (AckCommit s pf) = Some (pf_candidate pf)"
| "stage_candidate _ = None"

fun early_check :: "credential_check \<Rightarrow> bool" where
  "early_check (Admit h) = True"
| "early_check _ = False"

fun early :: "server_stage \<Rightarrow> bool" where
  "early AwaitHello = True"
| "early (Checking c second) = early_check c"
| "early (Verifying c second i) = early_check c"
| "early (Activating h a) = True"
| "early (ActivationCommit h i) = True"
| "early _ = False"

definition quiet :: "server_stage \<Rightarrow> bool" where
  "quiet stage \<longleftrightarrow> early stage \<or> stage = Closed \<or> stage_candidate stage \<noteq> None"

fun action_claims :: "prepared_token list \<Rightarrow> session_action \<Rightarrow> string set" where
  "action_claims d (OnRefreshAck i persisted) = (if persisted then tokens_of d i else {})"
| "action_claims d _ = {}"

fun check_claims :: "prepared_token list \<Rightarrow> credential_check \<Rightarrow> string set" where
  "check_claims d (Admit h) = {hl_token h}"
| "check_claims d (Proceed s act) = action_claims d act"
| "check_claims d _ = {}"

fun stage_claims :: "prepared_token list \<Rightarrow> server_stage \<Rightarrow> string set" where
  "stage_claims d (Checking c second) = check_claims d c"
| "stage_claims d (Verifying c second i) = check_claims d c"
| "stage_claims d (Activating h a) = {hl_token h}"
| "stage_claims d (ActivationCommit h i) = tokens_of d i"
| "stage_claims d (AckCommit s pf) = {pp_token (pf_candidate pf)}"
| "stage_claims d _ = {}"

fun frame_claims :: "prepared_token list \<Rightarrow> wire_message \<Rightarrow> string set" where
  "frame_claims d (Hello h) = {hl_token h}"
| "frame_claims d (RefreshTokenAck i persisted) = (if persisted then tokens_of d i else {})"
| "frame_claims d _ = {}"

fun stage_hellos :: "server_stage \<Rightarrow> string set" where
  "stage_hellos (Checking (Admit h) second) = {hl_token h}"
| "stage_hellos (Verifying (Admit h) second i) = {hl_token h}"
| "stage_hellos (Activating h a) = {hl_token h}"
| "stage_hellos _ = {}"

fun frame_hellos :: "wire_message \<Rightarrow> string set" where
  "frame_hellos (Hello h) = {hl_token h}"
| "frame_hellos _ = {}"

fun offered :: "wire_message \<Rightarrow> string list" where
  "offered (RefreshTokenResponse i t e) = [t]"
| "offered _ = []"

definition offered_tokens :: "wire_message list \<Rightarrow> string list" where
  "offered_tokens ms = concat (map offered ms)"

lemma offered_tokens_simps [simp]: "offered_tokens [] = []" "offered_tokens (m # ms) = offered m @ offered_tokens ms" "offered_tokens (ms @ ns) = offered_tokens ms @ offered_tokens ns"
  by (simp_all add: offered_tokens_def)

definition conn_claims :: "prepared_token list \<Rightarrow> connection \<Rightarrow> string set" where
  "conn_claims d cn = stage_claims d (cn_stage cn) \<union> \<Union> (frame_claims d ` set (cn_up cn))"

definition conn_hellos :: "connection \<Rightarrow> string set" where
  "conn_hellos cn = stage_hellos (cn_stage cn) \<union> \<Union> (frame_hellos ` set (cn_up cn))"

definition link_of :: "renewal_world \<Rightarrow> connection option" where
  "link_of w = map_option ((!) (rw_conns w)) (ag_link (rw_agent w))"

abbreviation drawn :: "renewal_world \<Rightarrow> prepared_token list" where
  "drawn w \<equiv> sv_drawn (rw_server w)"

definition claims :: "renewal_world \<Rightarrow> string set" where
  "claims w = insert (ag_config (rw_agent w)) (\<Union> (conn_claims (drawn w) ` set (rw_conns w)))"

definition writing :: "agent \<Rightarrow> string list" where
  "writing a = (case ag_write a of None \<Rightarrow> [] | Some tw \<Rightarrow> [tw_token tw])"

definition link_offers :: "renewal_world \<Rightarrow> string list" where
  "link_offers w = (case link_of w of None \<Rightarrow> [] | Some cn \<Rightarrow> offered_tokens (cn_down cn))"

definition link_candidate :: "renewal_world \<Rightarrow> string set" where
  "link_candidate w = (case link_of w of None \<Rightarrow> {} | Some cn \<Rightarrow> pp_token ` set_option (stage_candidate (cn_stage cn)))"

definition held :: "renewal_world \<Rightarrow> string set" where
  "held w = set (agent_tokens (rw_agent w)) \<union> set (writing (rw_agent w)) \<union> set (link_offers w) \<union> link_candidate w"

definition waiting :: "session_env \<Rightarrow> renewal_world \<Rightarrow> string \<Rightarrow> bool" where
  "waiting ev w t \<longleftrightarrow>
     (\<exists>p\<in>set (drawn w). pp_token p = t \<and> pends (ev_argon ev) (latest_entry (rw_server w)) p)"

text \<open>The versions from the one in memory on.\<close>

definition live :: "renewal_world \<Rightarrow> registered_node list" where
  "live w = drop (sv_memory (rw_server w)) (sv_versions (rw_server w))"

definition known_until :: "session_env \<Rightarrow> renewal_world \<Rightarrow> registered_node list \<Rightarrow> string \<Rightarrow> datetime \<Rightarrow> bool" where
  "known_until ev w ns t e \<longleftrightarrow> e \<le> rw_now w \<or> (\<forall>n\<in>set ns. accepts (ev_argon ev) t e n)"

section \<open>The invariant\<close>

definition versions_ok :: "session_env \<Rightarrow> string \<Rightarrow> datetime \<Rightarrow> node_server \<Rightarrow> bool" where
  "versions_ok ev token e0 sv \<longleftrightarrow>
     drawn_ok token (sv_drawn sv) \<and> sv_memory sv < length (sv_versions sv) \<and>
     (\<forall>n\<in>set (sv_versions sv). entry_well (ev_argon ev) token e0 (sv_drawn sv) n) \<and>
     sorted (map rn_token_generation (sv_versions sv))"

definition session_ok :: "prepared_token list \<Rightarrow> active_session \<Rightarrow> bool" where
  "session_ok d s \<longleftrightarrow> set_option (session_candidate s) \<subseteq> set d"

definition hello_ok :: "string \<Rightarrow> prepared_token list \<Rightarrow> hello_message \<Rightarrow> bool" where
  "hello_ok token d h \<longleftrightarrow> hl_supports_token_refresh_ack h \<and> hl_token h \<in> insert token (pp_token ` set d)"

fun frame_ok :: "string \<Rightarrow> prepared_token list \<Rightarrow> wire_message \<Rightarrow> bool" where
  "frame_ok token d (Hello h) \<longleftrightarrow> hello_ok token d h"
| "frame_ok token d (RefreshTokenAck i persisted) \<longleftrightarrow> i \<in> pp_refresh_id ` set d"
| "frame_ok token d _ \<longleftrightarrow> True"

fun offer_ok :: "prepared_token list \<Rightarrow> wire_message \<Rightarrow> bool" where
  "offer_ok d (RefreshTokenResponse i t e) \<longleftrightarrow> (\<exists>p\<in>set d. i = Some (pp_refresh_id p) \<and> t = pp_token p)"
| "offer_ok d _ \<longleftrightarrow> True"

fun action_ok :: "prepared_token list \<Rightarrow> session_action \<Rightarrow> bool" where
  "action_ok d (OnRefreshAck i persisted) \<longleftrightarrow> i \<in> pp_refresh_id ` set d"
| "action_ok d _ \<longleftrightarrow> True"

fun check_ok_for :: "string \<Rightarrow> prepared_token list \<Rightarrow> credential_check \<Rightarrow> bool" where
  "check_ok_for token d (Admit h) \<longleftrightarrow> hello_ok token d h"
| "check_ok_for token d (Readmit h) \<longleftrightarrow> True"
| "check_ok_for token d (Proceed s act) \<longleftrightarrow> session_ok d s \<and> action_ok d act"

text \<open>The generation a handshake found for its token is that of the candidate it presents, or every version
  has passed it.\<close>

definition found_ok :: "registered_node list \<Rightarrow> prepared_token list \<Rightarrow> hello_message \<Rightarrow> authorized_node \<Rightarrow> bool" where
  "found_ok ns d h a \<longleftrightarrow> (\<exists>e. an_token_expires_at a = Some e \<and>
     ((\<exists>p\<in>set d. pp_token p = hl_token h \<and> an_generation a = pp_generation p \<and> e = pp_expires_at p) \<or>
      (\<forall>n\<in>set ns. an_generation a \<le> rn_token_generation n \<and>
        (\<forall>p\<in>set d. pp_token p = hl_token h \<longrightarrow> pp_generation p \<le> rn_token_generation n))))"

fun stage_ok :: "string \<Rightarrow> node_server \<Rightarrow> server_stage \<Rightarrow> bool" where
  "stage_ok token sv (Checking c second) \<longleftrightarrow> check_ok_for token (sv_drawn sv) c"
| "stage_ok token sv (Verifying c second i) \<longleftrightarrow> check_ok_for token (sv_drawn sv) c"
| "stage_ok token sv (Activating h a) \<longleftrightarrow>
     hello_ok token (sv_drawn sv) h \<and> found_ok (drop (sv_memory sv) (sv_versions sv)) (sv_drawn sv) h a"
| "stage_ok token sv (ActivationCommit h i) \<longleftrightarrow> i \<in> pp_refresh_id ` set (sv_drawn sv)"
| "stage_ok token sv (ActivationApply h i) \<longleftrightarrow> i < length (sv_versions sv)"
| "stage_ok token sv (Attaching h s) \<longleftrightarrow> as_pending_refresh s = None"
| "stage_ok token sv (Serving s) \<longleftrightarrow> session_ok (sv_drawn sv) s"
| "stage_ok token sv (Billing s) \<longleftrightarrow> session_ok (sv_drawn sv) s"
| "stage_ok token sv (Preparing s trigger checked) \<longleftrightarrow> as_pending_refresh s = None"
| "stage_ok token sv (PreparedApply s trigger p i) \<longleftrightarrow>
     as_pending_refresh s = None \<and> p \<in> set (sv_drawn sv) \<and> i < length (sv_versions sv)"
| "stage_ok token sv (AckCommit s pf) \<longleftrightarrow> as_pending_refresh s = None \<and> pf_candidate pf \<in> set (sv_drawn sv)"
| "stage_ok token sv (AckApply s p i g e) \<longleftrightarrow> as_pending_refresh s = None \<and> i < length (sv_versions sv)"
| "stage_ok token sv _ \<longleftrightarrow> True"

definition conn_ok :: "string \<Rightarrow> node_server \<Rightarrow> connection \<Rightarrow> bool" where
  "conn_ok token sv cn \<longleftrightarrow> stage_ok token sv (cn_stage cn) \<and>
     (\<forall>m\<in>set (cn_up cn). frame_ok token (sv_drawn sv) m) \<and> (\<forall>m\<in>set (cn_down cn). offer_ok (sv_drawn sv) m)"

definition agent_ok :: "renewal_world \<Rightarrow> bool" where
  "agent_ok w \<longleftrightarrow>
     (case ag_link (rw_agent w) of None \<Rightarrow> True | Some c \<Rightarrow> c < length (rw_conns w)) \<and>
     (case ag_write (rw_agent w) of
        None \<Rightarrow> True
      | Some tw \<Rightarrow>
          (\<exists>p\<in>set (drawn w). tw_token tw = pp_token p \<and>
             (tw_reply tw = None \<and> ag_link (rw_agent w) = None \<or>
              (\<exists>c. ag_link (rw_agent w) = Some c \<and> tw_reply tw = Some (c, Some (pp_refresh_id p))))) \<and>
          (tw_renamed tw \<longrightarrow> ag_file (rw_agent w) = tw_token tw))"

definition hellos_placed :: "session_env \<Rightarrow> renewal_world \<Rightarrow> bool" where
  "hellos_placed ev w \<longleftrightarrow>
     (\<forall>cn\<in>set (rw_conns w). \<forall>t\<in>conn_hellos cn. \<forall>p\<in>set (drawn w). pp_token p = t \<longrightarrow>
        (\<forall>n\<in>set (live w). placed (ev_argon ev) (rw_now w) p n))"

definition held_known :: "session_env \<Rightarrow> string \<Rightarrow> datetime \<Rightarrow> renewal_world \<Rightarrow> bool" where
  "held_known ev token e0 w \<longleftrightarrow>
     (\<forall>t\<in>held w. \<exists>e. (t, e) \<in> set (credentials token e0 (rw_server w)) \<and> known_until ev w (live w) t e)"

text \<open>What the session of the link has prepared but not yet applied.\<close>

definition prepared_known :: "session_env \<Rightarrow> renewal_world \<Rightarrow> bool" where
  "prepared_known ev w \<longleftrightarrow>
     (\<forall>cn s trigger p i. link_of w = Some cn \<and> cn_stage cn = PreparedApply s trigger p i \<longrightarrow>
        known_until ev w (drop (max i (sv_memory (rw_server w))) (sv_versions (rw_server w))) (pp_token p) (pp_expires_at p))"

definition claims_exclusive :: "session_env \<Rightarrow> renewal_world \<Rightarrow> bool" where
  "claims_exclusive ev w \<longleftrightarrow>
     (\<forall>t\<in>claims w. waiting ev w t \<longrightarrow>
        held w \<subseteq> {t} \<and> (\<forall>cn. link_of w = Some cn \<longrightarrow> quiet (cn_stage cn)))"

definition flight :: "renewal_world \<Rightarrow> string list" where
  "flight w = writing (rw_agent w) @ link_offers w"

definition flight_ordered :: "session_env \<Rightarrow> renewal_world \<Rightarrow> bool" where
  "flight_ordered ev w \<longleftrightarrow>
     (\<forall>cn. link_of w = Some cn \<longrightarrow>
        (\<forall>t\<in>set (flight w). waiting ev w t \<longrightarrow> cn_stage cn = Closed \<or> link_candidate w = {t})) \<and>
     sorted_wrt (\<lambda>a b. waiting ev w a \<longrightarrow> b = a) (flight w)"

definition link_early :: "renewal_world \<Rightarrow> bool" where
  "link_early w \<longleftrightarrow>
     (\<forall>cn. link_of w = Some cn \<and> early (cn_stage cn) \<longrightarrow>
        conn_hellos cn \<subseteq> {ag_config (rw_agent w)} \<and> cn_down cn = [] \<and> ag_write (rw_agent w) = None)"

definition renewal_inv :: "session_env \<Rightarrow> string \<Rightarrow> datetime \<Rightarrow> renewal_world \<Rightarrow> bool" where
  "renewal_inv ev token e0 w \<longleftrightarrow>
     versions_ok ev token e0 (rw_server w) \<and> (\<forall>cn\<in>set (rw_conns w). conn_ok token (rw_server w) cn) \<and> agent_ok w \<and>
     hellos_placed ev w \<and> held_known ev token e0 w \<and> prepared_known ev w \<and> claims_exclusive ev w \<and>
     flight_ordered ev w \<and> link_early w"

end
