(* ===== verification/RenewalServer.thy ===== *)
theory RenewalServer
  imports RenewalInvariant
begin

text \<open>
  The invariant under changes of the server's entry with the stages of all connections fixed: the memory
  moves to a later version, time passes, a version is appended.
\<close>

section \<open>Entries and credentials\<close>

lemma accepts_placed:
  assumes "argon2_ok (ev_argon ev)" and "drawn_ok token d" and "entry_well (ev_argon ev) token e0 d n" and "p \<in> set d"
    and "accepts (ev_argon ev) (pp_token p) e n"
  shows "placed (ev_argon ev) now p n"
proof (cases "argon_verify (ev_argon ev) (pp_token p) (rn_token_hash n)")
  case True
  then have "\<exists>q\<in>set d. pp_token q = pp_token p \<and> rn_token_generation n = pp_generation q"
    using assms(3,4) drawn_unique(3) [OF assms(2,4,4)] unfolding entry_well_def current_ok_def by metis
  then obtain q where q: "q \<in> set d" "pp_token q = pp_token p" "rn_token_generation n = pp_generation q"
    by blast
  then have "q = p"
    using drawn_unique(1) [OF assms(2) q(1) assms(4)] by simp
  then show ?thesis
    using q(3) by (simp add: placed_def)
next
  case False
  then obtain q where q: "q \<in> set (rn_pending_tokens n)" "argon_verify (ev_argon ev) (pp_token p) (pt_token_hash q)"
    using assms(5) by (auto simp: accepts_def)
  obtain p' where p': "p' \<in> set d" "describes (ev_argon ev) q p'"
    using entry_describes [OF assms(3) q(1)] by blast
  have "pp_token p' = pp_token p"
    using p'(2) q(2) by (auto simp: describes_def)
  then have "p' = p"
    using drawn_unique(1) [OF assms(2) p'(1) assms(4)] by simp
  then show ?thesis
    using p'(2) q(1) by (auto simp: placed_def pends_def)
qed

definition credential :: "string \<Rightarrow> datetime \<Rightarrow> prepared_token list \<Rightarrow> string \<Rightarrow> datetime \<Rightarrow> bool" where
  "credential token e0 d t e \<longleftrightarrow> t = token \<and> e = e0 \<or> (\<exists>p\<in>set d. pp_token p = t \<and> pp_expires_at p = e)"

lemma in_credentials: "(t, e) \<in> set (credentials token e0 sv) \<longleftrightarrow> credential token e0 (sv_drawn sv) t e"
  by (auto simp: credentials_def credential_def)

lemma credential_expiry:
  assumes "argon2_ok (ev_argon ev)" and "drawn_ok token d" and "p \<in> set d" and "credential token e0 d (pp_token p) e"
  shows "e = pp_expires_at p"
  using assms(3,4) drawn_unique(1) [OF assms(2) _ assms(3)] drawn_unique(3) [OF assms(2,3,3)]
  by (auto simp: credential_def)

lemma known_placed:
  assumes "argon2_ok (ev_argon ev)" and "versions_ok ev token e0 sv" and "p \<in> set (sv_drawn sv)" and "rw_server w = sv"
    and "credential token e0 (sv_drawn sv) (pp_token p) e" and "known_until ev w (live w) (pp_token p) e" and "n \<in> set (live w)"
  shows "placed (ev_argon ev) (rw_now w) p n"
proof (cases "e \<le> rw_now w")
  case True
  then show ?thesis
    using credential_expiry [OF assms(1) _ assms(3,5)] assms(2) by (auto simp: placed_def versions_ok_def)
next
  case False
  have "n \<in> set (sv_versions sv)"
    using assms(4,7) by (auto simp: live_def dest: in_set_dropD)
  then have "drawn_ok token (sv_drawn sv)" "entry_well (ev_argon ev) token e0 (sv_drawn sv) n"
    using assms(2) by (auto simp: versions_ok_def)
  then show ?thesis
    using accepts_placed [OF assms(1) _ _ assms(3)] assms(6,7) False by (auto simp: known_until_def)
qed

section \<open>Parts of the invariant\<close>

lemma renewal_invD:
  assumes "renewal_inv ev token e0 w"
  shows "versions_ok ev token e0 (rw_server w)" and "cn \<in> set (rw_conns w) \<Longrightarrow> conn_ok token (rw_server w) cn"
    and "agent_ok w" and "hellos_placed ev w" and "held_known ev token e0 w" and "prepared_known ev w"
    and "claims_exclusive ev w" and "flight_ordered ev w" and "link_early w"
  using assms by (auto simp: renewal_inv_def)

lemma renewal_invI:
  assumes "versions_ok ev token e0 (rw_server w)" and "\<And>cn. cn \<in> set (rw_conns w) \<Longrightarrow> conn_ok token (rw_server w) cn"
    and "agent_ok w" and "hellos_placed ev w" and "held_known ev token e0 w" and "prepared_known ev w"
    and "claims_exclusive ev w" and "flight_ordered ev w" and "link_early w"
  shows "renewal_inv ev token e0 w"
  using assms by (auto simp: renewal_inv_def)

lemma heldD:
  assumes "renewal_inv ev token e0 w" and "t \<in> held w"
  shows "\<exists>e. credential token e0 (drawn w) t e \<and> known_until ev w (live w) t e"
  using renewal_invD(5) [OF assms(1)] assms(2) by (auto simp: held_known_def in_credentials)

lemma heldD':
  assumes "renewal_inv ev token e0 w" and "t \<in> held w"
  shows "t \<in> insert token (pp_token ` set (drawn w))"
  using heldD [OF assms] by (auto simp: credential_def)

lemma config_held: "ag_config (rw_agent w) \<in> held w"
  by (simp add: held_def agent_tokens_def)

lemma live_versions: "n \<in> set (live w) \<Longrightarrow> n \<in> set (sv_versions (rw_server w))"
  by (auto simp: live_def dest: in_set_dropD)

lemma latest_live:
  assumes "versions_ok ev token e0 (rw_server w)"
  shows "latest_entry (rw_server w) \<in> set (live w)"
proof -
  have "live w \<noteq> []"
    using assms by (simp add: live_def versions_ok_def)
  moreover have "last (live w) = latest_entry (rw_server w)"
    using assms by (simp add: live_def latest_entry_def versions_ok_def)
  ultimately show ?thesis
    by (metis last_in_set)
qed

text \<open>What may be asked for, and what is on its way, are tokens that were handed out.\<close>

lemma tokens_of_drawn: "tokens_of d i \<subseteq> pp_token ` set d"
  by (auto simp: tokens_of_def)

lemma action_claims_drawn: "action_claims d act \<subseteq> pp_token ` set d"
  by (cases act) (use tokens_of_drawn [of d] in auto)

lemma stage_claims_drawn: "stage_ok token sv s \<Longrightarrow> stage_claims (sv_drawn sv) s \<subseteq> insert token (pp_token ` set (sv_drawn sv))"
proof (cases s)
  case (Checking c second)
  then show "stage_ok token sv s \<Longrightarrow> ?thesis"
    using action_claims_drawn [of "sv_drawn sv"] by (cases c) (auto simp: hello_ok_def)
next
  case (Verifying c second i)
  then show "stage_ok token sv s \<Longrightarrow> ?thesis"
    using action_claims_drawn [of "sv_drawn sv"] by (cases c) (auto simp: hello_ok_def)
qed (auto simp: hello_ok_def tokens_of_def)

lemma frame_claims_drawn: "frame_ok token d m \<Longrightarrow> frame_claims d m \<subseteq> insert token (pp_token ` set d)"
  by (cases m) (auto simp: hello_ok_def tokens_of_def split: if_splits)

lemma conn_claims_drawn:
  assumes "conn_ok token sv cn"
  shows "conn_claims (sv_drawn sv) cn \<subseteq> insert token (pp_token ` set (sv_drawn sv))"
  using stage_claims_drawn [of token sv "cn_stage cn"] frame_claims_drawn [of token "sv_drawn sv"] assms
  unfolding conn_claims_def conn_ok_def by blast

lemma claims_drawn:
  assumes "renewal_inv ev token e0 w"
  shows "claims w \<subseteq> insert token (pp_token ` set (drawn w))"
  using heldD' [OF assms config_held] conn_claims_drawn [OF renewal_invD(2) [OF assms]]
  unfolding claims_def by blast

lemma stage_hellos_drawn: "stage_ok token sv s \<Longrightarrow> stage_hellos s \<subseteq> insert token (pp_token ` set (sv_drawn sv))"
  by (cases s rule: stage_hellos.cases) (auto simp: hello_ok_def)

lemma conn_hellos_drawn:
  assumes "conn_ok token sv cn"
  shows "conn_hellos cn \<subseteq> insert token (pp_token ` set (sv_drawn sv))"
proof -
  have "frame_hellos m \<subseteq> insert token (pp_token ` set (sv_drawn sv))" if "m \<in> set (cn_up cn)" for m
    using assms that by (cases m) (auto simp: conn_ok_def hello_ok_def)
  then show ?thesis
    using stage_hellos_drawn [of token sv "cn_stage cn"] assms unfolding conn_hellos_def conn_ok_def by blast
qed

lemma stage_hellos_claims: "stage_hellos s \<subseteq> stage_claims d s"
  by (cases s rule: stage_hellos.cases) auto

lemma conn_hellos_claims: "conn_hellos cn \<subseteq> conn_claims d cn"
proof -
  have "frame_hellos m \<subseteq> frame_claims d m" for m
    by (cases m) auto
  then show ?thesis
    using stage_hellos_claims [of "cn_stage cn" d] unfolding conn_hellos_def conn_claims_def by blast
qed

lemma flight_held: "t \<in> set (flight w) \<Longrightarrow> t \<in> held w"
  by (auto simp: flight_def held_def)

lemma held_only:
  assumes "renewal_inv ev token e0 w" and "t \<in> claims w" and "waiting ev w t"
  shows "held w = {t}" and "link_of w = Some cn \<Longrightarrow> quiet (cn_stage cn)"
  using renewal_invD(7) [OF assms(1)] assms(2,3) config_held [of w] unfolding claims_exclusive_def by blast+

lemma claim_config:
  assumes "renewal_inv ev token e0 w" and "t \<in> claims w" and "waiting ev w t"
  shows "t = ag_config (rw_agent w)"
  using held_only(1) [OF assms] config_held [of w] by simp

text \<open>What a connection knows of the entry stays true of later ones.\<close>

lemma found_ok_keeps:
  assumes argon: "argon2_ok (ev_argon ev)" and draws: "drawn_ok token d'" and d: "set d \<subseteq> set d'" and h: "hello_ok token d h"
    and later: "\<And>n'. n' \<in> set ns' \<Longrightarrow> \<exists>n\<in>set ns. rn_token_generation n \<le> rn_token_generation n'"
    and found: "found_ok ns d h a"
  shows "found_ok ns' d' h a"
proof -
  obtain e where e: "an_token_expires_at a = Some e"
      "(\<exists>p\<in>set d. pp_token p = hl_token h \<and> an_generation a = pp_generation p \<and> e = pp_expires_at p) \<or>
       (\<forall>n\<in>set ns. an_generation a \<le> rn_token_generation n \<and>
         (\<forall>p\<in>set d. pp_token p = hl_token h \<longrightarrow> pp_generation p \<le> rn_token_generation n))"
    using found unfolding found_ok_def by blast
  show ?thesis
    using e(2)
  proof
    assume "\<exists>p\<in>set d. pp_token p = hl_token h \<and> an_generation a = pp_generation p \<and> e = pp_expires_at p"
    then show ?thesis
      using e(1) d unfolding found_ok_def by blast
  next
    assume old: "\<forall>n\<in>set ns. an_generation a \<le> rn_token_generation n \<and>
      (\<forall>p\<in>set d. pp_token p = hl_token h \<longrightarrow> pp_generation p \<le> rn_token_generation n)"
    have "an_generation a \<le> rn_token_generation n' \<and> (\<forall>p\<in>set d'. pp_token p = hl_token h \<longrightarrow> pp_generation p \<le> rn_token_generation n')"
      if n': "n' \<in> set ns'" for n'
    proof -
      obtain n where n: "n \<in> set ns" "rn_token_generation n \<le> rn_token_generation n'"
        using later [OF n'] by blast
      have "p \<in> set d" if p: "p \<in> set d'" "pp_token p = hl_token h" for p
      proof -
        have "pp_token p \<noteq> token"
          using drawn_unique(3) [OF draws p(1) p(1)] .
        then obtain q where "q \<in> set d" "pp_token q = pp_token p"
          using h p(2) by (auto simp: hello_ok_def)
        then show ?thesis
          using drawn_unique(1) [OF draws p(1), of q] d by auto
      qed
      then show ?thesis
        using old n order_trans [OF _ n(2)] by blast
    qed
    then show ?thesis
      using e(1) unfolding found_ok_def by blast
  qed
qed

lemma check_ok_keeps: "check_ok_for token d c \<Longrightarrow> set d \<subseteq> set d' \<Longrightarrow> check_ok_for token d' c"
proof (cases c)
  case (Proceed s act)
  then show "check_ok_for token d c \<Longrightarrow> set d \<subseteq> set d' \<Longrightarrow> ?thesis"
    by (cases act) (auto simp: session_ok_def)
qed (auto simp: hello_ok_def)

lemma conn_ok_keeps:
  assumes draws: "argon2_ok (ev_argon ev)" "drawn_ok token (sv_drawn sv')"
    and "conn_ok token sv cn" and "set (sv_drawn sv) \<subseteq> set (sv_drawn sv')"
    and "length (sv_versions sv) \<le> length (sv_versions sv')"
    and later: "\<And>n'. n' \<in> set (drop (sv_memory sv') (sv_versions sv')) \<Longrightarrow>
      \<exists>n\<in>set (drop (sv_memory sv) (sv_versions sv)). rn_token_generation n \<le> rn_token_generation n'"
  shows "conn_ok token sv' cn"
proof -
  note f = found_ok_keeps [OF draws assms(4) _ later]
  have "stage_ok token sv' (cn_stage cn)"
    using assms(3-5) f check_ok_keeps [OF _ assms(4)] unfolding conn_ok_def
    by (cases "cn_stage cn") (auto simp: hello_ok_def session_ok_def)
  moreover have "frame_ok token (sv_drawn sv) m \<Longrightarrow> frame_ok token (sv_drawn sv') m" for m
    using assms(4) by (cases m) (auto simp: hello_ok_def)
  moreover have "offer_ok (sv_drawn sv) m \<Longrightarrow> offer_ok (sv_drawn sv') m" for m
    using assms(4) by (cases m) auto
  ultimately show ?thesis
    using assms(3) unfolding conn_ok_def by blast
qed

section \<open>The memory moves up, time passes\<close>

lemma prepared_knownD:
  assumes "prepared_known ev w" and "link_of w = Some cn" and "cn_stage cn = PreparedApply s trigger p i"
  shows "known_until ev w (drop (max i (sv_memory (rw_server w))) (sv_versions (rw_server w))) (pp_token p) (pp_expires_at p)"
  using assms unfolding prepared_known_def by blast

lemma inv_server_up:
  assumes inv: "renewal_inv ev token e0 w" and draws: "argon2_ok (ev_argon ev)"
    and same: "rw_conns w' = rw_conns w" "rw_agent w' = rw_agent w"
      "sv_versions (rw_server w') = sv_versions (rw_server w)" "drawn w' = drawn w"
    and up: "sv_memory (rw_server w) \<le> sv_memory (rw_server w')"
      "sv_memory (rw_server w') < length (sv_versions (rw_server w))" "rw_now w \<le> rw_now w'"
  shows "renewal_inv ev token e0 w'"
proof (rule renewal_invI)
  note d = renewal_invD [OF inv]
  have l: "set (live w') \<subseteq> set (live w)"
    using up(1) by (simp add: live_def same set_drop_subset_set_drop)
  have link: "link_of w' = link_of w"
    by (simp add: link_of_def same)
  have sets: "claims w' = claims w" "held w' = held w" "waiting ev w' = waiting ev w" "flight w' = flight w"
      "link_candidate w' = link_candidate w"
    by (simp_all add: claims_def held_def waiting_def flight_def link_candidate_def link_offers_def link
        latest_entry_def same fun_eq_iff)
  have k: "known_until ev w' ns' t e" if "known_until ev w ns t e" "set ns' \<subseteq> set ns" for ns ns' t e
    using that up(3) by (auto simp: known_until_def)
  have p: "placed cr (rw_now w) p n \<Longrightarrow> placed cr (rw_now w') p n" for cr p n
    using up(3) by (auto simp: placed_def)
  show "versions_ok ev token e0 (rw_server w')"
    using d(1) up by (simp add: versions_ok_def same)
  show "conn_ok token (rw_server w') cn" if "cn \<in> set (rw_conns w')" for cn
    by (rule conn_ok_keeps [OF draws _ d(2)])
      (use that l d(1) in \<open>auto simp: same live_def versions_ok_def\<close>)
  show "agent_ok w'"
    using d(3) by (simp add: agent_ok_def same cong: option.case_cong)
  show "hellos_placed ev w'"
    using d(4) l p unfolding hellos_placed_def same by blast
  show "held_known ev token e0 w'"
    using d(5) k [OF _ l] unfolding held_known_def in_credentials same sets by blast
  show "prepared_known ev w'"
    unfolding prepared_known_def link same
  proof (intro allI impI)
    fix cn s trigger p i
    assume "link_of w = Some cn \<and> cn_stage cn = PreparedApply s trigger p i"
    then show "known_until ev w' (drop (max i (sv_memory (rw_server w'))) (sv_versions (rw_server w))) (pp_token p) (pp_expires_at p)"
      using k [OF prepared_knownD [OF d(6)]] up(1) by (meson max.mono order_refl set_drop_subset_set_drop)
  qed
  show "claims_exclusive ev w'" "flight_ordered ev w'"
    using d(7,8) by (simp_all add: claims_exclusive_def flight_ordered_def sets link)
  show "link_early w'"
    using d(9) unfolding link_early_def link same .
qed

section \<open>A version is appended\<close>

lemma tokens_of_append:
  assumes "argon2_ok (ev_argon ev)" and "drawn_ok token (d @ ds)" and "i \<in> pp_refresh_id ` set d"
  shows "tokens_of (d @ ds) i = tokens_of d i"
proof -
  obtain p where p: "p \<in> set d" "i = pp_refresh_id p"
    using assms(3) by auto
  have "q = p" if "q \<in> set (d @ ds)" "pp_refresh_id q = i" for q
    using drawn_unique(2) [OF assms(2) that(1)] p that(2) by simp
  then show ?thesis
    using p unfolding tokens_of_def by auto
qed

lemma conn_claims_append:
  assumes "argon2_ok (ev_argon ev)" and "drawn_ok token (sv_drawn sv @ ds)" and "conn_ok token sv cn"
  shows "conn_claims (sv_drawn sv @ ds) cn = conn_claims (sv_drawn sv) cn"
proof -
  note t = tokens_of_append [OF assms(1,2)]
  have a: "action_claims (sv_drawn sv @ ds) act = action_claims (sv_drawn sv) act" if "action_ok (sv_drawn sv) act" for act
    using that t by (cases act) auto
  have c: "check_claims (sv_drawn sv @ ds) c = check_claims (sv_drawn sv) c" if "check_ok_for token (sv_drawn sv) c" for c
    using that a by (cases c) auto
  have "stage_claims (sv_drawn sv @ ds) (cn_stage cn) = stage_claims (sv_drawn sv) (cn_stage cn)"
    using assms(3) c t unfolding conn_ok_def by (cases "cn_stage cn") auto
  moreover have "frame_claims (sv_drawn sv @ ds) m = frame_claims (sv_drawn sv) m" if "m \<in> set (cn_up cn)" for m
  proof -
    have "frame_ok token (sv_drawn sv) m"
      using assms(3) that by (simp add: conn_ok_def)
    then show ?thesis
      using t by (cases m) auto
  qed
  ultimately show ?thesis
    by (simp add: conn_claims_def)
qed

lemma sorted_last: "sorted xs \<Longrightarrow> x \<in> set xs \<Longrightarrow> x \<le> last (xs :: 'a :: linorder list)"
  by (induction xs) auto

lemma link_in_conns: "agent_ok w \<Longrightarrow> link_of w = Some cn \<Longrightarrow> cn \<in> set (rw_conns w)"
  by (auto simp: agent_ok_def link_of_def split: option.splits)

definition prepared_tokens :: "renewal_world \<Rightarrow> string set" where
  "prepared_tokens w =
     {pp_token p | p. \<exists>cn s trigger i. link_of w = Some cn \<and> cn_stage cn = PreparedApply s trigger p i}"

lemma inv_append:
  assumes inv: "renewal_inv ev token e0 w" and draws: "argon2_ok (ev_argon ev)"
    and same: "rw_conns w' = rw_conns w" "rw_agent w' = rw_agent w" "rw_now w' = rw_now w"
      "sv_memory (rw_server w') = sv_memory (rw_server w)"
      "sv_versions (rw_server w') = sv_versions (rw_server w) @ [n']" "drawn w' = drawn w @ ds"
    and new: "drawn_ok token (drawn w @ ds)" "entry_well (ev_argon ev) token e0 (drawn w @ ds) n'"
      "rn_token_generation (latest_entry (rw_server w)) \<le> rn_token_generation n'"
      "pp_token ` set ds \<inter> insert token (pp_token ` set (drawn w)) = {}"
    and keeps: "\<And>t e. t \<in> held w \<union> prepared_tokens w \<Longrightarrow> accepts (ev_argon ev) t e (latest_entry (rw_server w)) \<Longrightarrow>
      accepts (ev_argon ev) t e n' \<or> e \<le> rw_now w"
    and places: "\<And>cn p. cn \<in> set (rw_conns w) \<Longrightarrow> p \<in> set (drawn w) \<Longrightarrow> pp_token p \<in> conn_hellos cn \<Longrightarrow>
      placed (ev_argon ev) (rw_now w) p (latest_entry (rw_server w)) \<Longrightarrow> placed (ev_argon ev) (rw_now w) p n'"
    and waits: "\<And>t. waiting ev w' t \<Longrightarrow> waiting ev w t \<or> t \<in> pp_token ` set ds"
  shows "renewal_inv ev token e0 w'"
proof (rule renewal_invI)
  note d = renewal_invD [OF inv]
  let ?vs = "sv_versions (rw_server w)" and ?m = "sv_memory (rw_server w)" and ?l = "latest_entry (rw_server w)"
  have m: "?m < length ?vs" "?vs \<noteq> []"
    using d(1) by (auto simp: versions_ok_def)
  have l: "live w' = live w @ [n']"
    using m by (simp add: live_def same)
  have link: "link_of w' = link_of w"
    by (simp add: link_of_def same)
  have c: "claims w' = claims w"
    using conn_claims_append [OF draws new(1) d(2)] by (simp add: claims_def same)
  have sets: "held w' = held w" "flight w' = flight w" "link_candidate w' = link_candidate w"
    by (simp_all add: held_def flight_def link_candidate_def link_offers_def link same)
  have old: "waiting ev w t" if "waiting ev w' t" "t \<in> insert token (pp_token ` set (drawn w))" for t
    using waits [OF that(1)] new(4) that(2) by blast
  have k: "known_until ev w' (ns @ [n']) t e" if "known_until ev w ns t e" "?l \<in> set ns" "t \<in> held w \<union> prepared_tokens w" for ns t e
    using that keeps [OF that(3), of e] by (auto simp: known_until_def same)
  have cred: "credential token e0 (drawn w) t e \<Longrightarrow> credential token e0 (drawn w @ ds) t e" for t e
    by (auto simp: credential_def)
  show "versions_ok ev token e0 (rw_server w')"
  proof -
    have "rn_token_generation n \<le> rn_token_generation n'" if "n \<in> set ?vs" for n
      using sorted_last [of "map rn_token_generation ?vs" "rn_token_generation n"] that d(1) new(3) m(2)
      by (auto simp: versions_ok_def latest_entry_def last_map)
    moreover have "entry_well (ev_argon ev) token e0 (drawn w @ ds) n" if "n \<in> set ?vs" for n
      using that d(1) entry_well_mono by (simp add: versions_ok_def)
    ultimately show ?thesis
      using d(1) new(1,2) by (auto simp: versions_ok_def same sorted_append)
  qed
  show "conn_ok token (rw_server w') cn" if "cn \<in> set (rw_conns w')" for cn
  proof (rule conn_ok_keeps [OF draws _ d(2)])
    fix n
    assume "n \<in> set (drop (sv_memory (rw_server w')) (sv_versions (rw_server w')))"
    then have "n \<in> set (live w) \<or> n = n'"
      using l by (auto simp: live_def)
    then show "\<exists>m\<in>set (drop ?m ?vs). rn_token_generation m \<le> rn_token_generation n"
      using latest_live [OF d(1)] new(3) by (auto simp: live_def)
  qed (use that same new(1) in auto)
  show "agent_ok w'"
    using d(3) by (auto simp: agent_ok_def same split: option.splits)
  show "hellos_placed ev w'"
    unfolding hellos_placed_def same
  proof (intro ballI impI)
    fix cn t p n
    assume cn: "cn \<in> set (rw_conns w)" "t \<in> conn_hellos cn" and p: "p \<in> set (drawn w @ ds)" "pp_token p = t"
      and n: "n \<in> set (live w')"
    have "p \<in> set (drawn w)"
      using conn_hellos_drawn [OF d(2) [OF cn(1)]] cn(2) p new(4) by auto
    then have "placed (ev_argon ev) (rw_now w) p m" if "m \<in> set (live w)" for m
      using d(4) cn p(2) that unfolding hellos_placed_def by blast
    then show "placed (ev_argon ev) (rw_now w) p n"
      using places [OF cn(1) \<open>p \<in> set (drawn w)\<close>] cn(2) p(2) n latest_live [OF d(1)] l by auto
  qed
  show "held_known ev token e0 w'"
    using heldD [OF inv] k [OF _ latest_live [OF d(1)]] cred unfolding held_known_def in_credentials same sets l by blast
  show "prepared_known ev w'"
    unfolding prepared_known_def link same
  proof (intro allI impI)
    fix cn s trigger p i
    assume a: "link_of w = Some cn \<and> cn_stage cn = PreparedApply s trigger p i"
    then have i: "i < length ?vs"
      using d(2) [OF link_in_conns [OF d(3)]] by (auto simp: conn_ok_def)
    have "?l \<in> set (drop (max i ?m) ?vs)"
      using i m by (metis drop_eq_Nil2 last_drop last_in_set latest_entry_def max_less_iff_conj not_le)
    moreover have "pp_token p \<in> prepared_tokens w"
      using a unfolding prepared_tokens_def by blast
    ultimately show "known_until ev w' (drop (max i ?m) (?vs @ [n'])) (pp_token p) (pp_expires_at p)"
      using k [OF prepared_knownD [OF d(6)], of cn s trigger p i] a i m(1) by simp
  qed
  show "claims_exclusive ev w'"
    using d(7) old claims_drawn [OF inv] unfolding claims_exclusive_def c sets link by blast
  show "flight_ordered ev w'"
  proof -
    have f: "waiting ev w t" if "waiting ev w' t" "t \<in> set (flight w)" for t
      using old [OF that(1)] heldD' [OF inv flight_held [OF that(2)]] .
    have "sorted_wrt (\<lambda>a b. waiting ev w a \<longrightarrow> b = a) (flight w)"
      using d(8) by (simp add: flight_ordered_def)
    then have "sorted_wrt (\<lambda>a b. waiting ev w' a \<longrightarrow> b = a) (flight w)"
      by (rule sorted_wrt_mono_rel [rotated]) (use f in auto)
    then show ?thesis
      using d(8) f unfolding flight_ordered_def sets link by blast
  qed
  show "link_early w'"
    using d(9) unfolding link_early_def link same .
qed


section \<open>The three ways a version is made\<close>

lemma inv_edit:
  assumes inv: "renewal_inv ev token e0 w" and draws: "argon2_ok (ev_argon ev)"
    and same: "rn_token_hash n' = rn_token_hash (latest_entry (rw_server w))"
      "rn_token_generation n' = rn_token_generation (latest_entry (rw_server w))"
      "rn_token_expires_at n' = rn_token_expires_at (latest_entry (rw_server w))"
      "rn_pending_tokens n' = rn_pending_tokens (latest_entry (rw_server w))"
      "rn_previous_token_generation n' = rn_previous_token_generation (latest_entry (rw_server w))"
      "rn_previous_token_hash n' = rn_previous_token_hash (latest_entry (rw_server w))"
  shows "renewal_inv ev token e0 (w\<lparr>rw_server := append_version n' (rw_server w)\<rparr>)"
proof (rule inv_append [OF inv draws, where n' = n' and ds = "[]"])
  note d = renewal_invD [OF inv]
  show "drawn_ok token (drawn w @ [])"
    using d(1) by (simp add: versions_ok_def)
  have "entry_well (ev_argon ev) token e0 (drawn w) (latest_entry (rw_server w))"
    using d(1) live_versions [OF latest_live [OF d(1)]] by (simp add: versions_ok_def)
  then show "entry_well (ev_argon ev) token e0 (drawn w @ []) n'"
    by (simp add: entry_well_def current_ok_def previous_ok_def same cong: option.case_cong)
qed (auto simp: append_version_def same accepts_def placed_def pends_def waiting_def latest_entry_def)

lemma latest_well: "renewal_inv ev token e0 w \<Longrightarrow> entry_well (ev_argon ev) token e0 (drawn w) (latest_entry (rw_server w))"
  using renewal_invD(1) [of ev token e0 w] live_versions [OF latest_live, of ev token e0 w] by (auto simp: versions_ok_def)

lemma drawn_well: "renewal_inv ev token e0 w \<Longrightarrow> drawn_ok token (drawn w)"
  using renewal_invD(1) [of ev token e0 w] by (simp add: versions_ok_def)

lemma inv_prepare:
  assumes inv: "renewal_inv ev token e0 w" and draws: "argon2_ok (ev_argon ev)"
    and prepare: "prepare_node g (ev_token ev (length (drawn w))) (ev_refresh_id ev (length (drawn w)))
      (argon_hash (ev_argon ev) salt (ev_token ev (length (drawn w)))) (rw_now w) (latest_entry (rw_server w)) = Inr (p, n')"
    and new: "drawn_ok token (drawn w @ [p])"
    and w': "w' = w\<lparr>rw_server := (rw_server w)\<lparr>sv_versions := sv_versions (rw_server w) @ [n'], sv_drawn := drawn w @ [p]\<rparr>\<rparr>"
  shows "renewal_inv ev token e0 w'" and "accepts (ev_argon ev) (pp_token p) (pp_expires_at p) n'"
proof -
  let ?l = "latest_entry (rw_server w)"
  note v = prepared_version [OF draws refl latest_well [OF inv] prepare]
  show "accepts (ev_argon ev) (pp_token p) (pp_expires_at p) n'"
    using v by blast
  show "renewal_inv ev token e0 w'"
  proof (rule inv_append [OF inv draws, where n' = n' and ds = "[p]"])
    show "drawn_ok token (drawn w @ [p])" "entry_well (ev_argon ev) token e0 (drawn w @ [p]) n'"
        "rn_token_generation ?l \<le> rn_token_generation n'"
      using new v by simp_all
    show "pp_token ` set [p] \<inter> insert token (pp_token ` set (drawn w)) = {}"
      using new by (auto simp: drawn_ok_def)
    show "accepts (ev_argon ev) t e n' \<or> e \<le> rw_now w" if "accepts (ev_argon ev) t e ?l" for t e
      using v that by blast
    show "placed (ev_argon ev) (rw_now w) q n'" if "placed (ev_argon ev) (rw_now w) q ?l" for q
      using v that unfolding placed_def by metis
    have p: "pends (ev_argon ev) n' q \<Longrightarrow> pends (ev_argon ev) ?l q \<or> pp_token q = pp_token p" for q
      using v by blast
    show "waiting ev w t \<or> t \<in> pp_token ` set [p]" if "waiting ev w' t" for t
      using that p by (auto simp: waiting_def w' latest_entry_def)
  qed (simp_all add: w')
qed

lemma inv_commit:
  assumes inv: "renewal_inv ev token e0 w" and draws: "argon2_ok (ev_argon ev)"
    and p: "p \<in> set (drawn w)" "pp_token p \<in> claims w"
    and commit: "commit_node (pp_refresh_id p) (rw_now w) (latest_entry (rw_server w)) = Inr (r, n')"
    and w': "w' = w\<lparr>rw_server := append_version n' (rw_server w)\<rparr>"
  shows "renewal_inv ev token e0 w'" and "\<not> waiting ev w' s"
proof -
  let ?l = "latest_entry (rw_server w)" and ?cr = "ev_argon ev"
  note v = committed_version [OF draws drawn_well [OF inv] latest_well [OF inv] p(1) commit]
  have "rn_pending_tokens n' = []"
    using v by blast
  then have nothing': "\<not> waiting ev w' t" for t
    by (simp add: waiting_def w' append_version_def latest_entry_def pends_def)
  then show "\<not> waiting ev w' s"
    by blast
  have waits: "waiting ev w (pp_token p)"
    using v p(1) unfolding waiting_def by blast
  note only = held_only [OF inv p(2) waits]
  have q: "q = p" if "q \<in> set (drawn w)" "pp_token q = pp_token p" for q
    using drawn_unique(1) [OF drawn_well [OF inv] that(1) p(1) that(2)] .
  have expiry: "e = pp_expires_at p" if accepted: "accepts ?cr (pp_token p) e ?l" for e
  proof -
    have "\<not> argon_verify ?cr (pp_token p) (rn_token_hash ?l)"
    proof
      assume "argon_verify ?cr (pp_token p) (rn_token_hash ?l)"
      then have "\<exists>q\<in>set (drawn w). pp_token q = pp_token p \<and> rn_token_generation ?l = pp_generation q"
      proof -
        have "current_ok ?cr token e0 (drawn w) ?l"
          using latest_well [OF inv] by (simp add: entry_well_def)
        moreover have "pp_token p \<noteq> token"
          using drawn_unique(3) [OF drawn_well [OF inv] p(1) p(1)] .
        ultimately show ?thesis
          using \<open>argon_verify ?cr (pp_token p) (rn_token_hash ?l)\<close> unfolding current_ok_def by auto
      qed
      then obtain q' where q': "q' \<in> set (drawn w)" "pp_token q' = pp_token p" "rn_token_generation ?l = pp_generation q'"
        by blast
      then have "q' = p"
        using q [OF q'(1)] by simp
      then show False
        using q'(3) v by simp
    qed
    then obtain pt where pt: "pt \<in> set (rn_pending_tokens ?l)" "argon_verify ?cr (pp_token p) (pt_token_hash pt)"
        "pt_expires_at pt = e"
      using accepted unfolding accepts_def by blast
    obtain p' where p': "p' \<in> set (drawn w)" "describes ?cr pt p'"
      using entry_describes [OF latest_well [OF inv] pt(1)] by blast
    have "pp_token p' = pp_token p"
      using p'(2) pt(2) by (auto simp: describes_def)
    then have "p' = p"
      using q [OF p'(1)] by simp
    then show ?thesis
      using p'(2) pt(3) by (simp add: describes_def)
  qed
  show "renewal_inv ev token e0 w'"
  proof (rule inv_append [OF inv draws, where n' = n' and ds = "[]"])
    show "accepts ?cr t e n' \<or> e \<le> rw_now w" if "t \<in> held w \<union> prepared_tokens w" "accepts ?cr t e ?l" for t e
    proof -
      have "prepared_tokens w = {}"
        using only(2) by (auto simp: prepared_tokens_def quiet_def)
      then have "t = pp_token p"
        using that(1) only(1) by simp
      then show ?thesis
        using expiry that(2) v by blast
    qed
    show "placed ?cr (rw_now w) q n'" if "cn \<in> set (rw_conns w)" "q \<in> set (drawn w)" "pp_token q \<in> conn_hellos cn"
        "placed ?cr (rw_now w) q ?l" for cn q
    proof (cases "pends ?cr ?l q")
      case True
      have "pp_token q \<in> claims w"
        using that(1,3) conn_hellos_claims [of cn "drawn w"] unfolding claims_def by blast
      moreover have "waiting ev w (pp_token q)"
        using True that(2) unfolding waiting_def by blast
      ultimately have "held w = {pp_token q}"
        using held_only(1) [OF inv] by blast
      then have "pp_token q = pp_token p"
        unfolding only(1) by simp
      then have "q = p"
        by (rule q [OF that(2)])
      moreover have "rn_token_generation n' = pp_generation p"
        using v by blast
      ultimately show ?thesis
        by (simp add: placed_def)
    next
      case False
      moreover have "rn_token_generation ?l < rn_token_generation n'"
        using v by simp
      ultimately show ?thesis
        using that(4) by (auto simp: placed_def)
    qed
    show "waiting ev w t \<or> t \<in> pp_token ` set []" if "waiting ev w' t" for t
      using nothing' that by auto
  qed (use v drawn_well [OF inv] in \<open>auto simp: w' append_version_def\<close>)
qed

end
