(* ===== verification/RenewalStages.thy ===== *)
theory RenewalStages
  imports RenewalServer
begin

text \<open>
  The invariant under a step of one connection: the shape of what the handlers of a session lead to, and the
  stages of the handshake.
\<close>

section \<open>A connection moves on\<close>

text \<open>What the connection of the Agent's session may do.\<close>

definition link_goes :: "session_env \<Rightarrow> renewal_world \<Rightarrow> server_stage \<Rightarrow> server_stage \<Rightarrow> wire_message list \<Rightarrow> bool" where
  "link_goes ev w s s' ms \<longleftrightarrow>
     (early s' \<longrightarrow> early s \<and> ms = []) \<and>
     set (offered_tokens ms) \<subseteq> pp_token ` set_option (stage_candidate s') \<and>
     (stage_candidate s' = stage_candidate s \<or> stage_candidate s = None \<or> s' = Closed \<or> (\<forall>t. \<not> waiting ev w t)) \<and>
     (stage_candidate s' = stage_candidate s \<or> stage_candidate s' = None \<or>
       \<not> quiet s \<and> (\<forall>p\<in>set_option (stage_candidate s'). known_until ev w (live w) (pp_token p) (pp_expires_at p))) \<and>
     (quiet s \<longrightarrow> quiet s' \<or> (\<forall>t\<in>claims w. \<not> waiting ev w t)) \<and>
     (s = Closed \<longrightarrow> s' = Closed \<and> ms = []) \<and>
     (\<forall>r trigger p i. s' = PreparedApply r trigger p i \<longrightarrow>
        known_until ev w (drop (max i (sv_memory (rw_server w))) (sv_versions (rw_server w))) (pp_token p) (pp_expires_at p))"

lemma stage_candidate_drawn: "stage_ok token sv s \<Longrightarrow> set_option (stage_candidate s) \<subseteq> set (sv_drawn sv)"
proof (cases s)
  case (Checking c second)
  then show "stage_ok token sv s \<Longrightarrow> ?thesis"
    by (cases c) (auto simp: session_ok_def)
next
  case (Verifying c second i)
  then show "stage_ok token sv s \<Longrightarrow> ?thesis"
    by (cases c) (auto simp: session_ok_def)
qed (auto simp: session_ok_def)

lemma quiet_candidate: "stage_candidate s \<noteq> None \<Longrightarrow> quiet s" and quiet_Closed: "quiet Closed"
  by (simp_all add: quiet_def)

lemma inv_stage:
  assumes inv: "renewal_inv ev token e0 w" and c: "c < length (rw_conns w)"
    and same: "rw_server w' = rw_server w" "rw_agent w' = rw_agent w" "rw_now w' = rw_now w"
      "rw_conns w' = (rw_conns w)[c := cn']"
    and down: "cn_down cn' = cn_down (rw_conns w ! c) @ ms"
    and ok: "conn_ok token (rw_server w) cn'"
    and claims: "\<And>t. t \<in> conn_claims (drawn w) cn' \<Longrightarrow> waiting ev w t \<Longrightarrow> t \<in> claims w"
    and hellos: "conn_hellos cn' \<subseteq> conn_hellos (rw_conns w ! c)"
    and link: "ag_link (rw_agent w) = Some c \<Longrightarrow> link_goes ev w (cn_stage (rw_conns w ! c)) (cn_stage cn') ms"
  shows "renewal_inv ev token e0 w'"
proof (rule renewal_invI)
  note d = renewal_invD [OF inv]
  let ?cn = "rw_conns w ! c" and ?new = "pp_token ` set_option (stage_candidate (cn_stage cn'))"
  have linked: "link_of w' = (if ag_link (rw_agent w) = Some c then Some cn' else link_of w)"
    using c by (cases "ag_link (rw_agent w)") (auto simp: link_of_def same)
  have at_link: "link_of w = Some ?cn" if "ag_link (rw_agent w) = Some c"
    using that by (simp add: link_of_def)
  have w: "waiting ev w' = waiting ev w" "live w' = live w" "known_until ev w' = known_until ev w"
    by (simp_all add: waiting_def live_def known_until_def same fun_eq_iff)
  have conns: "cn \<in> set (rw_conns w') \<Longrightarrow> cn \<in> set (rw_conns w) \<or> cn = cn'" for cn
    using set_update_subset_insert [of "rw_conns w" c cn'] by (auto simp: same)
  have new_claims: "t \<in> claims w" if "t \<in> claims w'" "waiting ev w t" for t
    using that conns claims unfolding claims_def by (auto simp: same)
  have cn: "?cn \<in> set (rw_conns w)"
    using c by simp
  have new_held: "held w' \<subseteq> held w \<union> (if ag_link (rw_agent w) = Some c then ?new else {})"
  proof (cases "ag_link (rw_agent w) = Some c")
    case True
    then have "set (offered_tokens ms) \<subseteq> ?new"
      using link by (simp add: link_goes_def)
    then show ?thesis
      using True at_link by (auto simp: held_def link_offers_def link_candidate_def linked down same)
  qed (simp add: held_def link_offers_def link_candidate_def linked same)
  show "versions_ok ev token e0 (rw_server w')"
    using d(1) by (simp add: same)
  show "conn_ok token (rw_server w') cn" if "cn \<in> set (rw_conns w')" for cn
    using conns [OF that] d(2) ok by (auto simp: same)
  show "agent_ok w'"
    using d(3) by (simp add: agent_ok_def same cong: option.case_cong)
  show "hellos_placed ev w'"
    using d(4) conns hellos cn unfolding hellos_placed_def same(1,3) w(2) by blast
  show "held_known ev token e0 w'"
    unfolding held_known_def in_credentials w same
  proof
    fix t
    assume "t \<in> held w'"
    then consider "t \<in> held w" | "ag_link (rw_agent w) = Some c" "t \<in> ?new" "t \<notin> held w"
      using new_held by (auto split: if_splits)
    then show "\<exists>e. credential token e0 (drawn w) t e \<and> known_until ev w (live w) t e"
    proof cases
      case 1
      then show ?thesis
        by (rule heldD [OF inv])
    next
      case 2
      then have "t \<notin> pp_token ` set_option (stage_candidate (cn_stage ?cn))"
        by (auto simp: held_def link_candidate_def at_link)
      then have "\<exists>p\<in>set_option (stage_candidate (cn_stage cn')). pp_token p = t \<and> known_until ev w (live w) t (pp_expires_at p)"
        using link [OF 2(1)] 2(2) by (auto simp: link_goes_def)
      then show ?thesis
        using stage_candidate_drawn [of token "rw_server w" "cn_stage cn'"] ok
        unfolding credential_def conn_ok_def by blast
    qed
  qed
  show "prepared_known ev w'"
  proof (cases "ag_link (rw_agent w) = Some c")
    case True
    then show ?thesis
      using link [OF True] by (auto simp: prepared_known_def linked w same link_goes_def)
  next
    case False
    then show ?thesis
      using d(6) by (auto simp: prepared_known_def linked w same)
  qed
  show "claims_exclusive ev w'"
    unfolding claims_exclusive_def w
  proof (intro ballI impI)
    fix t
    assume t: "t \<in> claims w'" "waiting ev w t"
    note old = new_claims [OF t]
    show "held w' \<subseteq> {t} \<and> (\<forall>cn. link_of w' = Some cn \<longrightarrow> quiet (cn_stage cn))"
    proof (cases "ag_link (rw_agent w) = Some c")
      case True
      note g = link [OF True, unfolded link_goes_def]
      have "quiet (cn_stage ?cn)"
        using held_only(2) [OF inv old t(2) at_link [OF True]] .
      moreover have "quiet (cn_stage cn')"
        using g calculation old t(2) by blast
      moreover have "?new \<subseteq> held w"
        using g calculation(1) at_link [OF True] by (auto simp: held_def link_candidate_def)
      ultimately show ?thesis
        using new_held held_only(1) [OF inv old t(2)] True by (auto simp: linked)
    next
      case False
      then show ?thesis
        using new_held held_only [OF inv old t(2)] by (auto simp: linked)
    qed
  qed
  show "flight_ordered ev w'"
  proof (cases "ag_link (rw_agent w) = Some c")
    case True
    note g = link [OF True, unfolded link_goes_def]
    have f: "flight w' = flight w @ offered_tokens ms"
      using at_link [OF True] by (simp add: flight_def link_offers_def linked True down same)
    have new: "link_candidate w' = ?new"
      by (simp add: link_candidate_def linked True)
    have old: "cn_stage ?cn = Closed \<or> pp_token ` set_option (stage_candidate (cn_stage ?cn)) = {t}"
      if "t \<in> set (flight w)" "waiting ev w t" for t
      using d(8) that at_link [OF True] by (simp add: flight_ordered_def link_candidate_def)
    have keep: "cn_stage cn' = Closed \<or> ?new = {t}" if t: "t \<in> set (flight w)" "waiting ev w t" for t
      using old [OF t] g t(2) by auto
    have offer: "?new = {t}" if "t \<in> set (offered_tokens ms)" for t
    proof -
      have "t \<in> ?new"
        using g that by blast
      then show ?thesis
        by (cases "stage_candidate (cn_stage cn')") auto
    qed
    have "offered_tokens ms = [] \<or> cn_stage cn' \<noteq> Closed"
      using offer [of "hd (offered_tokens ms)"] by (cases "offered_tokens ms") auto
    then have cross: "b = a" if "a \<in> set (flight w)" "waiting ev w a" "b \<in> set (offered_tokens ms)" for a b
      using keep [OF that(1,2)] offer [OF that(3)] that(3) by auto
    have "sorted_wrt (\<lambda>a b. waiting ev w a \<longrightarrow> b = a) (offered_tokens ms)"
    proof -
      have "a = b" if "a \<in> set (offered_tokens ms)" "b \<in> set (offered_tokens ms)" for a b
        using offer [OF that(1)] offer [OF that(2)] by simp
      then show ?thesis
        by (simp add: sorted_wrt_iff_nth_less)
    qed
    then have "sorted_wrt (\<lambda>a b. waiting ev w a \<longrightarrow> b = a) (flight w')"
      using d(8) cross unfolding f flight_ordered_def by (simp add: sorted_wrt_append)
    then show ?thesis
      using keep offer unfolding flight_ordered_def w new f by (auto simp: linked True)
  next
    case False
    then have "flight w' = flight w" "link_candidate w' = link_candidate w" "link_of w' = link_of w"
      by (simp_all add: flight_def link_offers_def link_candidate_def linked same)
    then show ?thesis
      using d(8) unfolding flight_ordered_def w by simp
  qed
  show "link_early w'"
  proof (cases "ag_link (rw_agent w) = Some c")
    case True
    then show ?thesis
      using d(9) link [OF True] hellos at_link [OF True]
      by (auto simp: link_early_def linked same link_goes_def down)
  next
    case False
    then have l: "link_of w' = link_of w"
      by (simp add: linked)
    show ?thesis
      using d(9) unfolding link_early_def same l .
  qed
qed


section \<open>The handlers of a session\<close>

definition same_entry :: "node_server \<Rightarrow> node_server \<Rightarrow> bool" where
  "same_entry sv sv' \<longleftrightarrow>
     sv_versions sv' = sv_versions sv \<and> sv_memory sv' = sv_memory sv \<and> sv_drawn sv' = sv_drawn sv"

lemma same_entry_refl [simp]: "same_entry sv sv"
  by (simp add: same_entry_def)

lemma same_entry_disconnect [simp]: "same_entry sv (disconnect s sv)"
  by (simp add: same_entry_def disconnect_def)

text \<open>A step of session \<open>s\<close> that may ask for the tokens in \<open>X\<close> ends the session or keeps its candidate.\<close>

definition follows :: "string \<Rightarrow> active_session \<Rightarrow> string set \<Rightarrow> node_server \<Rightarrow> served \<Rightarrow> bool" where
  "follows token s X sv r \<longleftrightarrow>
     (case r of (sv', st, ms) \<Rightarrow>
        same_entry sv sv' \<and> (\<forall>m\<in>set ms. offer_ok (sv_drawn sv) m) \<and>
        (st = Closed \<and> offered_tokens ms = [] \<or>
         stage_candidate st = session_candidate s \<and> stage_claims (sv_drawn sv) st \<subseteq> X \<and> stage_hellos st = {} \<and>
         \<not> early st \<and> (\<forall>r trigger p i. st \<noteq> PreparedApply r trigger p i) \<and> stage_ok token sv st \<and>
         set (offered_tokens ms) \<subseteq> pp_token ` set_option (session_candidate s)))"

lemma session_candidate_simps [simp]:
  "session_candidate (s\<lparr>as_loop := lp\<rparr>) = session_candidate s"
  "session_candidate (s\<lparr>as_refresh_retry_at := mt\<rparr>) = session_candidate s"
  "session_candidate (s\<lparr>as_token_expires_at := e, as_registry_revision := r\<rparr>) = session_candidate s"
  "session_candidate (s\<lparr>as_pending_refresh := q\<rparr>) = map_option pf_candidate q"
  by (simp_all add: session_candidate_def)

lemma follows_closed:
  "same_entry sv sv' \<Longrightarrow> offered_tokens ms = [] \<Longrightarrow> (\<And>m. m \<in> set ms \<Longrightarrow> offer_ok (sv_drawn sv) m) \<Longrightarrow>
    follows token s X sv (sv', Closed, ms)"
  by (simp add: follows_def)

lemma follows_leave: "follows token s X sv (leave s' sv)"
  by (simp add: follows_def leave_def)

lemma follows_serving:
  assumes "session_ok (sv_drawn sv) s" and "session_candidate s' = session_candidate s"
    and "set (offered_tokens ms) \<subseteq> pp_token ` set_option (session_candidate s)" and "\<And>m. m \<in> set ms \<Longrightarrow> offer_ok (sv_drawn sv) m"
  shows "follows token s X sv (sv, Serving s', ms)"
  using assms by (simp add: follows_def session_ok_def)

lemma follows_mono: "follows token s X sv r \<Longrightarrow> X \<subseteq> Y \<Longrightarrow> follows token s Y sv r"
  unfolding follows_def by (auto split: prod.splits)

lemma follows_session: "session_candidate s' = session_candidate s \<Longrightarrow> follows token s' X sv r = follows token s X sv r"
  by (simp add: follows_def)

lemma ping_session_keeps:
  assumes "ping_session ev mt s = (s', m)"
  shows "as_pending_refresh s' = as_pending_refresh s" and "session_candidate s' = session_candidate s"
    and "offered m = []" and "offer_ok d m"
  using assms by (auto simp: ping_session_def send_ping_def Let_def session_candidate_def split: prod.splits)

lemma after_refresh_follows:
  assumes "session_ok (sv_drawn sv) s"
  shows "follows token s X sv (after_refresh ev mt trigger ok s sv)"
proof (cases trigger)
  case PreExpiry
  obtain s' m where p: "ping_session ev mt s = (s', m)"
    by fastforce
  then show ?thesis
    using follows_serving [OF assms, of s' "[m]" token X] ping_session_keeps [OF p] PreExpiry
    by (simp add: after_refresh_def)
next
  case AgentRequested
  then show ?thesis
    by (auto simp: after_refresh_def intro!: follows_serving [OF assms refl])
next
  case (Manual caller)
  let ?s = "if ok then s\<lparr>as_pending_refresh := map_option (pf_reply_update (\<lambda>_. Some caller)) (as_pending_refresh s)\<rparr> else s"
  have "session_candidate ?s = session_candidate s"
    by (cases "as_pending_refresh s") (simp_all add: session_candidate_def)
  then show ?thesis
    using follows_serving [OF assms, of ?s "[]"] Manual by (simp add: after_refresh_def)
qed

lemma follows_message:
  assumes "follows token s X sv (sv', st, ms)" and "st \<noteq> Closed" and "offer_ok (sv_drawn sv) m"
    and "set (offered m) \<subseteq> pp_token ` set_option (session_candidate s)"
  shows "follows token s X sv (sv', st, m # ms)"
  using assms by (auto simp: follows_def)

lemma after_refresh_serving: "\<exists>s' ms. after_refresh ev mt trigger ok s sv = (sv, Serving s', ms)"
  by (cases trigger) (auto simp: after_refresh_def split: prod.split)

lemma offer_candidate_follows:
  assumes "pf_candidate pf \<in> set (sv_drawn sv)" and "session_candidate s' = Some (pf_candidate pf)"
  shows "follows token s' X sv (offer_candidate ev mt trigger pf s sv)"
proof -
  let ?s = "s\<lparr>as_pending_refresh := Some (pf\<lparr>pf_retry_at := mt + from_secs 60\<rparr>)\<rparr>"
  obtain s'' ms where a: "after_refresh ev mt trigger True ?s sv = (sv, Serving s'', ms)"
    using after_refresh_serving by blast
  have "follows token ?s X sv (sv, Serving s'', ms)"
    unfolding a [symmetric] by (rule after_refresh_follows) (use assms(1) in \<open>simp add: session_ok_def\<close>)
  then have "follows token s' X sv (sv, Serving s'', ms)"
    using assms(2) follows_session [of ?s s'] by simp
  then have "follows token s' X sv (sv, Serving s'',
      RefreshTokenResponse (Some (pp_refresh_id (pf_candidate pf))) (pp_token (pf_candidate pf)) (pp_expires_at (pf_candidate pf)) # ms)"
    by (rule follows_message) (use assms in auto)
  then show ?thesis
    using a by (simp add: offer_candidate_def Let_def)
qed

lemma refresh_follows:
  assumes "session_ok (sv_drawn sv) s"
  shows "follows token s X sv (refresh_session_token ev mt trigger s sv)"
proof (cases "as_supports_token_refresh_ack s")
  case False
  then show ?thesis
    using after_refresh_follows [OF assms] by (simp add: refresh_session_token_def)
next
  case True
  show ?thesis
  proof (cases "as_pending_refresh s")
    case None
    then show ?thesis
      using True by (simp add: refresh_session_token_def Let_def follows_def session_candidate_def)
  next
    case (Some pf)
    then have c: "session_candidate s = Some (pf_candidate pf)"
      by (simp add: session_candidate_def)
    then have "pf_candidate pf \<in> set (sv_drawn sv)"
      using assms by (simp add: session_ok_def)
    then show ?thesis
      using offer_candidate_follows [OF _ c] Some True by (simp add: refresh_session_token_def Let_def)
  qed
qed


lemma metrics_messages:
  assumes "metrics_cleaned cfg mt snap lp = (lp', ms, r)"
  shows "offered_tokens ms = []" and "m \<in> set ms \<Longrightarrow> offer_ok d m"
  using assms
  by (auto simp: metrics_cleaned_def notify_disks_over_limit_once_def Let_def split: prod.splits if_splits)

lemma proceed_follows:
  assumes s: "session_ok (sv_drawn sv) s" and act: "action_ok (sv_drawn sv) act"
  shows "follows token s (action_claims (sv_drawn sv) act) sv (proceed ev now mt act s sv)"
proof (cases act)
  case (OnMetrics snap)
  obtain lp ms r where m: "metrics_cleaned (ev_config ev) mt snap (as_loop s) = (lp, ms, r)"
    using prod_cases3 by blast
  note k = metrics_messages [OF m]
  have "session_ok (sv_drawn sv) (s\<lparr>as_loop := lp\<rparr>)"
    using s by (simp add: session_ok_def)
  then show ?thesis
    using k by (auto simp: OnMetrics m Let_def follows_def)
next
  case (OnLogs tc)
  then show ?thesis
    using follows_serving [OF s refl, of "[]"] follows_leave by (simp split: option.split sum.split)
next
  case (OnPong nonce)
  obtain lp latency where c: "consume_pong_latency (as_loop s) nonce mt = (lp, latency)"
    by fastforce
  show ?thesis
    using follows_serving [OF s, of "s\<lparr>as_loop := lp\<rparr>" "[]"] follows_leave by (simp add: OnPong c Let_def)
next
  case (OnRefreshRequest node_id)
  then show ?thesis
    using follows_serving [OF s refl, of "[]"] refresh_follows [OF s] by simp
next
  case (OnRefreshAck i persisted)
  show ?thesis
  proof (cases "as_pending_refresh s")
    case None
    then show ?thesis
      using follows_serving [OF s refl, of "[]"] OnRefreshAck by simp
  next
    case (Some pf)
    then have c: "session_candidate s = Some (pf_candidate pf)"
      by (simp add: session_candidate_def)
    then have "pf_candidate pf \<in> set (sv_drawn sv)"
      using s by (simp add: session_ok_def)
    then show ?thesis
      using OnRefreshAck Some c follows_serving [OF s refl, of "[]"]
        follows_serving [OF s, of "s\<lparr>as_pending_refresh := Some (pf\<lparr>pf_reply := None\<rparr>)\<rparr>" "[]"]
      by (auto simp: follows_def tokens_of_def)
  qed
next
  case (OnUpdate q)
  then show ?thesis
    by (auto intro!: follows_serving [OF s refl])
next
  case OnTick
  obtain s' due where d: "should_refresh_agent_token now mt sv s = (s', due)"
    by fastforce
  have c: "session_candidate s' = session_candidate s"
    using d by (auto simp: should_refresh_agent_token_def apply_current_token_status_def session_candidate_def
        split: if_splits option.splits)
  then have s': "session_ok (sv_drawn sv) s'"
    using s by (simp add: session_ok_def)
  obtain s'' m where m: "ping_session ev mt s' = (s'', m)"
    by fastforce
  show ?thesis
    using follows_session [OF c] refresh_follows [OF s'] follows_serving [OF s, of s'' "[m]"] ping_session_keeps [OF m] c
    by (simp add: OnTick d m)
qed

lemma ensure_follows:
  assumes "session_ok (sv_drawn sv) s" and "action_ok (sv_drawn sv) act"
  shows "follows token s (action_claims (sv_drawn sv) act) sv (ensure_current_token ev now mt act s sv)"
proof (cases "as_registry_revision s = sv_revision sv \<and> (case as_token_expires_at s of None \<Rightarrow> True | Some e \<Rightarrow> now < e)")
  case True
  then show ?thesis
    using proceed_follows [OF assms] by (simp add: ensure_current_token_def)
next
  case False
  then have "ensure_current_token ev now mt act s sv = (sv, Checking (Proceed s act) False, [])"
    unfolding ensure_current_token_def by (rule if_not_P)
  then show ?thesis
    using assms by (simp add: follows_def)
qed

lemma wire_follows:
  assumes s: "session_ok (sv_drawn sv) s" and m: "frame_ok token (sv_drawn sv) msg"
  shows "follows token s (frame_claims (sv_drawn sv) msg) sv (handle_wire_message ev now mt msg s sv)"
proof (cases "is_holder s sv")
  case False
  then show ?thesis
    by (simp add: handle_wire_message_def follows_leave)
next
  case True
  note e = ensure_follows [OF s, where token = token and ev = ev and now = now and mt = mt]
  show ?thesis
  proof (cases msg)
    case (Metrics snap)
    then show ?thesis
      using True e [of "OnMetrics snap"] by (simp add: handle_wire_message_def)
  next
    case (AgentLogs tc entries)
    then show ?thesis
      using True e [of "OnLogs tc"] by (simp add: handle_wire_message_def)
  next
    case (Pong nonce)
    then show ?thesis
      using True e [of "OnPong nonce"] by (simp add: handle_wire_message_def)
  next
    case (RefreshTokenRequest node_id)
    then show ?thesis
      using True e [of "OnRefreshRequest node_id"] by (simp add: handle_wire_message_def)
  next
    case (RefreshTokenAck i persisted)
    then show ?thesis
      using True m e [of "OnRefreshAck i persisted"] follows_leave by (simp add: handle_wire_message_def)
  next
    case (AgentUpdateStatus st)
    then show ?thesis
      using True follows_serving [OF s refl, of "[]"] follows_leave by (simp add: handle_wire_message_def)
  qed (use True follows_leave in \<open>simp_all add: handle_wire_message_def\<close>)
qed

lemma command_follows:
  assumes s: "session_ok (sv_drawn sv) s"
  shows "follows token s {} sv (handle_session_command ev now mt c s sv)"
  using refresh_follows [OF s] follows_leave ensure_follows [OF s, of "OnUpdate q" token for q]
  by (cases c) (simp_all add: handle_session_command_def)

lemma tick_follows:
  assumes s: "session_ok (sv_drawn sv) s"
  shows "follows token s {} sv (handle_ping_tick ev now mt s sv)"
  using follows_leave ensure_follows [OF s, of OnTick token] by (simp add: handle_ping_tick_def)

end
