(* ===== verification/RenewalConnections.thy ===== *)
theory RenewalConnections
  imports RenewalStages
begin

text \<open>
  The invariant under every step of a connection: the handshake, the loop, the renewal.
\<close>

section \<open>Steps that prepare and commit nothing\<close>

lemma conn_ok_same:
  assumes "same_entry sv sv'" and "conn_ok token sv cn"
  shows "conn_ok token sv' cn"
proof -
  have "stage_ok token sv' (cn_stage cn)"
    using assms by (cases "cn_stage cn") (auto simp: conn_ok_def same_entry_def)
  then show ?thesis
    using assms by (auto simp: conn_ok_def same_entry_def)
qed

lemma inv_plain:
  assumes inv: "renewal_inv ev token e0 w" and draws: "argon2_ok (ev_argon ev)" and c: "c < length (rw_conns w)"
    and w': "rw_server w' = sv'" "rw_agent w' = rw_agent w" "rw_now w' = rw_now w"
      "rw_conns w' = (rw_conns w)[c := cn']"
    and cn': "cn_down cn' = cn_down (rw_conns w ! c) @ ms" "set (cn_up cn') \<subseteq> set (cn_up (rw_conns w ! c))"
    and sv': "same_entry (rw_server w) sv'"
    and st: "stage_ok token (rw_server w) (cn_stage cn')"
      "stage_claims (drawn w) (cn_stage cn') \<subseteq> conn_claims (drawn w) (rw_conns w ! c)"
      "stage_hellos (cn_stage cn') \<subseteq> conn_hellos (rw_conns w ! c)"
      "cn_stage cn' = Closed \<or> stage_candidate (cn_stage cn') = stage_candidate (cn_stage (rw_conns w ! c))"
      "early (cn_stage cn') \<Longrightarrow> early (cn_stage (rw_conns w ! c)) \<and> ms = []"
      "ag_link (rw_agent w) = Some c \<Longrightarrow> quiet (cn_stage (rw_conns w ! c)) \<Longrightarrow>
        quiet (cn_stage cn') \<or> (\<forall>t\<in>claims w. \<not> waiting ev w t)"
      "cn_stage (rw_conns w ! c) = Closed \<Longrightarrow> cn_stage cn' = Closed \<and> ms = []"
      "\<And>r trigger p i. cn_stage cn' \<noteq> PreparedApply r trigger p i"
    and ms: "\<And>m. m \<in> set ms \<Longrightarrow> offer_ok (drawn w) m"
      "set (offered_tokens ms) \<subseteq> pp_token ` set_option (stage_candidate (cn_stage cn'))"
  shows "renewal_inv ev token e0 w'"
proof -
  let ?w = "w\<lparr>rw_server := sv'\<rparr>" and ?cn = "rw_conns w ! c"
  have e: "sv_versions sv' = sv_versions (rw_server w)" "sv_memory sv' = sv_memory (rw_server w)" "sv_drawn sv' = drawn w"
    using sv' by (auto simp: same_entry_def)
  have inv1: "renewal_inv ev token e0 ?w"
    by (rule inv_server_up [OF inv draws]) (use e renewal_invD(1) [OF inv] in \<open>auto simp: versions_ok_def\<close>)
  have w1: "waiting ev ?w = waiting ev w" "claims ?w = claims w"
    by (simp_all add: waiting_def claims_def latest_entry_def e fun_eq_iff)
  have old: "conn_ok token (rw_server w) ?cn"
    using renewal_invD(2) [OF inv] c by simp
  show ?thesis
  proof (rule inv_stage [OF inv1, where c = c and cn' = cn' and ms = ms])
    have "conn_ok token (rw_server w) cn'"
      using old cn' st(1) ms(1) unfolding conn_ok_def by auto
    then show "conn_ok token (rw_server ?w) cn'"
      using conn_ok_same [OF sv'] by simp
    have "conn_claims (drawn w) cn' \<subseteq> conn_claims (drawn w) ?cn"
      using st(2) cn'(2) unfolding conn_claims_def by blast
    then show "t \<in> claims ?w" if "t \<in> conn_claims (drawn ?w) cn'" for t
      using that c unfolding w1 claims_def by (auto simp: e)
    show "conn_hellos cn' \<subseteq> conn_hellos (rw_conns ?w ! c)"
      using st(3) cn'(2) unfolding conn_hellos_def by auto
    show "link_goes ev ?w (cn_stage (rw_conns ?w ! c)) (cn_stage cn') ms" if "ag_link (rw_agent ?w) = Some c"
      using that st(4-8) ms(2) unfolding link_goes_def w1 by auto
  qed (use c w' cn' in simp_all)
qed

lemma inv_follows:
  assumes inv: "renewal_inv ev token e0 w" and draws: "argon2_ok (ev_argon ev)" and c: "c < length (rw_conns w)"
    and w': "rw_server w' = sv'" "rw_agent w' = rw_agent w" "rw_now w' = rw_now w"
      "rw_conns w' = (rw_conns w)[c := \<lparr>cn_stage = st, cn_up = us, cn_down = cn_down (rw_conns w ! c) @ ms\<rparr>]"
    and us: "set us \<subseteq> set (cn_up (rw_conns w ! c))"
    and start: "stage_candidate (cn_stage (rw_conns w ! c)) = session_candidate s"
      "\<not> early (cn_stage (rw_conns w ! c))" "cn_stage (rw_conns w ! c) \<noteq> Closed"
    and f: "follows token s X (rw_server w) (sv', st, ms)" and X: "X \<subseteq> conn_claims (drawn w) (rw_conns w ! c)"
  shows "renewal_inv ev token e0 w'"
proof (rule inv_plain [OF inv draws c w'])
  have ok: "conn_ok token (rw_server w) (rw_conns w ! c)"
    using renewal_invD(2) [OF inv] c by simp
  show "same_entry (rw_server w) sv'" and "\<And>m. m \<in> set ms \<Longrightarrow> offer_ok (drawn w) m"
    using f by (auto simp: follows_def)
  show "stage_ok token (rw_server w) (cn_stage \<lparr>cn_stage = st, cn_up = us, cn_down = cn_down (rw_conns w ! c) @ ms\<rparr>)"
    using f by (auto simp: follows_def)
qed (use f X us start in \<open>auto simp: follows_def quiet_def\<close>)


section \<open>The handshake\<close>

lemma in_memory_live:
  assumes "versions_ok ev token e0 (rw_server w)"
  shows "in_memory_entry (rw_server w) \<in> set (live w)"
    and "n \<in> set (live w) \<Longrightarrow> rn_token_generation (in_memory_entry (rw_server w)) \<le> rn_token_generation n"
    and "entry_well (ev_argon ev) token e0 (drawn w) (in_memory_entry (rw_server w))"
proof -
  let ?vs = "sv_versions (rw_server w)" and ?m = "sv_memory (rw_server w)"
  have m: "?m < length ?vs" and s: "sorted (map rn_token_generation ?vs)"
    using assms by (auto simp: versions_ok_def)
  show "in_memory_entry (rw_server w) \<in> set (live w)"
    using m by (simp add: in_memory_entry_def live_def flip: Cons_nth_drop_Suc)
  show "entry_well (ev_argon ev) token e0 (drawn w) (in_memory_entry (rw_server w))"
    using assms m by (simp add: versions_ok_def in_memory_entry_def)
  assume "n \<in> set (live w)"
  then obtain k where "k < length ?vs - ?m" "n = ?vs ! (?m + k)"
    by (auto simp: live_def in_set_conv_nth)
  then show "rn_token_generation (in_memory_entry (rw_server w)) \<le> rn_token_generation n"
    using sorted_nth_mono [OF s, of ?m "?m + k"] m by (simp add: in_memory_entry_def)
qed

text \<open>What a handshake finds out.\<close>

lemma match_found:
  assumes inv: "renewal_inv ev token e0 w" and draws: "argon2_ok (ev_argon ev)"
    and r: "match_round (ev_argon ev) now t second i (rw_server w) = Some (Inr (entry, revision, m))"
    and a: "an_generation a = mt_generation m" "an_token_expires_at a = mt_expires_at m" "hl_token h = t"
  shows "found_ok (live w) (drawn w) h a"
proof -
  let ?n = "in_memory_entry (rw_server w)"
  note v = renewal_invD(1) [OF inv]
  have "token_material_matches (sv_versions (rw_server w) ! i) ?n"
    and m: "token_matches_entry (ev_argon ev) (\<lambda>_. now) t (sv_versions (rw_server w) ! i) = Some m"
    using r by (auto simp: match_round_def Let_def split: if_splits option.splits)
  then have "token_matches_entry (ev_argon ev) (\<lambda>_. now) t ?n = Some m"
    using material_matches by metis
  from matched_token [OF draws drawn_well [OF inv] refl in_memory_live(3) [OF v] this]
  obtain e where e: "mt_expires_at m = Some e"
    and f: "(\<exists>p\<in>set (drawn w). pp_token p = t \<and> mt_generation m = pp_generation p \<and> e = pp_expires_at p) \<or>
      mt_generation m \<le> rn_token_generation ?n \<and>
        (\<forall>p\<in>set (drawn w). pp_token p = t \<longrightarrow> pp_generation p \<le> rn_token_generation ?n)"
    by blast
  from f show ?thesis
  proof
    assume "\<exists>p\<in>set (drawn w). pp_token p = t \<and> mt_generation m = pp_generation p \<and> e = pp_expires_at p"
    then show ?thesis
      using e a by (simp add: found_ok_def)
  next
    assume f: "mt_generation m \<le> rn_token_generation ?n \<and>
      (\<forall>p\<in>set (drawn w). pp_token p = t \<longrightarrow> pp_generation p \<le> rn_token_generation ?n)"
    have "mt_generation m \<le> rn_token_generation n \<and>
        (\<forall>p\<in>set (drawn w). pp_token p = t \<longrightarrow> pp_generation p \<le> rn_token_generation n)" if "n \<in> set (live w)" for n
      using f order_trans [OF _ in_memory_live(2) [OF v that]] by blast
    then show ?thesis
      using e a by (simp add: found_ok_def)
  qed
qed

definition punctual :: "renewal_world \<Rightarrow> authorized_node \<Rightarrow> bool" where
  "punctual w a \<longleftrightarrow> (case an_token_expires_at a of None \<Rightarrow> True | Some e \<Rightarrow> rw_now w < e)"

text \<open>The saved candidate, once found, is pending in memory or a commit has passed it.\<close>

lemma found_candidate:
  assumes inv: "renewal_inv ev token e0 w" and draws: "argon2_ok (ev_argon ev)" and punctual: "punctual w a"
    and c: "c < length (rw_conns w)" "cn_stage (rw_conns w ! c) = Activating h a"
    and settled: "\<not> (\<forall>p\<in>set (drawn w). pp_token p = hl_token h \<longrightarrow>
      pp_generation p \<le> rn_token_generation (in_memory_entry (rw_server w))) \<or>
      rn_token_generation (in_memory_entry (rw_server w)) < an_generation a"
  shows "\<exists>p\<in>set (drawn w). pp_token p = hl_token h \<and> an_generation a = pp_generation p \<and>
    (pends (ev_argon ev) (in_memory_entry (rw_server w)) p \<or>
     pp_generation p \<le> rn_token_generation (in_memory_entry (rw_server w)))"
proof -
  let ?n = "in_memory_entry (rw_server w)"
  note d = renewal_invD [OF inv]
  have cn: "rw_conns w ! c \<in> set (rw_conns w)"
    using c(1) by simp
  have f: "found_ok (live w) (drawn w) h a"
    using d(2) [OF cn] c(2) by (simp add: conn_ok_def live_def)
  have live: "?n \<in> set (live w)"
    by (rule in_memory_live(1) [OF d(1)])
  then obtain p e where p: "p \<in> set (drawn w)" "pp_token p = hl_token h" "an_generation a = pp_generation p"
      "an_token_expires_at a = Some e" "e = pp_expires_at p"
    using f settled unfolding found_ok_def by (meson leD)
  have "hl_token h \<in> conn_hellos (rw_conns w ! c)"
    using c(2) by (simp add: conn_hellos_def)
  then have "placed (ev_argon ev) (rw_now w) p ?n"
    using d(4) cn p(1,2) live unfolding hellos_placed_def by blast
  then show ?thesis
    using p punctual unfolding placed_def punctual_def by auto
qed

lemma activation_none:
  assumes inv: "renewal_inv ev token e0 w" and draws: "argon2_ok (ev_argon ev)" and punctual: "punctual w a"
    and c: "c < length (rw_conns w)" "cn_stage (rw_conns w ! c) = Activating h a" "ag_link (rw_agent w) = Some c"
    and none: "List.find (\<lambda>q. pt_generation q = an_generation a) (rn_pending_tokens (in_memory_entry (rw_server w))) = None"
    and t: "t \<in> claims w"
  shows "\<not> waiting ev w t"
proof
  let ?n = "in_memory_entry (rw_server w)"
  note d = renewal_invD [OF inv]
  assume waits: "waiting ev w t"
  have "hl_token h \<in> conn_hellos (rw_conns w ! c)"
    using c(2) by (simp add: conn_hellos_def)
  moreover have "conn_hellos (rw_conns w ! c) \<subseteq> {ag_config (rw_agent w)}"
    using d(9) c by (simp add: link_early_def link_of_def)
  ultimately have h: "hl_token h = t"
    using claim_config [OF inv t waits] by auto
  obtain p where p: "p \<in> set (drawn w)" "pp_token p = t" "pends (ev_argon ev) (latest_entry (rw_server w)) p"
    using waits by (auto simp: waiting_def)
  have g: "rn_token_generation ?n < pp_generation p"
    using pends_settled [OF latest_well [OF inv] p(3)] in_memory_live(2) [OF d(1) latest_live [OF d(1)]] by simp
  have "\<not> (\<forall>p\<in>set (drawn w). pp_token p = hl_token h \<longrightarrow> pp_generation p \<le> rn_token_generation ?n)"
  proof
    assume "\<forall>p\<in>set (drawn w). pp_token p = hl_token h \<longrightarrow> pp_generation p \<le> rn_token_generation ?n"
    from bspec [OF this p(1)] show False
      using p(2) g h by simp
  qed
  then obtain p' where p': "p' \<in> set (drawn w)" "pp_token p' = hl_token h" "an_generation a = pp_generation p'"
      "pends (ev_argon ev) ?n p' \<or> pp_generation p' \<le> rn_token_generation ?n"
    using found_candidate [OF inv draws punctual c(1,2)] by blast
  have "p' = p"
    using drawn_unique(1) [OF drawn_well [OF inv] p'(1) p(1)] p(2) p'(2) h by simp
  then have "pends (ev_argon ev) ?n p"
    using p'(4) g by auto
  then show False
    using none p'(3) \<open>p' = p\<close> by (auto simp: pends_def describes_def find_None_iff)
qed

lemma activation_some:
  assumes inv: "renewal_inv ev token e0 w" and draws: "argon2_ok (ev_argon ev)" and punctual: "punctual w a"
    and c: "c < length (rw_conns w)" "cn_stage (rw_conns w ! c) = Activating h a"
    and some: "List.find (\<lambda>q. pt_generation q = an_generation a) (rn_pending_tokens (in_memory_entry (rw_server w))) = Some q"
  shows "\<exists>p\<in>set (drawn w). pt_refresh_id q = pp_refresh_id p \<and> pp_token p = hl_token h"
proof -
  let ?n = "in_memory_entry (rw_server w)"
  note well = in_memory_live(3) [OF renewal_invD(1) [OF inv]]
  have q: "q \<in> set (rn_pending_tokens ?n)" "pt_generation q = an_generation a"
    using some by (auto simp: find_Some_iff)
  have g: "rn_token_generation ?n < an_generation a"
    using well q by (auto simp: entry_well_def)
  then obtain p where p: "p \<in> set (drawn w)" "pp_token p = hl_token h" "an_generation a = pp_generation p"
      "pends (ev_argon ev) ?n p"
    using found_candidate [OF inv draws punctual c] by force
  obtain q' where q': "q' \<in> set (rn_pending_tokens ?n)" "describes (ev_argon ev) q' p"
    using p(4) by (auto simp: pends_def)
  have "q = q'"
    using describes_unique [OF well q'(1,2) q(1)] q(2) p(3) by simp
  then show ?thesis
    using p(1,2) q'(2) by (auto simp: describes_def)
qed

end
