(* ===== verification/RenewalSteps.thy ===== *)
theory RenewalSteps
  imports RenewalConnections
begin

text \<open>
  Every input of a connection keeps the invariant.
\<close>

section \<open>One connection\<close>

definition moved :: "nat \<Rightarrow> wire_message list \<Rightarrow> served \<Rightarrow> renewal_world \<Rightarrow> renewal_world" where
  "moved c us r w =
     (case r of (sv, st, ms) \<Rightarrow>
        w\<lparr>rw_server := sv,
          rw_conns := (rw_conns w)[c := \<lparr>cn_stage = st, cn_up = us, cn_down = cn_down (rw_conns w ! c) @ ms\<rparr>]\<rparr>)"

lemma moved_plain:
  assumes inv: "renewal_inv ev token e0 w" and draws: "argon2_ok (ev_argon ev)" and c: "c < length (rw_conns w)"
    and us: "set us \<subseteq> set (cn_up (rw_conns w ! c))" and sv: "same_entry (rw_server w) sv"
    and st: "stage_ok token (rw_server w) st" "stage_claims (drawn w) st \<subseteq> conn_claims (drawn w) (rw_conns w ! c)"
      "stage_hellos st \<subseteq> conn_hellos (rw_conns w ! c)"
      "st = Closed \<or> stage_candidate st = stage_candidate (cn_stage (rw_conns w ! c))"
      "early st \<Longrightarrow> early (cn_stage (rw_conns w ! c)) \<and> ms = []"
      "ag_link (rw_agent w) = Some c \<Longrightarrow> quiet (cn_stage (rw_conns w ! c)) \<Longrightarrow>
        quiet st \<or> (\<forall>t\<in>claims w. \<not> waiting ev w t)"
      "cn_stage (rw_conns w ! c) = Closed \<Longrightarrow> st = Closed \<and> ms = []"
      "\<And>r trigger p i. st \<noteq> PreparedApply r trigger p i"
    and ms: "\<And>m. m \<in> set ms \<Longrightarrow> offer_ok (drawn w) m"
      "set (offered_tokens ms) \<subseteq> pp_token ` set_option (stage_candidate st)"
  shows "renewal_inv ev token e0 (moved c us (sv, st, ms) w)"
  by (rule inv_plain [OF inv draws c, where ms = ms and sv' = sv and
      cn' = "\<lparr>cn_stage = st, cn_up = us, cn_down = cn_down (rw_conns w ! c) @ ms\<rparr>"])
    (use us sv st ms in \<open>simp_all add: moved_def\<close>)

lemma moved_follows:
  assumes inv: "renewal_inv ev token e0 w" and draws: "argon2_ok (ev_argon ev)" and c: "c < length (rw_conns w)"
    and us: "set us \<subseteq> set (cn_up (rw_conns w ! c))"
    and start: "stage_candidate (cn_stage (rw_conns w ! c)) = session_candidate s"
      "\<not> early (cn_stage (rw_conns w ! c))" "cn_stage (rw_conns w ! c) \<noteq> Closed"
    and f: "follows token s X (rw_server w) r" and X: "X \<subseteq> conn_claims (drawn w) (rw_conns w ! c)"
  shows "renewal_inv ev token e0 (moved c us r w)"
proof -
  obtain sv st ms where r: "r = (sv, st, ms)"
    using prod_cases3 by blast
  show ?thesis
    by (rule inv_follows [OF inv draws c _ _ _ _ us start f [unfolded r] X]) (simp_all add: moved_def r)
qed

lemma moved_closed:
  assumes inv: "renewal_inv ev token e0 w" and draws: "argon2_ok (ev_argon ev)" and c: "c < length (rw_conns w)"
    and us: "set us \<subseteq> set (cn_up (rw_conns w ! c))" and sv: "same_entry (rw_server w) sv"
    and alive: "cn_stage (rw_conns w ! c) \<noteq> Closed"
    and ms: "\<And>m. m \<in> set ms \<Longrightarrow> offer_ok (drawn w) m" "offered_tokens ms = []"
  shows "renewal_inv ev token e0 (moved c us (sv, Closed, ms) w)"
  by (rule moved_plain [OF inv draws c us sv]) (use alive ms quiet_Closed in simp_all)

lemma unmoved:
  assumes "renewal_inv ev token e0 w" and "argon2_ok (ev_argon ev)" and "c < length (rw_conns w)"
  shows "renewal_inv ev token e0 (moved c (cn_up (rw_conns w ! c)) (rw_server w, cn_stage (rw_conns w ! c), []) w)"
proof -
  have "moved c (cn_up (rw_conns w ! c)) (rw_server w, cn_stage (rw_conns w ! c), []) w = w"
  proof -
    have "\<lparr>cn_stage = cn_stage cn, cn_up = cn_up cn, cn_down = cn_down cn\<rparr> = cn" for cn
      by (cases cn) simp
    then show ?thesis
      unfolding moved_def prod.case append_Nil2 by (simp only: list_update_id) simp
  qed
  then show ?thesis
    using assms(1) by simp
qed

section \<open>Frames\<close>

lemma conn_okD:
  assumes "renewal_inv ev token e0 w" and "c < length (rw_conns w)"
  shows "stage_ok token (rw_server w) (cn_stage (rw_conns w ! c))"
    and "m \<in> set (cn_up (rw_conns w ! c)) \<Longrightarrow> frame_ok token (drawn w) m"
  using renewal_invD(2) [OF assms(1), of "rw_conns w ! c"] assms(2) by (auto simp: conn_ok_def)

lemma frame_step:
  assumes inv: "renewal_inv ev token e0 w" and draws: "argon2_ok (ev_argon ev)" and c: "c < length (rw_conns w)"
    and up: "cn_up (rw_conns w ! c) = m # us" and receives: "receives (cn_stage (rw_conns w ! c))"
  shows "renewal_inv ev token e0
    (moved c us (serve ev now mt (Frame m) (cn_stage (rw_conns w ! c)) (rw_server w)) w)"
proof (cases "cn_stage (rw_conns w ! c)")
  case AwaitHello
  have m: "frame_ok token (drawn w) m"
    using conn_okD(2) [OF inv c, of m] up by simp
  have us: "set us \<subseteq> set (cn_up (rw_conns w ! c))"
    using up by auto
  have closed: "renewal_inv ev token e0 (moved c us (rw_server w, Closed, []) w)"
    "renewal_inv ev token e0 (moved c us (rw_server w, Closed, [ServerNotice l n x]) w)" for l n x
    by (rule moved_closed [OF inv draws c us]; use AwaitHello in simp)+
  show ?thesis
  proof (cases m)
    case (Hello h)
    have go: "renewal_inv ev token e0 (moved c us (rw_server w, Checking (Admit h) False, []) w)"
      by (rule moved_plain [OF inv draws c us])
        (use m AwaitHello up Hello in \<open>auto simp: conn_claims_def conn_hellos_def quiet_def\<close>)
    show ?thesis
      using closed go AwaitHello Hello
      by (auto simp: serve_def receive_hello_def refuse_hello_def split: option.split sum.split prod.split)
  qed (use closed AwaitHello in \<open>simp_all add: serve_def receive_hello_def\<close>)
next
  case (Serving s)
  have "follows token s (frame_claims (drawn w) m) (rw_server w) (handle_wire_message ev now mt m s (rw_server w))"
    by (rule wire_follows) (use conn_okD [OF inv c] Serving up in simp_all)
  then have "renewal_inv ev token e0 (moved c us (handle_wire_message ev now mt m s (rw_server w)) w)"
    by (rule moved_follows [OF inv draws c, rotated 4]) (use Serving up in \<open>auto simp: conn_claims_def\<close>)
  then show ?thesis
    using Serving by (simp add: serve_def)
qed (use receives in \<open>simp_all add: receives_def\<close>)

section \<open>Timers, commands, decisions\<close>

lemma timer_step:
  assumes inv: "renewal_inv ev token e0 w" and draws: "argon2_ok (ev_argon ev)" and c: "c < length (rw_conns w)"
    and input: "case input of Frame m \<Rightarrow> False | Run io \<Rightarrow> False | _ \<Rightarrow> True"
  shows "renewal_inv ev token e0
    (moved c (cn_up (rw_conns w ! c)) (serve ev now mt input (cn_stage (rw_conns w ! c)) (rw_server w)) w)"
proof -
  let ?st = "cn_stage (rw_conns w ! c)" and ?us = "cn_up (rw_conns w ! c)"
  have closed: "?st \<noteq> Closed \<Longrightarrow> renewal_inv ev token e0 (moved c ?us (rw_server w, Closed, []) w)"
    by (rule moved_closed [OF inv draws c]) simp_all
  have session: "renewal_inv ev token e0 (moved c ?us r w)"
    if "?st = Serving s \<or> ?st = Billing s" "follows token s {} (rw_server w) r" for s r
    using moved_follows [OF inv draws c subset_refl _ _ _ that(2)] that(1) by auto
  have ok: "session_ok (drawn w) s" if "?st = Serving s \<or> ?st = Billing s" for s
    using conn_okD(1) [OF inv c] that by auto
  show ?thesis
  proof (cases "\<exists>s. ?st = Serving s")
    case True
    then obtain s where s: "?st = Serving s"
      by blast
    note f = session [OF disjI1 [OF s]] and k = ok [OF disjI1 [OF s]]
    show ?thesis
      using input f [OF follows_leave] f [OF tick_follows [OF k]] f [OF command_follows [OF k]] unmoved [OF inv draws c] s
      by (cases input) (simp_all add: serve_def)
  next
    case False
    show ?thesis
    proof (cases "\<exists>s. ?st = Billing s")
      case True
      then obtain s where s: "?st = Billing s"
        by blast
      note f = session [OF disjI2 [OF s]] and k = ok [OF disjI2 [OF s]]
      have "renewal_inv ev token e0 (moved c ?us (serve ev now mt (Decided d) ?st (rw_server w)) w)" for d
      proof (cases "is_holder s (rw_server w)")
        case True
        show ?thesis
        proof (cases d)
          case Hold
          then show ?thesis
            using f [OF follows_serving [OF k refl, of "[]"]] True s by (simp add: serve_def)
        next
          case (Apply rate)
          obtain lp ms where m: "maybe_send_network_throttle (as_agent_protocol_version s) rate (as_loop s) = (lp, ms)"
            by fastforce
          then have "offered_tokens ms = []" "\<forall>m\<in>set ms. offer_ok (drawn w) m"
            by (auto simp: maybe_send_network_throttle_def split: if_splits)
          then show ?thesis
            using f [OF follows_serving [OF k, of "s\<lparr>as_loop := lp\<rparr>" ms]] True s m Apply by (simp add: serve_def)
        qed
      next
        case False
        then show ?thesis
          using f [OF follows_leave] s by (simp add: serve_def)
      qed
      then show ?thesis
        using input unmoved [OF inv draws c] s by (cases input) (auto simp: serve_def)
    next
      case other: False
      show ?thesis
        using input closed other False unmoved [OF inv draws c]
        by (cases input; cases ?st) (simp_all add: serve_def)
    qed
  qed
qed


section \<open>Verification\<close>

lemma verified_step:
  assumes inv: "renewal_inv ev token e0 w" and draws: "argon2_ok (ev_argon ev)" and c: "c < length (rw_conns w)"
    and st: "cn_stage (rw_conns w ! c) = Verifying chk second i"
    and r: "\<And>entry revision m. r = Inr (entry, revision, m) \<Longrightarrow>
      match_round (ev_argon ev) (rw_now w) (check_token chk) second i (rw_server w) = Some r"
  shows "renewal_inv ev token e0 (moved c (cn_up (rw_conns w ! c)) (verified ev (rw_now w) mt chk r (rw_server w)) w)"
proof -
  let ?us = "cn_up (rw_conns w ! c)"
  have closed: "renewal_inv ev token e0 (moved c ?us (rw_server w, Closed, []) w)"
    "renewal_inv ev token e0 (moved c ?us (rw_server w, Closed, [ServerNotice l n x]) w)" for l n x
    by (rule moved_closed [OF inv draws c]; use st in simp)+
  have refused: "renewal_inv ev token e0 (moved c ?us (refuse_hello e (rw_server w)) w)" for e
    using closed by (simp add: refuse_hello_def split: prod.split)
  have ok: "check_ok_for token (drawn w) chk"
    using conn_okD(1) [OF inv c] st by simp
  show ?thesis
  proof (cases r)
    case (Inl e)
    show ?thesis
    proof (cases chk)
      case (Proceed s act)
      have "renewal_inv ev token e0 (moved c ?us (leave s (rw_server w)) w)"
        by (rule moved_follows [OF inv draws c _ _ _ _ follows_leave, of _ s "{}"]) (use st Proceed in simp_all)
      then show ?thesis
        using Inl Proceed by simp
    qed (use Inl closed refused in simp_all)
  next
    case (Inr x)
    then obtain entry revision m where x: "r = Inr (entry, revision, m)"
      using prod_cases3 by metis
    note found = match_found [OF inv draws r [OF x, unfolded x]]
    show ?thesis
    proof (cases chk)
      case (Admit h)
      show ?thesis
      proof (cases "authorized_node_from_entry (hl_identity h) entry revision (mt_generation m) (mt_expires_at m) (rw_now w)")
        case (Inl e)
        then show ?thesis
          using refused x Admit by simp
      next
        case (Inr a)
        have a: "an_generation a = mt_generation m" "an_token_expires_at a = mt_expires_at m"
          using Inr by (auto simp: authorized_node_from_entry_def split: if_splits)
        have "found_ok (live w) (drawn w) h a"
          by (rule found) (use a Admit in \<open>simp_all add: check_token_def\<close>)
        then have "renewal_inv ev token e0 (moved c ?us (rw_server w, Activating h a, []) w)"
          by (intro moved_plain [OF inv draws c])
            (use ok st Admit in \<open>auto simp: live_def conn_claims_def conn_hellos_def quiet_def\<close>)
        then show ?thesis
          using x Admit Inr ok by (simp add: hello_ok_def)
      qed
    next
      case (Readmit h)
      have "renewal_inv ev token e0 (moved c ?us (rw_server w, Registering h a, []) w)" for a
        by (rule moved_plain [OF inv draws c]) (use st Readmit in \<open>simp_all add: quiet_def\<close>)
      then show ?thesis
        using x Readmit closed by (simp split: sum.split)
    next
      case (Proceed s act)
      have f: "follows token s (action_claims (drawn w) act) (rw_server w) (verified ev (rw_now w) mt chk r (rw_server w))"
      proof (cases "apply_current_token_status s
          \<lparr>ts_generation = as_session_generation s, ts_token_expires_at = mt_expires_at m, ts_registry_revision = revision\<rparr>")
        case None
        then show ?thesis
          using x Proceed follows_leave by simp
      next
        case (Some s')
        then have s': "session_candidate s' = session_candidate s"
          by (auto simp: apply_current_token_status_def)
        have "follows token s' (action_claims (drawn w) act) (rw_server w) (proceed ev (rw_now w) mt act s' (rw_server w))"
          by (rule proceed_follows) (use ok Proceed s' in \<open>simp_all add: session_ok_def\<close>)
        then show ?thesis
          using x Proceed Some follows_leave follows_session [OF s'] by simp
      qed
      show ?thesis
        by (rule moved_follows [OF inv draws c _ _ _ _ f]) (use st Proceed in \<open>auto simp: conn_claims_def\<close>)
    qed
  qed
qed

lemma check_hellos: "stage_hellos (Checking chk second) = stage_hellos (Verifying chk second' i)"
  by (cases chk) simp_all

lemma checking_step:
  assumes inv: "renewal_inv ev token e0 w" and draws: "argon2_ok (ev_argon ev)" and c: "c < length (rw_conns w)"
    and st: "cn_stage (rw_conns w ! c) = Checking chk second"
  shows "renewal_inv ev token e0 (moved c (cn_up (rw_conns w ! c)) (rw_server w, Verifying chk second i, []) w)"
  by (rule moved_plain [OF inv draws c])
    (use st conn_okD(1) [OF inv c] check_hellos [of chk second second i] in
      \<open>auto simp: conn_claims_def conn_hellos_def quiet_def\<close>)

lemma verifying_step:
  assumes inv: "renewal_inv ev token e0 w" and draws: "argon2_ok (ev_argon ev)" and c: "c < length (rw_conns w)"
    and st: "cn_stage (rw_conns w ! c) = Verifying chk second i"
  shows "renewal_inv ev token e0
    (moved c (cn_up (rw_conns w ! c)) (serve_run ev (rw_now w) mt io (Verifying chk second i) (rw_server w)) w)"
proof (cases "io \<noteq> Committed \<or> match_round (ev_argon ev) (rw_now w) (check_token chk) second i (rw_server w) \<noteq> None")
  case True
  then show ?thesis
    using verified_step [OF inv draws c st] by (auto simp: serve_run_def)
next
  case False
  have "renewal_inv ev token e0 (moved c (cn_up (rw_conns w ! c)) (rw_server w, Checking chk True, []) w)"
    by (rule moved_plain [OF inv draws c])
      (use st conn_okD(1) [OF inv c] check_hellos [of chk True second i] in
        \<open>auto simp: conn_claims_def conn_hellos_def quiet_def\<close>)
  then show ?thesis
    using False by (simp add: serve_run_def)
qed

section \<open>The handshake commits a saved candidate\<close>

lemma activating_step:
  assumes inv: "renewal_inv ev token e0 w" and draws: "argon2_ok (ev_argon ev)" and c: "c < length (rw_conns w)"
    and st: "cn_stage (rw_conns w ! c) = Activating h a" and punctual: "punctual w a"
  shows "renewal_inv ev token e0 (moved c (cn_up (rw_conns w ! c)) (activate_saved_token h a (rw_server w)) w)"
proof (cases "List.find (\<lambda>q. pt_generation q = an_generation a) (rn_pending_tokens (in_memory_entry (rw_server w)))")
  case None
  have "renewal_inv ev token e0 (moved c (cn_up (rw_conns w ! c)) (rw_server w, Checking (Readmit h) False, []) w)"
  proof (rule moved_plain [OF inv draws c])
    assume "ag_link (rw_agent w) = Some c"
    then show "quiet (Checking (Readmit h) False) \<or> (\<forall>t\<in>claims w. \<not> waiting ev w t)"
      using activation_none [OF inv draws punctual c st _ None] by blast
  qed (use st in \<open>simp_all add: conn_claims_def\<close>)
  then show ?thesis
    using None by (simp add: activate_saved_token_def)
next
  case (Some q)
  obtain p where p: "p \<in> set (drawn w)" "pt_refresh_id q = pp_refresh_id p" "pp_token p = hl_token h"
    using activation_some [OF inv draws punctual c st Some] by blast
  have "tokens_of (drawn w) (pt_refresh_id q) \<subseteq> {hl_token h}"
    using drawn_unique(2) [OF drawn_well [OF inv] _ p(1)] p(2,3) by (fastforce simp: tokens_of_def)
  then have "renewal_inv ev token e0
      (moved c (cn_up (rw_conns w ! c)) (rw_server w, ActivationCommit h (pt_refresh_id q), []) w)"
    by (intro moved_plain [OF inv draws c])
      (use st p in \<open>auto simp: conn_claims_def conn_hellos_def quiet_def\<close>)
  moreover have "renewal_inv ev token e0 (moved c (cn_up (rw_conns w ! c)) (rw_server w, Closed, []) w)"
    by (rule moved_closed [OF inv draws c]) (use st in simp_all)
  ultimately show ?thesis
    using Some by (simp add: activate_saved_token_def)
qed


lemma moved_server: "moved c us r (w\<lparr>rw_server := sv\<rparr>) = moved c us r w"
  by (simp add: moved_def split: prod.split)

lemma moved_appended:
  "moved c us (append_version n (rw_server w), st, ms) w =
   moved c us (rw_server (w\<lparr>rw_server := append_version n (rw_server w)\<rparr>), st, ms)
     (w\<lparr>rw_server := append_version n (rw_server w)\<rparr>)"
  by (simp add: moved_server)

text \<open>After a commit nothing waits, and the connection goes on as it likes.\<close>

lemma commit_moved:
  assumes inv: "renewal_inv ev token e0 w" and draws: "argon2_ok (ev_argon ev)" and c: "c < length (rw_conns w)"
    and p: "p \<in> set (drawn w)" "pp_token p \<in> conn_claims (drawn w) (rw_conns w ! c)"
    and commit: "commit_node (pp_refresh_id p) (rw_now w) (latest_entry (rw_server w)) = Inr (r, n)"
    and alive: "cn_stage (rw_conns w ! c) \<noteq> Closed"
    and st: "stage_ok token (append_version n (rw_server w)) st" "stage_claims (drawn w) st = {}" "stage_hellos st = {}"
      "stage_candidate st = None" "\<not> early st" "\<And>s trigger p i. st \<noteq> PreparedApply s trigger p i"
  shows "renewal_inv ev token e0 (moved c (cn_up (rw_conns w ! c)) (append_version n (rw_server w), st, []) w)"
proof -
  let ?w = "w\<lparr>rw_server := append_version n (rw_server w)\<rparr>"
  have "pp_token p \<in> claims w"
    using p(2) c unfolding claims_def by auto
  note committed = inv_commit [OF inv draws p(1) this commit refl]
  have none_waits: "\<forall>t. \<not> waiting ev ?w t"
    using committed(2) by blast
  show ?thesis
    unfolding moved_appended
  proof (rule inv_stage [OF committed(1), where ms = "[]" and
      cn' = "\<lparr>cn_stage = st, cn_up = cn_up (rw_conns w ! c), cn_down = cn_down (rw_conns w ! c)\<rparr>"])
    show "conn_ok token (rw_server ?w) \<lparr>cn_stage = st, cn_up = cn_up (rw_conns w ! c), cn_down = cn_down (rw_conns w ! c)\<rparr>"
      using renewal_invD(2) [OF committed(1), of "rw_conns w ! c"] c st(1) by (simp add: conn_ok_def)
    show "link_goes ev ?w (cn_stage (rw_conns ?w ! c)) (cn_stage \<lparr>cn_stage = st, cn_up = cn_up (rw_conns w ! c), cn_down = cn_down (rw_conns w ! c)\<rparr>) []"
      using st alive none_waits by (simp add: link_goes_def)
    show "conn_hellos \<lparr>cn_stage = st, cn_up = cn_up (rw_conns w ! c), cn_down = cn_down (rw_conns w ! c)\<rparr>
        \<subseteq> conn_hellos (rw_conns ?w ! c)"
      using st(3) by (auto simp: conn_hellos_def)
  qed (use c none_waits in \<open>simp_all add: moved_def\<close>)
qed

lemma activation_commit_step:
  assumes inv: "renewal_inv ev token e0 w" and draws: "argon2_ok (ev_argon ev)" and c: "c < length (rw_conns w)"
    and st: "cn_stage (rw_conns w ! c) = ActivationCommit h i"
  shows "renewal_inv ev token e0
    (moved c (cn_up (rw_conns w ! c)) (serve_run ev (rw_now w) mt io (ActivationCommit h i) (rw_server w)) w)"
proof -
  let ?us = "cn_up (rw_conns w ! c)"
  have closed: "renewal_inv ev token e0 (moved c ?us (rw_server w, Closed, []) w)"
    by (rule moved_closed [OF inv draws c]) (use st in simp_all)
  obtain p where p: "p \<in> set (drawn w)" "i = pp_refresh_id p"
    using conn_okD(1) [OF inv c] st by auto
  have claim: "pp_token p \<in> conn_claims (drawn w) (rw_conns w ! c)"
    using p st by (auto simp: conn_claims_def tokens_of_def)
  show ?thesis
  proof (cases "commit_node i (rw_now w) (latest_entry (rw_server w))")
    case (Inl e)
    then show ?thesis
      using closed by (simp add: serve_run_def)
  next
    case (Inr x)
    obtain r n where x: "x = (r, n)"
      by fastforce
    note commit = Inr [unfolded x p(2)]
    note go = commit_moved [OF inv draws c p(1) claim commit]
    have "renewal_inv ev token e0 (moved c ?us (append_version n (rw_server w), Closed, []) w)"
      by (rule go) (use st in simp_all)
    moreover have "renewal_inv ev token e0
        (moved c ?us (append_version n (rw_server w), ActivationApply h (length (sv_versions (rw_server w))), []) w)"
      by (rule go) (use st in \<open>simp_all add: append_version_def\<close>)
    ultimately show ?thesis
      using closed Inr x by (cases io) (simp_all add: serve_run_def store_entry_def append_version_def)
  qed
qed

section \<open>The memory follows\<close>

lemma apply_inv:
  assumes inv: "renewal_inv ev token e0 w" and draws: "argon2_ok (ev_argon ev)" and i: "i < length (sv_versions (rw_server w))"
  shows "renewal_inv ev token e0 (w\<lparr>rw_server := apply_version i (rw_server w)\<rparr>)"
  by (rule inv_server_up [OF inv draws])
    (use i renewal_invD(1) [OF inv] in \<open>auto simp: apply_version_def versions_ok_def\<close>)

lemma moved_applied:
  "moved c us (apply_version i (rw_server w), st, ms) w =
   moved c us (rw_server (w\<lparr>rw_server := apply_version i (rw_server w)\<rparr>), st, ms)
     (w\<lparr>rw_server := apply_version i (rw_server w)\<rparr>)"
  by (simp add: moved_server)

lemma activation_apply_step:
  assumes inv: "renewal_inv ev token e0 w" and draws: "argon2_ok (ev_argon ev)" and c: "c < length (rw_conns w)"
    and st: "cn_stage (rw_conns w ! c) = ActivationApply h i"
  shows "renewal_inv ev token e0
    (moved c (cn_up (rw_conns w ! c)) (serve_run ev (rw_now w) mt io (ActivationApply h i) (rw_server w)) w)"
proof -
  have "renewal_inv ev token e0 (moved c (cn_up (rw_conns w ! c)) (rw_server w, Closed, []) w)"
    by (rule moved_closed [OF inv draws c]) (use st in simp_all)
  moreover have "renewal_inv ev token e0
      (moved c (cn_up (rw_conns w ! c)) (apply_version i (rw_server w), Checking (Readmit h) False, []) w)"
  proof -
    have "renewal_inv ev token e0 (w\<lparr>rw_server := apply_version i (rw_server w)\<rparr>)"
      using conn_okD(1) [OF inv c] st by (intro apply_inv [OF inv draws]) simp
    then show ?thesis
      unfolding moved_applied by (rule moved_plain [OF _ draws]) (use c st in \<open>simp_all add: quiet_def\<close>)
  qed
  ultimately show ?thesis
    by (simp add: serve_run_def)
qed

lemma ack_apply_step:
  assumes inv: "renewal_inv ev token e0 w" and draws: "argon2_ok (ev_argon ev)" and c: "c < length (rw_conns w)"
    and st: "cn_stage (rw_conns w ! c) = AckApply s p i g e"
  shows "renewal_inv ev token e0
    (moved c (cn_up (rw_conns w ! c)) (serve_run ev (rw_now w) mt io (AckApply s p i g e) (rw_server w)) w)"
proof -
  have s: "as_pending_refresh s = None" "i < length (sv_versions (rw_server w))"
    using conn_okD(1) [OF inv c] st by auto
  have "renewal_inv ev token e0 (moved c (cn_up (rw_conns w ! c)) (leave s (rw_server w)) w)"
    by (rule moved_follows [OF inv draws c _ _ _ _ follows_leave, of _ s "{}"]) (use st s in \<open>simp_all add: session_candidate_def\<close>)
  moreover have "renewal_inv ev token e0 (moved c (cn_up (rw_conns w ! c))
      (apply_version i (rw_server w), Serving (apply_committed_refresh (pp_token p) g e s), []) w)"
  proof -
    have "renewal_inv ev token e0 (w\<lparr>rw_server := apply_version i (rw_server w)\<rparr>)"
      by (rule apply_inv [OF inv draws s(2)])
    then show ?thesis
      unfolding moved_applied
      by (rule moved_plain [OF _ draws])
        (use c st s in \<open>simp_all add: quiet_def session_ok_def session_candidate_def apply_committed_refresh_def\<close>)
  qed
  ultimately show ?thesis
    by (simp add: serve_run_def)
qed


section \<open>The session renews\<close>

lemma moved_in: "moved c us (sv, st, ms) w = moved c us (rw_server (w\<lparr>rw_server := sv\<rparr>), st, ms) (w\<lparr>rw_server := sv\<rparr>)"
  by (simp add: moved_server)

lemma ack_commit_step:
  assumes inv: "renewal_inv ev token e0 w" and draws: "argon2_ok (ev_argon ev)" and c: "c < length (rw_conns w)"
    and st: "cn_stage (rw_conns w ! c) = AckCommit s pf"
  shows "renewal_inv ev token e0
    (moved c (cn_up (rw_conns w ! c)) (serve_run ev (rw_now w) mt io (AckCommit s pf) (rw_server w)) w)"
proof -
  let ?us = "cn_up (rw_conns w ! c)" and ?p = "pf_candidate pf"
  have left: "renewal_inv ev token e0 (moved c ?us (leave s (rw_server w)) w)"
    unfolding leave_def by (rule moved_closed [OF inv draws c]) (use st in simp_all)
  have s: "as_pending_refresh s = None" "?p \<in> set (drawn w)"
    using conn_okD(1) [OF inv c] st by auto
  have claim: "pp_token ?p \<in> conn_claims (drawn w) (rw_conns w ! c)"
    using st by (simp add: conn_claims_def)
  then have claimed: "pp_token ?p \<in> claims w"
    using c unfolding claims_def by auto
  show ?thesis
  proof (cases "commit_node (pp_refresh_id ?p) (rw_now w) (latest_entry (rw_server w))")
    case (Inl e)
    then show ?thesis
      using left by (simp add: serve_run_def)
  next
    case (Inr x)
    obtain g e n where x: "x = ((g, e), n)"
      by (metis surj_pair)
    note commit = Inr [unfolded x]
    have "renewal_inv ev token e0
        (moved c ?us (append_version n (rw_server w), AckApply s ?p (length (sv_versions (rw_server w))) g e, []) w)"
      by (rule commit_moved [OF inv draws c s(2) claim commit]) (use st s in \<open>simp_all add: append_version_def\<close>)
    moreover have "renewal_inv ev token e0 (moved c ?us (leave s (append_version n (rw_server w))) w)"
      unfolding leave_def
      by (subst moved_server [of c ?us _ "append_version n (rw_server w)" w, symmetric],
          rule moved_closed [OF inv_commit(1) [OF inv draws s(2) claimed commit refl] draws])
        (use c st in simp_all)
    ultimately show ?thesis
      using left Inr x by (cases io) (simp_all add: serve_run_def store_entry_def append_version_def)
  qed
qed

lemma preparing_step:
  assumes inv: "renewal_inv ev token e0 w" and draws: "argon2_ok (ev_argon ev)" and c: "c < length (rw_conns w)"
    and st: "cn_stage (rw_conns w ! c) = Preparing s trigger checked"
    and fresh: "drawn_ok token (sv_drawn (fst (serve_run ev (rw_now w) mt io (Preparing s trigger checked) (rw_server w))))"
  shows "renewal_inv ev token e0
    (moved c (cn_up (rw_conns w ! c)) (serve_run ev (rw_now w) mt io (Preparing s trigger checked) (rw_server w)) w)"
proof -
  let ?us = "cn_up (rw_conns w ! c)" and ?sv = "rw_server w"
  have s: "as_pending_refresh s = None"
    using conn_okD(1) [OF inv c] st by auto
  have failed: "renewal_inv ev token e0 (moved c ?us (after_refresh ev mt trigger False s (rw_server v)) v)"
    if "renewal_inv ev token e0 v" "rw_conns v = rw_conns w" for v
    by (rule moved_follows [OF that(1) draws _ _ _ _ _ after_refresh_follows, of _ _ s "{}"])
      (use that(2) c st s in \<open>simp_all add: session_candidate_def session_ok_def\<close>)
  show ?thesis
  proof (cases checked)
    case False
    have "renewal_inv ev token e0 (moved c ?us (?sv, Preparing s trigger True, []) w)"
      by (rule moved_plain [OF inv draws c]) (use st s in \<open>simp_all add: quiet_def\<close>)
    then show ?thesis
      using failed [OF inv refl] False by (simp add: serve_run_def split: sum.split)
  next
    case True
    let ?k = "length (drawn w)"
    let ?prepare = "prepare_node (as_session_generation s) (ev_token ev ?k) (ev_refresh_id ev ?k)
      (argon_hash (ev_argon ev) (ev_salt ev ?k) (ev_token ev ?k)) (rw_now w) (latest_entry ?sv)"
    show ?thesis
    proof (cases ?prepare)
      case (Inl e)
      then show ?thesis
        using failed [OF inv refl] True by (simp add: serve_run_def prepare_stage_def Let_def)
    next
      case (Inr x)
      obtain p n where x: "x = (p, n)"
        by fastforce
      let ?sv1 = "?sv\<lparr>sv_drawn := drawn w @ [p], sv_versions := sv_versions ?sv @ [n]\<rparr>"
      let ?w = "w\<lparr>rw_server := ?sv1\<rparr>" and ?i = "length (sv_versions ?sv)"
      have w1: "?w = w\<lparr>rw_server := ?sv\<lparr>sv_versions := sv_versions ?sv @ [n], sv_drawn := drawn w @ [p]\<rparr>\<rparr>"
        by simp
      obtain s' ms where unconfirmed: "after_refresh ev mt trigger False s ?sv1 = (?sv1, Serving s', ms)"
        using after_refresh_serving by blast
      have new: "io \<noteq> NotWritten \<Longrightarrow> drawn_ok token (drawn w @ [p])"
        using fresh True Inr x unconfirmed
        by (cases io) (simp_all add: serve_run_def prepare_stage_def store_entry_def Let_def)
      note prepared = inv_prepare [OF inv draws Inr [unfolded x] new w1]
      have "renewal_inv ev token e0 (moved c ?us (?sv1, PreparedApply s trigger p ?i, []) w)" if io: "io \<noteq> NotWritten"
        unfolding moved_in [of c ?us ?sv1]
      proof (rule inv_stage [OF prepared(1) [OF io], where ms = "[]" and
          cn' = "\<lparr>cn_stage = PreparedApply s trigger p ?i, cn_up = ?us, cn_down = cn_down (rw_conns w ! c)\<rparr>"])
        show "conn_ok token (rw_server ?w)
            \<lparr>cn_stage = PreparedApply s trigger p ?i, cn_up = ?us, cn_down = cn_down (rw_conns w ! c)\<rparr>"
          using renewal_invD(2) [OF prepared(1) [OF io], of "rw_conns w ! c"] c s by (simp add: conn_ok_def)
        have "?i \<ge> sv_memory ?sv"
          using renewal_invD(1) [OF inv] by (simp add: versions_ok_def)
        then show "link_goes ev ?w (cn_stage (rw_conns ?w ! c))
            (cn_stage \<lparr>cn_stage = PreparedApply s trigger p ?i, cn_up = ?us, cn_down = cn_down (rw_conns w ! c)\<rparr>) []"
          using st prepared(2) [OF io] by (simp add: link_goes_def quiet_def known_until_def max_def)
        show "t \<in> claims ?w" if "t \<in> conn_claims (drawn ?w)
            \<lparr>cn_stage = PreparedApply s trigger p ?i, cn_up = ?us, cn_down = cn_down (rw_conns w ! c)\<rparr>" for t
          using that c nth_mem [OF c] unfolding claims_def conn_claims_def by auto
      qed (use c in \<open>auto simp: moved_def conn_hellos_def\<close>)
      moreover have "renewal_inv ev token e0 (moved c ?us (after_refresh ev mt trigger False s ?sv1) w)" if "io \<noteq> NotWritten"
        using failed [OF prepared(1) [OF that]] by (simp add: moved_server)
      ultimately show ?thesis
        using failed [OF inv refl] True Inr x
        by (cases io) (simp_all add: serve_run_def prepare_stage_def store_entry_def Let_def)
    qed
  qed
qed

lemma prepared_apply_step:
  assumes inv: "renewal_inv ev token e0 w" and draws: "argon2_ok (ev_argon ev)" and c: "c < length (rw_conns w)"
    and st: "cn_stage (rw_conns w ! c) = PreparedApply s trigger p i"
  shows "renewal_inv ev token e0
    (moved c (cn_up (rw_conns w ! c)) (serve_run ev (rw_now w) mt io (PreparedApply s trigger p i) (rw_server w)) w)"
proof -
  let ?us = "cn_up (rw_conns w ! c)" and ?sv = "rw_server w"
  have s: "as_pending_refresh s = None" "p \<in> set (drawn w)" "i < length (sv_versions ?sv)"
    using conn_okD(1) [OF inv c] st by auto
  have failed: "renewal_inv ev token e0 (moved c ?us (after_refresh ev mt trigger False s ?sv) w)"
    by (rule moved_follows [OF inv draws c _ _ _ _ after_refresh_follows, of _ s "{}"])
      (use st s in \<open>simp_all add: session_candidate_def session_ok_def\<close>)
  let ?sv1 = "apply_version i ?sv"
  let ?w = "w\<lparr>rw_server := ?sv1\<rparr>" and ?pf = "\<lparr>pf_candidate = p, pf_retry_at = mt, pf_reply = None\<rparr>"
  have inv1: "renewal_inv ev token e0 ?w"
    by (rule apply_inv [OF inv draws s(3)])
  have sv1: "sv_versions ?sv1 = sv_versions ?sv" "sv_drawn ?sv1 = drawn w" "sv_memory ?sv1 = max i (sv_memory ?sv)"
    by (auto simp: apply_version_def)
  obtain s' ms where offer: "offer_candidate ev mt trigger ?pf s ?sv1 = (?sv1, Serving s', ms)"
    unfolding offer_candidate_def Let_def
    using after_refresh_serving [of ev mt trigger True "s\<lparr>as_pending_refresh := Some (?pf\<lparr>pf_retry_at := mt + from_secs 60\<rparr>)\<rparr>" ?sv1]
    by fastforce
  have "follows token (s\<lparr>as_pending_refresh := Some ?pf\<rparr>) {} ?sv1 (?sv1, Serving s', ms)"
    unfolding offer [symmetric] by (rule offer_candidate_follows) (use s sv1 in simp_all)
  then have f: "session_candidate s' = Some p" "set (offered_tokens ms) \<subseteq> {pp_token p}" "\<forall>m\<in>set ms. offer_ok (drawn w) m"
    by (auto simp: follows_def sv1)
  have "renewal_inv ev token e0 (moved c ?us (?sv1, Serving s', ms) w)"
    unfolding moved_in [of c ?us ?sv1]
  proof (rule inv_stage [OF inv1, where ms = ms and
      cn' = "\<lparr>cn_stage = Serving s', cn_up = ?us, cn_down = cn_down (rw_conns w ! c) @ ms\<rparr>"])
    show "conn_ok token (rw_server ?w) \<lparr>cn_stage = Serving s', cn_up = ?us, cn_down = cn_down (rw_conns w ! c) @ ms\<rparr>"
      using renewal_invD(2) [OF inv1, of "rw_conns w ! c"] c f s(2) by (auto simp: conn_ok_def session_ok_def sv1)
    show "link_goes ev ?w (cn_stage (rw_conns ?w ! c))
        (cn_stage \<lparr>cn_stage = Serving s', cn_up = ?us, cn_down = cn_down (rw_conns w ! c) @ ms\<rparr>) ms"
      if "ag_link (rw_agent ?w) = Some c"
    proof -
      have "link_of w = Some (rw_conns w ! c)"
        using that by (simp add: link_of_def)
      from prepared_knownD [OF renewal_invD(6) [OF inv] this st]
      have "known_until ev ?w (live ?w) (pp_token p) (pp_expires_at p)"
        by (simp add: live_def sv1 known_until_def)
      then show ?thesis
        using st f by (simp add: link_goes_def quiet_def)
    qed
    show "t \<in> claims ?w" if "t \<in> conn_claims (drawn ?w)
        \<lparr>cn_stage = Serving s', cn_up = ?us, cn_down = cn_down (rw_conns w ! c) @ ms\<rparr>" for t
      using that nth_mem [OF c] unfolding claims_def conn_claims_def by auto
  qed (use c in \<open>auto simp: moved_def conn_hellos_def\<close>)
  then show ?thesis
    using failed offer by (simp add: serve_run_def)
qed

end
