(* ===== verification/RenewalSafety.thy ===== *)
theory RenewalSafety
  imports RenewalSteps
begin

text \<open>
  Every event keeps the invariant, and so the token the Agent presents next is accepted until it expires.
\<close>

section \<open>The server\<close>

lemma run_step:
  assumes inv: "renewal_inv ev token e0 w" and draws: "argon2_ok (ev_argon ev)" and c: "c < length (rw_conns w)"
    and punctual: "\<And>h a. cn_stage (rw_conns w ! c) = Activating h a \<Longrightarrow> punctual w a"
    and fresh: "drawn_ok token (sv_drawn (fst (serve_run ev (rw_now w) mt io (cn_stage (rw_conns w ! c)) (rw_server w))))"
  shows "renewal_inv ev token e0
    (moved c (cn_up (rw_conns w ! c)) (serve_run ev (rw_now w) mt io (cn_stage (rw_conns w ! c)) (rw_server w)) w)"
proof (cases "cn_stage (rw_conns w ! c)")
  case (Checking chk second)
  then show ?thesis
    using checking_step [OF inv draws c Checking] by (simp add: serve_run_def)
next
  case (Verifying chk second i)
  then show ?thesis
    using verifying_step [OF inv draws c Verifying] by simp
next
  case (Activating h a)
  then show ?thesis
    using activating_step [OF inv draws c Activating punctual [OF Activating]] by (simp add: serve_run_def)
next
  case (ActivationCommit h i)
  then show ?thesis
    using activation_commit_step [OF inv draws c ActivationCommit] by simp
next
  case (ActivationApply h i)
  then show ?thesis
    using activation_apply_step [OF inv draws c ActivationApply] by simp
next
  case (Registering h a)
  have "renewal_inv ev token e0 (moved c (cn_up (rw_conns w ! c))
      ((rw_server w)\<lparr>sv_next_session := x, sv_holder := y\<rparr>, Attaching h (new_session ev mt h a z), []) w)" for x y z
    by (rule moved_plain [OF inv draws c])
      (use Registering in \<open>simp_all add: same_entry_def new_session_def quiet_def\<close>)
  then show ?thesis
    using Registering by (simp add: serve_run_def)
next
  case (Attaching h s)
  have s: "session_candidate s = None"
    using conn_okD(1) [OF inv c] Attaching by (simp add: session_candidate_def)
  have "follows token s {} (rw_server w) (serve_run ev (rw_now w) mt io (Attaching h s) (rw_server w))"
  proof (cases "is_holder s (rw_server w)")
    case True
    then show ?thesis
      using s by (simp add: serve_run_def follows_def session_ok_def)
  next
    case False
    then show ?thesis
      using follows_leave by (simp add: serve_run_def)
  qed
  from moved_follows [OF inv draws c subset_refl _ _ _ this] show ?thesis
    using Attaching s by simp
next
  case (Preparing s trigger checked)
  then show ?thesis
    using preparing_step [OF inv draws c Preparing] fresh by simp
next
  case (PreparedApply s trigger p i)
  then show ?thesis
    using prepared_apply_step [OF inv draws c PreparedApply] by simp
next
  case (AckCommit s pf)
  then show ?thesis
    using ack_commit_step [OF inv draws c AckCommit] by simp
next
  case (AckApply s p i g e)
  then show ?thesis
    using ack_apply_step [OF inv draws c AckApply] by simp
qed (use unmoved [OF inv draws c] in \<open>simp_all add: serve_run_def\<close>)

text \<open>The history variables \<open>rw_mt\<close> and \<open>rw_prompt\<close> do not matter.\<close>

lemma inv_history:
  assumes inv: "renewal_inv ev token e0 w" and draws: "argon2_ok (ev_argon ev)"
  shows "renewal_inv ev token e0 (w\<lparr>rw_prompt := b\<rparr>)"
  by (rule inv_server_up [OF inv draws]) (use renewal_invD(1) [OF inv] in \<open>simp_all add: versions_ok_def\<close>)

lemma connection_update: "cn\<lparr>cn_stage := st, cn_down := ds\<rparr> = \<lparr>cn_stage = st, cn_up = cn_up cn, cn_down = ds\<rparr>"
  by (cases cn) simp

lemma serve_connection_moved:
  "serve_connection ev c input w =
     (moved c (cn_up (rw_conns w ! c)) (serve ev (rw_now w) (rw_mt w) input (cn_stage (rw_conns w ! c)) (rw_server w)) w)
     \<lparr>rw_prompt := rw_prompt (serve_connection ev c input w)\<rparr>"
  by (simp add: serve_connection_def moved_def Let_def connection_update split: prod.split)

lemma prompt_run:
  assumes "rw_prompt (serve_connection ev c (Run io) w)" and "cn_stage (rw_conns w ! c) = Activating h a"
  shows "punctual w a"
  using assms by (auto simp: serve_connection_def Let_def punctual_def split: prod.splits option.splits)

lemma serve_step:
  assumes inv: "renewal_inv ev token e0 w" and draws: "argon2_ok (ev_argon ev)" and c: "c < length (rw_conns w)"
    and input: "case input of Frame m \<Rightarrow> False | _ \<Rightarrow> True" and prompt: "rw_prompt (serve_connection ev c input w)"
    and fresh: "drawn_ok token (drawn (serve_connection ev c input w))"
  shows "renewal_inv ev token e0 (serve_connection ev c input w)"
proof -
  have "renewal_inv ev token e0
    (moved c (cn_up (rw_conns w ! c)) (serve ev (rw_now w) (rw_mt w) input (cn_stage (rw_conns w ! c)) (rw_server w)) w)"
  proof (cases "\<exists>io. input = Run io")
    case True
    then obtain io where io: "input = Run io"
      by blast
    have "drawn_ok token (sv_drawn (fst (serve_run ev (rw_now w) (rw_mt w) io (cn_stage (rw_conns w ! c)) (rw_server w))))"
      using fresh by (simp add: serve_connection_def serve_def io Let_def split: prod.splits)
    from run_step [OF inv draws c prompt_run [OF prompt [unfolded io]] this] show ?thesis
      by (simp add: serve_def io)
  next
    case False
    then show ?thesis
      using input by (intro timer_step [OF inv draws c]) (cases input; simp)
  qed
  then show ?thesis
    by (subst serve_connection_moved) (rule inv_history [OF _ draws])
qed

lemma deliver_step:
  assumes inv: "renewal_inv ev token e0 w" and draws: "argon2_ok (ev_argon ev)" and c: "c < length (rw_conns w)"
    and up: "cn_up (rw_conns w ! c) = m # us" and receives: "receives (cn_stage (rw_conns w ! c))"
  shows "renewal_inv ev token e0 (serve_connection ev c (Frame m)
    (w\<lparr>rw_conns := (rw_conns w)[c := (rw_conns w ! c)\<lparr>cn_up := us\<rparr>]\<rparr>))" (is "renewal_inv _ _ _ (serve_connection _ _ _ ?w)")
proof -
  have "moved c (cn_up (rw_conns ?w ! c)) (serve ev (rw_now ?w) (rw_mt ?w) (Frame m) (cn_stage (rw_conns ?w ! c)) (rw_server ?w)) ?w =
      moved c us (serve ev (rw_now w) (rw_mt w) (Frame m) (cn_stage (rw_conns w ! c)) (rw_server w)) w"
    using c by (simp add: moved_def split: prod.split)
  then show ?thesis
    using frame_step [OF inv draws c up receives]
    by (subst serve_connection_moved) (simp add: inv_history [OF _ draws])
qed

text \<open>A restart closes every connection.\<close>

lemma restart_step:
  assumes inv: "renewal_inv ev token e0 w" and draws: "argon2_ok (ev_argon ev)"
  shows "renewal_inv ev token e0 (renewal_step ev ServerRestarts w)"
proof -
  define w1 where "w1 = w\<lparr>rw_server := (rw_server w)\<lparr>sv_memory := length (sv_versions (rw_server w)) - 1, sv_revision := 1,
    sv_holder := None, sv_next_session := 1\<rparr>\<rparr>"
  define close where "close = (\<lambda>cn :: connection. cn\<lparr>cn_stage := Closed, cn_up := []\<rparr>)"
  have inv1: "renewal_inv ev token e0 w1"
    by (rule inv_server_up [OF inv draws]) (use renewal_invD(1) [OF inv] in \<open>auto simp: versions_ok_def w1_def\<close>)
  let ?w = "w1\<lparr>rw_conns := map close (rw_conns w1)\<rparr>"
  note d = renewal_invD [OF inv1]
  have cn: "stage_candidate (cn_stage (close cn)) = None" "cn_stage (close cn) = Closed" "cn_down (close cn) = cn_down cn"
      "conn_claims dr (close cn) = {}" "conn_hellos (close cn) = {}" for cn dr
    by (simp_all add: close_def conn_claims_def conn_hellos_def)
  have link: "link_of ?w = map_option close (link_of w1)"
    using d(3) by (cases "ag_link (rw_agent w1)") (auto simp: link_of_def agent_ok_def)
  have offered_tokens: "link_offers ?w = link_offers w1" "link_candidate ?w = {}"
    by (simp_all add: link_offers_def link_candidate_def link cn split: option.split)
  have held: "held ?w \<subseteq> held w1" "flight ?w = flight w1"
    by (auto simp: held_def flight_def offered_tokens)
  have claims: "claims ?w \<subseteq> claims w1"
    by (auto simp: claims_def cn)
  have w: "waiting ev ?w = waiting ev w1" "live ?w = live w1" "known_until ev ?w = known_until ev w1"
    by (simp_all add: waiting_def live_def known_until_def fun_eq_iff)
  have "renewal_inv ev token e0 ?w"
  proof (rule renewal_invI)
    show "versions_ok ev token e0 (rw_server ?w)"
      using d(1) by simp
    show "conn_ok token (rw_server ?w) cn" if "cn \<in> set (rw_conns ?w)" for cn
      using that d(2) by (auto simp: conn_ok_def close_def)
    show "agent_ok ?w"
      using d(3) by (simp add: agent_ok_def cong: option.case_cong)
    show "hellos_placed ev ?w"
      by (auto simp: hellos_placed_def cn)
    show "held_known ev token e0 ?w"
      using d(5) held(1) unfolding held_known_def w in_credentials by auto
    show "prepared_known ev ?w"
      by (auto simp: prepared_known_def link cn)
    show "claims_exclusive ev ?w"
      using d(7) held(1) claims unfolding claims_exclusive_def w link by (auto simp: quiet_def cn)
    show "flight_ordered ev ?w"
      using d(8) unfolding flight_ordered_def w held(2) link by (auto simp: cn)
    show "link_early ?w"
      by (auto simp: link_early_def link cn)
  qed
  then show ?thesis
    by (simp add: w1_def close_def)
qed


section \<open>The Agent\<close>

lemma inv_agent:
  assumes inv: "renewal_inv ev token e0 w"
    and same: "rw_server w' = rw_server w" "rw_now w' = rw_now w"
    and conns: "\<And>cn. cn \<in> set (rw_conns w') \<Longrightarrow> conn_ok token (rw_server w) cn"
      "\<And>cn. cn \<in> set (rw_conns w') \<Longrightarrow> \<exists>cn'\<in>set (rw_conns w). conn_hellos cn \<subseteq> conn_hellos cn'"
    and agent: "agent_ok w'" "link_early w'" and held: "held w' \<subseteq> held w"
    and claims: "\<And>t. t \<in> claims w' \<Longrightarrow> waiting ev w t \<Longrightarrow>
      t \<in> claims w \<or> held w' \<subseteq> {t} \<and> (\<forall>cn. link_of w' = Some cn \<longrightarrow> quiet (cn_stage cn))"
    and link: "\<And>cn'. link_of w' = Some cn' \<Longrightarrow> \<exists>cn. link_of w = Some cn \<and> cn_stage cn' = cn_stage cn"
    and flight: "flight w' = drop i (take j (flight w))"
  shows "renewal_inv ev token e0 w'"
proof (rule renewal_invI)
  note d = renewal_invD [OF inv]
  have w: "waiting ev w' = waiting ev w" "live w' = live w" "known_until ev w' = known_until ev w"
    by (simp_all add: waiting_def live_def known_until_def same fun_eq_iff)
  show "versions_ok ev token e0 (rw_server w')"
    using d(1) by (simp add: same)
  show "conn_ok token (rw_server w') cn" if "cn \<in> set (rw_conns w')" for cn
    using conns(1) [OF that] by (simp add: same)
  show "agent_ok w'" "link_early w'"
    using agent by simp_all
  show "hellos_placed ev w'"
    using d(4) conns(2) unfolding hellos_placed_def same w by blast
  show "held_known ev token e0 w'"
    using d(5) held unfolding held_known_def in_credentials same w by blast
  show "prepared_known ev w'"
    unfolding prepared_known_def w same using prepared_knownD [OF d(6)] link by metis
  show "claims_exclusive ev w'"
    unfolding claims_exclusive_def w
  proof (intro ballI impI)
    fix t
    assume t: "t \<in> claims w'" "waiting ev w t"
    from claims [OF t] show "held w' \<subseteq> {t} \<and> (\<forall>cn. link_of w' = Some cn \<longrightarrow> quiet (cn_stage cn))"
    proof
      assume "t \<in> claims w"
      note only = held_only [OF inv this t(2)]
      show ?thesis
        using held only link by metis
    qed
  qed
  show "flight_ordered ev w'"
    unfolding flight_ordered_def w
  proof (intro conjI allI impI ballI)
    fix cn' t
    assume l: "link_of w' = Some cn'" and t: "t \<in> set (flight w')" "waiting ev w t"
    obtain cn where cn: "link_of w = Some cn" "cn_stage cn' = cn_stage cn"
      using link [OF l] by blast
    have "t \<in> set (flight w)"
      using t(1) unfolding flight by (metis in_set_dropD in_set_takeD)
    then have "cn_stage cn = Closed \<or> link_candidate w = {t}"
      using d(8) cn(1) t(2) unfolding flight_ordered_def by blast
    then show "cn_stage cn' = Closed \<or> link_candidate w' = {t}"
      using cn l by (simp add: link_candidate_def)
  next
    show "sorted_wrt (\<lambda>a b. waiting ev w a \<longrightarrow> b = a) (flight w')"
      using d(8) unfolding flight flight_ordered_def by (simp add: sorted_wrt_take sorted_wrt_drop)
  qed
qed

text \<open>The Agent answers, or takes a message from the queue.\<close>

lemma inv_linked:
  assumes inv: "renewal_inv ev token e0 w" and c: "ag_link (rw_agent w) = Some c"
    and w': "w' = w\<lparr>rw_agent := a', rw_conns := (rw_conns w)[c := \<lparr>cn_stage = cn_stage (rw_conns w ! c),
      cn_up = cn_up (rw_conns w ! c) @ ups, cn_down = ds\<rparr>]\<rparr>"
    and link: "ag_link a' = Some c \<or> ag_link a' = None"
    and ups: "\<And>m. m \<in> set ups \<Longrightarrow> frame_ok token (drawn w) m \<and> frame_hellos m = {}"
    and ds: "set ds \<subseteq> set (cn_down (rw_conns w ! c))"
    and tokens: "set (agent_tokens a') \<subseteq> set (agent_tokens (rw_agent w)) \<union> set (writing (rw_agent w))"
    and flight: "writing a' @ (if ag_link a' = None then [] else offered_tokens ds) = drop i (take j (flight w))"
    and claims: "\<And>t. t = ag_config a' \<or> (\<exists>m\<in>set ups. t \<in> frame_claims (drawn w) m) \<Longrightarrow> waiting ev w t \<Longrightarrow>
      t \<in> claims w \<or> set (agent_tokens a') \<subseteq> {t} \<and> t \<in> set (flight w) \<and> (\<forall>b\<in>set (flight w). b = t)"
    and agent: "agent_ok w'"
    and early: "early (cn_stage (rw_conns w ! c)) \<Longrightarrow> ag_link a' = Some c \<Longrightarrow> ag_config a' = ag_config (rw_agent w) \<and> ag_write a' = None"
  shows "renewal_inv ev token e0 w'"
proof -
  note d = renewal_invD [OF inv]
  let ?cn = "rw_conns w ! c"
  let ?cn' = "\<lparr>cn_stage = cn_stage ?cn, cn_up = cn_up ?cn @ ups, cn_down = ds\<rparr>"
  have cl: "c < length (rw_conns w)"
    using d(3) c by (simp add: agent_ok_def)
  have at_link: "link_of w = Some ?cn"
    using c by (simp add: link_of_def)
  have linked: "link_of w' = (if ag_link a' = None then None else Some ?cn')"
    using link cl by (auto simp: link_of_def w')
  have set_conns: "cn \<in> set (rw_conns w') \<Longrightarrow> cn \<in> set (rw_conns w) \<or> cn = ?cn'" for cn
    using set_update_subset_insert [of "rw_conns w" c ?cn'] by (auto simp: w')
  have hellos: "conn_hellos ?cn' = conn_hellos ?cn"
    using ups by (auto simp: conn_hellos_def)
  have f: "flight w' = drop i (take j (flight w))"
  proof -
    have "rw_agent w' = a'"
      by (simp add: w')
    then have "flight w' = writing a' @ (if ag_link a' = None then [] else offered_tokens ds)"
      by (simp add: flight_def link_offers_def linked)
    then show ?thesis
      using flight by simp
  qed
  have cand: "link_candidate w' \<subseteq> link_candidate w"
    unfolding link_candidate_def linked at_link by simp
  have held': "held w' \<subseteq> set (agent_tokens a') \<union> set (flight w') \<union> link_candidate w'"
    by (auto simp: held_def flight_def w')
  have fl: "set (flight w') \<subseteq> set (flight w)"
    unfolding f by (meson set_drop_subset set_take_subset order_trans)
  show ?thesis
  proof (rule inv_agent [OF inv _ _ _ _ agent _ _ _ _ f])
    show "conn_ok token (rw_server w) cn" if "cn \<in> set (rw_conns w')" for cn
      using set_conns [OF that] d(2) d(2) [of ?cn] cl ups ds by (auto simp: conn_ok_def)
    show "\<exists>cn'\<in>set (rw_conns w). conn_hellos cn \<subseteq> conn_hellos cn'" if "cn \<in> set (rw_conns w')" for cn
      using set_conns [OF that] hellos cl nth_mem by blast
    show "link_early w'"
      unfolding link_early_def
    proof (intro allI impI)
      fix cn'
      assume "link_of w' = Some cn' \<and> early (cn_stage cn')"
      then have l: "cn' = ?cn'" "ag_link a' = Some c" "early (cn_stage ?cn)"
        using linked link by (auto split: if_splits)
      then show "conn_hellos cn' \<subseteq> {ag_config (rw_agent w')} \<and> cn_down cn' = [] \<and> ag_write (rw_agent w') = None"
        using d(9) at_link hellos ds early [OF l(3,2)] by (auto simp: link_early_def w')
    qed
    show "held w' \<subseteq> held w"
      using held' tokens fl cand by (auto simp: held_def flight_def)
    show "\<exists>cn. link_of w = Some cn \<and> cn_stage cn' = cn_stage cn" if "link_of w' = Some cn'" for cn'
      using that at_link linked by (auto split: if_splits)
    show "t \<in> claims w \<or> held w' \<subseteq> {t} \<and> (\<forall>cn. link_of w' = Some cn \<longrightarrow> quiet (cn_stage cn))"
      if t: "t \<in> claims w'" "waiting ev w t" for t
    proof (cases "t \<in> claims w")
      case False
      have "t = ag_config a' \<or> (\<exists>m\<in>set ups. t \<in> frame_claims (drawn w) m)"
      proof (rule ccontr)
        assume no: "\<not> ?thesis"
        then have "t \<notin> conn_claims (drawn w) ?cn'"
          using False cl nth_mem [OF cl] by (auto simp: claims_def conn_claims_def)
        then have "t \<in> claims w"
          using t(1) no set_conns by (auto simp: claims_def w')
        then show False
          using False by simp
      qed
      then have only: "set (agent_tokens a') \<subseteq> {t}" "t \<in> set (flight w)" "\<forall>b\<in>set (flight w). b = t"
        using claims [OF _ t(2)] False by blast+
      have k: "cn_stage ?cn = Closed \<or> link_candidate w = {t}"
        using d(8) at_link only(2) t(2) unfolding flight_ordered_def by blast
      then have "link_candidate w \<subseteq> {t}"
        by (auto simp: link_candidate_def at_link)
      then have "link_candidate w' \<subseteq> {t}" "set (flight w') \<subseteq> {t}"
        using cand fl only(3) by blast+
      then have "held w' \<subseteq> {t}"
        using held' only(1) by blast
      moreover have "quiet (cn_stage ?cn)"
        using k by (auto simp: link_candidate_def at_link quiet_def)
      ultimately show ?thesis
        unfolding linked by simp
    qed simp
  qed (simp_all add: w')
qed


text \<open>Without a session.\<close>

lemma inv_unlinked:
  assumes inv: "renewal_inv ev token e0 w" and link: "ag_link a' = None"
    and tokens: "set (agent_tokens a') \<subseteq> set (agent_tokens (rw_agent w)) \<union> set (writing (rw_agent w))"
    and writes: "writing a' = take j (writing (rw_agent w))"
    and claims: "waiting ev w (ag_config a') \<Longrightarrow>
      ag_config a' \<in> claims w \<or> set (agent_tokens a') \<subseteq> {ag_config a'} \<and> writing a' = []"
    and agent: "agent_ok (w\<lparr>rw_agent := a'\<rparr>)"
  shows "renewal_inv ev token e0 (w\<lparr>rw_agent := a'\<rparr>)"
proof -
  let ?w = "w\<lparr>rw_agent := a'\<rparr>"
  have l: "link_of ?w = None"
    using link by (simp add: link_of_def)
  then have f: "flight ?w = take j (writing (rw_agent w))"
    using writes by (simp add: flight_def link_offers_def)
  have h: "held ?w = set (agent_tokens a') \<union> set (writing a')"
    using l by (simp add: held_def link_offers_def link_candidate_def)
  show ?thesis
  proof (rule inv_agent [OF inv _ _ _ _ agent, where i = 0 and j = "min j (length (writing (rw_agent w)))"])
    show "conn_ok token (rw_server w) cn" if "cn \<in> set (rw_conns ?w)" for cn
      using that renewal_invD(2) [OF inv] by simp
    show "link_early ?w"
      by (simp add: link_early_def l)
    have "set (writing a') \<subseteq> set (writing (rw_agent w))"
      unfolding writes by (rule set_take_subset)
    then show "held ?w \<subseteq> held w"
      using tokens unfolding h by (auto simp: held_def)
    show "t \<in> claims w \<or> held ?w \<subseteq> {t} \<and> (\<forall>cn. link_of ?w = Some cn \<longrightarrow> quiet (cn_stage cn))"
      if "t \<in> claims ?w" "waiting ev w t" for t
      using that claims unfolding h l by (auto simp: claims_def)
    show "flight ?w = drop 0 (take (min j (length (writing (rw_agent w)))) (flight w))"
      unfolding f by (simp add: flight_def min_def)
  qed (auto simp: l)
qed

lemma drops_step:
  assumes inv: "renewal_inv ev token e0 w"
  shows "renewal_inv ev token e0 (w\<lparr>rw_agent := drop_session (rw_agent w)\<rparr>)"
proof (rule inv_unlinked [OF inv, where j = "length (writing (rw_agent w))"])
  show "agent_ok (w\<lparr>rw_agent := drop_session (rw_agent w)\<rparr>)"
    using renewal_invD(3) [OF inv] by (auto simp: agent_ok_def drop_session_def split: option.splits)
qed (auto simp: drop_session_def agent_tokens_def writing_def claims_def split: option.splits)

lemma agent_restarts_step:
  assumes inv: "renewal_inv ev token e0 w"
  shows "renewal_inv ev token e0 (renewal_step ev (AgentRestarts k) w)"
  unfolding renewal_step.simps
  by (rule inv_unlinked [OF inv, where j = 0])
    (auto simp: agent_restart_def load_agent_config_def drop_session_def agent_tokens_def writing_def agent_ok_def Let_def)

lemma connects_step:
  assumes inv: "renewal_inv ev token e0 w" and draws: "argon2_ok (ev_argon ev)"
  shows "renewal_inv ev token e0 (renewal_step ev (AgentConnects loads identity) w)"
proof (cases "ag_link (rw_agent w) \<noteq> None \<or> ag_write (rw_agent w) \<noteq> None")
  case True
  then show ?thesis
    using inv by simp
next
  case False
  note d = renewal_invD [OF inv]
  let ?a = "open_session loads (length (rw_conns w)) (rw_agent w)" and ?t = "ag_config (open_session loads (length (rw_conns w)) (rw_agent w))"
  let ?cn = "\<lparr>cn_stage = AwaitHello, cn_up = [agent_hello identity ?a], cn_down = []\<rparr>"
  let ?w = "w\<lparr>rw_agent := ?a, rw_conns := rw_conns w @ [?cn]\<rparr>"
  have a: "ag_link ?a = Some (length (rw_conns w))" "ag_write ?a = None" "?t \<in> set (agent_tokens (rw_agent w))"
      "set (agent_tokens ?a) \<subseteq> set (agent_tokens (rw_agent w))"
      "?t = ag_config (rw_agent w) \<or> set (agent_tokens ?a) = {?t}"
    using False by (auto simp: open_session_def load_agent_config_def agent_tokens_def)
  have link: "link_of ?w = Some ?cn"
    by (simp add: link_of_def a)
  have held: "held ?w = set (agent_tokens ?a)"
    using a(2) by (simp add: held_def link_offers_def link_candidate_def link writing_def)
  have flight: "flight ?w = []"
    using a(2) by (simp add: flight_def link_offers_def link writing_def)
  have w: "waiting ev ?w = waiting ev w" "live ?w = live w" "known_until ev ?w = known_until ev w"
    by (simp_all add: waiting_def live_def known_until_def fun_eq_iff)
  have sub: "held ?w \<subseteq> held w"
    using a(4) unfolding held by (auto simp: held_def)
  have t: "?t \<in> held w"
    using a(3) by (simp add: held_def)
  have cn: "conn_hellos ?cn = {?t}" "conn_claims dr ?cn = {?t}" for dr
    by (simp_all add: conn_hellos_def conn_claims_def agent_hello_def)
  have "renewal_inv ev token e0 ?w"
  proof (rule renewal_invI)
    show "versions_ok ev token e0 (rw_server ?w)"
      using d(1) by simp
    show "conn_ok token (rw_server ?w) cn" if "cn \<in> set (rw_conns ?w)" for cn
      using that d(2) heldD' [OF inv t] by (auto simp: conn_ok_def agent_hello_def hello_ok_def)
    show "agent_ok ?w"
      using a by (simp add: agent_ok_def)
    show "hellos_placed ev ?w"
      unfolding hellos_placed_def w
    proof (intro ballI impI)
      fix cn s p n
      assume s: "cn \<in> set (rw_conns ?w)" "s \<in> conn_hellos cn" and p: "p \<in> set (drawn ?w)" "pp_token p = s" and n: "n \<in> set (live w)"
      consider "cn \<in> set (rw_conns w)" | "s = ?t"
        using s cn(1) by auto
      then show "placed (ev_argon ev) (rw_now ?w) p n"
      proof cases
        case 1
        then show ?thesis
          using d(4) s(2) p n unfolding hellos_placed_def by simp
      next
        case 2
        obtain e where "credential token e0 (drawn w) (pp_token p) e" "known_until ev w (live w) (pp_token p) e"
          using heldD [OF inv t] 2 p(2) by auto
        then show ?thesis
          using known_placed [OF draws d(1) _ refl _ _ n] p(1) by simp
      qed
    qed
    show "held_known ev token e0 ?w"
      using d(5) sub unfolding held_known_def in_credentials w by auto
    show "prepared_known ev ?w"
      by (simp add: prepared_known_def link)
    show "claims_exclusive ev ?w"
      unfolding claims_exclusive_def w
    proof (intro ballI impI)
      fix s
      assume s: "s \<in> claims ?w" "waiting ev w s"
      have "held ?w \<subseteq> {s}"
      proof (cases "s \<in> claims w")
        case True
        then show ?thesis
          using held_only(1) [OF inv True s(2)] sub by simp
      next
        case False
        then have "s = ?t" "?t \<noteq> ag_config (rw_agent w)"
          using s(1) cn(2) by (auto simp: claims_def)
        then show ?thesis
          using a(5) held by simp
      qed
      then show "held ?w \<subseteq> {s} \<and> (\<forall>cn. link_of ?w = Some cn \<longrightarrow> quiet (cn_stage cn))"
        by (simp add: link quiet_def)
    qed
    show "flight_ordered ev ?w"
      by (simp add: flight_ordered_def flight)
    show "link_early ?w"
      using a(2) cn(1) by (simp add: link_early_def link)
  qed
  then show ?thesis
    using False by (simp add: Let_def)
qed


lemma connection_up: "cn\<lparr>cn_up := us\<rparr> = \<lparr>cn_stage = cn_stage cn, cn_up = us, cn_down = cn_down cn\<rparr>"
  by (cases cn) simp

lemma post_linked:
  assumes "ag_link a = Some c" and "c < length conns"
  shows "post ups a conns = conns[c := \<lparr>cn_stage = cn_stage (conns ! c), cn_up = cn_up (conns ! c) @ ups, cn_down = cn_down (conns ! c)\<rparr>]"
  using assms by (simp add: post_def connection_up)

lemma link_bound: "renewal_inv ev token e0 w \<Longrightarrow> ag_link (rw_agent w) = Some c \<Longrightarrow> c < length (rw_conns w)"
  using renewal_invD(3) [of ev token e0 w] by (simp add: agent_ok_def)

lemma flight_linked:
  "ag_link (rw_agent w) = Some c \<Longrightarrow> flight w = writing (rw_agent w) @ offered_tokens (cn_down (rw_conns w ! c))"
  by (simp add: flight_def link_offers_def link_of_def)

lemma says_step:
  assumes inv: "renewal_inv ev token e0 w" and ok: "renewal_event_ok (AgentSays m)"
  shows "renewal_inv ev token e0 (renewal_step ev (AgentSays m) w)"
proof (cases "ag_link (rw_agent w)")
  case None
  then show ?thesis
    using inv by (simp add: post_def)
next
  case (Some c)
  note cl = link_bound [OF inv Some]
  show ?thesis
  proof (rule inv_linked [OF inv Some, where a' = "rw_agent w" and ups = "[m]" and ds = "cn_down (rw_conns w ! c)" and i = 0 and j = "length (flight w)"])
    show "renewal_step ev (AgentSays m) w = w\<lparr>rw_agent := rw_agent w, rw_conns := (rw_conns w)[c := \<lparr>cn_stage = cn_stage (rw_conns w ! c),
        cn_up = cn_up (rw_conns w ! c) @ [m], cn_down = cn_down (rw_conns w ! c)\<rparr>]\<rparr>"
      by (simp add: post_linked [OF Some cl])
    show "frame_ok token (drawn w) m' \<and> frame_hellos m' = {}" if "m' \<in> set [m]" for m'
      using that ok by (cases m) auto
    show "t \<in> claims w \<or> set (agent_tokens (rw_agent w)) \<subseteq> {t} \<and> t \<in> set (flight w) \<and> (\<forall>b\<in>set (flight w). b = t)"
      if "t = ag_config (rw_agent w) \<or> (\<exists>m'\<in>set [m]. t \<in> frame_claims (drawn w) m')" for t
      using that ok by (cases m) (auto simp: claims_def)
    show "agent_ok (renewal_step ev (AgentSays m) w)"
      using renewal_invD(3) [OF inv] by (simp add: agent_ok_def post_linked [OF Some cl] cong: option.case_cong)
    show "writing (rw_agent w) @ (if ag_link (rw_agent w) = None then [] else offered_tokens (cn_down (rw_conns w ! c))) =
        drop 0 (take (length (flight w)) (flight w))"
      using Some by (simp add: flight_linked)
    show "ag_config (rw_agent w) = ag_config (rw_agent w) \<and> ag_write (rw_agent w) = None"
      if "early (cn_stage (rw_conns w ! c))"
      using that renewal_invD(9) [OF inv] Some by (auto simp: link_early_def link_of_def)
  qed (use Some in simp_all)
qed

text \<open>The Agent takes a message.\<close>

lemma receive_cases:
  assumes "agent_receive m a = (a', ups)" and "ag_write a = None" and "ag_link a = Some c"
  shows "ups = [] \<or> (\<exists>n. ups = [Pong n])" and "agent_tokens a' = agent_tokens a"
    and "a' = drop_session a \<and> ups = [] \<or>
      ag_link a' = Some c \<and> writing a' = offered m \<and>
      (\<forall>tw. ag_write a' = Some tw \<longrightarrow> (\<exists>i e. m = RefreshTokenResponse i (tw_token tw) e \<and> tw_reply tw = Some (c, i) \<and> \<not> tw_renamed tw))"
proof -
  show "ups = [] \<or> (\<exists>n. ups = [Pong n])"
    using assms(1) by (cases m) (auto split: if_splits)
  show "agent_tokens a' = agent_tokens a"
    using assms(1) by (cases m)
      (auto simp: receive_notice_def receive_refresh_def drop_session_def agent_tokens_def Let_def split: if_splits)
  show "a' = drop_session a \<and> ups = [] \<or>
      ag_link a' = Some c \<and> writing a' = offered m \<and>
      (\<forall>tw. ag_write a' = Some tw \<longrightarrow> (\<exists>i e. m = RefreshTokenResponse i (tw_token tw) e \<and> tw_reply tw = Some (c, i) \<and> \<not> tw_renamed tw))"
    using assms by (cases m)
      (auto simp: receive_notice_def receive_refresh_def drop_session_def writing_def Let_def split: if_splits)
qed

lemma receives_step:
  assumes inv: "renewal_inv ev token e0 w"
  shows "renewal_inv ev token e0 (renewal_step ev AgentReceives w)"
proof (cases "ag_link (rw_agent w)")
  case None
  then show ?thesis
    using inv by simp
next
  case (Some c)
  note cl = link_bound [OF inv Some]
  let ?cn = "rw_conns w ! c"
  show ?thesis
  proof (cases "ag_write (rw_agent w) \<noteq> None \<or> cn_down ?cn = []")
    case True
    then show ?thesis
      using inv Some by (auto split: list.split)
  next
    case False
    then obtain m ms where down: "cn_down ?cn = m # ms" and idle: "ag_write (rw_agent w) = None"
      by (auto simp: neq_Nil_conv)
    obtain a' ups where r: "agent_receive m (rw_agent w) = (a', ups)"
      by fastforce
    note rc = receive_cases [OF r idle Some]
    have w': "renewal_step ev AgentReceives w = w\<lparr>rw_agent := a', rw_conns := (rw_conns w)[c := \<lparr>cn_stage = cn_stage ?cn,
        cn_up = cn_up ?cn @ ups, cn_down = ms\<rparr>]\<rparr>"
      using Some cl idle down r by (simp add: post_linked)
    have flight: "flight w = offered m @ offered_tokens ms"
      using idle by (simp add: flight_linked [OF Some] writing_def down)
    have m: "offer_ok (drawn w) m"
      using renewal_invD(2) [OF inv, of ?cn] cl down by (simp add: conn_ok_def)
    have config: "ag_config a' = ag_config (rw_agent w)"
      using rc(2) by (simp add: agent_tokens_def)
    have loud: "\<not> early (cn_stage ?cn)"
      using renewal_invD(9) [OF inv] Some down by (auto simp: link_early_def link_of_def)
    have "\<exists>i j. writing a' @ (if ag_link a' = None then [] else offered_tokens ms) = drop i (take j (flight w))"
      using rc(3)
    proof
      assume "a' = drop_session (rw_agent w) \<and> ups = []"
      then have "writing a' @ (if ag_link a' = None then [] else offered_tokens ms) = drop 0 (take 0 (flight w))"
        using idle by (simp add: drop_session_def writing_def)
      then show ?thesis
        by blast
    next
      assume "ag_link a' = Some c \<and> writing a' = offered m \<and>
        (\<forall>tw. ag_write a' = Some tw \<longrightarrow> (\<exists>i e. m = RefreshTokenResponse i (tw_token tw) e \<and> tw_reply tw = Some (c, i) \<and> \<not> tw_renamed tw))"
      then have "writing a' @ (if ag_link a' = None then [] else offered_tokens ms) = drop 0 (take (length (flight w)) (flight w))"
        by (simp add: flight)
      then show ?thesis
        by blast
    qed
    then obtain i j where ij: "writing a' @ (if ag_link a' = None then [] else offered_tokens ms) = drop i (take j (flight w))"
      by blast
    show ?thesis
    proof (rule inv_linked [OF inv Some w' _ _ _ _ ij])
      show "ag_link a' = Some c \<or> ag_link a' = None"
        using rc(3) by (auto simp: drop_session_def)
      show "frame_ok token (drawn w) m' \<and> frame_hellos m' = {}" if "m' \<in> set ups" for m'
        using that rc(1) by auto
      show "t \<in> claims w \<or> set (agent_tokens a') \<subseteq> {t} \<and> t \<in> set (flight w) \<and> (\<forall>b\<in>set (flight w). b = t)"
        if "t = ag_config a' \<or> (\<exists>m'\<in>set ups. t \<in> frame_claims (drawn w) m')" for t
        using that rc(1) config by (auto simp: claims_def)
      have "agent_ok (w\<lparr>rw_agent := a'\<rparr>)"
        using rc(3)
      proof
        assume "a' = drop_session (rw_agent w) \<and> ups = []"
        then show ?thesis
          using idle by (simp add: agent_ok_def drop_session_def)
      next
        assume kept: "ag_link a' = Some c \<and> writing a' = offered m \<and>
          (\<forall>tw. ag_write a' = Some tw \<longrightarrow> (\<exists>i e. m = RefreshTokenResponse i (tw_token tw) e \<and> tw_reply tw = Some (c, i) \<and> \<not> tw_renamed tw))"
        show ?thesis
        proof (cases "ag_write a'")
          case None
          then show ?thesis
            using kept cl by (simp add: agent_ok_def)
        next
          case (Some tw)
          then obtain i e where "m = RefreshTokenResponse i (tw_token tw) e" "tw_reply tw = Some (c, i)" "\<not> tw_renamed tw"
            using kept by blast
          then show ?thesis
            using m kept cl Some by (auto simp: agent_ok_def)
        qed
      qed
      then show "agent_ok (renewal_step ev AgentReceives w)"
        unfolding w' by (simp add: agent_ok_def cong: option.case_cong)
    qed (use rc(2) down loud in auto)
  qed
qed


lemma writes_unlinked:
  assumes inv: "renewal_inv ev token e0 w" and link: "ag_link (rw_agent w) = None"
    and tw: "ag_write (rw_agent w) = Some tw"
  shows "renewal_inv ev token e0 (renewal_step ev (AgentWrites ok) w)"
proof -
  have reply: "tw_reply tw = None" "tw_renamed tw \<longrightarrow> ag_file (rw_agent w) = tw_token tw"
    and p: "\<exists>p\<in>set (drawn w). tw_token tw = pp_token p"
    using renewal_invD(3) [OF inv] link tw by (auto simp: agent_ok_def)
  have "snd (advance_write ok (rw_agent w)) = []"
    using tw reply by (auto simp: advance_write_def finish_write_def Let_def)
  then obtain a' where adv: "advance_write ok (rw_agent w) = (a', [])"
    by (metis prod.collapse)
  have "renewal_inv ev token e0 (w\<lparr>rw_agent := a'\<rparr>)"
  proof (rule inv_unlinked [OF inv, where j = "if ok \<and> \<not> tw_renamed tw then 1 else 0"])
    show "agent_ok (w\<lparr>rw_agent := a'\<rparr>)"
      using adv tw reply link p by (auto simp: advance_write_def finish_write_def agent_ok_def Let_def split: if_splits)
  qed (use adv tw reply link in \<open>auto simp: advance_write_def finish_write_def agent_tokens_def writing_def claims_def Let_def
    split: if_splits\<close>)
  then show ?thesis
    using adv link by (simp add: post_def)
qed

lemma writes_linked:
  assumes inv: "renewal_inv ev token e0 w" and draws: "argon2_ok (ev_argon ev)" and link: "ag_link (rw_agent w) = Some c"
    and tw: "ag_write (rw_agent w) = Some tw"
  shows "renewal_inv ev token e0 (renewal_step ev (AgentWrites ok) w)"
proof -
  note d = renewal_invD [OF inv] and cl = link_bound [OF inv link]
  let ?cn = "rw_conns w ! c" and ?a = "rw_agent w"
  obtain p where p: "p \<in> set (drawn w)" "tw_token tw = pp_token p" "tw_reply tw = Some (c, Some (pp_refresh_id p))"
      "tw_renamed tw \<longrightarrow> ag_file ?a = tw_token tw"
    using d(3) link tw by (auto simp: agent_ok_def)
  obtain a' ups where adv: "advance_write ok ?a = (a', ups)"
    by fastforce
  have w': "renewal_step ev (AgentWrites ok) w = w\<lparr>rw_agent := a', rw_conns := (rw_conns w)[c := \<lparr>cn_stage = cn_stage ?cn,
      cn_up = cn_up ?cn @ ups, cn_down = cn_down ?cn\<rparr>]\<rparr>"
    using adv by (simp add: post_linked [OF link cl])
  have flight: "flight w = tw_token tw # offered_tokens (cn_down ?cn)"
    using tw by (simp add: flight_linked [OF link] writing_def)
  have loud: "\<not> early (cn_stage ?cn)"
    using d(9) link tw by (auto simp: link_early_def link_of_def)
  have id: "tokens_of (drawn w) (pp_refresh_id p) = {pp_token p}"
    using drawn_unique(2) [OF drawn_well [OF inv] _ p(1)] p(1) by (fastforce simp: tokens_of_def)
  consider "\<not> ok" | "ok" "\<not> tw_renamed tw" | "ok" "tw_renamed tw"
    by blast
  then show ?thesis
  proof cases
    case 1
    then have a': "a' = ?a\<lparr>ag_write := None\<rparr>" "ups = [RefreshTokenAck (pp_refresh_id p) False]"
      using adv tw p(3) by (auto simp: advance_write_def finish_write_def Let_def)
    show ?thesis
    proof (rule inv_linked [OF inv link w', where i = 1 and j = "length (flight w)"])
      show "agent_ok (renewal_step ev (AgentWrites ok) w)"
        unfolding w' using link cl by (simp add: agent_ok_def a')
    qed (use a' link loud flight p(1) in \<open>auto simp: agent_tokens_def writing_def claims_def\<close>)
  next
    case 2
    then have a': "a' = ?a\<lparr>ag_file := tw_token tw, ag_fallback := ag_file ?a # ag_fallback ?a, ag_write := Some (tw\<lparr>tw_renamed := True\<rparr>)\<rparr>"
        "ups = []"
      using adv tw by (auto simp: advance_write_def)
    show ?thesis
    proof (rule inv_linked [OF inv link w', where i = 0 and j = "length (flight w)"])
      show "agent_ok (renewal_step ev (AgentWrites ok) w)"
        unfolding w' using link cl p by (auto simp: agent_ok_def a')
    qed (use a' link loud flight tw in \<open>auto simp: agent_tokens_def writing_def claims_def\<close>)
  next
    case 3
    then have a': "a' = ?a\<lparr>ag_fallback := [], ag_write := None, ag_config := tw_token tw\<rparr>"
        "ups = [RefreshTokenAck (pp_refresh_id p) True]"
      using adv tw p(3) by (auto simp: advance_write_def finish_write_def Let_def)
    have tokens: "set (agent_tokens a') = {tw_token tw}"
      using a' p(4) 3(2) by (simp add: agent_tokens_def)
    have "sorted_wrt (\<lambda>a b. waiting ev w a \<longrightarrow> b = a) (flight w)"
      using d(8) by (simp add: flight_ordered_def)
    then have same: "b = tw_token tw" if "waiting ev w (tw_token tw)" "b \<in> set (flight w)" for b
      using that by (auto simp: flight)
    show ?thesis
    proof (rule inv_linked [OF inv link w', where i = 1 and j = "length (flight w)"])
      show "agent_ok (renewal_step ev (AgentWrites ok) w)"
        unfolding w' using link cl by (simp add: agent_ok_def a')
      show "t \<in> claims w \<or> set (agent_tokens a') \<subseteq> {t} \<and> t \<in> set (flight w) \<and> (\<forall>b\<in>set (flight w). b = t)"
        if "t = ag_config a' \<or> (\<exists>m'\<in>set ups. t \<in> frame_claims (drawn w) m')" "waiting ev w t" for t
      proof -
        have "t = tw_token tw"
          using that(1) id p(2) by (auto simp: a')
        then show ?thesis
          using same that(2) tokens by (simp add: flight)
      qed
      show "set (agent_tokens a') \<subseteq> set (agent_tokens ?a) \<union> set (writing ?a)"
        unfolding tokens by (simp add: writing_def tw)
    qed (use a' link loud flight p(1) in \<open>auto simp: writing_def\<close>)
  qed
qed

lemma writes_step:
  assumes inv: "renewal_inv ev token e0 w" and draws: "argon2_ok (ev_argon ev)"
  shows "renewal_inv ev token e0 (renewal_step ev (AgentWrites ok) w)"
proof (cases "ag_write (rw_agent w)")
  case None
  then have "renewal_step ev (AgentWrites ok) w = w"
    by (simp add: advance_write_def post_def split: option.split)
  then show ?thesis
    using inv by simp
next
  case (Some tw)
  then show ?thesis
    using writes_unlinked [OF inv _ Some] writes_linked [OF inv draws _ Some] by (cases "ag_link (rw_agent w)") auto
qed

section \<open>Every event\<close>

lemma renewal_step_inv:
  assumes inv: "renewal_inv ev token e0 w" and draws: "argon2_ok (ev_argon ev)" and ok: "renewal_event_ok e"
    and prompt: "rw_prompt (renewal_step ev e w)" and fresh: "drawn_ok token (drawn (renewal_step ev e w))"
  shows "renewal_inv ev token e0 (renewal_step ev e w)"
proof -
  have up: "renewal_inv ev token e0 w'"
    if "rw_conns w' = rw_conns w" "rw_agent w' = rw_agent w" "rw_now w \<le> rw_now w'"
      "same_entry (rw_server w) (rw_server w')" for w'
    by (rule inv_server_up [OF inv draws]) (use that renewal_invD(1) [OF inv] in \<open>auto simp: same_entry_def versions_ok_def\<close>)
  show ?thesis
  proof (cases e)
    case (AgentConnects loads identity)
    then show ?thesis
      using connects_step [OF inv draws] by simp
  next
    case AgentReceives
    then show ?thesis
      using receives_step [OF inv] by simp
  next
    case (AgentWrites persisted)
    then show ?thesis
      using writes_step [OF inv draws] by simp
  next
    case (AgentSays m)
    then show ?thesis
      using says_step [OF inv ok [unfolded AgentSays]] by simp
  next
    case AgentDrops
    then show ?thesis
      using drops_step [OF inv] by simp
  next
    case (AgentRestarts k)
    then show ?thesis
      using agent_restarts_step [OF inv] by simp
  next
    case (Deliver c)
    then show ?thesis
      using inv deliver_step [OF inv draws] by (auto split: list.split)
  next
    case (Serve c input)
    then show ?thesis
      using inv serve_step [OF inv draws] ok prompt fresh by auto
  next
    case (EditMetadata patch)
    have "renewal_inv ev token e0 (w\<lparr>rw_server := append_version (patch_node patch (latest_entry (rw_server w))) (rw_server w)\<rparr>)"
      by (rule inv_edit [OF inv draws]) (simp_all add: patch_node_def Let_def)
    then show ?thesis
      using EditMetadata by simp
  next
    case (EditLocation loc)
    have "renewal_inv ev token e0 (w\<lparr>rw_server := append_version (set_location loc (latest_entry (rw_server w))) (rw_server w)\<rparr>)"
      by (rule inv_edit [OF inv draws]) (simp_all add: set_location_def split: option.split)
    then show ?thesis
      using EditLocation by simp
  next
    case ReloadRegistry
    have "length (sv_versions (rw_server w)) - 1 < length (sv_versions (rw_server w))"
      using renewal_invD(1) [OF inv] by (cases "sv_versions (rw_server w)") (simp_all add: versions_ok_def)
    then show ?thesis
      using apply_inv [OF inv draws] ReloadRegistry by (simp add: reload_memory_def)
  next
    case ServerRestarts
    then show ?thesis
      using restart_step [OF inv draws] by simp
  qed (simp_all add: up same_entry_def)
qed


section \<open>Every run\<close>

lemma drawn_after_refresh: "sv_drawn (fst (after_refresh ev mt trigger ok s sv)) = sv_drawn sv"
  using after_refresh_serving [of ev mt trigger ok s sv] by auto

lemma drawn_refresh: "sv_drawn (fst (refresh_session_token ev mt trigger s sv)) = sv_drawn sv"
proof -
  have "sv_drawn (fst (offer_candidate ev mt trigger pf s sv)) = sv_drawn sv" for pf s
    using after_refresh_serving [of ev mt trigger True "s\<lparr>as_pending_refresh := Some (pf\<lparr>pf_retry_at := mt + from_secs 60\<rparr>)\<rparr>" sv]
    by (auto simp: offer_candidate_def Let_def)
  then show ?thesis
    by (simp add: refresh_session_token_def Let_def drawn_after_refresh split: option.split)
qed

lemma drawn_disconnect: "sv_drawn (disconnect s sv) = sv_drawn sv" "sv_drawn (fst (leave s sv)) = sv_drawn sv"
  by (simp_all add: disconnect_def leave_def)

lemma drawn_proceed: "sv_drawn (fst (proceed ev now mt act s sv)) = sv_drawn sv"
  by (cases act)
    (auto simp: drawn_disconnect drawn_refresh Let_def split: prod.split option.split sum.split)

lemma drawn_ensure: "sv_drawn (fst (ensure_current_token ev now mt act s sv)) = sv_drawn sv"
  by (simp add: ensure_current_token_def drawn_proceed)

lemma drawn_wire: "sv_drawn (fst (handle_wire_message ev now mt m s sv)) = sv_drawn sv"
  by (simp add: handle_wire_message_def drawn_disconnect drawn_ensure split: agent_wire_action.split)

lemma drawn_verified: "sv_drawn (fst (verified ev now mt c r sv)) = sv_drawn sv"
proof -
  have "sv_drawn (fst (refuse_hello e sv)) = sv_drawn sv" for e
    by (simp add: refuse_hello_def split: prod.split)
  then show ?thesis
    by (cases "(ev, now, mt, c, r, sv)" rule: verified.cases)
      (auto simp: drawn_disconnect drawn_proceed split: sum.split option.split)
qed

lemma drawn_prepare: "\<exists>ds. sv_drawn (fst (prepare_stage ev now mt io trigger s sv)) = sv_drawn sv @ ds"
proof -
  have r: "sv_drawn (fst (after_refresh ev mt trigger False s v)) = sv_drawn v" for v
    by (rule drawn_after_refresh)
  show ?thesis
    unfolding prepare_stage_def Let_def
    by (auto simp: r store_entry_def split: sum.split prod.split)
qed

lemma drawn_run: "\<exists>ds. sv_drawn (fst (serve_run ev now mt io st sv)) = sv_drawn sv @ ds"
proof (cases st)
  case (Preparing s trigger checked)
  then show ?thesis
    using drawn_prepare [of ev now mt io trigger s sv] drawn_after_refresh [of ev mt trigger False s sv]
    by (cases checked) (auto simp: serve_run_def split: sum.split)
next
  case (PreparedApply s trigger p i)
  have "sv_drawn (fst (offer_candidate ev mt trigger pf s v)) = sv_drawn v" for pf v
    using after_refresh_serving [of ev mt trigger True "s\<lparr>as_pending_refresh := Some (pf\<lparr>pf_retry_at := mt + from_secs 60\<rparr>)\<rparr>" v]
    by (auto simp: offer_candidate_def Let_def)
  then show ?thesis
    using PreparedApply by (auto simp: serve_run_def drawn_after_refresh apply_version_def)
next
  case (Verifying c second i)
  then show ?thesis
    by (auto simp: serve_run_def drawn_verified split: option.split)
qed (auto simp: serve_run_def activate_saved_token_def store_entry_def apply_version_def drawn_disconnect
    split: sum.split prod.split option.split)

lemma drawn_serve: "\<exists>ds. sv_drawn (fst (serve ev now mt input st sv)) = sv_drawn sv @ ds"
proof (cases input)
  case (Frame m)
  have "sv_drawn (fst (receive_hello m sv)) = sv_drawn sv"
    by (auto simp: receive_hello_def refuse_hello_def split: wire_message.split option.split sum.split prod.split)
  then show ?thesis
    using Frame by (cases st) (auto simp: serve_def drawn_wire)
next
  case (Run io)
  then show ?thesis
    using drawn_run by (simp add: serve_def)
qed (cases st; auto simp: serve_def drawn_disconnect handle_ping_tick_def handle_session_command_def drawn_ensure
    drawn_refresh split: session_request.split throttle_decision.split prod.split)+

lemma drawn_grows: "\<exists>ds. drawn (renewal_step ev e w) = drawn w @ ds"
proof -
  have s: "\<exists>ds. drawn (serve_connection ev c input v) = drawn v @ ds" for c input v
    using drawn_serve [of ev "rw_now v" "rw_mt v" input "cn_stage (rw_conns v ! c)" "rw_server v"]
    by (auto simp: serve_connection_def Let_def split: prod.split)
  show ?thesis
  proof (cases e)
    case (Deliver c)
    then show ?thesis
      using s [of c _ "w\<lparr>rw_conns := _\<rparr>"] by (auto split: list.split)
  next
    case (Serve c input)
    then show ?thesis
      using s by auto
  qed (auto simp: Let_def append_version_def reload_memory_def apply_version_def split: option.split list.split prod.split)
qed

lemma prompt_before: "rw_prompt (renewal_step ev e w) \<Longrightarrow> rw_prompt w"
proof -
  have s: "rw_prompt (serve_connection ev c input v) \<Longrightarrow> rw_prompt v" for c input v
    by (auto simp: serve_connection_def Let_def split: prod.splits)
  show "rw_prompt (renewal_step ev e w) \<Longrightarrow> rw_prompt w"
    by (cases e) (auto simp: Let_def split: option.splits list.splits prod.splits if_splits dest: s)
qed

lemma renewal_run_inv:
  assumes argon: "argon2_ok (ev_argon ev)" and start: "renewal_inv ev token e0 w"
    and ok: "list_all renewal_event_ok es"
    and final: "rw_prompt (fold (renewal_step ev) es w)" "drawn_ok token (drawn (fold (renewal_step ev) es w))"
  shows "renewal_inv ev token e0 (fold (renewal_step ev) es w)"
  using ok final
proof (induction es rule: rev_induct)
  case Nil
  then show ?case
    using start by simp
next
  case (snoc e es)
  let ?w = "fold (renewal_step ev) es w"
  have step: "fold (renewal_step ev) (es @ [e]) w = renewal_step ev e ?w"
    by simp
  obtain ds where ds: "drawn (renewal_step ev e ?w) = drawn ?w @ ds"
    using drawn_grows by blast
  have "drawn_ok token (drawn ?w)"
    using snoc.prems(3) unfolding step ds by (auto simp: drawn_ok_def)
  then have "renewal_inv ev token e0 ?w"
    using snoc prompt_before by (simp add: list_all_append)
  then show ?case
    using renewal_step_inv [OF _ argon] snoc.prems by (simp add: list_all_append)
qed

lemma renewal_start_inv:
  assumes argon: "argon2_ok (ev_argon ev)"
    and n: "n = rotate_credentials (argon_hash (ev_argon ev) salt token) generation minted registered"
  shows "renewal_inv ev token (minted + DEFAULT_TOKEN_VALIDITY_DAYS * DAY) (renewal_start n token now)"
proof -
  let ?e = "minted + DEFAULT_TOKEN_VALIDITY_DAYS * DAY" and ?w = "renewal_start n token now"
  have hash: "rn_token_hash n \<noteq> []" "argon_verify (ev_argon ev) t (rn_token_hash n) \<longleftrightarrow> t = token"
      and fields: "rn_token_expires_at n = Some ?e" "rn_pending_tokens n = []" "rn_previous_token_generation n = None"
        "rn_previous_token_hash n = []" for t
    using argon by (auto simp: n rotate_credentials_def argon2_ok_def)
  have well: "entry_well (ev_argon ev) token ?e [] n"
    by (simp add: entry_well_def current_ok_def previous_ok_def hash fields)
  have held: "held ?w = {token}" "flight ?w = []" "link_of ?w = None"
    by (simp_all add: held_def flight_def renewal_start_def agent_start_def agent_tokens_def writing_def
        link_offers_def link_candidate_def link_of_def)
  have nobody: "\<not> waiting ev ?w t" for t
    by (simp add: waiting_def renewal_start_def server_start_def)
  show ?thesis
  proof (rule renewal_invI)
    show "versions_ok ev token ?e (rw_server ?w)"
      using well by (simp add: versions_ok_def renewal_start_def server_start_def drawn_ok_def)
    show "held_known ev token ?e ?w"
      unfolding held_known_def held(1) in_credentials
      by (simp add: credential_def known_until_def live_def renewal_start_def server_start_def accepts_def hash fields)
    show "claims_exclusive ev ?w" "flight_ordered ev ?w" "link_early ?w" "prepared_known ev ?w"
      unfolding claims_exclusive_def flight_ordered_def link_early_def prepared_known_def held by (simp_all add: nobody)
  qed (simp_all add: renewal_start_def agent_start_def agent_ok_def hellos_placed_def)
qed


section \<open>The Agent is never locked out\<close>

text \<open>
  C3: Renewing its credential never locks an Agent out. Take any run of its sessions and of the server, with
  connections lost at any point and read late, writes of the registry or of the configuration that fail or
  are reported as failed after they took place, restarts of either process, power failures of the Agent's
  host, edits and reloads of the registry, sessions that replace each other. Then every token the Agent may
  present next, the one in memory, the one in its file and whatever the disk may fall back to, was handed out
  with some expiry, and until that moment the server accepts it, with that expiry, from the entry in memory
  and from every later version on disk. (No two random tokens or refresh ids are equal, and no handshake
  looks its candidate up after the token it verified has expired.)
\<close>

theorem renewal_never_locks_out:
  assumes "argon2_ok (ev_argon ev)"
    and "n = rotate_credentials (argon_hash (ev_argon ev) salt token) generation minted registered"
    and "list_all renewal_event_ok es"
    and "w = fold (renewal_step ev) es (renewal_start n token now)"
    and "distinct (token # map pp_token (sv_drawn (rw_server w)))"
    and "distinct (map pp_refresh_id (sv_drawn (rw_server w)))"
    and "rw_prompt w"
    and "t \<in> set (agent_tokens (rw_agent w))"
  shows "\<exists>e. (t, e) \<in> set (credentials token (minted + DEFAULT_TOKEN_VALIDITY_DAYS * DAY) (rw_server w)) \<and>
    (rw_now w < e \<longrightarrow>
     (\<forall>v\<in>set (drop (sv_memory (rw_server w)) (sv_versions (rw_server w))).
        \<exists>m. token_matches_entry (ev_argon ev) (\<lambda>_. rw_now w) t v = Some m \<and> mt_expires_at m = Some e))"
proof -
  let ?e0 = "minted + DEFAULT_TOKEN_VALIDITY_DAYS * DAY"
  have unique: "drawn_ok token (drawn w)"
    using assms(5,6) by (simp add: drawn_ok_def)
  have inv: "renewal_inv ev token ?e0 w"
    using renewal_run_inv [OF assms(1) renewal_start_inv [OF assms(1,2)] assms(3), of now] assms(7) unique
    unfolding assms(4) by blast
  have "t \<in> held w"
    using assms(8) by (simp add: held_def)
  then obtain e where e: "credential token ?e0 (drawn w) t e" "known_until ev w (live w) t e"
    using heldD [OF inv] by blast
  have "\<exists>m. token_matches_entry (ev_argon ev) (\<lambda>_. rw_now w) t v = Some m \<and> mt_expires_at m = Some e"
    if "rw_now w < e" "v \<in> set (live w)" for v
  proof (rule accepts_matches [OF assms(1) refl unique _ _ that(1)])
    show "entry_well (ev_argon ev) token ?e0 (drawn w) v"
      using renewal_invD(1) [OF inv] live_versions [OF that(2)] by (simp add: versions_ok_def)
    show "accepts (ev_argon ev) t e v"
      using e(2) that by (auto simp: known_until_def)
  qed (use e(1) in \<open>auto simp: credential_def\<close>)
  then show ?thesis
    using e(1) unfolding in_credentials live_def by blast
qed

definition renewal_identity :: node_identity where
  "renewal_identity = \<lparr>id_node_id = ''n1'', id_node_label = ''n1'', id_hostname = ''h'', id_os = ''l'',
    id_kernel_version = None, id_cpu_model = None, id_cpu_cores = 1, id_agent_version = ''1'',
    id_boot_time = None, id_tags = []\<rparr>"


definition renewal_env :: session_env where
  "renewal_env = \<lparr>ev_argon = argon2_plain,
    ev_config = \<lparr>sn_sanitize = \<lparr>sc_ignored_filesystems = [], sc_max_sanitized_string_bytes = 64, sc_max_sanitized_disks = 4\<rparr>,
      sn_metric_anomaly_session_limit = 3, sn_max_outstanding_pings = 4, sn_ping_interval_secs = 30\<rparr>,
    ev_token = (\<lambda>k. CHR ''n'' # replicate k (CHR ''w'')), ev_refresh_id = (\<lambda>k. replicate 64 (CHR ''a'')),
    ev_salt = (\<lambda>k. [])\<rparr>"

text \<open>A handshake, a renewal that survives a lost connection, and the handshake with the
  saved candidate that commits it.\<close>

definition demo_renewal :: "renewal_event list" where
  "demo_renewal =
     (let run = (\<lambda>c. Serve c (Run Committed)) in
      [AgentConnects True renewal_identity, Deliver 0, run 0, run 0, run 0, run 0, run 0, run 0, run 0,
       AgentReceives, AgentReceives, Serve 0 TickDue, run 0, run 0, run 0,
       AgentReceives, AgentWrites True, AgentWrites True, AgentDrops,
       AgentConnects True renewal_identity, Deliver 1, run 1, run 1, run 1, run 1, run 1, run 1, run 1, run 1, run 1])"


definition demo_end :: renewal_world where
  "demo_end = fold (renewal_step renewal_env) demo_renewal (renewal_start demo_node ''old'' (24 * DAY))"

lemma renewal_demo_texts:
  "first_error [validate_runtime_identity renewal_identity, text_check (validate_non_empty (Field ''hello.token'') ''old'')] = Inr ()"
  "first_error [validate_runtime_identity renewal_identity, text_check (validate_non_empty (Field ''hello.token'') ''n'')] = Inr ()"
  "validate_refresh_id (replicate 64 (CHR ''a'')) = Inr ()"
  "str_trim ''n1'' = ''n1''"
  by (simp_all add: renewal_identity_def validation_defs validate_runtime_identity_def optional_text_def validate_refresh_id_def
      is_ascii_hexdigit_def list_all_iff set_replicate_conv_if byte_def is_ascii_digit_def str_trim_def chars_defs)

lemmas renewal_demo_defs = renewal_demo_texts demo_renewal_def renewal_env_def demo_node_def fresh_node_def argon2_plain_def DAY_def
  DEFAULT_TOKEN_VALIDITY_DAYS_def renewal_start_def server_start_def agent_start_def Let_def

lemmas demo_agent_defs = open_session_def load_agent_config_def agent_hello_def receive_notice_def
  server_notice_reports_token_expired_def post_def receive_refresh_def advance_write_def finish_write_def
  drop_session_def agent_tokens_def

lemmas demo_handshake_defs = receives_def serve_connection_def serve_def receive_hello_def protocol_version_rejection_def
  MIN_SUPPORTED_WIRE_PROTOCOL_VERSION_def WIRE_PROTOCOL_VERSION_def serve_run_def match_round_def in_memory_entry_def
  token_material_matches_def token_matches_entry_def current_matches_def check_token_def authorized_node_from_entry_def
  activate_saved_token_def new_session_def is_holder_def loop_state_new_def location_override_def commit_node_def

lemmas demo_session_defs = handle_ping_tick_def ensure_current_token_def should_refresh_agent_token_def
  token_needs_refresh_def refresh_after_def AGENT_TOKEN_REFRESH_BEFORE_EXPIRY_DAYS_def refresh_session_token_def
  precheck_token_refresh_def memory_state_def token_status_for_node_def token_is_unexpired_def live_pending_def
  MAX_PENDING_TOKENS_def prepare_stage_def prepare_node_def latest_entry_def next_generation_def store_entry_def
  apply_version_def offer_candidate_def after_refresh_def ping_session_def send_ping_def prune_outstanding_pings_def

lemma renewal_demo_facts:
  "agent_tokens (rw_agent demo_end) = [''n'', ''n''] \<and> rw_prompt demo_end \<and> rw_now demo_end = 24 * DAY \<and>
   sv_drawn (rw_server demo_end) = [\<lparr>pp_token = ''n'', pp_refresh_id = replicate 64 (CHR ''a''), pp_generation = 2,
     pp_expires_at = 54 * DAY\<rparr>] \<and>
   sv_memory (rw_server demo_end) = 2 \<and> length (sv_versions (rw_server demo_end)) = 3"
  by (simp add: demo_end_def renewal_demo_defs demo_agent_defs demo_handshake_defs demo_session_defs)

theorem renewal_never_locks_out_witness:
  "agent_tokens (rw_agent demo_end) = [''n'', ''n''] \<and>
   (\<exists>m. token_matches_entry argon2_plain (\<lambda>_. 24 * DAY) ''n'' (in_memory_entry (rw_server demo_end)) = Some m \<and>
     mt_expires_at m = Some (54 * DAY))"
proof -
  have start: "demo_node = rotate_credentials (argon_hash (ev_argon renewal_env) [] ''old'') 1 0 demo_node"
    by (simp add: rotate_credentials_def demo_node_def fresh_node_def renewal_env_def argon2_plain_def)
  have "list_all renewal_event_ok demo_renewal"
    by (simp add: demo_renewal_def Let_def)
  moreover have "argon2_ok (ev_argon renewal_env)"
    using argon2_plain_ok by (simp add: renewal_env_def)
  ultimately obtain e where e: "(''n'', e) \<in> set (credentials ''old'' (0 + DEFAULT_TOKEN_VALIDITY_DAYS * DAY) (rw_server demo_end))"
      "rw_now demo_end < e \<longrightarrow>
       (\<forall>v\<in>set (drop (sv_memory (rw_server demo_end)) (sv_versions (rw_server demo_end))).
          \<exists>m. token_matches_entry (ev_argon renewal_env) (\<lambda>_. rw_now demo_end) ''n'' v = Some m \<and> mt_expires_at m = Some e)"
    using renewal_never_locks_out [OF _ start _ demo_end_def, of "''n''"] renewal_demo_facts by auto
  have "e = 54 * DAY"
    using e(1) renewal_demo_facts by (auto simp: credentials_def)
  moreover have "in_memory_entry (rw_server demo_end) \<in> set (drop (sv_memory (rw_server demo_end)) (sv_versions (rw_server demo_end)))"
    using renewal_demo_facts by (simp add: in_memory_entry_def flip: Cons_nth_drop_Suc)
  ultimately show ?thesis
    using e(2) renewal_demo_facts by (auto simp: renewal_env_def DAY_def)
qed

end
