(* ===== verification/Spec2Isabelle.thy ===== *)
theory Spec2Isabelle
  imports TrafficLedger AlertTracker Admission RegistryStore UpdaterSafety WebAuthSafety SharedViews NodeSessions RenewalSafety
begin

text \<open>
  \<^bold>\<open>NodeLite\<close> monitors hosts: an Agent on every host (\<open>nodelite-agent\<close>) holds a WebSocket session with one
  server (\<open>nodelite-server\<close>), which keeps the nodes and their credentials in a registry file, the latest
  snapshots in memory, history and traffic bills in SQLite, evaluates alert rules, and serves a panel to
  browsers; a privileged updater (\<open>nodelite-updater\<close>) replaces the Agent by signed releases; the types they
  share are in \<open>nodelite-proto\<close>. This library models the parts that decide something and states what
  they guarantee. Every definition is a translation of the code named beside it, executable where the code
  computes; a locale states each interface that proofs share and is interpreted on the model.

  \<^bold>\<open>Shared ground.\<close> \<open>Prelude\<close>: the machine integers with saturating and checked operations, instants and
  UTC times, hash tables as association lists (\<open>tbl_get\<close>, \<open>tbl_put\<close>, \<open>tbl_del\<close>), the locales \<open>machine\<close> (a step
  function with an invariant), \<open>refinement\<close> (its steps have the effect of abstract actions) and
  \<open>transitions\<close>. \<open>Floats\<close>: \<open>f64\<close> as special values and rationals. \<open>Text\<close>: \<open>str\<close> as UTF-8 bytes,
  \<open>nodelite-proto/src/text.rs\<close> and \<open>validation.rs\<close>. \<open>NetAddr\<close>: \<open>IpAddr\<close> and the client address behind trusted
  proxies (\<open>admission.rs\<close>).

  \<^bold>\<open>Billing.\<close> \<open>TrafficCounters\<close> (\<open>history/traffic/counters.rs\<close>): from one reading of the byte counters to
  the bytes billed; a flapping counter is billed once, a replaced host at most its new readings.
  \<open>TrafficLedger\<close> (\<open>history/traffic.rs\<close>, \<open>health.rs\<close>, \<open>ws/traffic_quota.rs\<close>): the monthly ledger with its dirty
  set, the writer with its backoff, removal of nodes, loading, and the throttling decision; a bill that was
  recorded is on disk or still queued, whatever flush fails.

  \<^bold>\<open>Input.\<close> \<open>Sanitize\<close> (\<open>sanitize.rs\<close>): every number and text of a snapshot is brought into bounds, and a
  session with too many anomalies in the window is closed. \<open>Admission\<close> (\<open>admission.rs\<close>): who is blocked after
  failures, and the limits on connections and installations with their permits.

  \<^bold>\<open>Registry.\<close> \<open>Registry\<close> (\<open>registry.rs\<close>, \<open>registry/\<close>): nodes, their token hashes, matching of a token
  against the current, pending and previous hash, issuing, the two-phase renewal, install tokens and the
  other edits, each as a function on the registry file. \<open>RegistryStore\<close> (\<open>registry/storage.rs\<close>,
  \<open>storage/write.rs\<close>, \<open>migration.rs\<close>, \<open>lifecycle.rs\<close>): the optimistic write with its version guard and 32
  retries and the copy in memory; over every interleaving of writers, failures and reloads the disk refines
  a sequence of atomic edits and the memory is never ahead of it.

  \<^bold>\<open>Live state.\<close> \<open>LiveRegistry\<close> (\<open>state/registry.rs\<close>, \<open>entry.rs\<close>, \<open>overview.rs\<close>, \<open>session_control.rs\<close>): the 32
  shards of node entries and their operations. \<open>SharedState\<close> (\<open>state.rs\<close>, \<open>view_cache.rs\<close>): updates with the
  revisions they bump and the readers of the cached views, as tasks with one stage for each lock or atomic.
  \<open>NodeSessions\<close>: the shards refine a map from a node to the session that holds it. \<open>SharedViews\<close>: a reader
  never gets a view older than the updates that were complete when it asked.

  \<^bold>\<open>Alerts.\<close> \<open>AlertRules\<close> (\<open>nodelite-proto/src/config/alerts.rs\<close>, \<open>alerts/evaluator.rs\<close>, \<open>channels.rs\<close>,
  \<open>time_math.rs\<close>): rules and their evaluation on a node, and the inspection report. \<open>AlertTracker\<close>
  (\<open>alerts/tracker.rs\<close>): which evaluations become notifications, with reminders, retries of failed deliveries
  and resolved notices that only go where the alert went.

  \<^bold>\<open>Panel.\<close> \<open>WebSessions\<close> (\<open>auth.rs\<close>, \<open>auth/\<close>): TOTP, pending logins, two-factor and Basic sessions and
  step-up confirmations; the tables refine a log, and a TOTP code is accepted once. \<open>Passwords\<close>: the strength
  rules. \<open>WebAuth\<close> (\<open>handlers/auth_routes/\<close>, \<open>handlers/settings/security.rs\<close> and others): the middleware and
  the routes that change credentials as interleaved tasks; \<open>WebAuthSafety\<close>: a request that reaches its
  handler has shown what its route demands.

  \<^bold>\<open>Agent sessions.\<close> \<open>AgentSession\<close> (\<open>nodelite-proto/src/message.rs\<close>, \<open>ws/handshake.rs\<close>, \<open>ws/session.rs\<close>,
  \<open>ws/refresh.rs\<close>, \<open>ws/protocol.rs\<close>): the messages and a connection of the server as a machine whose stages lie
  between two waits; the registry entry of its node is the list of versions committed to disk and the index of
  the one in memory. \<open>AgentClient\<close> (\<open>nodelite-agent/src/session.rs\<close>, \<open>session/connection.rs\<close>, \<open>config_io.rs\<close>):
  the Agent with its log buffer, its reconnect policy and the token in its file. \<open>Renewal\<close> composes them:
  queues, lost connections, failing writes, restarts and power failures are events of one world.
  \<open>RenewalInvariant\<close> states what holds in it, \<open>RenewalServer\<close>, \<open>RenewalStages\<close>, \<open>RenewalConnections\<close>,
  \<open>RenewalSteps\<close> prove it kept by changes of the entry, by the handlers and by the stages of the handshake and
  the renewal; \<open>RenewalSafety\<close>: the Agent is never locked out.

  \<^bold>\<open>Updater.\<close> \<open>Updater\<close> (\<open>nodelite-updater/src\<close>): policy, journal, activation, trial, rollback and remote
  requests, with every prefix of the effects of a command as a possible crash. \<open>UpdaterSafety\<close>: the active
  release is always one that was authorised, a release that was rolled back is never installed again, and
  two ways a host locks itself out.

  \<^bold>\<open>Bounds.\<close> The loops of the code with a bound have that bound (32 attempts of a registry write, 1024
  sessions and 256 pending logins). Runs are lists of events of any length; where a counter could wrap
  (view revisions) the theorem bounds the run. A used TOTP step is kept for 150 seconds; its
  theorem assumes that a login finishes within 60 seconds. A renewal assumes that random tokens do not
  repeat within the run, and that a handshake looks its candidate up before the token expires.

  \<^bold>\<open>Parameters.\<close> argon2, the random generators, TOTP, the hash of the shards, chrono's calendar, the URL
  parser, Unicode classes and the host of the updater are arguments; what a theorem needs of them is a
  hypothesis of its own with an instance in its witness. A stage is what runs under one lock (or one atomic);
  a synchronous function on a store is one stage.

  \<^bold>\<open>Not modelled\<close>: pages, metrics texts and the web frontend; SMTP, webhooks and their runtime; GeoIP;
  history storage and queries; the audit log; the Agent's collectors, TLS and \<open>tc\<close> calls; configuration
  parsing; start-up, shutdown and command line; TUF metadata verification. They are I/O, formatting or calls
  of other libraries.
\<close>

end
